(* ===== verification/Prelude.thy ===== *)
theory Prelude
  imports Main "HOL-Library.Word"
begin

text \<open>
  The vocabulary the component theories share: bytes and byte strings, Go's clock and
  durations, big-endian integers as \<^verbatim>\<open>encoding/binary\<close> reads and writes them, and the
  generic lemmas on lists, options and words that the component proofs rest on.

  A Go \<^verbatim>\<open>[]byte\<close> is a \<open>bytes\<close> (a list of 8-bit words), a Go \<^verbatim>\<open>string\<close> is a HOL
  \<open>string\<close> (a Go string is a sequence of bytes and a HOL character has eight bits).
  A \<^verbatim>\<open>time.Time\<close> is its number of nanoseconds since Go's zero time, as an integer;
  \<open>time_sub\<close> is \<^verbatim>\<open>Time.Sub\<close> with its saturation at the ends of \<^verbatim>\<open>int64\<close>.
\<close>

named_theorems go_byte \<open>facts on big-endian integers and byte strings\<close>
named_theorems go_str \<open>facts on the model of package strings\<close>
named_theorems go_net \<open>facts on the model of package netip\<close>
named_theorems go_inv \<open>preservation of component invariants\<close>

type_synonym byte = "8 word"
type_synonym bytes = "byte list"
type_synonym u16 = "16 word"
type_synonym u32 = "32 word"
type_synonym time = int
type_synonym duration = int

unbundle bit_operations_syntax

section \<open>Time\<close>

definition second :: duration where
  "second = 1000000000"

definition minute :: duration where
  "minute = 60 * second"

definition min_duration :: duration where
  "min_duration = - (2 ^ 63)"

definition max_duration :: duration where
  "max_duration = 2 ^ 63 - 1"

text \<open>\<^verbatim>\<open>t.Sub(u)\<close>: the difference, saturated at the smallest and the largest duration.\<close>

definition time_sub :: "time \<Rightarrow> time \<Rightarrow> duration" where
  "time_sub t u = max min_duration (min max_duration (t - u))"

lemma time_sub_less_iff:
  "d \<le> max_duration \<Longrightarrow> min_duration < d \<Longrightarrow> time_sub t u < d \<longleftrightarrow> t - u < d"
  by (auto simp: time_sub_def max_duration_def min_duration_def)

lemma time_sub_greater_iff:
  "d < max_duration \<Longrightarrow> min_duration \<le> d \<Longrightarrow> d < time_sub t u \<longleftrightarrow> d < t - u"
  by (auto simp: time_sub_def max_duration_def min_duration_def)

lemma time_sub_same [simp]: "time_sub t t = 0"
  by (simp add: time_sub_def max_duration_def min_duration_def)

section \<open>Big-endian integers\<close>

definition be16 :: "byte \<Rightarrow> byte \<Rightarrow> u16" where
  "be16 a b = of_int (uint a * 256 + uint b)"

definition hi8 :: "u16 \<Rightarrow> byte" where
  "hi8 w = of_int (uint w div 256)"

definition lo8 :: "u16 \<Rightarrow> byte" where
  "lo8 w = of_int (uint w mod 256)"

definition put16 :: "u16 \<Rightarrow> bytes" where
  "put16 w = [hi8 w, lo8 w]"

definition be32 :: "byte \<Rightarrow> byte \<Rightarrow> byte \<Rightarrow> byte \<Rightarrow> u32" where
  "be32 a b c d = of_int (((uint a * 256 + uint b) * 256 + uint c) * 256 + uint d)"

definition put32 :: "u32 \<Rightarrow> bytes" where
  "put32 w = [of_int (uint w div 16777216), of_int (uint w div 65536 mod 256),
              of_int (uint w div 256 mod 256), of_int (uint w mod 256)]"

text \<open>The same over the natural numbers, the form the proofs use.\<close>

lemma be16_nat: "be16 a b = of_nat (unat a * 256 + unat b)"
  by (simp add: be16_def)

lemma uint_div_nat: "uint w div numeral k = int (unat w div numeral k)"
  by (simp add: zdiv_int)

lemma uint_mod_nat: "uint w mod numeral k = int (unat w mod numeral k)"
  by (simp add: zmod_int)

lemma int_mod_nat: "int n mod numeral k = int (n mod numeral k)"
  by (simp add: zmod_int)

lemma hi8_nat: "hi8 w = of_nat (unat w div 256)"
  by (simp only: hi8_def uint_div_nat of_int_of_nat_eq)

lemma lo8_nat: "lo8 w = of_nat (unat w mod 256)"
  by (simp only: lo8_def uint_mod_nat of_int_of_nat_eq)

lemma be32_nat: "be32 a b c d = of_nat (((unat a * 256 + unat b) * 256 + unat c) * 256 + unat d)"
  by (simp add: be32_def)

lemma put32_nat: "put32 w = [of_nat (unat w div 16777216), of_nat (unat w div 65536 mod 256),
    of_nat (unat w div 256 mod 256), of_nat (unat w mod 256)]"
  by (simp only: put32_def uint_div_nat uint_mod_nat int_mod_nat of_int_of_nat_eq)

lemma unat_byte_less [simp]: "unat (a :: byte) < 256"
  using unsigned_less [where 'a = nat, of a] by simp

lemma unat_byte_le [simp]: "unat (a :: byte) \<le> 255"
  using unat_byte_less [of a] by linarith

lemma unat_u16_less [simp]: "unat (a :: u16) < 65536"
  using unsigned_less [where 'a = nat, of a] by simp

lemma unat_u32_less [simp]: "unat (a :: u32) < 4294967296"
  using unsigned_less [where 'a = nat, of a] by simp

lemma unat_of_nat_byte [go_byte]: "n < 256 \<Longrightarrow> unat (of_nat n :: byte) = n"
  by (simp add: unat_of_nat take_bit_eq_mod)

lemma unat_of_nat_u16 [go_byte]: "n < 65536 \<Longrightarrow> unat (of_nat n :: u16) = n"
  by (simp add: unat_of_nat take_bit_eq_mod)

lemma unat_of_nat_u32 [go_byte]: "n < 4294967296 \<Longrightarrow> unat (of_nat n :: u32) = n"
  by (simp add: unat_of_nat take_bit_eq_mod)

lemma be16_bound: "unat (a :: byte) * 256 + unat (b :: byte) < 65536"
  using unat_byte_less [of a] unat_byte_less [of b] by linarith

lemma unat_be16 [go_byte]: "unat (be16 a b) = unat a * 256 + unat b"
  unfolding be16_nat by (rule unat_of_nat_u16) (rule be16_bound)

lemma hi8_be16 [simp]: "hi8 (be16 a b) = a"
  unfolding hi8_nat unat_be16 by (simp add: div_mult_self3 [symmetric])

lemma lo8_be16 [simp]: "lo8 (be16 a b) = b"
  unfolding lo8_nat unat_be16 by simp

lemma unat_hi8 [go_byte]: "unat (hi8 w) = unat w div 256"
  unfolding hi8_nat using unat_u16_less [of w] by (intro unat_of_nat_byte) linarith

lemma unat_lo8 [go_byte]: "unat (lo8 w) = unat w mod 256"
  unfolding lo8_nat by (intro unat_of_nat_byte) simp

lemma be16_hi8_lo8 [simp]: "be16 (hi8 w) (lo8 w) = w"
proof -
  have "unat (be16 (hi8 w) (lo8 w)) = unat w"
    by (simp add: unat_be16 unat_hi8 unat_lo8)
  then show ?thesis by (simp add: word_unat_eq_iff)
qed

lemma be16_inject [simp]: "be16 a b = be16 c d \<longleftrightarrow> a = c \<and> b = d"
  by (metis hi8_be16 lo8_be16)

lemma length_put16 [simp]: "length (put16 w) = 2"
  by (simp add: put16_def)

lemma base256_bound: "x < m \<Longrightarrow> d < 256 \<Longrightarrow> x * 256 + d < m * (256::nat)"
proof -
  assume "x < m" and d: "d < 256"
  then have "Suc x * 256 \<le> m * 256" by (intro mult_le_mono1) simp
  with d show ?thesis by simp
qed

lemma base256_inject:
  "d < 256 \<Longrightarrow> d' < 256 \<Longrightarrow> x * 256 + d = x' * 256 + (d'::nat) \<longleftrightarrow> x = x' \<and> d = d'"
proof
  assume d: "d < 256" "d' < 256" and eq: "x * 256 + d = x' * 256 + d'"
  from eq have "(x * 256 + d) mod 256 = (x' * 256 + d') mod 256" by simp
  with d have "d = d'" by simp
  with eq show "x = x' \<and> d = d'" by simp
qed simp

lemma unat_be32 [go_byte]:
  "unat (be32 a b c d) = ((unat a * 256 + unat b) * 256 + unat c) * 256 + unat d"
proof -
  have "unat a * 256 + unat b < 65536" by (rule be16_bound)
  then have "(unat a * 256 + unat b) * 256 + unat c < 65536 * 256"
    by (rule base256_bound) simp
  then have "((unat a * 256 + unat b) * 256 + unat c) * 256 + unat d < 65536 * 256 * 256"
    by (rule base256_bound) simp
  then show ?thesis unfolding be32_nat by (intro unat_of_nat_u32) simp
qed

lemma length_put32 [simp]: "length (put32 w) = 4"
  by (simp add: put32_nat)

lemma nat_base256: "(((n::nat) div 16777216 * 256 + n div 65536 mod 256) * 256
    + n div 256 mod 256) * 256 + n mod 256 = n"
proof -
  have c: "n div 16777216 * 256 + n div 65536 mod 256 = n div 65536"
    using div_mult_mod_eq [of "n div 65536" 256] by (simp add: div_mult2_eq [symmetric])
  have b: "n div 65536 * 256 + n div 256 mod 256 = n div 256"
    using div_mult_mod_eq [of "n div 256" 256] by (simp add: div_mult2_eq [symmetric])
  have a: "n div 256 * 256 + n mod 256 = n" by simp
  show ?thesis by (simp only: a b c)
qed

lemma be32_put32 [simp]:
  "be32 (put32 w ! 0) (put32 w ! Suc 0) (put32 w ! 2) (put32 w ! 3) = w"
proof -
  have u: "unat w < 4294967296" by simp
  have 1: "unat (of_nat (unat w div 16777216) :: byte) = unat w div 16777216"
    using u by (intro unat_of_nat_byte) linarith
  have 2: "unat (of_nat (n mod 256) :: byte) = n mod 256" for n
    by (intro unat_of_nat_byte) simp
  have "unat (be32 (put32 w ! 0) (put32 w ! Suc 0) (put32 w ! 2) (put32 w ! 3)) = unat w"
    by (simp only: unat_be32 put32_nat nth_Cons_0 nth_Cons_Suc
        numeral_2_eq_2 numeral_3_eq_3 1 2 nat_base256)
  then show ?thesis by (simp only: word_unat_eq_iff)
qed

lemma be32_inject [simp]:
  "be32 a b c d = be32 a' b' c' d' \<longleftrightarrow> a = a' \<and> b = b' \<and> c = c' \<and> d = d'"
proof -
  have "be32 a b c d = be32 a' b' c' d' \<longleftrightarrow>
      ((unat a * 256 + unat b) * 256 + unat c) * 256 + unat d =
      ((unat a' * 256 + unat b') * 256 + unat c') * 256 + unat d'"
    by (simp only: word_unat_eq_iff unat_be32)
  also have "\<dots> \<longleftrightarrow> unat a = unat a' \<and> unat b = unat b' \<and> unat c = unat c' \<and> unat d = unat d'"
    by (simp only: base256_inject unat_byte_less conj_assoc)
  finally show ?thesis by (simp only: word_unat_eq_iff)
qed

lemma be32_surj: obtains a b c d where "w = be32 a b c d"
  by (metis be32_put32)

lemma put32_be32 [simp]: "put32 (be32 a b c d) = [a, b, c, d]"
proof -
  have "be32 (put32 (be32 a b c d) ! 0) (put32 (be32 a b c d) ! Suc 0)
      (put32 (be32 a b c d) ! 2) (put32 (be32 a b c d) ! 3) = be32 a b c d"
    by (rule be32_put32)
  then have "put32 (be32 a b c d) ! 0 = a \<and> put32 (be32 a b c d) ! Suc 0 = b \<and>
      put32 (be32 a b c d) ! 2 = c \<and> put32 (be32 a b c d) ! 3 = d"
    by (simp only: be32_inject)
  then show ?thesis by (auto simp: put32_nat numeral_2_eq_2 numeral_3_eq_3)
qed

text \<open>Big-endian integers of any width.\<close>

fun be_digits :: "nat \<Rightarrow> int \<Rightarrow> bytes" where
  "be_digits 0 n = []"
| "be_digits (Suc k) n = be_digits k (n div 256) @ [of_int n]"

definition be_val :: "bytes \<Rightarrow> int" where
  "be_val bs = foldl (\<lambda>a b. a * 256 + uint b) 0 bs"

definition put128 :: "128 word \<Rightarrow> bytes" where
  "put128 w = be_digits 16 (uint w)"

definition be128 :: "bytes \<Rightarrow> 128 word" where
  "be128 bs = of_int (be_val bs)"

lemma length_be_digits [simp]: "length (be_digits k n) = k"
  by (induction k arbitrary: n) auto

lemma length_put128 [simp]: "length (put128 w) = 16"
  by (simp add: put128_def)

lemma be_val_snoc: "be_val (bs @ [b]) = be_val bs * 256 + uint b"
  by (simp add: be_val_def)

lemma uint_of_int_byte: "uint (of_int n :: byte) = n mod 256"
  by (simp add: take_bit_eq_mod unsigned_of_int)

lemma be_val_digits: "0 \<le> n \<Longrightarrow> be_val (be_digits k n) = n mod 256 ^ k"
proof (induction k arbitrary: n)
  case 0
  then show ?case by (simp add: be_val_def)
next
  case (Suc k)
  have "n mod (256 * 256 ^ k) = 256 * (n div 256 mod 256 ^ k) + n mod 256"
    by (rule zmod_zmult2_eq) simp
  with Suc show ?case
    by (simp add: be_val_snoc uint_of_int_byte pos_imp_zdiv_nonneg_iff)
qed

lemma be_digits_val: "be_digits (length bs) (be_val bs) = bs"
proof (induction bs rule: rev_induct)
  case (snoc b bs)
  have u: "0 \<le> uint b" "uint b < 256" using uint_lt2p [of b] by simp_all
  then have "(be_val bs * 256 + uint b) div 256 = be_val bs" by simp
  moreover have "(of_int (be_val bs * 256 + uint b) :: byte) = b"
  proof -
    have "uint (of_int (be_val bs * 256 + uint b) :: byte) = uint b"
      using u by (simp only: uint_of_int_byte) simp
    then show ?thesis by (simp only: word_uint_eq_iff)
  qed
  ultimately show ?case using snoc by (simp add: be_val_snoc)
qed simp

lemma be128_put128 [simp]: "be128 (put128 w) = w"
proof -
  have "uint w < 2 ^ 128" using uint_lt2p [of w] by simp
  then have "uint w mod 256 ^ 16 = uint w" by (intro mod_pos_pos_trivial) simp_all
  then show ?thesis by (simp add: be128_def put128_def be_val_digits)
qed

section \<open>Strings as bytes\<close>

definition bytes_of :: "string \<Rightarrow> bytes" where
  "bytes_of s = map of_char s"

definition string_of :: "bytes \<Rightarrow> string" where
  "string_of bs = map (\<lambda>b. char_of (unat b)) bs"

lemma length_bytes_of [simp]: "length (bytes_of s) = length s"
  by (simp add: bytes_of_def)

lemma length_string_of [simp]: "length (string_of bs) = length bs"
  by (simp add: string_of_def)

lemma bytes_of_append [simp]: "bytes_of (s @ t) = bytes_of s @ bytes_of t"
  by (simp add: bytes_of_def)

lemma unat_of_char [go_byte]: "unat (of_char c :: byte) = (of_char c :: nat)"
proof -
  have "(of_char c :: byte) = of_nat (of_char c)" by (simp only: of_nat_of_char)
  moreover have "(of_char c :: nat) < 256" by simp
  ultimately show ?thesis by (metis unat_of_nat_byte)
qed

lemma string_of_bytes_of [simp]: "string_of (bytes_of s) = s"
  by (simp add: string_of_def bytes_of_def o_def unat_of_char map_idI)

lemma bytes_of_string_of [simp]: "bytes_of (string_of bs) = bs"
proof -
  have "(of_char (char_of (unat b) :: char) :: byte) = b" for b :: byte
  proof -
    have "(of_char (char_of (unat b) :: char) :: nat) = unat b"
      by (simp add: take_bit_eq_mod)
    then have "unat (of_char (char_of (unat b) :: char) :: byte) = unat b"
      by (simp only: unat_of_char)
    then show ?thesis by (simp add: word_unat_eq_iff)
  qed
  then show ?thesis by (simp add: string_of_def bytes_of_def o_def map_idI)
qed

lemma bytes_of_inject [simp]: "bytes_of s = bytes_of t \<longleftrightarrow> s = t"
  by (metis string_of_bytes_of)

section \<open>Lists\<close>

lemma take_append_exact [simp]: "length xs = n \<Longrightarrow> take n (xs @ ys) = xs"
  by simp

lemma drop_append_exact [simp]: "length xs = n \<Longrightarrow> drop n (xs @ ys) = ys"
  by simp

definition bslice :: "nat \<Rightarrow> nat \<Rightarrow> 'a list \<Rightarrow> 'a list" where
  "bslice i j xs = take (j - i) (drop i xs)"

lemma length_bslice [simp]: "length (bslice i j xs) = min (j - i) (length xs - i)"
  by (simp add: bslice_def)

text \<open>The first index at which a predicate holds, as Go's \<^verbatim>\<open>for i, x := range xs\<close> with an
  early return finds it.\<close>

fun find_index :: "('a \<Rightarrow> bool) \<Rightarrow> 'a list \<Rightarrow> nat option" where
  "find_index p [] = None"
| "find_index p (x # xs) = (if p x then Some 0 else map_option Suc (find_index p xs))"

lemma find_index_None: "find_index p xs = None \<longleftrightarrow> (\<forall>x \<in> set xs. \<not> p x)"
  by (induction xs) auto

lemma find_index_Some:
  "find_index p xs = Some i \<longleftrightarrow> i < length xs \<and> p (xs ! i) \<and> (\<forall>j < i. \<not> p (xs ! j))"
proof (induction xs arbitrary: i)
  case Nil
  then show ?case by simp
next
  case (Cons x xs)
  show ?case
  proof (cases i)
    case 0
    then show ?thesis by auto
  next
    case (Suc k)
    have "(\<forall>j < Suc k. \<not> p ((x # xs) ! j)) \<longleftrightarrow> \<not> p x \<and> (\<forall>j < k. \<not> p (xs ! j))"
      by (auto simp: less_Suc_eq_0_disj)
    with Suc Cons.IH [of k] show ?thesis by auto
  qed
qed

lemma find_Some_iff_ex: "(\<exists>x. List.find p xs = Some x) \<longleftrightarrow> (\<exists>x \<in> set xs. p x)"
  by (induction xs) auto

lemma find_SomeD: "List.find p xs = Some x \<Longrightarrow> x \<in> set xs \<and> p x"
  by (induction xs) (auto split: if_splits)

end
