(* ===== verification/Go_Strings.thy ===== *)
theory Go_Strings
  imports Prelude
begin

text \<open>
  The parts of Go's packages \<^verbatim>\<open>strings\<close> and \<^verbatim>\<open>strconv\<close> the program uses, on HOL
  strings (both are sequences of bytes). White space is what \<^verbatim>\<open>unicode.IsSpace\<close> accepts,
  recognised by its UTF-8 encodings: every such encoding starts with an ASCII byte or with
  one of the lead bytes C2, E1, E2, E3, which never occur inside another rune, so scanning
  bytes finds the same separators as decoding runes does.

  Lower-casing and case folding of non-ASCII text need the Unicode tables; they are the
  record \<open>unicode\<close>, an argument of the definitions that use it. On ASCII text the tables
  are not consulted.
\<close>

section \<open>Definitions\<close>

definition is_ascii :: "string \<Rightarrow> bool" where
  "is_ascii s = list_all (\<lambda>c. (of_char c :: nat) < 128) s"

definition ascii_lower :: "char \<Rightarrow> char" where
  "ascii_lower c = (if 65 \<le> (of_char c :: nat) \<and> (of_char c :: nat) \<le> 90
     then char_of ((of_char c :: nat) + 32) else c)"

definition ascii_upper :: "char \<Rightarrow> char" where
  "ascii_upper c = (if 97 \<le> (of_char c :: nat) \<and> (of_char c :: nat) \<le> 122
     then char_of ((of_char c :: nat) - 32) else c)"

record unicode =
  uc_lower :: "string \<Rightarrow> string"
  uc_upper :: "string \<Rightarrow> string"
  uc_fold :: "string \<Rightarrow> string \<Rightarrow> bool"

definition to_lower :: "unicode \<Rightarrow> string \<Rightarrow> string" where
  "to_lower u s = (if is_ascii s then map ascii_lower s else uc_lower u s)"

definition to_upper :: "unicode \<Rightarrow> string \<Rightarrow> string" where
  "to_upper u s = (if is_ascii s then map ascii_upper s else uc_upper u s)"

definition equal_fold :: "unicode \<Rightarrow> string \<Rightarrow> string \<Rightarrow> bool" where
  "equal_fold u s t = (if is_ascii s \<and> is_ascii t then map ascii_lower s = map ascii_lower t
     else uc_fold u s t)"

definition has_prefix :: "string \<Rightarrow> string \<Rightarrow> bool" where
  "has_prefix s p = (take (length p) s = p)"

definition ascii_space :: "char \<Rightarrow> bool" where
  "ascii_space c = (let n = (of_char c :: nat) in n = 32 \<or> 9 \<le> n \<and> n \<le> 13)"

text \<open>The two- and three-byte encodings of white space runes, and the number of bytes of the
  white space rune a string starts with, 0 if there is none.\<close>

definition space2 :: "char \<Rightarrow> char \<Rightarrow> bool" where
  "space2 c d = (c = CHR 0xC2 \<and> (d = CHR 0x85 \<or> d = CHR 0xA0))"

definition space3 :: "char \<Rightarrow> char \<Rightarrow> char \<Rightarrow> bool" where
  "space3 c d e =
     (c = CHR 0xE1 \<and> d = CHR 0x9A \<and> e = CHR 0x80 \<or>
      c = CHR 0xE2 \<and> d = CHR 0x80 \<and>
        ((128 \<le> (of_char e :: nat) \<and> (of_char e :: nat) \<le> 138) \<or>
          e = CHR 0xA8 \<or> e = CHR 0xA9 \<or> e = CHR 0xAF) \<or>
      c = CHR 0xE2 \<and> d = CHR 0x81 \<and> e = CHR 0x9F \<or>
      c = CHR 0xE3 \<and> d = CHR 0x80 \<and> e = CHR 0x80)"

definition space_len :: "string \<Rightarrow> nat" where
  "space_len s = (case s of [] \<Rightarrow> 0 | c # r \<Rightarrow>
     if ascii_space c then 1
     else case r of [] \<Rightarrow> 0 | d # r' \<Rightarrow>
       if space2 c d then 2
       else case r' of [] \<Rightarrow> 0 | e # _ \<Rightarrow> if space3 c d e then 3 else 0)"

text \<open>The same at the end of a string, given in reverse.\<close>

definition space_len_rev :: "string \<Rightarrow> nat" where
  "space_len_rev r = (case r of [] \<Rightarrow> 0 | a # q \<Rightarrow>
     if ascii_space a then 1
     else case q of [] \<Rightarrow> 0 | b # q' \<Rightarrow>
       if space2 b a then 2
       else case q' of [] \<Rightarrow> 0 | c # _ \<Rightarrow> if space3 c b a then 3 else 0)"

function trim_left :: "(string \<Rightarrow> nat) \<Rightarrow> string \<Rightarrow> string" where
  "trim_left f s = (if s = [] \<or> f s = 0 then s else trim_left f (drop (f s) s))"
  by pat_completeness auto
termination
  by (relation "measure (\<lambda>(f, s). length s)") (auto simp: length_greater_0_conv)

declare trim_left.simps [simp del]

definition trim_space :: "string \<Rightarrow> string" where
  "trim_space s = rev (trim_left space_len_rev (rev (trim_left space_len s)))"

function str_fields_from :: "string \<Rightarrow> string \<Rightarrow> string list" where
  "str_fields_from cur s =
     (if s = [] then (if cur = [] then [] else [rev cur])
      else if space_len s = 0 then str_fields_from (hd s # cur) (tl s)
      else (if cur = [] then [] else [rev cur]) @ str_fields_from [] (drop (space_len s) s))"
  by pat_completeness auto
termination
  by (relation "measure (\<lambda>(cur, s). length s)") (auto simp: length_greater_0_conv)

declare str_fields_from.simps [simp del]

definition str_fields :: "string \<Rightarrow> string list" where
  "str_fields s = str_fields_from [] s"

text \<open>\<^verbatim>\<open>strings.Split\<close> with a separator of one byte.\<close>

fun split_on :: "'a \<Rightarrow> 'a list \<Rightarrow> 'a list list" where
  "split_on c [] = [[]]"
| "split_on c (x # xs) =
     (if x = c then [] # split_on c xs
      else case split_on c xs of [] \<Rightarrow> [[x]] | w # ws \<Rightarrow> (x # w) # ws)"

fun join :: "'a list \<Rightarrow> 'a list list \<Rightarrow> 'a list" where
  "join sep [] = []"
| "join sep [x] = x"
| "join sep (x # y # ys) = x @ sep @ join sep (y # ys)"

text \<open>\<^verbatim>\<open>strings.Cut\<close> with a separator of one byte: before, after, found.\<close>

fun cut :: "char \<Rightarrow> string \<Rightarrow> string \<times> string \<times> bool" where
  "cut c [] = ([], [], False)"
| "cut c (x # xs) =
     (if x = c then ([], xs, True)
      else case cut c xs of (a, b, f) \<Rightarrow> (x # a, b, f))"

definition trim_right_char :: "char \<Rightarrow> string \<Rightarrow> string" where
  "trim_right_char c s = rev (dropWhile (\<lambda>x. x = c) (rev s))"

definition is_digit :: "char \<Rightarrow> bool" where
  "is_digit c = (48 \<le> (of_char c :: nat) \<and> (of_char c :: nat) \<le> 57)"

definition digit_val :: "char \<Rightarrow> nat" where
  "digit_val c = (of_char c :: nat) - 48"

definition dec_val :: "string \<Rightarrow> nat" where
  "dec_val s = foldl (\<lambda>v c. v * 10 + digit_val c) 0 s"

text \<open>\<^verbatim>\<open>strconv.ParseUint(s, 10, bits)\<close>: digits only, at least one, no overflow.\<close>

definition parse_uint :: "nat \<Rightarrow> string \<Rightarrow> nat option" where
  "parse_uint w s = (if s = [] \<or> \<not> list_all is_digit s then None
     else let v = dec_val s in if int v < 2 ^ w then Some v else None)"

text \<open>\<^verbatim>\<open>strconv.Atoi\<close> (64-bit \<^verbatim>\<open>int\<close>): an optional sign, then digits.\<close>

definition atoi :: "string \<Rightarrow> int option" where
  "atoi s = (case s of [] \<Rightarrow> None | c # r \<Rightarrow>
     let neg = (c = CHR ''-''); ds = (if c = CHR ''-'' \<or> c = CHR ''+'' then r else s)
     in if ds = [] \<or> \<not> list_all is_digit ds then None
        else let v = (if neg then - int (dec_val ds) else int (dec_val ds))
          in if - (2 ^ 63) \<le> v \<and> v < 2 ^ 63 then Some v else None)"

definition digit_char :: "nat \<Rightarrow> char" where
  "digit_char n = char_of (48 + n)"

fun dec :: "nat \<Rightarrow> string" where
  "dec n = (if n < 10 then [digit_char n] else dec (n div 10) @ [digit_char (n mod 10)])"

declare dec.simps [simp del]

definition dec_int :: "int \<Rightarrow> string" where
  "dec_int i = (if i < 0 then CHR ''-'' # dec (nat (- i)) else dec (nat i))"

text \<open>Tables that leave non-ASCII text as it is, for concrete inputs that are ASCII anyway.\<close>

definition plain_tables :: unicode where
  "plain_tables = \<lparr>uc_lower = (\<lambda>s. s), uc_upper = (\<lambda>s. s), uc_fold = (\<lambda>s t. s = t)\<rparr>"

section \<open>Splitting and joining\<close>

lemma split_on_ne [simp]: "split_on c xs \<noteq> []"
  by (induction xs) (auto split: list.splits)

lemma join_Cons: "ws \<noteq> [] \<Longrightarrow> join sep (w # ws) = w @ sep @ join sep ws"
  by (cases ws) auto

lemma join_split_on [go_str]: "join [c] (split_on c xs) = xs"
proof (induction xs)
  case (Cons x xs)
  then show ?case
    by (cases "split_on c xs"; cases "tl (split_on c xs)") (auto simp: join_Cons)
qed simp

lemma split_on_no_sep: "w \<in> set (split_on c xs) \<Longrightarrow> c \<notin> set w"
  by (induction xs arbitrary: w) (fastforce split: list.splits if_splits)+

lemma split_on_subset: "w \<in> set (split_on c xs) \<Longrightarrow> set w \<subseteq> set xs"
  by (induction xs arbitrary: w) (fastforce split: list.splits if_splits)+

lemma split_on_fresh: "c \<notin> set xs \<Longrightarrow> split_on c xs = [xs]"
  by (induction xs) auto

lemma split_on_append: "c \<notin> set w \<Longrightarrow> split_on c (w @ c # xs) = w # split_on c xs"
  by (induction w) auto

lemma split_on_join [go_str]:
  "ws \<noteq> [] \<Longrightarrow> (\<And>w. w \<in> set ws \<Longrightarrow> c \<notin> set w) \<Longrightarrow> split_on c (join [c] ws) = ws"
proof (induction ws rule: list_nonempty_induct)
  case (single w)
  then show ?case by (simp add: split_on_fresh)
next
  case (cons w ws)
  then show ?case by (simp add: join_Cons split_on_append)
qed

lemma set_join: "set (join sep ws) \<subseteq> set sep \<union> (\<Union>w \<in> set ws. set w)"
  by (induction sep ws rule: join.induct) auto

lemma join_eq_Nil: "sep \<noteq> [] \<Longrightarrow> join sep ws = [] \<longleftrightarrow> ws = [] \<or> ws = [[]]"
  by (induction sep ws rule: join.induct) auto

lemma cut_fresh: "c \<notin> set xs \<Longrightarrow> cut c xs = (xs, [], False)"
  by (induction xs) auto

lemma cut_append: "c \<notin> set w \<Longrightarrow> cut c (w @ c # xs) = (w, xs, True)"
  by (induction w) auto

lemma cut_found: "cut c xs = (a, b, True) \<Longrightarrow> xs = a @ c # b \<and> c \<notin> set a"
  by (induction xs arbitrary: a) (auto split: if_splits prod.splits)

lemma cut_not_found: "cut c xs = (a, b, False) \<Longrightarrow> a = xs \<and> b = [] \<and> c \<notin> set xs"
  by (induction xs arbitrary: a) (auto split: if_splits prod.splits)

section \<open>Numbers\<close>

lemma of_char_digit_char: "n < 10 \<Longrightarrow> (of_char (digit_char n) :: nat) = 48 + n"
  by (simp add: digit_char_def)

lemma is_digit_digit_char [simp]: "n < 10 \<Longrightarrow> is_digit (digit_char n)"
  by (simp add: is_digit_def of_char_digit_char)

lemma digit_val_digit_char [simp]: "n < 10 \<Longrightarrow> digit_val (digit_char n) = n"
  by (simp add: digit_val_def of_char_digit_char)

lemma dec_digits: "list_all is_digit (dec n)"
proof (induction n rule: dec.induct)
  case (1 n)
  then show ?case by (subst dec.simps) auto
qed

lemma dec_ne [simp]: "dec n \<noteq> []"
  by (subst dec.simps) simp

lemma dec_val_dec [simp]: "dec_val (dec n) = n"
proof (induction n rule: dec.induct)
  case (1 n)
  then show ?case by (subst dec.simps) (simp add: dec_val_def)
qed

lemma int_less_two_power: "int n < 2 ^ w \<longleftrightarrow> n < 2 ^ w"
  by (metis of_nat_less_iff of_nat_numeral of_nat_power)

lemma parse_uint_dec [go_str]: "n < 2 ^ w \<Longrightarrow> parse_uint w (dec n) = Some n"
  by (simp add: parse_uint_def dec_digits int_less_two_power)

lemma parse_uint_bound: "parse_uint w s = Some n \<Longrightarrow> n < 2 ^ w"
  by (auto simp: parse_uint_def Let_def int_less_two_power split: if_splits)

lemma parse_uint_digits: "parse_uint w s = Some n \<Longrightarrow> s \<noteq> [] \<and> list_all is_digit s"
  by (auto simp: parse_uint_def Let_def split: if_splits)

lemma digit_not: "is_digit c \<Longrightarrow> (of_char d :: nat) < 48 \<or> 57 < (of_char d :: nat) \<Longrightarrow> c \<noteq> d"
  by (auto simp: is_digit_def)

lemma dec_no_char: "(of_char d :: nat) < 48 \<or> 57 < (of_char d :: nat) \<Longrightarrow> d \<notin> set (dec n)"
  using dec_digits [of n] digit_not [of _ d] by (auto simp: list_all_iff)

section \<open>White space\<close>

fun no_space :: "string \<Rightarrow> bool" where
  "no_space [] = True"
| "no_space (c # r) = (space_len (c # r) = 0 \<and> no_space r)"

lemma space_len_pos_le: "space_len s \<le> length s"
  by (auto simp: space_len_def split: list.splits)

lemma space_len_space: "ascii_space c \<Longrightarrow> space_len (c # r) = 1"
  by (simp add: space_len_def)

lemma ascii_space_char: "ascii_space (CHR '' '')" "ascii_space (CHR 0x0A)"
  by (simp_all add: ascii_space_def)

definition ascii_char :: "char \<Rightarrow> bool" where
  "ascii_char c = ((of_char c :: nat) < 128)"

lemma ascii_space_ascii: "ascii_space c \<Longrightarrow> ascii_char c"
  by (auto simp: ascii_space_def ascii_char_def Let_def)

lemma space2_ascii: "ascii_char c \<or> ascii_char d \<Longrightarrow> \<not> space2 c d"
  by (auto simp: space2_def ascii_char_def)

lemma space3_ascii: "ascii_char c \<or> ascii_char d \<or> ascii_char e \<Longrightarrow> \<not> space3 c d e"
  by (auto simp: space3_def ascii_char_def)

lemma space_len_append_ascii:
  "u \<noteq> [] \<Longrightarrow> ascii_char c \<Longrightarrow> space_len (u @ c # v) = space_len u"
  by (auto simp: space_len_def space2_ascii space3_ascii split: list.splits)

lemmas space_len_append_space = space_len_append_ascii [OF _ ascii_space_ascii]

lemma space_len_rev_append_ascii:
  "u \<noteq> [] \<Longrightarrow> ascii_char c \<Longrightarrow> space_len_rev (u @ c # v) = space_len_rev u"
  by (auto simp: space_len_rev_def space2_ascii space3_ascii split: list.splits)

lemma space_len_ascii: "ascii_char c \<Longrightarrow> \<not> ascii_space c \<Longrightarrow> space_len (c # v) = 0"
  by (auto simp: space_len_def space2_ascii space3_ascii split: list.splits)

lemma str_fields_from_word: "no_space w \<Longrightarrow>
  str_fields_from cur w = (if cur = [] \<and> w = [] then [] else [rev cur @ w])"
proof (induction w arbitrary: cur)
  case Nil
  then show ?case by (simp add: str_fields_from.simps [of cur "[]"])
next
  case (Cons c r)
  then show ?case by (simp add: str_fields_from.simps [of cur "c # r"])
qed

lemma str_fields_from_sep: "no_space w \<Longrightarrow> ascii_space c \<Longrightarrow>
  str_fields_from cur (w @ c # s) = (if cur = [] \<and> w = [] then [] else [rev cur @ w]) @ str_fields s"
proof (induction w arbitrary: cur)
  case Nil
  then show ?case
    by (simp add: str_fields_from.simps [of cur "c # s"] space_len_space str_fields_def)
next
  case (Cons d r)
  have "space_len (d # r @ c # s) = 0"
    using Cons.prems space_len_append_space [of "d # r" c s] by simp
  then show ?case
    using Cons by (simp add: str_fields_from.simps [of cur "d # r @ c # s"])
qed

lemma str_fields_word [go_str]: "no_space w \<Longrightarrow> w \<noteq> [] \<Longrightarrow> str_fields w = [w]"
  by (simp add: str_fields_def str_fields_from_word)

lemma str_fields_sep [go_str]:
  "no_space w \<Longrightarrow> w \<noteq> [] \<Longrightarrow> ascii_space c \<Longrightarrow> str_fields (w @ c # s) = w # str_fields s"
  by (simp add: str_fields_def str_fields_from_sep)

lemma str_fields_join [go_str]:
  "(\<And>w. w \<in> set ws \<Longrightarrow> no_space w \<and> w \<noteq> []) \<Longrightarrow> str_fields (join '' '' ws) = ws"
proof (induction ws)
  case Nil
  then show ?case by (simp add: str_fields_def str_fields_from.simps)
next
  case (Cons w ws)
  then show ?case
  proof (cases "ws = []")
    case True
    with Cons.prems show ?thesis by (simp add: str_fields_word)
  next
    case False
    with Cons show ?thesis by (simp add: join_Cons str_fields_sep ascii_space_char)
  qed
qed

lemma trim_left_id: "f s = 0 \<Longrightarrow> trim_left f s = s"
  by (simp add: trim_left.simps)

lemma trim_space_id: "space_len s = 0 \<Longrightarrow> space_len_rev (rev s) = 0 \<Longrightarrow> trim_space s = s"
  by (simp add: trim_space_def trim_left_id)

lemma trim_left_suffix: "\<exists>p. s = p @ trim_left f s"
proof (induction f s rule: trim_left.induct)
  case (1 f s)
  show ?case
  proof (cases "s = [] \<or> f s = 0")
    case True
    then show ?thesis by (simp add: trim_left.simps)
  next
    case False
    with 1 obtain p where "drop (f s) s = p @ trim_left f (drop (f s) s)" by blast
    with False have "s = (take (f s) s @ p) @ trim_left f s"
      by (metis append.assoc append_take_drop_id trim_left.simps)
    then show ?thesis by blast
  qed
qed

lemma trim_space_subset: "set (trim_space s) \<subseteq> set s"
proof -
  obtain p where "s = p @ trim_left space_len s" using trim_left_suffix by blast
  moreover obtain q where "rev (trim_left space_len s) =
      q @ trim_left space_len_rev (rev (trim_left space_len s))"
    using trim_left_suffix by blast
  ultimately show ?thesis
    unfolding trim_space_def
    by (metis Un_upper2 set_append set_rev subset_trans)
qed

lemma space_len_mono: "space_len w \<noteq> 0 \<Longrightarrow> space_len (w @ v) \<noteq> 0"
  by (auto simp: space_len_def split: list.splits if_splits)

lemma no_space_appendD: "no_space (w @ v) \<Longrightarrow> no_space w \<and> no_space v"
proof (induction w)
  case (Cons c w)
  then show ?case using space_len_mono [of "c # w" v] by auto
qed simp

lemma no_space_space_len: "no_space w \<Longrightarrow> space_len w = 0"
  by (cases w) (auto simp: space_len_def)

lemma no_space_rev: "no_space w \<Longrightarrow> space_len_rev (rev w) = 0"
proof (rule ccontr)
  assume ns: "no_space w" and "space_len_rev (rev w) \<noteq> 0"
  then consider a q where "rev w = a # q" "ascii_space a"
    | a b q where "rev w = a # b # q" "space2 b a"
    | a b c q where "rev w = a # b # c # q" "space3 c b a"
    by (auto simp: space_len_rev_def split: list.splits if_splits)
  then obtain p v where "w = p @ v" "space_len v \<noteq> 0"
  proof cases
    case (1 a q)
    then have "w = rev q @ [a]" "space_len [a] \<noteq> 0" by (simp_all add: rev_swap space_len_def)
    then show ?thesis by (rule that)
  next
    case (2 a b q)
    then have "w = rev q @ [b, a]" "space_len [b, a] \<noteq> 0"
      by (simp_all add: rev_swap space_len_def)
    then show ?thesis by (rule that)
  next
    case (3 a b c q)
    then have "w = rev q @ [c, b, a]" "space_len [c, b, a] \<noteq> 0"
      by (simp_all add: rev_swap space_len_def)
    then show ?thesis by (rule that)
  qed
  with ns no_space_appendD [of p v] no_space_space_len [of v] show False by simp
qed

lemma trim_space_no_space: "no_space w \<Longrightarrow> trim_space w = w"
  by (simp add: trim_space_id no_space_space_len no_space_rev)

lemma split_on_no_space: "no_space s \<Longrightarrow> w \<in> set (split_on c s) \<Longrightarrow> no_space w"
proof -
  have "w \<in> set ws \<Longrightarrow> \<exists>p q. join [c] ws = p @ w @ q" for ws :: "string list" and w
  proof (induction ws)
    case (Cons x ws)
    show ?case
    proof (cases "w = x")
      case True
      then show ?thesis by (cases ws) (auto intro: exI [of _ "[]"])
    next
      case False
      with Cons obtain p q where "join [c] ws = p @ w @ q" by auto
      with Cons.prems False have "join [c] (x # ws) = (x @ c # p) @ w @ q"
        by (cases ws) auto
      then show ?thesis by blast
    qed
  qed simp
  moreover assume "no_space s" "w \<in> set (split_on c s)"
  ultimately show ?thesis by (metis join_split_on no_space_appendD)
qed

lemma no_space_iff: "no_space w \<longleftrightarrow> (\<forall>p v. w = p @ v \<longrightarrow> v \<noteq> [] \<longrightarrow> space_len v = 0)"
proof
  assume "no_space w"
  then show "\<forall>p v. w = p @ v \<longrightarrow> v \<noteq> [] \<longrightarrow> space_len v = 0"
    using no_space_appendD no_space_space_len by blast
next
  assume "\<forall>p v. w = p @ v \<longrightarrow> v \<noteq> [] \<longrightarrow> space_len v = 0"
  then show "no_space w"
  proof (induction w)
    case (Cons c w)
    have "space_len (c # w) = 0" using Cons.prems [rule_format, of "[]" "c # w"] by simp
    moreover have "no_space w"
      by (rule Cons.IH) (use Cons.prems in \<open>metis append_Cons\<close>)
    ultimately show ?case by simp
  qed simp
qed

lemma fields_from_words:
  assumes "\<And>p v. rev cur = p @ v \<Longrightarrow> v \<noteq> [] \<Longrightarrow> space_len (v @ s) = 0"
    and "w \<in> set (str_fields_from cur s)"
  shows "no_space w \<and> w \<noteq> []"
  using assms
proof (induction cur s rule: str_fields_from.induct)
  case (1 cur s)
  have word: "no_space (rev cur)"
    unfolding no_space_iff using "1.prems"(1) space_len_mono by metis
  consider "s = []" | "s \<noteq> []" "space_len s = 0" | "s \<noteq> []" "space_len s \<noteq> 0" by blast
  then show ?case
  proof cases
    case 1
    with word "1.prems"(2) show ?thesis by (auto simp: str_fields_from.simps [of cur "[]"] split: if_splits)
  next
    case 2
    have "space_len (v @ tl s) = 0" if v: "rev (hd s # cur) = p @ v" "v \<noteq> []" for p v
    proof -
      from v obtain v' where v': "v = v' @ [hd s]" "rev cur = p @ v'"
        by (cases v rule: rev_cases) auto
      then have "v @ tl s = v' @ s" using 2 by simp
      then show ?thesis using 2 v' "1.prems"(1) by (cases "v' = []") auto
    qed
    with 2 "1.IH"(1) "1.prems"(2) show ?thesis
      by (simp add: str_fields_from.simps [of cur s])
  next
    case 3
    with "1.IH"(2) "1.prems"(2) word show ?thesis
      by (auto simp: str_fields_from.simps [of cur s] split: if_splits)
  qed
qed

lemma fields_words: "w \<in> set (str_fields s) \<Longrightarrow> no_space w \<and> w \<noteq> []"
  unfolding str_fields_def by (rule fields_from_words) auto

lemma no_space_join_ascii:
  "no_space w \<Longrightarrow> no_space v \<Longrightarrow> ascii_char c \<Longrightarrow> \<not> ascii_space c \<Longrightarrow> no_space (w @ c # v)"
proof (induction w)
  case Nil
  then show ?case by (simp add: space_len_ascii)
next
  case (Cons a w)
  then show ?case using space_len_append_ascii [of "a # w" c v] by simp
qed

lemma no_space_ascii:
  "list_all (\<lambda>c. ascii_char c \<and> \<not> ascii_space c) s \<Longrightarrow> no_space s"
  by (induction s) (auto simp: space_len_ascii)

lemma no_space_join:
  "ascii_char c \<Longrightarrow> \<not> ascii_space c \<Longrightarrow> (\<And>w. w \<in> set ws \<Longrightarrow> no_space w) \<Longrightarrow> no_space (join [c] ws)"
proof (induction ws)
  case (Cons w ws)
  then show ?case by (cases "ws = []") (simp_all add: join_Cons no_space_join_ascii)
qed simp

lemma no_space_no_char: "no_space w \<Longrightarrow> ascii_space c \<Longrightarrow> c \<notin> set w"
  by (induction w) (auto simp: space_len_space)

lemma join_snoc: "ws \<noteq> [] \<Longrightarrow> join sep (ws @ [w]) = join sep ws @ sep @ w"
proof (induction ws)
  case (Cons x ws)
  then show ?case by (cases "ws = []") (simp_all add: join_Cons)
qed simp

lemma trim_space_join:
  assumes words: "\<And>w. w \<in> set ws \<Longrightarrow> no_space w \<and> w \<noteq> []"
  shows "trim_space (join '' '' ws) = join '' '' ws"
proof (cases "ws = []")
  case True
  then show ?thesis by (simp add: trim_space_id space_len_def space_len_rev_def)
next
  case False
  have "space_len (join '' '' ws) = 0"
  proof (cases ws)
    case (Cons w vs)
    with words have "space_len w = 0" "w \<noteq> []" by (simp_all add: no_space_space_len)
    with Cons show ?thesis
      by (cases "vs = []") (simp_all add: join_Cons space_len_append_space ascii_space_char)
  qed (use False in simp)
  moreover have "space_len_rev (rev (join '' '' ws)) = 0"
  proof (cases ws rule: rev_cases)
    case (snoc vs w)
    with words have "space_len_rev (rev w) = 0" "w \<noteq> []" by (simp_all add: no_space_rev)
    with snoc show ?thesis
      by (cases "vs = []")
        (simp_all add: join_snoc space_len_rev_append_ascii ascii_space_char ascii_space_ascii)
  qed (use False in simp)
  ultimately show ?thesis by (rule trim_space_id)
qed

end
