(* ===== verification/Netip.thy ===== *)
theory Netip
  imports Go_Strings
begin

text \<open>
  Go's package \<^verbatim>\<open>net/netip\<close>, as far as the program uses it: addresses (the zero
  address, IPv4, IPv6 with a zone), prefixes, address and port pairs, parsing and the
  containment test. The parsers follow the library's own: \<^verbatim>\<open>parseIPv4Fields\<close> is
  \<open>v4_fields\<close>, the loop of \<^verbatim>\<open>parseIPv6\<close> is \<open>v6_loop\<close>. A call that panics
  (\<^verbatim>\<open>As4\<close> on an address that is not IPv4) returns \<open>None\<close>.
\<close>

section \<open>Addresses and prefixes\<close>

datatype addr = NoAddr | V4 u32 | V6 "128 word" string

record prefix =
  pfx_addr :: addr
  pfx_bits :: int

record addrport =
  ap_addr :: addr
  ap_port :: u16

definition no_prefix :: prefix where
  "no_prefix = \<lparr>pfx_addr = NoAddr, pfx_bits = -1\<rparr>"

fun bit_len :: "addr \<Rightarrow> nat" where
  "bit_len NoAddr = 0"
| "bit_len (V4 _) = 32"
| "bit_len (V6 _ _) = 128"

definition is4 :: "addr \<Rightarrow> bool" where
  "is4 a = (case a of V4 _ \<Rightarrow> True | _ \<Rightarrow> False)"

definition is6 :: "addr \<Rightarrow> bool" where
  "is6 a = (case a of V6 _ _ \<Rightarrow> True | _ \<Rightarrow> False)"

definition is4in6 :: "addr \<Rightarrow> bool" where
  "is4in6 a = (case a of V6 w _ \<Rightarrow> drop_bit 32 w = 0xffff | _ \<Rightarrow> False)"

definition unmap :: "addr \<Rightarrow> addr" where
  "unmap a = (case a of V6 w _ \<Rightarrow> if is4in6 a then V4 (ucast w) else a | _ \<Rightarrow> a)"

definition as4 :: "addr \<Rightarrow> u32 option" where
  "as4 a = (case a of NoAddr \<Rightarrow> None | V4 w \<Rightarrow> Some w
     | V6 w _ \<Rightarrow> if is4in6 a then Some (ucast w) else None)"

definition with_zone :: "addr \<Rightarrow> string \<Rightarrow> addr" where
  "with_zone a z = (case a of V6 w _ \<Rightarrow> V6 w z | _ \<Rightarrow> a)"

definition without_zone :: "addr \<Rightarrow> addr" where
  "without_zone a = with_zone a []"

definition has_zone :: "addr \<Rightarrow> bool" where
  "has_zone a = (case a of V6 _ z \<Rightarrow> z \<noteq> [] | _ \<Rightarrow> False)"

definition addr_from4 :: "bytes \<Rightarrow> addr" where
  "addr_from4 b = V4 (be32 (b ! 0) (b ! 1) (b ! 2) (b ! 3))"

definition is_multicast :: "addr \<Rightarrow> bool" where
  "is_multicast a = (case unmap a of NoAddr \<Rightarrow> False
     | V4 w \<Rightarrow> w AND 0xf0000000 = 0xe0000000
     | V6 w _ \<Rightarrow> drop_bit 120 w = 0xff)"

definition prefix_from :: "addr \<Rightarrow> int \<Rightarrow> prefix" where
  "prefix_from a b = \<lparr>pfx_addr = without_zone a,
     pfx_bits = (if a \<noteq> NoAddr \<and> 0 \<le> b \<and> b \<le> int (bit_len a) then b else -1)\<rparr>"

definition pfx_valid :: "prefix \<Rightarrow> bool" where
  "pfx_valid p = (0 \<le> pfx_bits p)"

text \<open>\<^verbatim>\<open>mask32\<close> and \<^verbatim>\<open>mask128\<close>: the network mask of a prefix length.\<close>

definition net_mask :: "nat \<Rightarrow> 'a::len word" where
  "net_mask n = NOT (mask (LENGTH('a) - n))"

definition masked :: "prefix \<Rightarrow> prefix" where
  "masked p = (if \<not> pfx_valid p then no_prefix
     else case pfx_addr p of
       NoAddr \<Rightarrow> no_prefix
     | V4 w \<Rightarrow> p\<lparr>pfx_addr := V4 (w AND net_mask (nat (pfx_bits p)))\<rparr>
     | V6 w _ \<Rightarrow> p\<lparr>pfx_addr := V6 (w AND net_mask (nat (pfx_bits p))) []\<rparr>)"

definition contains :: "prefix \<Rightarrow> addr \<Rightarrow> bool" where
  "contains p a = (pfx_valid p \<and> \<not> has_zone a \<and>
     (case (pfx_addr p, a) of
        (V4 v, V4 w) \<Rightarrow> drop_bit (32 - nat (pfx_bits p)) (w XOR v) = 0
      | (V6 v _, V6 w _) \<Rightarrow> (w XOR v) AND net_mask (nat (pfx_bits p)) = 0
      | _ \<Rightarrow> False))"

text \<open>The broadcast address of an IPv4 prefix, as the program computes it in several
  packages: the masked address with all host bits set. \<open>None\<close> is the panic of
  \<^verbatim>\<open>As4\<close> or of a negative shift count.\<close>

definition last_addr :: "prefix \<Rightarrow> addr option" where
  "last_addr p = (case as4 (pfx_addr (masked p)) of
     None \<Rightarrow> None
   | Some b \<Rightarrow> if 32 < pfx_bits p then None
       else Some (V4 (b OR (push_bit (nat (32 - pfx_bits p)) 1 - 1))))"

definition is_unspecified :: "addr \<Rightarrow> bool" where
  "is_unspecified a = (a = V4 0 \<or> a = V6 0 [])"

definition is_loopback :: "addr \<Rightarrow> bool" where
  "is_loopback a = (case unmap a of NoAddr \<Rightarrow> False | V4 w \<Rightarrow> drop_bit 24 w = 127 | V6 w _ \<Rightarrow> w = 1)"

definition is_link_local_unicast :: "addr \<Rightarrow> bool" where
  "is_link_local_unicast a = (case unmap a of NoAddr \<Rightarrow> False | V4 w \<Rightarrow> drop_bit 16 w = 0xa9fe
     | V6 w _ \<Rightarrow> drop_bit 118 w = 0x3fa)"

definition is_link_local_multicast :: "addr \<Rightarrow> bool" where
  "is_link_local_multicast a = (case unmap a of NoAddr \<Rightarrow> False | V4 w \<Rightarrow> drop_bit 8 w = 0xe00000
     | V6 w _ \<Rightarrow> drop_bit 112 w AND 0xff0f = 0xff02)"

definition is_private :: "addr \<Rightarrow> bool" where
  "is_private a = (case unmap a of NoAddr \<Rightarrow> False
     | V4 w \<Rightarrow> drop_bit 24 w = 10 \<or> drop_bit 20 w = 0xac1 \<or> drop_bit 16 w = 0xc0a8
     | V6 w _ \<Rightarrow> drop_bit 121 w = 0x7e)"

text \<open>\<^verbatim>\<open>Prefix.Overlaps\<close>: the addresses agree on the bits of the shorter prefix.\<close>

definition overlaps :: "prefix \<Rightarrow> prefix \<Rightarrow> bool" where
  "overlaps p q = (pfx_valid p \<and> pfx_valid q \<and>
     (let m = nat (min (pfx_bits p) (pfx_bits q)) in
      case (pfx_addr p, pfx_addr q) of
        (V4 v, V4 w) \<Rightarrow> drop_bit (32 - m) v = drop_bit (32 - m) w
      | (V6 v _, V6 w _) \<Rightarrow> drop_bit (128 - m) v = drop_bit (128 - m) w
      | _ \<Rightarrow> False))"

text \<open>\<^verbatim>\<open>Addr.Next\<close>: the zero address after the last one.\<close>

definition addr_next :: "addr \<Rightarrow> addr" where
  "addr_next a = (case a of NoAddr \<Rightarrow> NoAddr
     | V4 w \<Rightarrow> if w = -1 then NoAddr else V4 (w + 1)
     | V6 w z \<Rightarrow> if w = -1 then NoAddr else V6 (w + 1) z)"

section \<open>Parsing\<close>

fun v4_fields :: "char option \<Rightarrow> nat \<Rightarrow> nat \<Rightarrow> nat list \<Rightarrow> string \<Rightarrow> nat list option" where
  "v4_fields prev v n fs [] = (if length fs < 3 then None else Some (fs @ [v]))"
| "v4_fields prev v n fs (c # r) =
     (if is_digit c then
        if n = 1 \<and> v = 0 then None
        else let v' = v * 10 + digit_val c
          in if v' > 255 then None else v4_fields (Some c) v' (Suc n) fs r
      else if c = CHR ''.'' then
        if prev = None \<or> r = [] \<or> prev = Some CHR ''.'' then None
        else if length fs = 3 then None
        else v4_fields (Some c) 0 0 (fs @ [v]) r
      else None)"

definition v4_word :: "nat list \<Rightarrow> u32" where
  "v4_word fs = be32 (of_nat (fs ! 0)) (of_nat (fs ! 1)) (of_nat (fs ! 2)) (of_nat (fs ! 3))"

definition parse_v4 :: "string \<Rightarrow> addr option" where
  "parse_v4 s = map_option (\<lambda>fs. V4 (v4_word fs)) (v4_fields None 0 0 [] s)"

definition hex_val :: "char \<Rightarrow> nat option" where
  "hex_val c = (let n = (of_char c :: nat) in
     if is_digit c then Some (n - 48)
     else if 97 \<le> n \<and> n \<le> 102 then Some (n - 87)
     else if 65 \<le> n \<and> n \<le> 70 then Some (n - 55)
     else None)"

fun hex_group :: "nat \<Rightarrow> nat \<Rightarrow> string \<Rightarrow> (nat \<times> nat \<times> string) option" where
  "hex_group off acc [] = Some (off, acc, [])"
| "hex_group off acc (c # r) =
     (case hex_val c of
        None \<Rightarrow> Some (off, acc, c # r)
      | Some d \<Rightarrow> if off > 3 then None
          else let a = acc * 16 + d in if a > 65535 then None else hex_group (Suc off) a r)"

lemma hex_group_length: "hex_group off acc s = Some (o', a, r) \<Longrightarrow>
  length r + o' = length s + off"
  by (induction off acc s rule: hex_group.induct)
    (auto simp: Let_def split: option.splits if_splits)

function v6_loop :: "nat list \<Rightarrow> nat option \<Rightarrow> string \<Rightarrow> (nat list \<times> nat option \<times> string) option" where
  "v6_loop gs ell s =
     (if 8 \<le> length gs then Some (gs, ell, s)
      else case hex_group 0 0 s of
        None \<Rightarrow> None
      | Some (off, acc, rest) \<Rightarrow>
          if off = 0 then None
          else if rest \<noteq> [] \<and> hd rest = CHR ''.'' then
            if ell = None \<and> length gs \<noteq> 6 then None
            else if length gs > 6 then None
            else (case v4_fields None 0 0 [] s of
                None \<Rightarrow> None
              | Some fs \<Rightarrow> Some (gs @ [fs ! 0 * 256 + fs ! 1, fs ! 2 * 256 + fs ! 3], ell, []))
          else let gs' = gs @ [acc] in
            if rest = [] then Some (gs', ell, [])
            else if hd rest \<noteq> CHR '':'' \<or> length rest = 1 then None
            else let s1 = tl rest in
              if hd s1 = CHR '':'' then
                if ell \<noteq> None then None
                else if tl s1 = [] then Some (gs', Some (length gs'), [])
                else v6_loop gs' (Some (length gs')) (tl s1)
              else v6_loop gs' ell s1)"
  by pat_completeness auto
termination
  by (relation "measure (\<lambda>(gs, ell, s). length s)") (auto dest!: hex_group_length)

declare v6_loop.simps [simp del]

definition v6_word :: "nat list \<Rightarrow> 128 word" where
  "v6_word gs = foldl (\<lambda>w g. w * 65536 + of_nat g) 0 gs"

definition v6_finish :: "nat list \<times> nat option \<times> string \<Rightarrow> 128 word option" where
  "v6_finish r = (case r of (gs, ell, s) \<Rightarrow>
     if s \<noteq> [] then None
     else if length gs < 8 then
       (case ell of None \<Rightarrow> None
        | Some e \<Rightarrow> Some (v6_word (take e gs @ replicate (8 - length gs) 0 @ drop e gs)))
     else if ell \<noteq> None then None
     else Some (v6_word gs))"

definition parse_v6 :: "string \<Rightarrow> addr option" where
  "parse_v6 s0 = (case cut CHR ''%'' s0 of (s, zone, found) \<Rightarrow>
     if found \<and> zone = [] then None
     else
       let lead = has_prefix s ''::''; s' = (if lead then drop 2 s else s)
       in if lead \<and> s' = [] then Some (V6 0 zone)
          else (case v6_loop [] (if lead then Some 0 else None) s' of
              None \<Rightarrow> None
            | Some r \<Rightarrow> map_option (\<lambda>w. V6 w zone) (v6_finish r)))"

fun addr_kind :: "string \<Rightarrow> char option" where
  "addr_kind [] = None"
| "addr_kind (c # r) = (if c = CHR ''.'' \<or> c = CHR '':'' \<or> c = CHR ''%'' then Some c else addr_kind r)"

definition parse_addr :: "string \<Rightarrow> addr option" where
  "parse_addr s = (case addr_kind s of
     None \<Rightarrow> None
   | Some c \<Rightarrow> if c = CHR ''.'' then parse_v4 s else if c = CHR '':'' then parse_v6 s else None)"

definition parse_prefix :: "string \<Rightarrow> prefix option" where
  "parse_prefix s = (case cut CHR ''/'' (rev s) of (rbits, raddr, found) \<Rightarrow>
     if \<not> found then None
     else case parse_addr (rev raddr) of
       None \<Rightarrow> None
     | Some a \<Rightarrow>
         if has_zone a then None
         else let b = rev rbits in
           if 1 < length b \<and> \<not> (CHR ''1'' = hd b \<or> is_digit (hd b) \<and> hd b \<noteq> CHR ''0'') then None
           else case atoi b of
             None \<Rightarrow> None
           | Some n \<Rightarrow> if n < 0 \<or> int (bit_len a) < n then None else Some (prefix_from a n))"

definition v4_string :: "u32 \<Rightarrow> string" where
  "v4_string w = join ''.'' (map (\<lambda>b. dec (unat b)) (put32 w))"

section \<open>Containment of IPv4 prefixes\<close>

lemma drop_bit_xor_zero_iff:
  "drop_bit k (a XOR b) = (0 :: 'a::len word) \<longleftrightarrow> drop_bit k a = drop_bit k b"
proof -
  have "x XOR y = 0 \<longleftrightarrow> x = y" for x y :: "'a word"
    by (metis xor.assoc xor.left_neutral xor_self_eq)
  then show ?thesis by (simp only: drop_bit_xor)
qed

lemma contains_v4 [go_net]:
  "pfx_addr p = V4 v \<Longrightarrow> contains p (V4 w) \<longleftrightarrow>
     pfx_valid p \<and> drop_bit (32 - nat (pfx_bits p)) w = drop_bit (32 - nat (pfx_bits p)) v"
  by (simp only: contains_def has_zone_def drop_bit_xor_zero_iff) simp

lemma contains_v4D: "contains p (V4 w) \<Longrightarrow> \<exists>v. pfx_addr p = V4 v"
  by (auto simp: contains_def split: addr.splits)

lemma contains_NoAddr [simp]: "\<not> contains p NoAddr"
  by (simp add: contains_def split: addr.splits)

text \<open>Network and broadcast address of an IPv4 address with \<open>k\<close> host bits, as numbers.\<close>

lemma unat_drop_bit: "unat (drop_bit k (w :: u32)) = unat w div 2 ^ k"
proof -
  have "take_bit 32 (unat w) = unat w"
    using unat_u32_less [of w] by (intro take_bit_nat_eq_self) simp
  then have "unat (drop_bit k w) = drop_bit k (unat w)"
    by (simp only: unsigned_drop_bit_eq len_num0 len_num1 len_bit0 len_bit1) simp
  then show ?thesis by (simp only: drop_bit_nat_def)
qed

lemma net_low_le: "unat (w :: u32) div 2 ^ k * 2 ^ k \<le> unat w"
  by (rule div_times_less_eq_dividend)

lemma unat_net_base: "unat (w AND NOT (mask k) :: u32) = unat w div 2 ^ k * 2 ^ k"
proof -
  have "w AND NOT (mask k) = push_bit k (drop_bit k w)"
    by (rule bit_word_eqI) (auto simp: bit_simps)
  moreover have "unat w div 2 ^ k * 2 ^ k < 2 ^ 32"
    by (rule le_less_trans [OF net_low_le]) (use unat_u32_less [of w] in simp)
  moreover have "unat (push_bit k (drop_bit k w)) = take_bit 32 (push_bit k (unat w div 2 ^ k))"
    using unsigned_push_bit_eq [where 'a = nat, of k "drop_bit k w"] by (simp only: unat_drop_bit) simp
  ultimately show ?thesis
    by (simp add: push_bit_nat_def take_bit_nat_eq_self)
qed

lemma unat_net_last:
  assumes k: "k \<le> 32"
  shows "unat ((w AND NOT (mask k)) OR mask k :: u32) = unat w div 2 ^ k * 2 ^ k + (2 ^ k - 1)"
proof -
  have "(w AND NOT (mask k)) AND mask k = 0"
    by (rule bit_word_eqI) (auto simp: bit_simps)
  then have eq: "(w AND NOT (mask k)) OR mask k = (w AND NOT (mask k)) + mask k"
    by (simp only: disjunctive_add_eq_or)
  have m: "unat (mask k :: u32) = 2 ^ k - 1"
  proof -
    have "unat (mask k :: u32) = mask k"
      by (rule bit_eqI) (use k in \<open>auto simp: bit_simps\<close>)
    then show ?thesis by (simp only: mask_eq_exp_minus_1)
  qed
  have "unat w div 2 ^ k < 2 ^ (32 - k)"
    using unat_u32_less [of w] k by (simp add: less_mult_imp_div_less power_add [symmetric])
  then have "Suc (unat w div 2 ^ k) * 2 ^ k \<le> 2 ^ (32 - k) * 2 ^ k"
    by (intro mult_le_mono1) simp
  also have "\<dots> = 2 ^ 32" using k by (simp only: power_add [symmetric] le_add_diff_inverse2)
  finally have "unat w div 2 ^ k * 2 ^ k + 2 ^ k \<le> 2 ^ 32" by simp
  moreover have "0 < (2::nat) ^ k" by simp
  ultimately have "unat w div 2 ^ k * 2 ^ k + (2 ^ k - 1) < 2 ^ 32" by linarith
  then have "unat (w AND NOT (mask k)) + unat (mask k :: u32) < 2 ^ LENGTH(32)"
    by (simp add: unat_net_base m)
  then show ?thesis
    unfolding eq by (simp only: unat_add_lem [THEN iffD1] unat_net_base m)
qed

lemma div_eq_range: "0 < (m::nat) \<Longrightarrow>
  a div m = b div m \<longleftrightarrow> b div m * m \<le> a \<and> a \<le> b div m * m + (m - 1)"
proof
  assume m: "0 < m" and "a div m = b div m"
  then have "b div m * m + a mod m = a" by (metis div_mult_mod_eq)
  moreover have "a mod m \<le> m - 1" using m mod_less_divisor [of m a] by linarith
  ultimately show "b div m * m \<le> a \<and> a \<le> b div m * m + (m - 1)" by linarith
next
  assume m: "0 < m" and "b div m * m \<le> a \<and> a \<le> b div m * m + (m - 1)"
  then show "a div m = b div m"
    by (intro div_nat_eqI) (simp_all add: mult.commute less_eq_Suc_le [symmetric], linarith?)
qed

definition v4_host_bits :: "prefix \<Rightarrow> nat" where
  "v4_host_bits p = 32 - nat (pfx_bits p)"

lemma masked_v4 [go_net]: "pfx_addr p = V4 v \<Longrightarrow> pfx_valid p \<Longrightarrow>
  pfx_addr (masked p) = V4 (v AND NOT (mask (v4_host_bits p)))"
  by (simp add: masked_def net_mask_def v4_host_bits_def)

lemma push_bit_minus_1: "push_bit k 1 - 1 = (mask k :: u32)"
  by (simp add: push_bit_eq_mult mask_eq_exp_minus_1)

lemma last_addr_v4 [go_net]:
  "pfx_addr p = V4 v \<Longrightarrow> pfx_valid p \<Longrightarrow> pfx_bits p \<le> 32 \<Longrightarrow>
   last_addr p = Some (V4 ((v AND NOT (mask (v4_host_bits p))) OR mask (v4_host_bits p)))"
  by (simp add: last_addr_def masked_v4 as4_def push_bit_minus_1 [symmetric] pfx_valid_def
      v4_host_bits_def nat_diff_distrib)

text \<open>An IPv4 prefix contains exactly the addresses from its network address to its
  broadcast address.\<close>

lemma contains_v4_range:
  assumes "pfx_addr p = V4 v" "pfx_valid p" "pfx_bits p \<le> 32"
  shows "contains p (V4 w) \<longleftrightarrow>
    (\<exists>base last. pfx_addr (masked p) = V4 base \<and> last_addr p = Some (V4 last) \<and>
      base \<le> w \<and> w \<le> last)"
proof -
  let ?k = "v4_host_bits p"
  have "contains p (V4 w) \<longleftrightarrow> unat w div 2 ^ ?k = unat v div 2 ^ ?k"
    using assms by (simp add: contains_v4 word_unat_eq_iff unat_drop_bit v4_host_bits_def)
  also have "\<dots> \<longleftrightarrow> unat v div 2 ^ ?k * 2 ^ ?k \<le> unat w \<and>
      unat w \<le> unat v div 2 ^ ?k * 2 ^ ?k + (2 ^ ?k - 1)"
    by (rule div_eq_range) simp
  also have "\<dots> \<longleftrightarrow> v AND NOT (mask ?k) \<le> w \<and> w \<le> (v AND NOT (mask ?k)) OR mask ?k"
    by (simp only: word_le_nat_alt unat_net_base unat_net_last v4_host_bits_def diff_le_self)
  finally show ?thesis
    using assms by (simp add: masked_v4 last_addr_v4)
qed

lemma drop_bit_mono_eq:
  "drop_bit i v = drop_bit i (w :: 'a::len word) \<Longrightarrow> i \<le> j \<Longrightarrow> drop_bit j v = drop_bit j w"
proof -
  assume "drop_bit i v = drop_bit i w" "i \<le> j"
  then have "drop_bit (j - i) (drop_bit i v) = drop_bit (j - i) (drop_bit i w)" by simp
  then show ?thesis using \<open>i \<le> j\<close> by (simp only: drop_bit_drop_bit le_add_diff_inverse2)
qed

text \<open>Networks that do not overlap have no address in common.\<close>

lemma not_overlaps_disjoint:
  assumes "\<not> overlaps p q" "contains p (V4 a)"
  shows "\<not> contains q (V4 a)"
proof
  assume q: "contains q (V4 a)"
  obtain v w where v: "pfx_addr p = V4 v" and w: "pfx_addr q = V4 w"
    using contains_v4D assms(2) q by blast
  let ?m = "nat (min (pfx_bits p) (pfx_bits q))"
  have pv: "pfx_valid p" "drop_bit (32 - nat (pfx_bits p)) a = drop_bit (32 - nat (pfx_bits p)) v"
    using assms(2) by (simp_all add: contains_v4 [OF v])
  have qw: "pfx_valid q" "drop_bit (32 - nat (pfx_bits q)) a = drop_bit (32 - nat (pfx_bits q)) w"
    using q by (simp_all add: contains_v4 [OF w])
  have "drop_bit (32 - ?m) a = drop_bit (32 - ?m) v" "drop_bit (32 - ?m) a = drop_bit (32 - ?m) w"
    by (rule drop_bit_mono_eq [OF pv(2)], simp, rule drop_bit_mono_eq [OF qw(2)], simp)
  then have "overlaps p q"
    using pv(1) qw(1) v w by (simp add: overlaps_def Let_def)
  with assms(1) show False ..
qed

lemma overlaps_sym: "overlaps p q = overlaps q p"
  by (auto simp: overlaps_def Let_def min.commute split: addr.splits)

lemma drop_bit_net_mask: "k \<le> j \<Longrightarrow> drop_bit j (w AND NOT (mask k)) = drop_bit j (w :: 'a::len word)"
  by (rule bit_word_eqI) (auto simp: bit_simps dest: bit_imp_le_length)

lemma overlaps_masked:
  assumes "is4 (pfx_addr p)" "pfx_valid p"
  shows "overlaps u (masked p) = overlaps u p"
proof -
  obtain w where w: "pfx_addr p = V4 w" using assms(1) by (auto simp: is4_def split: addr.splits)
  have m: "masked p = p\<lparr>pfx_addr := V4 (w AND NOT (mask (32 - nat (pfx_bits p))))\<rparr>"
    using w assms(2) by (simp add: masked_def net_mask_def)
  have "32 - nat (pfx_bits p) \<le> 32 - nat (min (pfx_bits u) (pfx_bits p))" by simp
  then show ?thesis
    unfolding overlaps_def Let_def
    by (cases "pfx_addr u") (simp_all add: m w pfx_valid_def drop_bit_net_mask del: drop_bit_and)
qed

end
