(* ===== verification/Acl.thy ===== *)
theory Acl
  imports Netip
begin

text \<open>
  The access rules of a room, \<^verbatim>\<open>src/internal/acl/acl.go\<close>: the rule language (\<open>acl_Parse\<close>,
  \<open>acl_String\<close>) and the decision (\<open>pol_Allowed\<close>). Errors keep the branch that raised
  them; their texts are not modelled. The parameter \<open>u\<close> holds the Unicode tables that
  lower-casing and case folding of non-ASCII names consult.
\<close>

section \<open>Data\<close>

definition ICMP :: int where "ICMP = 1"
definition TCP :: int where "TCP = 6"
definition UDP :: int where "UDP = 17"

record port_range =
  pr_proto :: int
  pr_first :: u16
  pr_last :: u16

record acl_rule =
  r_from :: "string list"
  r_to :: "string list"
  r_ports :: "port_range list"

record acl_member =
  am_name :: string
  am_ip :: addr
  am_tags :: "string list"

record acl_policy =
  pol_rules :: "acl_rule list"
  pol_members :: "acl_member list"
  pol_subnet :: prefix

datatype acl_error =
    ExpectedAllow string
  | InternetNotTarget
  | EmptyTag
  | BadNetwork string
  | NameTooLong string
  | IcmpHasNoPorts string
  | UnknownProtocol string
  | BadPort string
  | BadPortRange string
  | AtLine nat acl_error
  | TooManyRules nat

section \<open>Parsing\<close>

definition splitSel :: "string \<Rightarrow> string list" where
  "splitSel s = filter (\<lambda>x. x \<noteq> []) (map trim_space (split_on CHR '','' s))"

definition checkSel :: "string \<Rightarrow> bool \<Rightarrow> acl_error option" where
  "checkSel s to =
     (if s = ''*'' then None
      else if s = ''internet'' then (if \<not> to then Some InternetNotTarget else None)
      else if has_prefix s ''tag:'' then (if length s = 4 then Some EmptyTag else None)
      else if CHR ''/'' \<in> set s then
        (case parse_prefix s of None \<Rightarrow> Some (BadNetwork s) | Some _ \<Rightarrow> None)
      else if parse_addr s \<noteq> None then None
      else if length s > 40 then Some (NameTooLong s)
      else None)"

definition parsePorts :: "unicode \<Rightarrow> string \<Rightarrow> acl_error + port_range" where
  "parsePorts u s = (case cut CHR '':'' (to_lower u s) of (proto, rng, _) \<Rightarrow>
     if proto = ''icmp'' then
       (if rng \<noteq> [] then Inl (IcmpHasNoPorts s)
        else Inr \<lparr>pr_proto = ICMP, pr_first = 0, pr_last = 0\<rparr>)
     else if proto \<noteq> ''tcp'' \<and> proto \<noteq> ''udp'' then Inl (UnknownProtocol proto)
     else
       let p = (if proto = ''tcp'' then TCP else UDP) in
       if rng = [] \<or> rng = ''*'' then Inr \<lparr>pr_proto = p, pr_first = 0, pr_last = 65535\<rparr>
       else case cut CHR ''-'' rng of (a, b, isRange) \<Rightarrow>
         (case parse_uint 16 a of
            None \<Rightarrow> Inl (BadPort a)
          | Some first \<Rightarrow>
              if \<not> isRange then
                Inr \<lparr>pr_proto = p, pr_first = of_nat first, pr_last = of_nat first\<rparr>
              else (case parse_uint 16 b of
                  None \<Rightarrow> Inl (BadPortRange rng)
                | Some lst \<Rightarrow>
                    if lst < first then Inl (BadPortRange rng)
                    else Inr \<lparr>pr_proto = p, pr_first = of_nat first, pr_last = of_nat lst\<rparr>)))"

fun first_error :: "('a \<Rightarrow> acl_error option) \<Rightarrow> 'a list \<Rightarrow> acl_error option" where
  "first_error f [] = None"
| "first_error f (x # xs) = (case f x of Some e \<Rightarrow> Some e | None \<Rightarrow> first_error f xs)"

fun parse_all :: "('a \<Rightarrow> acl_error + 'b) \<Rightarrow> 'a list \<Rightarrow> acl_error + 'b list" where
  "parse_all f [] = Inr []"
| "parse_all f (x # xs) = (case f x of Inl e \<Rightarrow> Inl e
     | Inr y \<Rightarrow> (case parse_all f xs of Inl e \<Rightarrow> Inl e | Inr ys \<Rightarrow> Inr (y # ys)))"

definition parseRule :: "unicode \<Rightarrow> string \<Rightarrow> acl_error + acl_rule" where
  "parseRule u line =
     (let f = str_fields line in
      if length f < 4 \<or> f ! 0 \<noteq> ''allow'' \<or> f ! 2 \<noteq> ''->'' then Inl (ExpectedAllow line)
      else
        let from = splitSel (f ! 1); to = splitSel (f ! 3) in
        (case first_error (\<lambda>s. checkSel s False) from of
           Some e \<Rightarrow> Inl e
         | None \<Rightarrow>
           (case first_error (\<lambda>s. checkSel s True) to of
              Some e \<Rightarrow> Inl e
            | None \<Rightarrow>
              (case parse_all (parsePorts u) (concat (map (split_on CHR '','') (drop 4 f))) of
                 Inl e \<Rightarrow> Inl e
               | Inr ps \<Rightarrow> Inr \<lparr>r_from = from, r_to = to, r_ports = ps\<rparr>))))"

fun parse_lines :: "unicode \<Rightarrow> nat \<Rightarrow> string list \<Rightarrow> acl_error + acl_rule list" where
  "parse_lines u i [] = Inr []"
| "parse_lines u i (l # ls) =
     (let line = trim_space l in
      if line = [] \<or> has_prefix line ''#'' then parse_lines u (Suc i) ls
      else case parseRule u line of
          Inl e \<Rightarrow> Inl (AtLine (i + 1) e)
        | Inr r \<Rightarrow> (case parse_lines u (Suc i) ls of Inl e \<Rightarrow> Inl e | Inr rs \<Rightarrow> Inr (r # rs)))"

definition acl_Parse :: "unicode \<Rightarrow> string \<Rightarrow> acl_error + acl_rule list" where
  "acl_Parse u text = (case parse_lines u 0 (split_on (CHR 0x0A) text) of
     Inl e \<Rightarrow> Inl e
   | Inr rules \<Rightarrow> if length rules > 500 then Inl (TooManyRules (length rules)) else Inr rules)"

section \<open>Printing\<close>

definition proto_name :: "int \<Rightarrow> string" where
  "proto_name p = (if p = TCP then ''tcp'' else if p = UDP then ''udp''
     else if p = ICMP then ''icmp'' else [])"

definition PortRange_String :: "port_range \<Rightarrow> string" where
  "PortRange_String p =
     (let name = proto_name (pr_proto p) in
      if pr_proto p = ICMP then name
      else if pr_first p = 0 \<and> pr_last p = 65535 then name @ '':*''
      else if pr_first p = pr_last p then name @ '':'' @ dec (unat (pr_first p))
      else name @ '':'' @ dec (unat (pr_first p)) @ ''-'' @ dec (unat (pr_last p)))"

definition rule_line :: "acl_rule \<Rightarrow> string" where
  "rule_line r = ''allow '' @ join '','' (r_from r) @ '' -> '' @ join '','' (r_to r) @
     concat (map (\<lambda>p. '' '' @ PortRange_String p) (r_ports r))"

definition acl_String :: "acl_rule list \<Rightarrow> string" where
  "acl_String rules = concat (map (\<lambda>r. rule_line r @ [CHR 0x0A]) rules)"

section \<open>The decision\<close>

definition pol_member :: "acl_policy \<Rightarrow> addr \<Rightarrow> acl_member option" where
  "pol_member pol ip = List.find (\<lambda>m. am_ip m = ip) (pol_members pol)"

definition pol_matches :: "unicode \<Rightarrow> acl_policy \<Rightarrow> string \<Rightarrow> addr \<Rightarrow> bool \<Rightarrow> bool" where
  "pol_matches u pol sel a to =
     (let m = pol_member pol a in
      if sel = ''*'' then True
      else if sel = ''internet'' then to \<and> \<not> contains (pol_subnet pol) a
      else if has_prefix sel ''tag:'' then
        (case m of None \<Rightarrow> False | Some m \<Rightarrow> drop 4 sel \<in> set (am_tags m))
      else if CHR ''/'' \<in> set sel then
        (case parse_prefix sel of None \<Rightarrow> False | Some p \<Rightarrow> contains p a)
      else case parse_addr sel of
          Some b \<Rightarrow> b = a
        | None \<Rightarrow> (case m of None \<Rightarrow> False | Some m \<Rightarrow> equal_fold u (am_name m) sel))"

definition pol_any :: "unicode \<Rightarrow> acl_policy \<Rightarrow> string list \<Rightarrow> addr \<Rightarrow> bool \<Rightarrow> bool" where
  "pol_any u pol sels a to = list_ex (\<lambda>s. pol_matches u pol s a to) sels"

definition port_ok :: "int \<Rightarrow> u16 \<Rightarrow> port_range \<Rightarrow> bool" where
  "port_ok proto port p =
     (pr_proto p = proto \<and> (proto = ICMP \<or> pr_first p \<le> port \<and> port \<le> pr_last p))"

fun allowed_from :: "unicode \<Rightarrow> acl_policy \<Rightarrow> addr \<Rightarrow> addr \<Rightarrow> int \<Rightarrow> u16 \<Rightarrow> int \<Rightarrow> acl_rule list \<Rightarrow> bool \<times> int" where
  "allowed_from u pol src dst proto port i [] = (False, -1)"
| "allowed_from u pol src dst proto port i (r # rs) =
     (if \<not> pol_any u pol (r_from r) src False \<or> \<not> pol_any u pol (r_to r) dst True
      then allowed_from u pol src dst proto port (i + 1) rs
      else if r_ports r = [] then (True, i)
      else if list_ex (port_ok proto port) (r_ports r) then (True, i)
      else allowed_from u pol src dst proto port (i + 1) rs)"

definition pol_Allowed :: "unicode \<Rightarrow> acl_policy \<Rightarrow> addr \<Rightarrow> addr \<Rightarrow> int \<Rightarrow> u16 \<Rightarrow> bool \<times> int" where
  "pol_Allowed u pol src dst proto port =
     (if pol_rules pol = [] then (True, -1)
      else allowed_from u pol src dst proto port 0 (pol_rules pol))"

section \<open>The first matching rule decides\<close>

definition rule_permits :: "unicode \<Rightarrow> acl_policy \<Rightarrow> addr \<Rightarrow> addr \<Rightarrow> int \<Rightarrow> u16 \<Rightarrow> acl_rule \<Rightarrow> bool" where
  "rule_permits u pol src dst proto port r \<longleftrightarrow>
     pol_any u pol (r_from r) src False \<and> pol_any u pol (r_to r) dst True \<and>
     (r_ports r = [] \<or> (\<exists>p \<in> set (r_ports r). port_ok proto port p))"

lemma allowed_from_find:
  "allowed_from u pol src dst proto port i rs =
     (case find_index (rule_permits u pol src dst proto port) rs of
        None \<Rightarrow> (False, -1) | Some k \<Rightarrow> (True, i + int k))"
  by (induction rs arbitrary: i)
    (auto simp: rule_permits_def list_ex_iff split: option.splits)


lemma fst_pol_Allowed: "fst (pol_Allowed u pol src dst proto port) \<longleftrightarrow>
  pol_rules pol = [] \<or> (\<exists>r \<in> set (pol_rules pol). rule_permits u pol src dst proto port r)"
  by (auto simp: pol_Allowed_def allowed_from_find find_index_None [symmetric] split: option.splits)
    (metis find_index_None option.distinct(1))+

section \<open>Printed rules parse back\<close>

lemma splitSel_no_space: "no_space s \<Longrightarrow> splitSel s = filter (\<lambda>x. x \<noteq> []) (split_on CHR '','' s)"
  unfolding splitSel_def by (metis (mono_tags, lifting) map_idI split_on_no_space trim_space_no_space)

definition wf_sel :: "string \<Rightarrow> bool \<Rightarrow> bool" where
  "wf_sel s to \<longleftrightarrow> s \<noteq> [] \<and> no_space s \<and> CHR '','' \<notin> set s \<and> checkSel s to = None"

definition wf_ports :: "port_range \<Rightarrow> bool" where
  "wf_ports p \<longleftrightarrow> pr_proto p = ICMP \<and> pr_first p = 0 \<and> pr_last p = 0 \<or>
     pr_proto p \<in> {TCP, UDP} \<and> pr_first p \<le> pr_last p"

definition wf_rule :: "acl_rule \<Rightarrow> bool" where
  "wf_rule r \<longleftrightarrow> r_from r \<noteq> [] \<and> r_to r \<noteq> [] \<and> (\<forall>s \<in> set (r_from r). wf_sel s False) \<and>
     (\<forall>s \<in> set (r_to r). wf_sel s True) \<and> (\<forall>p \<in> set (r_ports r). wf_ports p)"

text \<open>What the parser returns is well formed, up to empty selector lists.\<close>

lemma parsePorts_wf: "parsePorts u s = Inr p \<Longrightarrow> wf_ports p"
  by (auto simp: parsePorts_def wf_ports_def Let_def word_le_nat_alt unat_of_nat_u16
      split: prod.splits if_splits option.splits dest!: parse_uint_bound)

lemma parse_all_map: "(\<And>x. x \<in> set xs \<Longrightarrow> f (g x) = Inr x) \<Longrightarrow> parse_all f (map g xs) = Inr xs"
  by (induction xs) auto

lemma parse_all_wf: "parse_all (parsePorts u) xs = Inr ps \<Longrightarrow> p \<in> set ps \<Longrightarrow> wf_ports p"
  by (induction xs arbitrary: ps) (auto intro: parsePorts_wf split: sum.splits)

lemma first_error_None: "first_error f xs = None \<longleftrightarrow> (\<forall>x \<in> set xs. f x = None)"
  by (induction xs) (auto split: option.splits)

lemma splitSel_wf:
  "no_space s \<Longrightarrow> x \<in> set (splitSel s) \<Longrightarrow> checkSel x to = None \<Longrightarrow> wf_sel x to"
  by (auto simp: splitSel_no_space wf_sel_def dest: split_on_no_space split_on_no_sep)

lemma parseRule_wf:
  assumes "parseRule u line = Inr r" "r_from r \<noteq> []" "r_to r \<noteq> []"
  shows "wf_rule r"
proof -
  let ?f = "str_fields line"
  from assms(1) obtain ps where f: "4 \<le> length ?f"
    and r: "r = \<lparr>r_from = splitSel (?f ! 1), r_to = splitSel (?f ! 3), r_ports = ps\<rparr>"
    and from_ok: "\<forall>s \<in> set (splitSel (?f ! 1)). checkSel s False = None"
    and to_ok: "\<forall>s \<in> set (splitSel (?f ! 3)). checkSel s True = None"
    and ports: "parse_all (parsePorts u) (concat (map (split_on CHR '','') (drop 4 ?f))) = Inr ps"
    by (auto simp: parseRule_def Let_def first_error_None split: if_splits option.splits sum.splits)
  have "no_space (?f ! 1)" "no_space (?f ! 3)"
    using f by (auto intro!: fields_words [of _ line, THEN conjunct1])
  with assms from_ok to_ok show ?thesis
    by (auto simp: wf_rule_def r intro: splitSel_wf parse_all_wf [OF ports])
qed

lemma parse_lines_wf: "parse_lines u i ls = Inr rs \<Longrightarrow> r \<in> set rs \<Longrightarrow>
  r_from r \<noteq> [] \<Longrightarrow> r_to r \<noteq> [] \<Longrightarrow> wf_rule r"
  by (induction u i ls arbitrary: rs rule: parse_lines.induct)
    (auto simp: Let_def intro: parseRule_wf split: if_splits sum.splits)

lemma acl_Parse_wf: "acl_Parse u text = Inr rs \<Longrightarrow> r \<in> set rs \<Longrightarrow>
  r_from r \<noteq> [] \<Longrightarrow> r_to r \<noteq> [] \<Longrightarrow> wf_rule r"
  by (auto simp: acl_Parse_def intro: parse_lines_wf split: sum.splits if_splits)

lemma of_nat_unat_u16 [simp]: "(of_nat (unat (w :: u16)) :: u16) = w"
  by simp

lemma dec_u16: "parse_uint 16 (dec (unat (w :: u16))) = Some (unat w)"
  by (rule parse_uint_dec) (use unat_u16_less [of w] in simp)

lemma digit_plain: "is_digit c \<Longrightarrow> ascii_char c \<and> \<not> ascii_space c \<and> ascii_lower c = c"
  by (auto simp: is_digit_def ascii_char_def ascii_space_def ascii_lower_def Let_def)

definition plain :: "string \<Rightarrow> bool" where
  "plain s = list_all (\<lambda>c. ascii_char c \<and> \<not> ascii_space c \<and> ascii_lower c = c) s"

lemma plain_append [simp]: "plain (s @ t) \<longleftrightarrow> plain s \<and> plain t"
  by (simp add: plain_def)

lemma plain_Cons [simp]: "plain (c # t) \<longleftrightarrow>
  (ascii_char c \<and> \<not> ascii_space c \<and> ascii_lower c = c) \<and> plain t"
  by (simp add: plain_def)

lemma plain_dec [simp]: "plain (dec n)"
  using dec_digits [of n] by (auto simp: plain_def list_all_iff digit_plain)

lemma plain_no_space: "plain s \<Longrightarrow> no_space s"
  by (rule no_space_ascii) (auto simp: plain_def list_all_iff)

lemma to_lower_plain: "plain s \<Longrightarrow> to_lower u s = s"
  by (auto simp: plain_def to_lower_def is_ascii_def ascii_char_def list_all_iff map_idI)

lemma plain_chars: "plain [] = True"
  by (simp add: plain_def)

lemmas char_class = ascii_char_def ascii_space_def ascii_lower_def

lemma plain_PortRange_String: "wf_ports p \<Longrightarrow> plain (PortRange_String p)"
  by (auto simp: wf_ports_def PortRange_String_def proto_name_def ICMP_def TCP_def UDP_def Let_def
      plain_chars char_class)

lemma PortRange_String_ne: "wf_ports p \<Longrightarrow> PortRange_String p \<noteq> []"
  by (auto simp: wf_ports_def PortRange_String_def proto_name_def ICMP_def TCP_def UDP_def Let_def)

lemma PortRange_String_no_comma: "wf_ports p \<Longrightarrow> CHR '','' \<notin> set (PortRange_String p)"
  by (auto simp: wf_ports_def PortRange_String_def proto_name_def ICMP_def TCP_def UDP_def Let_def
      dec_no_char)

lemma dec_ne_star: "dec n \<noteq> ''*''"
  using dec_digits [of n] by (auto simp: is_digit_def)

lemma dec_dash_ne_star: "dec n @ CHR ''-'' # s \<noteq> ''*''"
  by (cases "dec n") (simp_all add: dec_ne)

lemma cut_dec: "cut CHR ''-'' (dec n) = (dec n, [], False)"
  by (simp add: cut_fresh dec_no_char)

lemma cut_dec_dash: "cut CHR ''-'' (dec n @ CHR ''-'' # s) = (dec n, s, True)"
  by (simp add: cut_append dec_no_char)

lemma parsePorts_PortRange_String:
  assumes "wf_ports p"
  shows "parsePorts u (PortRange_String p) = Inr p"
proof -
  note low = to_lower_plain [OF plain_PortRange_String [OF assms]]
  show ?thesis
    using assms unfolding parsePorts_def low
    by (cases p)
      (auto simp: wf_ports_def PortRange_String_def proto_name_def ICMP_def TCP_def UDP_def Let_def
        dec_ne_star dec_dash_ne_star cut_dec cut_dec_dash dec_u16 word_le_nat_alt)
qed

section \<open>A printed policy\<close>

lemma join_map_words: "join '' '' (w # map g xs) = w @ concat (map (\<lambda>x. '' '' @ g x) xs)"
  by (induction xs arbitrary: w) simp_all

abbreviation rule_word_list :: "acl_rule \<Rightarrow> string list" where
  "rule_word_list r \<equiv> ''allow'' # join '','' (r_from r) # ''->'' # join '','' (r_to r) #
     map PortRange_String (r_ports r)"

lemma rule_line_join: "rule_line r = join '' '' (rule_word_list r)"
  by (simp add: rule_line_def join_map_words)

lemma wf_sel_join:
  assumes "ss \<noteq> []" "\<And>s. s \<in> set ss \<Longrightarrow> wf_sel s to"
  shows "no_space (join '','' ss)" "join '','' ss \<noteq> []" "splitSel (join '','' ss) = ss"
proof -
  show ns: "no_space (join '','' ss)"
    by (rule no_space_join) (use assms in \<open>auto simp: wf_sel_def char_class\<close>)
  show "join '','' ss \<noteq> []"
    using assms by (auto simp: join_eq_Nil wf_sel_def)
  have "split_on CHR '','' (join '','' ss) = ss"
    by (rule split_on_join) (use assms in \<open>auto simp: wf_sel_def\<close>)
  then show "splitSel (join '','' ss) = ss"
    using assms by (auto simp: splitSel_no_space [OF ns] wf_sel_def filter_id_conv)
qed

lemma rule_words:
  assumes "wf_rule r" "w \<in> set (rule_word_list r)"
  shows "no_space w \<and> w \<noteq> []"
proof -
  have "no_space ''allow''" "no_space ''->''"
    by (rule no_space_ascii, simp add: char_class)+
  then show ?thesis
    using assms wf_sel_join [of "r_from r" False] wf_sel_join [of "r_to r" True]
    by (auto simp: wf_rule_def plain_no_space plain_PortRange_String PortRange_String_ne)
qed

lemma ports_split:
  "(\<And>p. p \<in> set ps \<Longrightarrow> wf_ports p) \<Longrightarrow>
   concat (map (split_on CHR '','') (map PortRange_String ps)) = map PortRange_String ps"
  by (induction ps) (auto simp: split_on_fresh PortRange_String_no_comma)

lemma parseRule_rule_line:
  assumes wf: "wf_rule r"
  shows "parseRule u (rule_line r) = Inr r"
proof -
  have f: "str_fields (rule_line r) = rule_word_list r"
    unfolding rule_line_join by (rule str_fields_join) (rule rule_words [OF wf])
  have ports: "parse_all (parsePorts u) (map PortRange_String (r_ports r)) = Inr (r_ports r)"
    by (rule parse_all_map) (use wf in \<open>simp add: wf_rule_def parsePorts_PortRange_String\<close>)
  have sels: "splitSel (join '','' (r_from r)) = r_from r" "splitSel (join '','' (r_to r)) = r_to r"
    using wf wf_sel_join [of "r_from r" False] wf_sel_join [of "r_to r" True]
    by (auto simp: wf_rule_def)
  have errs: "first_error (\<lambda>s. checkSel s False) (r_from r) = None"
    "first_error (\<lambda>s. checkSel s True) (r_to r) = None"
    using wf by (auto simp: first_error_None wf_rule_def wf_sel_def)
  have split: "concat (map (split_on CHR '','') (map PortRange_String (r_ports r))) =
      map PortRange_String (r_ports r)"
    by (rule ports_split) (use wf in \<open>simp add: wf_rule_def\<close>)
  show ?thesis
    using split by (simp add: parseRule_def f sels errs ports)
qed

lemma rule_line_trim: "wf_rule r \<Longrightarrow> trim_space (rule_line r) = rule_line r"
  unfolding rule_line_join by (rule trim_space_join) (rule rule_words)

lemma rule_line_no_newline: "wf_rule r \<Longrightarrow> CHR 0x0A \<notin> set (rule_line r)"
proof
  assume wf: "wf_rule r" and nl: "CHR 0x0A \<in> set (rule_line r)"
  have "CHR 0x0A \<in> set '' '' \<union> (\<Union>w \<in> set (rule_word_list r). set w)"
    using nl set_join [of "'' ''" "rule_word_list r"] unfolding rule_line_join by (rule rev_subsetD)
  then obtain w where "w \<in> set (rule_word_list r)" "CHR 0x0A \<in> set w"
    by (simp only: Un_iff UN_iff list.set singleton_iff char.inject) auto
  then show False
    using rule_words [OF wf] no_space_no_char [OF _ ascii_space_char(2), of w] by blast
qed

lemma split_acl_String: "(\<And>r. r \<in> set rs \<Longrightarrow> wf_rule r) \<Longrightarrow>
  split_on (CHR 0x0A) (acl_String rs) = map rule_line rs @ [[]]"
  by (induction rs) (simp_all add: acl_String_def split_on_append rule_line_no_newline)

lemma parse_lines_printed: "(\<And>r. r \<in> set rs \<Longrightarrow> wf_rule r) \<Longrightarrow>
  parse_lines u i (map rule_line rs @ [[]]) = Inr rs"
proof (induction rs arbitrary: i)
  case Nil
  then show ?case by (simp add: trim_space_id space_len_def space_len_rev_def)
next
  case (Cons r rs)
  have "rule_line r \<noteq> []" "\<not> has_prefix (rule_line r) ''#''"
    by (simp_all add: rule_line_def has_prefix_def)
  with Cons show ?case by (simp add: rule_line_trim parseRule_rule_line)
qed

lemma acl_Parse_String: "(\<And>r. r \<in> set rs \<Longrightarrow> wf_rule r) \<Longrightarrow> length rs \<le> 500 \<Longrightarrow>
  acl_Parse u (acl_String rs) = Inr rs"
  by (simp add: acl_Parse_def split_acl_String parse_lines_printed)

text \<open>C32: rules that the parser accepted, printed and parsed again, are the same rules,
  provided every rule names at least one source and one target.\<close>

theorem acl_print_parse:
  assumes "acl_Parse u text = Inr rs"
    and "\<And>r. r \<in> set rs \<Longrightarrow> r_from r \<noteq> [] \<and> r_to r \<noteq> []"
  shows "acl_Parse u (acl_String rs) = Inr rs"
proof (rule acl_Parse_String)
  show "wf_rule r" if "r \<in> set rs" for r
    using acl_Parse_wf [OF assms(1) that] assms(2) [OF that] by blast
  show "length rs \<le> 500"
    using assms(1) by (auto simp: acl_Parse_def split: sum.splits if_splits)
qed

theorem acl_print_parse_witness:
  "acl_Parse plain_tables (acl_String
     [\<lparr>r_from = [''tag:a'', ''bob''], r_to = [''10.0.0.0/8''],
       r_ports = [\<lparr>pr_proto = 6, pr_first = 22, pr_last = 22\<rparr>]\<rparr>]) =
   Inr [\<lparr>r_from = [''tag:a'', ''bob''], r_to = [''10.0.0.0/8''],
       r_ports = [\<lparr>pr_proto = 6, pr_first = 22, pr_last = 22\<rparr>]\<rparr>]"
proof (rule acl_print_parse)
  show "acl_Parse plain_tables ''allow tag:a,,bob -> 10.0.0.0/8 TCP:22'' =
    Inr [\<lparr>r_from = [''tag:a'', ''bob''], r_to = [''10.0.0.0/8''],
       r_ports = [\<lparr>pr_proto = 6, pr_first = 22, pr_last = 22\<rparr>]\<rparr>]"
    by code_simp
qed auto

text \<open>a rule whose selector list is only separators is accepted, with no source at all
  (it can never match), and its printed form is refused by the parser.\<close>

theorem acl_empty_selectors:
  "acl_Parse u ''allow , -> *'' = Inr [\<lparr>r_from = [], r_to = [''*''], r_ports = []\<rparr>] \<and>
   \<not> rule_permits u pol src dst proto port \<lparr>r_from = [], r_to = [''*''], r_ports = []\<rparr> \<and>
   acl_Parse u (acl_String [\<lparr>r_from = [], r_to = [''*''], r_ports = []\<rparr>]) =
     Inl (AtLine 1 (ExpectedAllow ''allow  -> *''))"
proof (intro conjI)
  show "acl_Parse u ''allow , -> *'' = Inr [\<lparr>r_from = [], r_to = [''*''], r_ports = []\<rparr>]"
    by code_simp
  show "acl_Parse u (acl_String [\<lparr>r_from = [], r_to = [''*''], r_ports = []\<rparr>]) =
      Inl (AtLine 1 (ExpectedAllow ''allow  -> *''))"
    by code_simp
qed (simp add: rule_permits_def pol_any_def)

end
