(* ===== verification/Acl_Filter.thy ===== *)
theory Acl_Filter
  imports Acl "HOL-Library.AList"
begin

text \<open>
  The stateful packet filter of a room member, \<^verbatim>\<open>src/internal/acl/filter.go\<close>. The Go map of
  flows is an association list with distinct keys (its length is \<^verbatim>\<open>len\<close>, and no use of it
  depends on iteration order). The clock is an argument. \<open>None\<close> is the panic that
  \<^verbatim>\<open>lastAddr\<close> raises for a room network that is not IPv4.
\<close>

record flow =
  fl_proto :: byte
  fl_src :: addr
  fl_dst :: addr
  fl_sport :: u16
  fl_dport :: u16

record filter =
  flt_pol :: acl_policy
  flt_self :: addr
  flt_flows :: "(flow \<times> time) list"
  flt_swept :: time

definition GossipPort :: u16 where "GossipPort = 4798"
definition flowTTL :: duration where "flowTTL = 5 * minute"
definition maxFlows :: int where "maxFlows = 65536"

definition NewFilter :: "acl_policy \<Rightarrow> addr \<Rightarrow> filter" where
  "NewFilter pol self = \<lparr>flt_pol = pol, flt_self = self, flt_flows = [], flt_swept = 0\<rparr>"

record header =
  h_ok :: bool
  h_proto :: byte
  h_src :: addr
  h_dst :: addr
  h_sport :: u16
  h_dport :: u16
  h_first :: bool

definition no_header :: header where
  "no_header = \<lparr>h_ok = False, h_proto = 0, h_src = NoAddr, h_dst = NoAddr,
     h_sport = 0, h_dport = 0, h_first = False\<rparr>"

definition parse_header :: "bytes \<Rightarrow> header" where
  "parse_header pkt =
     (if length pkt < 20 \<or> drop_bit 4 (pkt ! 0) \<noteq> 4 then no_header
      else
        let ihl = unat (pkt ! 0 AND 0x0f) * 4;
            proto = pkt ! 9;
            first = (be16 (pkt ! 6) (pkt ! 7) AND 0x1fff = 0);
            ports = (first \<and> (uint proto = TCP \<or> uint proto = UDP) \<and> length pkt \<ge> ihl + 4)
        in \<lparr>h_ok = True, h_proto = proto,
            h_src = addr_from4 (bslice 12 16 pkt), h_dst = addr_from4 (bslice 16 20 pkt),
            h_sport = (if ports then be16 (pkt ! ihl) (pkt ! (ihl + 1)) else 0),
            h_dport = (if ports then be16 (pkt ! (ihl + 2)) (pkt ! (ihl + 3)) else 0),
            h_first = first\<rparr>)"

definition flow_of :: "header \<Rightarrow> flow" where
  "flow_of h = \<lparr>fl_proto = h_proto h, fl_src = h_src h, fl_dst = h_dst h,
     fl_sport = h_sport h, fl_dport = h_dport h\<rparr>"

definition reply_of :: "header \<Rightarrow> flow" where
  "reply_of h = \<lparr>fl_proto = h_proto h, fl_src = h_dst h, fl_dst = h_src h,
     fl_sport = h_dport h, fl_dport = h_sport h\<rparr>"

definition rememberLocked :: "filter \<Rightarrow> flow \<Rightarrow> time \<Rightarrow> filter" where
  "rememberLocked f k now =
     (let f1 = (if maxFlows \<le> int (length (flt_flows f)) \<and> second < time_sub now (flt_swept f)
          then f\<lparr>flt_flows := List.filter (\<lambda>(x, t). \<not> flowTTL < time_sub now t) (flt_flows f),
                 flt_swept := now\<rparr>
          else f)
      in if int (length (flt_flows f1)) < maxFlows
         then f1\<lparr>flt_flows := AList.update k now (flt_flows f1)\<rparr>
         else f1)"

definition Outbound :: "filter \<Rightarrow> bytes \<Rightarrow> time \<Rightarrow> filter" where
  "Outbound f pkt now = (let h = parse_header pkt in
     if \<not> h_ok h then f else rememberLocked f (flow_of h) now)"

text \<open>A broadcast counts as addressed to this member.\<close>

definition inbound_dst :: "filter \<Rightarrow> addr \<Rightarrow> addr option" where
  "inbound_dst f dst =
     (if is_multicast dst \<or> dst = V4 0xffffffff then Some (flt_self f)
      else if pfx_valid (pol_subnet (flt_pol f)) then
        (case last_addr (pol_subnet (flt_pol f)) of
           None \<Rightarrow> None
         | Some l \<Rightarrow> Some (if dst = l then flt_self f else dst))
      else Some dst)"

definition live_flow :: "(flow \<times> time) list \<Rightarrow> flow \<Rightarrow> time \<Rightarrow> bool" where
  "live_flow fs k now = (case map_of fs k of None \<Rightarrow> False | Some t \<Rightarrow> time_sub now t < flowTTL)"

definition icmp_match :: "header \<Rightarrow> time \<Rightarrow> flow \<times> time \<Rightarrow> bool" where
  "icmp_match h now e = (case e of (k, t) \<Rightarrow>
     uint (fl_proto k) = ICMP \<and> fl_src k = h_dst h \<and> fl_dst k = h_src h \<and> time_sub now t < flowTTL)"

definition is_gossip :: "filter \<Rightarrow> header \<Rightarrow> bool" where
  "is_gossip f h = ((uint (h_proto h) = TCP \<or> uint (h_proto h) = UDP) \<and>
     h_dst h = flt_self f \<and> h_dport h = GossipPort)"

definition Inbound :: "unicode \<Rightarrow> filter \<Rightarrow> bytes \<Rightarrow> time \<Rightarrow> (bool \<times> filter) option" where
  "Inbound u f pkt now = (let h = parse_header pkt in
     if \<not> h_ok h then Some (True, f)
     else if \<not> h_first h then Some (True, f)
     else if live_flow (flt_flows f) (reply_of h) now
       then Some (True, f\<lparr>flt_flows := AList.update (reply_of h) now (flt_flows f)\<rparr>)
     else if uint (h_proto h) = ICMP \<and> list_ex (icmp_match h now) (flt_flows f)
       then Some (True, f)
     else if is_gossip f h then Some (True, f)
     else case inbound_dst f (h_dst h) of
         None \<Rightarrow> None
       | Some dst \<Rightarrow>
           (if fst (pol_Allowed u (flt_pol f) (h_src h) dst (uint (h_proto h)) (h_dport h))
            then Some (True, rememberLocked f (flow_of h) now)
            else Some (False, f)))"

section \<open>The flow table\<close>

definition filter_inv :: "filter \<Rightarrow> bool" where
  "filter_inv f \<longleftrightarrow> distinct (map fst (flt_flows f)) \<and> int (length (flt_flows f)) \<le> maxFlows"

lemma NewFilter_inv [go_inv]: "filter_inv (NewFilter pol self)"
  by (simp add: filter_inv_def NewFilter_def maxFlows_def)

lemma length_update_le: "length (AList.update k v xs) \<le> Suc (length xs)"
  by (induction xs) auto

lemma length_update_mem: "k \<in> fst ` set xs \<Longrightarrow> length (AList.update k v xs) = length xs"
  by (induction xs) auto

lemma distinct_fst_filter: "distinct (map fst xs) \<Longrightarrow> distinct (map fst (List.filter p xs))"
  by (induction xs) auto

definition sweep :: "filter \<Rightarrow> time \<Rightarrow> filter" where
  "sweep f now = (if maxFlows \<le> int (length (flt_flows f)) \<and> second < time_sub now (flt_swept f)
     then f\<lparr>flt_flows := List.filter (\<lambda>(x, t). \<not> flowTTL < time_sub now t) (flt_flows f),
            flt_swept := now\<rparr>
     else f)"

lemma rememberLocked_sweep: "rememberLocked f k now =
  (if int (length (flt_flows (sweep f now))) < maxFlows
   then (sweep f now)\<lparr>flt_flows := AList.update k now (flt_flows (sweep f now))\<rparr> else sweep f now)"
  by (simp add: rememberLocked_def sweep_def Let_def)

lemma sweep_inv: "filter_inv f \<Longrightarrow> filter_inv (sweep f now)"
  unfolding filter_inv_def sweep_def
  by (auto simp: distinct_fst_filter intro!: order_trans [OF of_nat_mono [OF length_filter_le]])

lemma rememberLocked_inv [go_inv]:
  assumes "filter_inv f"
  shows "filter_inv (rememberLocked f k now)"
proof -
  have "int (length (AList.update k now xs)) \<le> maxFlows" if "int (length xs) < maxFlows" for xs
    using that length_update_le [of k now xs] by linarith
  then show ?thesis
    using sweep_inv [OF assms, of now]
    by (auto simp: filter_inv_def rememberLocked_sweep distinct_update)
qed

lemma Outbound_inv [go_inv]: "filter_inv f \<Longrightarrow> filter_inv (Outbound f pkt now)"
  by (simp add: Outbound_def Let_def rememberLocked_inv)

lemma live_flow_key: "live_flow fs k now \<Longrightarrow> k \<in> fst ` set fs"
  by (auto simp: live_flow_def split: option.splits dest: map_of_SomeD intro: rev_image_eqI)

lemma Inbound_inv [go_inv]:
  assumes "filter_inv f" "Inbound u f pkt now = Some (b, f')"
  shows "filter_inv f'"
proof -
  have "filter_inv (f\<lparr>flt_flows := AList.update k now (flt_flows f)\<rparr>)"
    if "live_flow (flt_flows f) k now" for k
    using assms(1) live_flow_key [OF that]
    by (simp add: filter_inv_def distinct_update length_update_mem)
  then show ?thesis
    using assms by (auto simp: Inbound_def Let_def rememberLocked_inv split: if_splits option.splits)
qed

section \<open>Runs of a filter\<close>

datatype filter_event = Sent bytes time | Received bytes time

fun filter_step :: "unicode \<Rightarrow> filter \<Rightarrow> filter_event \<Rightarrow> filter option" where
  "filter_step u f (Sent pkt now) = Some (Outbound f pkt now)"
| "filter_step u f (Received pkt now) = map_option snd (Inbound u f pkt now)"

fun filter_run :: "unicode \<Rightarrow> filter \<Rightarrow> filter_event list \<Rightarrow> filter option" where
  "filter_run u f [] = Some f"
| "filter_run u f (e # es) = (case filter_step u f e of None \<Rightarrow> None | Some f' \<Rightarrow> filter_run u f' es)"

lemma filter_step_frame: "filter_step u f e = Some f' \<Longrightarrow> flt_pol f' = flt_pol f \<and> flt_self f' = flt_self f"
  by (cases e) (auto simp: Outbound_def Inbound_def rememberLocked_def Let_def
      split: if_splits option.splits)

lemma filter_step_inv: "filter_inv f \<Longrightarrow> filter_step u f e = Some f' \<Longrightarrow> filter_inv f'"
  by (cases e) (auto intro: go_inv)

lemma filter_run_inv: "filter_inv f \<Longrightarrow> filter_run u f es = Some f' \<Longrightarrow> filter_inv f'"
  by (induction es arbitrary: f) (auto split: option.splits intro: filter_step_inv)

text \<open>whatever packets a member sends and receives, its flow table never holds more than
  65536 flows and never two entries for one flow.\<close>

theorem filter_table_bounded:
  assumes "filter_run u (NewFilter pol self) es = Some f"
  shows "length (flt_flows f) \<le> 65536 \<and> distinct (map fst (flt_flows f))"
  using filter_run_inv [OF NewFilter_inv assms] by (simp add: filter_inv_def maxFlows_def)

definition sample_policy :: acl_policy where
  "sample_policy = \<lparr>pol_rules = [\<lparr>r_from = [''tag:none''], r_to = [''*''], r_ports = []\<rparr>],
     pol_members = [], pol_subnet = \<lparr>pfx_addr = V4 0x0a640100, pfx_bits = 24\<rparr>\<rparr>"

text \<open>UDP from 10.100.1.1 port 5000 to 10.100.1.2 port 53, and the answer.\<close>

definition sample_query :: bytes where
  "sample_query = [0x45, 0, 0, 28, 0, 0, 0, 0, 64, 17, 0, 0, 10, 100, 1, 1, 10, 100, 1, 2,
     19, 136, 0, 53, 0, 8, 0, 0]"

definition sample_answer :: bytes where
  "sample_answer = [0x45, 0, 0, 28, 0, 0, 0, 0, 64, 17, 0, 0, 10, 100, 1, 2, 10, 100, 1, 1,
     0, 53, 19, 136, 0, 8, 0, 0]"

theorem filter_table_bounded_witness:
  "length (flt_flows (Outbound (NewFilter sample_policy (V4 0x0a640101)) sample_query 0)) \<le> 65536 \<and>
   distinct (map fst (flt_flows (Outbound (NewFilter sample_policy (V4 0x0a640101)) sample_query 0)))"
  by (rule filter_table_bounded [of plain_tables _ _ "[Sent sample_query 0]"]) simp

text \<open>Which packets put a flow into the table: those the member sent, and those the policy
  admitted.\<close>

definition admitted :: "unicode \<Rightarrow> filter \<Rightarrow> header \<Rightarrow> bool" where
  "admitted u f h = (case inbound_dst f (h_dst h) of None \<Rightarrow> False
     | Some dst \<Rightarrow> fst (pol_Allowed u (flt_pol f) (h_src h) dst (uint (h_proto h)) (h_dport h)))"

definition opens :: "unicode \<Rightarrow> filter \<Rightarrow> filter_event \<Rightarrow> flow \<Rightarrow> bool" where
  "opens u f e k = (case e of
     Sent pkt _ \<Rightarrow> h_ok (parse_header pkt) \<and> k = flow_of (parse_header pkt)
   | Received pkt _ \<Rightarrow> h_ok (parse_header pkt) \<and> k = flow_of (parse_header pkt) \<and>
       admitted u f (parse_header pkt))"

definition flow_keys :: "filter \<Rightarrow> flow set" where
  "flow_keys f = dom (map_of (flt_flows f))"

lemma flow_keys_update [simp]:
  "flow_keys (f\<lparr>flt_flows := AList.update k now xs\<rparr>) = insert k (dom (map_of xs))"
  by (simp add: flow_keys_def update_conv')

lemma flow_keys_sweep: "flow_keys (sweep f now) \<subseteq> flow_keys f"
  by (auto simp: flow_keys_def sweep_def dom_map_of_conv_image_fst)

lemma keys_rememberLocked: "flow_keys (rememberLocked f k now) \<subseteq> insert k (flow_keys f)"
  using flow_keys_sweep [of f now] by (auto simp: rememberLocked_sweep flow_keys_def [of "sweep f now"])

lemma live_flow_keys: "live_flow (flt_flows f) k now \<Longrightarrow> k \<in> flow_keys f"
  by (auto simp: live_flow_def flow_keys_def split: option.splits)

text \<open>What a received packet does to the filter: nothing, the refresh of a live flow, or a new
  flow for an admitted packet.\<close>

lemma Inbound_state:
  assumes "Inbound u f pkt now = Some (b, f')"
  shows "f' = f \<or>
    live_flow (flt_flows f) (reply_of (parse_header pkt)) now \<and>
      f' = f\<lparr>flt_flows := AList.update (reply_of (parse_header pkt)) now (flt_flows f)\<rparr> \<or>
    h_ok (parse_header pkt) \<and> admitted u f (parse_header pkt) \<and>
      f' = rememberLocked f (flow_of (parse_header pkt)) now"
  using assms unfolding Inbound_def admitted_def Let_def
  by (simp split: if_splits option.splits)

lemma filter_step_keys:
  assumes "filter_step u f e = Some f'" "k \<in> flow_keys f'"
  shows "k \<in> flow_keys f \<or> opens u f e k"
proof (cases e)
  case (Sent pkt now)
  with assms show ?thesis
    using keys_rememberLocked [of f "flow_of (parse_header pkt)" now]
    by (auto simp: Outbound_def Let_def opens_def split: if_splits)
next
  case (Received pkt now)
  with assms obtain b where "Inbound u f pkt now = Some (b, f')" by auto
  then consider "f' = f"
    | "live_flow (flt_flows f) (reply_of (parse_header pkt)) now"
      "f' = f\<lparr>flt_flows := AList.update (reply_of (parse_header pkt)) now (flt_flows f)\<rparr>"
    | "h_ok (parse_header pkt)" "admitted u f (parse_header pkt)"
      "f' = rememberLocked f (flow_of (parse_header pkt)) now"
    using Inbound_state by blast
  then show ?thesis
  proof cases
    case 2
    with assms(2) live_flow_keys [OF 2(1)] show ?thesis by (auto simp: flow_keys_def update_conv' split: if_splits)
  next
    case 3
    with assms(2) Received show ?thesis
      using keys_rememberLocked [of f "flow_of (parse_header pkt)" now] by (auto simp: opens_def)
  qed (use assms in simp)
qed

lemma admitted_frame: "flt_pol f' = flt_pol f \<Longrightarrow> flt_self f' = flt_self f \<Longrightarrow> admitted u f' h = admitted u f h"
  by (simp add: admitted_def inbound_dst_def split: option.split)

lemma opens_frame: "flt_pol f' = flt_pol f \<Longrightarrow> flt_self f' = flt_self f \<Longrightarrow> opens u f' e k = opens u f e k"
  by (simp add: opens_def admitted_frame [of f' f] split: filter_event.split)

lemma filter_run_keys:
  "filter_run u f es = Some f' \<Longrightarrow> k \<in> flow_keys f' \<Longrightarrow>
   k \<in> flow_keys f \<or> (\<exists>e \<in> set es. opens u f e k)"
proof (induction es arbitrary: f)
  case (Cons e es)
  from Cons.prems(1) obtain g where g: "filter_step u f e = Some g" "filter_run u g es = Some f'"
    by (simp split: option.splits)
  have "opens u g x k = opens u f x k" for x
    using filter_step_frame [OF g(1)] by (intro opens_frame) simp_all
  then have "k \<in> flow_keys g \<or> (\<exists>x \<in> set es. opens u f x k)"
    using Cons.IH [OF g(2) Cons.prems(2)] by simp
  then show ?case
  proof
    assume "k \<in> flow_keys g"
    then have "k \<in> flow_keys f \<or> opens u f e k" by (rule filter_step_keys [OF g(1)])
    then show ?thesis by (simp only: list.set_intros bex_simps set_simps) blast
  qed (simp only: list.set_intros set_simps, blast)
qed simp

lemma filter_run_frame:
  "filter_run u f es = Some f' \<Longrightarrow> flt_pol f' = flt_pol f \<and> flt_self f' = flt_self f"
  by (induction es arbitrary: f) (auto split: option.splits dest!: filter_step_frame)

text \<open>The packets that may pass a filter after a history of events: not IPv4, a later
  fragment, a config exchange, admitted by the policy, or answering (in ICMP: between the same
  addresses as) a packet of the history that the member sent or the policy admitted.\<close>

definition answers :: "header \<Rightarrow> flow \<Rightarrow> bool" where
  "answers h k \<longleftrightarrow> k = reply_of h \<or>
     uint (h_proto h) = ICMP \<and> uint (fl_proto k) = ICMP \<and> fl_src k = h_dst h \<and> fl_dst k = h_src h"

definition may_pass :: "unicode \<Rightarrow> filter \<Rightarrow> filter_event list \<Rightarrow> header \<Rightarrow> bool" where
  "may_pass u f es h \<longleftrightarrow> \<not> h_ok h \<or> \<not> h_first h \<or> is_gossip f h \<or> admitted u f h \<or>
     (\<exists>e \<in> set es. \<exists>k. opens u f e k \<and> answers h k)"

lemma Inbound_True:
  assumes "Inbound u f pkt now = Some (True, f')" "h_ok (parse_header pkt)" "h_first (parse_header pkt)"
  shows "is_gossip f (parse_header pkt) \<or> admitted u f (parse_header pkt) \<or>
    (\<exists>k \<in> flow_keys f. answers (parse_header pkt) k)"
proof -
  let ?h = "parse_header pkt"
  have "\<exists>k \<in> flow_keys f. answers ?h k" if "list_ex (icmp_match ?h now) (flt_flows f)" "uint (h_proto ?h) = ICMP"
    using that by (force simp: list_ex_iff icmp_match_def answers_def flow_keys_def dom_map_of_conv_image_fst)
  moreover have "\<exists>k \<in> flow_keys f. answers ?h k" if "live_flow (flt_flows f) (reply_of ?h) now"
    using live_flow_keys [OF that] by (auto simp: answers_def)
  ultimately show ?thesis
    using assms by (auto simp: Inbound_def admitted_def Let_def split: if_splits option.splits)
qed

text \<open>C10: the filter lets a packet through only for one of the documented reasons. After any
  history, a first fragment of IPv4 passes only if it goes to the config exchange port, or the
  rules allow it, or it answers a packet that this member sent or that the rules allowed.\<close>

theorem filter_sound:
  assumes run: "filter_run u (NewFilter pol self) es = Some f"
    and pass: "Inbound u f pkt now = Some (True, f')"
  shows "may_pass u (NewFilter pol self) es (parse_header pkt)"
proof (cases "h_ok (parse_header pkt) \<and> h_first (parse_header pkt)")
  case True
  let ?g = "NewFilter pol self"
  have frame: "flt_pol f = flt_pol ?g" "flt_self f = flt_self ?g"
    using filter_run_frame [OF run] by simp_all
  then have frame': "admitted u f h = admitted u ?g h" "is_gossip f h = is_gossip ?g h" for h
    by (simp_all add: admitted_frame [of f ?g] is_gossip_def)
  have keys: "\<exists>e \<in> set es. opens u ?g e k" if "k \<in> flow_keys f" for k
    using filter_run_keys [OF run that] by (simp add: NewFilter_def flow_keys_def)
  from Inbound_True [OF pass] True show ?thesis
    unfolding may_pass_def frame' by (blast dest: keys)
qed (auto simp: may_pass_def)

theorem filter_sound_witness:
  "may_pass plain_tables (NewFilter sample_policy (V4 0x0a640101)) [Sent sample_query 0]
     (parse_header sample_answer)"
proof (rule filter_sound)
  let ?f = "Outbound (NewFilter sample_policy (V4 0x0a640101)) sample_query 0"
  show "filter_run plain_tables (NewFilter sample_policy (V4 0x0a640101)) [Sent sample_query 0] =
      Some ?f"
    by simp
  show "Inbound plain_tables ?f sample_answer 5 =
      Some (True, snd (the (Inbound plain_tables ?f sample_answer 5)))"
    by code_simp
qed

text \<open>a reply passes whatever the rules say. If this member sent a packet while its table
  had room, the packet with addresses and ports swapped passes during the next five minutes.\<close>

theorem filter_reply_passes:
  assumes "h_ok (parse_header pkt)" "int (length (flt_flows f)) < maxFlows"
    and "h_ok (parse_header rep)" "h_first (parse_header rep)"
    and "reply_of (parse_header rep) = flow_of (parse_header pkt)"
    and "t \<le> now" "now < t + flowTTL"
  shows "\<exists>f'. Inbound u (Outbound f pkt t) rep now = Some (True, f')"
proof -
  have "map_of (flt_flows (Outbound f pkt t)) (flow_of (parse_header pkt)) = Some t"
    using assms(1,2) by (simp add: Outbound_def rememberLocked_sweep sweep_def update_conv')
  moreover have "time_sub now t < flowTTL"
    using assms(7) by (subst time_sub_less_iff)
      (simp_all add: flowTTL_def minute_def second_def max_duration_def min_duration_def)
  ultimately have "live_flow (flt_flows (Outbound f pkt t)) (reply_of (parse_header rep)) now"
    by (simp add: live_flow_def assms(5))
  with assms(3,4) show ?thesis by (simp add: Inbound_def)
qed

theorem filter_reply_passes_witness:
  "\<exists>f'. Inbound plain_tables (Outbound (NewFilter sample_policy (V4 0x0a640101)) sample_query 7)
     sample_answer 9 = Some (True, f')"
proof (rule filter_reply_passes)
  show "h_ok (parse_header sample_query)" by code_simp
  show "int (length (flt_flows (NewFilter sample_policy (V4 0x0a640101)))) < maxFlows" by code_simp
  show "h_ok (parse_header sample_answer)" "h_first (parse_header sample_answer)" by code_simp+
  show "reply_of (parse_header sample_answer) = flow_of (parse_header sample_query)" by code_simp
qed (simp_all add: flowTTL_def minute_def second_def)

end
