(* ===== verification/Rate_Window.thy ===== *)
theory Rate_Window
  imports Prelude
begin

text \<open>
  The fixed-window rate limit that several components use (broadcasts of a room, frames of a
  relay session): a counter that starts again when a second has passed since the window
  began. The locale states what one step of such a limiter does; the components interpret it
  with their own step, and get the bound on what passes in any second.
\<close>

text \<open>How many calls a limiter lets pass, over the times of the calls.\<close>

fun passed :: "('s \<Rightarrow> time \<Rightarrow> bool \<times> 's) \<Rightarrow> 's \<Rightarrow> time list \<Rightarrow> nat" where
  "passed step s [] = 0"
| "passed step s (t # ts) = (if fst (step s t) then 1 else 0) + passed step (snd (step s t)) ts"

locale rate_window =
  fixes step :: "'s \<Rightarrow> time \<Rightarrow> bool \<times> 's"
    and win :: "'s \<Rightarrow> time"
    and cnt :: "'s \<Rightarrow> int"
    and limit :: int
  assumes limit_pos: "0 \<le> limit"
    and step_same: "time_sub now (win s) < second \<Longrightarrow>
      win (snd (step s now)) = win s \<and> cnt (snd (step s now)) = cnt s + 1"
    and step_new: "second \<le> time_sub now (win s) \<Longrightarrow>
      win (snd (step s now)) = now \<and> cnt (snd (step s now)) = 1"
    and step_ok: "fst (step s now) \<longleftrightarrow> cnt (snd (step s now)) \<le> limit"
begin

lemma second_cases: "time_sub now w < second \<longleftrightarrow> now - w < second"
  by (rule time_sub_less_iff) (simp_all add: second_def max_duration_def min_duration_def)

lemma passed_same_window:
  "0 \<le> cnt s \<Longrightarrow> (\<And>t. t \<in> set ts \<Longrightarrow> t - win s < second) \<Longrightarrow>
   int (passed step s ts) \<le> max 0 (limit - cnt s)"
proof (induction ts arbitrary: s)
  case (Cons t ts)
  have "time_sub t (win s) < second" using Cons.prems(2) by (simp add: second_cases)
  from step_same [OF this] have s': "win (snd (step s t)) = win s" "cnt (snd (step s t)) = cnt s + 1"
    by simp_all
  have "int (passed step (snd (step s t)) ts) \<le> max 0 (limit - (cnt s + 1))"
    using Cons.IH [of "snd (step s t)"] Cons.prems s' by simp
  then show ?case using step_ok [of s t] s' by auto
qed simp

lemma passed_interval:
  "0 \<le> cnt s \<Longrightarrow> (\<And>t. t \<in> set ts \<Longrightarrow> t0 \<le> t \<and> t < t0 + second) \<Longrightarrow>
   int (passed step s ts) \<le> max 0 (limit - cnt s) + limit"
proof (induction ts arbitrary: s)
  case Nil
  then show ?case using limit_pos by simp
next
  case (Cons t ts)
  show ?case
  proof (cases "t - win s < second")
    case True
    then have s': "cnt (snd (step s t)) = cnt s + 1"
      using step_same [of t s] by (simp add: second_cases)
    then have "int (passed step (snd (step s t)) ts) \<le> max 0 (limit - (cnt s + 1)) + limit"
      using Cons.IH [of "snd (step s t)"] Cons.prems by simp
    then show ?thesis using step_ok [of s t] s' by auto
  next
    case False
    then have s': "win (snd (step s t)) = t" "cnt (snd (step s t)) = 1"
      using step_new [of t s] second_cases [of t "win s"] by (simp_all add: not_less)
    have "x - t < second" if "x \<in> set ts" for x
      using Cons.prems(2) [of x] Cons.prems(2) [of t] that by simp
    then have "int (passed step (snd (step s t)) ts) \<le> max 0 (limit - 1)"
      using passed_same_window [of "snd (step s t)" ts] s' by simp
    then show ?thesis using step_ok [of s t] s' limit_pos by auto
  qed
qed

text \<open>In any second at most twice the limit passes (the end of one window and the beginning
  of the next).\<close>

lemma passed_in_second:
  assumes "0 \<le> cnt s" "\<And>t. t \<in> set ts \<Longrightarrow> t0 \<le> t \<and> t < t0 + second"
  shows "int (passed step s ts) \<le> 2 * limit"
  using passed_interval [OF assms(1), of ts t0] assms limit_pos by fastforce

end

end
