(* ===== verification/Tunwrap.thy ===== *)
theory Tunwrap
  imports Acl_Filter Rate_Window
begin

text \<open>
  The wrapper that makes a room behave like a LAN, \<^verbatim>\<open>src/internal/tunwrap\<close>: outgoing
  broadcasts become unicasts to every member (\<open>tw_wrap\<close>), wrapped broadcasts are unwrapped
  and checked (\<open>tw_unwrap\<close>), and the room's filter sees what passes. The TUN device below
  and the userspace NAT behind \<^verbatim>\<open>divert\<close> are outside: a batch of packets from the device
  and the divert function are arguments. Buffers are the packets they hold; their number
  and size are arguments too (AmneziaWG passes buffers of one size). \<open>None\<close> is a panic
  (\<^verbatim>\<open>As4\<close> of an address that is not IPv4).
\<close>

definition tw_Port :: u16 where "tw_Port = 4797"
definition MaxPPS :: int where "MaxPPS = 200"
definition tw_magic :: bytes where "tw_magic = [0x7a, 0x70, 0x74, 0x62]"
definition ipHdr :: nat where "ipHdr = 20"
definition udpHdr :: nat where "udpHdr = 8"
definition wrapHdr :: nat where "wrapHdr = ipHdr + udpHdr + 4"
definition protoUDP :: byte where "protoUDP = 17"
definition protoIGMP :: byte where "protoIGMP = 2"

definition ModeOn :: string where "ModeOn = ''on''"
definition ModeOff :: string where "ModeOff = ''off''"
definition ModeMDNS :: string where "ModeMDNS = ''mdns''"

definition limited :: addr where "limited = V4 0xffffffff"
definition multicast :: prefix where "multicast = \<lparr>pfx_addr = V4 0xe0000000, pfx_bits = 4\<rparr>"
definition mdnsAddr :: addr where "mdnsAddr = V4 0xe00000fb"

datatype pumped = PumpPkt bytes | PumpErr

record tw_device =
  tw_self :: addr
  tw_subnet :: prefix
  tw_bcast :: addr
  tw_mode :: string
  tw_peers :: "addr list"
  tw_pending :: "bytes list"
  tw_window :: time
  tw_counter :: int
  tw_filter :: "filter option"
  tw_divert :: "(bytes \<Rightarrow> bool) option"
  tw_pumping :: bool
  tw_queue :: "pumped list"
  tw_queueClosed :: bool
  tw_injectClosed :: bool

definition tw_lastAddr :: "prefix \<Rightarrow> addr option" where
  "tw_lastAddr p = (if \<not> is4 (pfx_addr p) then Some NoAddr else last_addr p)"

definition tw_SetMode :: "tw_device \<Rightarrow> string \<Rightarrow> tw_device" where
  "tw_SetMode d m = d\<lparr>tw_mode := (if m = [] then ModeOn else m)\<rparr>"

definition tw_SetPeers :: "tw_device \<Rightarrow> addr list \<Rightarrow> tw_device" where
  "tw_SetPeers d ips = d\<lparr>tw_peers := ips\<rparr>"

definition tw_SetFilter :: "tw_device \<Rightarrow> filter option \<Rightarrow> tw_device" where
  "tw_SetFilter d f = d\<lparr>tw_filter := f\<rparr>"

definition tw_SetDivert :: "tw_device \<Rightarrow> (bytes \<Rightarrow> bool) option \<Rightarrow> tw_device" where
  "tw_SetDivert d f = d\<lparr>tw_divert := f\<rparr>"

definition tw_New :: "prefix \<Rightarrow> string \<Rightarrow> tw_device option" where
  "tw_New self mode = (case tw_lastAddr self of None \<Rightarrow> None
     | Some b \<Rightarrow> Some (tw_SetMode
         \<lparr>tw_self = pfx_addr self, tw_subnet = masked self, tw_bcast = b, tw_mode = [],
          tw_peers = [], tw_pending = [], tw_window = 0, tw_counter = 0,
          tw_filter = None, tw_divert = None, tw_pumping = False, tw_queue = [],
          tw_queueClosed = False, tw_injectClosed = False\<rparr> mode))"

definition isGroupDst :: "tw_device \<Rightarrow> addr \<Rightarrow> bool" where
  "isGroupDst d dst = (dst = limited \<or> dst = tw_bcast d \<or> contains multicast dst)"

definition ip_src :: "bytes \<Rightarrow> addr" where
  "ip_src pkt = addr_from4 (bslice 12 16 pkt)"

definition ip_dst :: "bytes \<Rightarrow> addr" where
  "ip_dst pkt = addr_from4 (bslice 16 20 pkt)"

definition shouldForward :: "tw_device \<Rightarrow> bytes \<Rightarrow> bool" where
  "shouldForward d pkt =
     (if length pkt < ipHdr \<or> drop_bit 4 (pkt ! 0) \<noteq> 4 then False
      else if ip_src pkt \<noteq> tw_self d \<or> \<not> isGroupDst d (ip_dst pkt) \<or> pkt ! 9 = protoIGMP then False
      else if tw_mode d = ModeOff then False
      else if tw_mode d = ModeMDNS then
        (let ihl = unat (pkt ! 0 AND 0x0f) * 4 in
         ip_dst pkt = mdnsAddr \<and> pkt ! 9 = protoUDP \<and> length pkt \<ge> ihl + udpHdr \<and>
         be16 (pkt ! (ihl + 2)) (pkt ! (ihl + 3)) = 5353)
      else True)"

definition tw_allow :: "tw_device \<Rightarrow> time \<Rightarrow> bool \<times> tw_device" where
  "tw_allow d now =
     (let d1 = (if second \<le> time_sub now (tw_window d)
          then d\<lparr>tw_window := now, tw_counter := 0\<rparr> else d);
          d2 = d1\<lparr>tw_counter := tw_counter d1 + 1\<rparr>
      in (tw_counter d2 \<le> MaxPPS, d2))"

section \<open>The IPv4 header checksum\<close>

fun sum_pairs :: "bytes \<Rightarrow> u32 \<Rightarrow> u32" where
  "sum_pairs (a # b # r) s = sum_pairs r (s + ucast (be16 a b))"
| "sum_pairs [a] s = s + push_bit 8 (ucast a)"
| "sum_pairs [] s = s"

function fold_carry :: "u32 \<Rightarrow> u32" where
  "fold_carry s = (if drop_bit 16 s \<noteq> 0 then fold_carry ((s AND 0xffff) + drop_bit 16 s) else s)"
  by pat_completeness auto

lemma unat_drop16: "unat (drop_bit 16 (s :: u32)) = unat s div 65536"
  by (simp add: unat_drop_bit)

lemma unat_and16: "unat ((s :: u32) AND 0xffff) = unat s mod 65536"
proof -
  have "s AND 0xffff = take_bit 16 s"
    by (simp add: take_bit_eq_mask mask_eq_exp_minus_1)
  then have "unat (s AND 0xffff) = unat (take_bit 16 s)" by simp
  also have "\<dots> = take_bit 16 (unat s)" by (rule unsigned_take_bit_eq)
  finally show ?thesis by (simp add: take_bit_nat_def)
qed

lemma unat_fold_step:
  "unat ((s AND 0xffff) + drop_bit 16 (s :: u32)) = unat s mod 65536 + unat s div 65536"
proof -
  have "unat s mod 65536 < 65536" "unat s div 65536 < 65536"
    using unat_u32_less [of s] by (simp, linarith)
  then have "unat (s AND 0xffff) + unat (drop_bit 16 s) < 2 ^ LENGTH(32)"
    by (simp add: unat_and16 unat_drop16)
  then show ?thesis
    by (simp only: unat_add_lem [THEN iffD1] unat_and16 unat_drop16)
qed

lemma drop16_zero: "drop_bit 16 (s :: u32) = 0 \<longleftrightarrow> unat s < 65536"
  using unat_drop16 [of s] by (auto simp: word_unat_eq_iff div_eq_0_iff)

lemma mod_div_less: "65536 \<le> (n::nat) \<Longrightarrow> n mod 65536 + n div 65536 < n"
proof -
  assume "65536 \<le> n"
  then have "1 \<le> n div 65536" by (simp add: div_greater_zero_iff Suc_le_eq)
  moreover have "n = n div 65536 * 65536 + n mod 65536" by simp
  ultimately show ?thesis by linarith
qed

termination fold_carry
proof (relation "measure unat")
  fix s :: u32
  assume "drop_bit 16 s \<noteq> 0"
  then have "65536 \<le> unat s" by (simp add: drop16_zero)
  then show "((s AND 0xffff) + drop_bit 16 s, s) \<in> measure unat"
    by (simp only: in_measure unat_fold_step mod_div_less)
qed simp

declare fold_carry.simps [simp del]

definition tw_checksum :: "bytes \<Rightarrow> u16" where
  "tw_checksum b = NOT (ucast (fold_carry (sum_pairs b 0)))"

section \<open>Wrapping\<close>

definition wrap_header :: "u16 \<Rightarrow> u32 \<Rightarrow> u32 \<Rightarrow> u16 \<Rightarrow> bytes" where
  "wrap_header tot s t csum =
     [0x45, 0] @ put16 tot @ [0, 0] @ put16 0x4000 @ [64, protoUDP] @ put16 csum @
     put32 s @ put32 t"

definition tw_wrap :: "tw_device \<Rightarrow> bytes \<Rightarrow> addr \<Rightarrow> bytes option" where
  "tw_wrap d orig peer =
     (case as4 (tw_self d) of None \<Rightarrow> None | Some s \<Rightarrow>
      (case as4 peer of None \<Rightarrow> None | Some t \<Rightarrow>
        let tot = of_nat (wrapHdr + length orig);
            csum = tw_checksum (wrap_header tot s t 0)
        in Some (wrap_header tot s t csum @ put16 tw_Port @ put16 tw_Port @
             put16 (of_nat (udpHdr + 4 + length orig)) @ [0, 0] @ tw_magic @ orig)))"

definition tw_unwrap :: "tw_device \<Rightarrow> bytes \<Rightarrow> bytes option \<times> bool" where
  "tw_unwrap d pkt =
     (if length pkt < wrapHdr \<or> pkt ! 0 \<noteq> 0x45 \<or> pkt ! 9 \<noteq> protoUDP then (None, False)
      else if ip_dst pkt \<noteq> tw_self d \<or> be16 (pkt ! 22) (pkt ! 23) \<noteq> tw_Port \<or>
        bslice 28 32 pkt \<noteq> tw_magic then (None, False)
      else
        let outerSrc = ip_src pkt; inner = drop wrapHdr pkt in
        if length inner < ipHdr \<or> drop_bit 4 (inner ! 0) \<noteq> 4 \<or> tw_mode d = ModeOff then (None, True)
        else if ip_src inner \<noteq> outerSrc \<or> \<not> contains (tw_subnet d) outerSrc then (None, True)
        else if \<not> isGroupDst d (ip_dst inner) then (None, True)
        else if unat (be16 (inner ! 2) (inner ! 3)) \<noteq> length inner then (None, True)
        else (Some inner, True))"

section \<open>Reading and writing\<close>

fun drain :: "nat \<Rightarrow> nat \<Rightarrow> nat \<Rightarrow> bytes list \<Rightarrow> bytes list \<Rightarrow> bytes list \<times> bytes list" where
  "drain nbufs buflen offset out [] = (out, [])"
| "drain nbufs buflen offset out (p # ps) =
     (if length out < nbufs then
        (if offset + length p > buflen then drain nbufs buflen offset out ps
         else drain nbufs buflen offset (out @ [p]) ps)
      else (out, p # ps))"

definition drainLocked :: "nat \<Rightarrow> nat \<Rightarrow> nat \<Rightarrow> tw_device \<Rightarrow> bytes list \<Rightarrow> bytes list \<times> tw_device" where
  "drainLocked nbufs buflen offset d out =
     (case drain nbufs buflen offset out (tw_pending d) of (out', ps) \<Rightarrow>
        (out', d\<lparr>tw_pending := ps\<rparr>))"

text \<open>The copies of a broadcast for every peer.\<close>

fun wrap_all :: "tw_device \<Rightarrow> bytes \<Rightarrow> addr list \<Rightarrow> bytes list option" where
  "wrap_all d pkt [] = Some []"
| "wrap_all d pkt (peer # ps) = (case tw_wrap d pkt peer of None \<Rightarrow> None
     | Some w \<Rightarrow> map_option (Cons w) (wrap_all d pkt ps))"

text \<open>What the read loop does with one packet of the OS: \<open>Some p\<close> as the first component is
  a packet that stays in the batch.\<close>

definition read_one :: "tw_device \<Rightarrow> time \<Rightarrow> bytes \<Rightarrow> (bytes option \<times> tw_device) option" where
  "read_one d now pkt =
     (if shouldForward d pkt then
        (case tw_allow d now of (ok, d1) \<Rightarrow>
           if ok then (case wrap_all d1 pkt (tw_peers d1) of None \<Rightarrow> None
               | Some ws \<Rightarrow> Some (None, d1\<lparr>tw_pending := tw_pending d1 @ ws\<rparr>))
           else Some (None, d1))
      else Some (Some pkt, d\<lparr>tw_filter := map_option (\<lambda>f. Outbound f pkt now) (tw_filter d)\<rparr>))"

fun read_batch :: "tw_device \<Rightarrow> time \<Rightarrow> bytes list \<Rightarrow> (bytes list \<times> tw_device) option" where
  "read_batch d now [] = Some ([], d)"
| "read_batch d now (p # ps) = (case read_one d now p of None \<Rightarrow> None
     | Some (o1, d1) \<Rightarrow> (case read_batch d1 now ps of None \<Rightarrow> None
         | Some (out, d2) \<Rightarrow> Some (case o1 of None \<Rightarrow> out | Some q \<Rightarrow> q # out, d2)))"

text \<open>The pump of a userspace exit node: \<^verbatim>\<open>EnablePump\<close>, one read of the pump goroutine (the
  device's packets and whether it failed), \<^verbatim>\<open>Inject\<close> with its queue of 1024 packets, and
  \<^verbatim>\<open>readPumped\<close>. A read that would block (nothing pending, queue empty and open) is
  \<open>PumpBlocks\<close>.\<close>

definition tw_EnablePump :: "tw_device \<Rightarrow> tw_device" where
  "tw_EnablePump d = d\<lparr>tw_pumping := True, tw_queue := [], tw_queueClosed := False\<rparr>"

definition tw_pump :: "tw_device \<Rightarrow> bytes list \<Rightarrow> bool \<Rightarrow> tw_device" where
  "tw_pump d pkts failed =
     (if failed
      then d\<lparr>tw_queue := tw_queue d @ map PumpPkt pkts @ [PumpErr], tw_queueClosed := True\<rparr>
      else d\<lparr>tw_queue := tw_queue d @ map PumpPkt pkts\<rparr>)"

definition tw_Inject :: "tw_device \<Rightarrow> bytes \<Rightarrow> tw_device" where
  "tw_Inject d pkt =
     (if \<not> tw_pumping d \<or> tw_injectClosed d then d
      else if tw_queueClosed d then d
      else if int (length (tw_queue d)) < 1024 then d\<lparr>tw_queue := tw_queue d @ [PumpPkt pkt]\<rparr>
      else d)"

datatype pump_read = PumpBlocks | PumpClosed | PumpRead "bytes list" bool tw_device

definition pump_add :: "nat \<Rightarrow> nat \<Rightarrow> nat \<Rightarrow> time \<Rightarrow> tw_device \<Rightarrow> bytes list \<Rightarrow> pumped \<Rightarrow>
    (bool \<times> bytes list \<times> tw_device) option" where
  "pump_add nbufs buflen offset now d out p = (case p of
     PumpErr \<Rightarrow> Some (True, out, d\<lparr>tw_injectClosed := True\<rparr>)
   | PumpPkt pkt \<Rightarrow> (case read_one d now pkt of
       None \<Rightarrow> None
     | Some (None, d1) \<Rightarrow> Some (False, out, d1)
     | Some (Some q, d1) \<Rightarrow>
         Some (False, if length out < nbufs \<and> offset + length q \<le> buflen then out @ [q] else out, d1)))"

fun pump_loop :: "nat \<Rightarrow> nat \<Rightarrow> nat \<Rightarrow> time \<Rightarrow> pumped list \<Rightarrow> tw_device \<Rightarrow> bytes list \<Rightarrow>
    (bool \<times> bytes list \<times> tw_device) option" where
  "pump_loop nbufs buflen offset now [] d out = Some (False, out, d\<lparr>tw_queue := []\<rparr>)"
| "pump_loop nbufs buflen offset now (p # q) d out =
     (if length out + length (tw_pending d) < nbufs then
        (case pump_add nbufs buflen offset now d out p of
           None \<Rightarrow> None
         | Some (True, out1, d1) \<Rightarrow> Some (True, out1, d1\<lparr>tw_queue := q\<rparr>)
         | Some (False, out1, d1) \<Rightarrow> pump_loop nbufs buflen offset now q d1 out1)
      else Some (False, out, d\<lparr>tw_queue := p # q\<rparr>))"

definition pump_finish :: "nat \<Rightarrow> nat \<Rightarrow> nat \<Rightarrow> bool \<times> bytes list \<times> tw_device \<Rightarrow> pump_read" where
  "pump_finish nbufs buflen offset r = (case r of (err, out, d) \<Rightarrow>
     (case drainLocked nbufs buflen offset d out of (out1, d1) \<Rightarrow> PumpRead out1 err d1))"

definition readPumped :: "tw_device \<Rightarrow> time \<Rightarrow> nat \<Rightarrow> nat \<Rightarrow> nat \<Rightarrow> pump_read option" where
  "readPumped d now nbufs buflen offset =
     (if tw_pending d \<noteq> [] then
        map_option (pump_finish nbufs buflen offset) (pump_loop nbufs buflen offset now (tw_queue d) d [])
      else case tw_queue d of
          [] \<Rightarrow> Some (if tw_queueClosed d then PumpClosed else PumpBlocks)
        | p # q \<Rightarrow> (case pump_add nbufs buflen offset now d [] p of
              None \<Rightarrow> None
            | Some (True, out, d1) \<Rightarrow> Some (PumpRead out True (d1\<lparr>tw_queue := q\<rparr>))
            | Some (False, out, d1) \<Rightarrow>
                map_option (pump_finish nbufs buflen offset) (pump_loop nbufs buflen offset now q d1 out)))"

definition tw_Read :: "tw_device \<Rightarrow> time \<Rightarrow> nat \<Rightarrow> nat \<Rightarrow> nat \<Rightarrow> bytes list \<Rightarrow> (bytes list \<times> tw_device) option" where
  "tw_Read d now nbufs buflen offset batch =
     (if tw_pending d \<noteq> [] then Some (drainLocked nbufs buflen offset d [])
      else (case read_batch d now batch of None \<Rightarrow> None
        | Some (out, d1) \<Rightarrow> Some (drainLocked nbufs buflen offset d1 out)))"

definition write_filter :: "unicode \<Rightarrow> tw_device \<Rightarrow> time \<Rightarrow> bytes \<Rightarrow> (bool \<times> tw_device) option" where
  "write_filter u d now pkt = (case tw_filter d of
     None \<Rightarrow> Some (True, d)
   | Some f \<Rightarrow>
       (case tw_unwrap d pkt of (inner, isWrap) \<Rightarrow>
          (case (if isWrap then inner else Some pkt) of
             None \<Rightarrow> Some (True, d)
           | Some view \<Rightarrow> (case Inbound u f view now of None \<Rightarrow> None
               | Some (ok, f') \<Rightarrow> Some (ok, d\<lparr>tw_filter := Some f'\<rparr>)))))"

definition write_one :: "unicode \<Rightarrow> tw_device \<Rightarrow> time \<Rightarrow> bytes \<Rightarrow> (bytes option \<times> tw_device) option" where
  "write_one u d now pkt = (case write_filter u d now pkt of
     None \<Rightarrow> None
   | Some (ok, d1) \<Rightarrow>
       if \<not> ok then Some (None, d1)
       else if (case tw_divert d1 of None \<Rightarrow> False | Some dv \<Rightarrow> dv pkt) then Some (None, d1)
       else (case tw_unwrap d1 pkt of (inner, isWrap) \<Rightarrow>
         if \<not> isWrap then Some (Some pkt, d1) else Some (inner, d1)))"

text \<open>\<^verbatim>\<open>Write\<close>: the packets handed to the OS.\<close>

fun tw_Write :: "unicode \<Rightarrow> tw_device \<Rightarrow> time \<Rightarrow> bytes list \<Rightarrow> (bytes list \<times> tw_device) option" where
  "tw_Write u d now [] = Some ([], d)"
| "tw_Write u d now (p # ps) = (case write_one u d now p of None \<Rightarrow> None
     | Some (o1, d1) \<Rightarrow> (case tw_Write u d1 now ps of None \<Rightarrow> None
         | Some (out, d2) \<Rightarrow> Some (case o1 of None \<Rightarrow> out | Some q \<Rightarrow> q # out, d2)))"

section \<open>The checksum of a wrapped packet\<close>

lemma fold_carry_bound: "unat (fold_carry s) < 65536"
  by (induction s rule: fold_carry.induct) (metis drop16_zero fold_carry.simps)

lemma nat_mod_65535_fold: "(n mod 65536 + n div 65536) mod 65535 = n mod (65535::nat)"
proof -
  have "n = (n mod 65536 + n div 65536) + 65535 * (n div 65536)"
    using div_mult_mod_eq [of n 65536] by linarith
  then show ?thesis by (metis mod_mult_self2)
qed

lemma fold_carry_mod: "unat (fold_carry s) mod 65535 = unat s mod 65535"
proof (induction s rule: fold_carry.induct)
  case (1 s)
  show ?case
  proof (cases "drop_bit 16 s \<noteq> 0")
    case True
    have "unat (fold_carry s) mod 65535 = unat ((s AND 0xffff) + drop_bit 16 s) mod 65535"
      using True "1.IH" by (subst fold_carry.simps) simp
    then show ?thesis by (simp only: unat_fold_step nat_mod_65535_fold)
  next
    case False
    then show ?thesis by (subst fold_carry.simps) simp
  qed
qed

lemma fold_carry_zero: "unat (fold_carry s) = 0 \<longleftrightarrow> unat s = 0"
proof (induction s rule: fold_carry.induct)
  case (1 s)
  show ?case
  proof (cases "drop_bit 16 s \<noteq> 0")
    case True
    then have big: "65536 \<le> unat s" by (simp add: drop16_zero)
    have "unat (fold_carry s) = unat (fold_carry ((s AND 0xffff) + drop_bit 16 s))"
      using True by (subst fold_carry.simps) simp
    also have "\<dots> = 0 \<longleftrightarrow> unat ((s AND 0xffff) + drop_bit 16 s) = 0"
      using True "1.IH" by simp
    also have "\<dots> \<longleftrightarrow> unat s mod 65536 + unat s div 65536 = 0"
      by (simp only: unat_fold_step)
    also have "\<dots> \<longleftrightarrow> unat s = 0"
      using big by (auto simp: div_eq_0_iff)
    finally show ?thesis .
  next
    case False
    then show ?thesis by (subst fold_carry.simps) simp
  qed
qed

text \<open>The sum of the 16-bit words of an even number of bytes.\<close>

fun word_sum :: "bytes \<Rightarrow> nat" where
  "word_sum (a # b # r) = unat (be16 a b) + word_sum r"
| "word_sum _ = 0"

lemma sum_pairs_word_sum:
  "even (length b) \<Longrightarrow> unat s + 65535 * length b < 4294967296 \<Longrightarrow>
   unat (sum_pairs b s) = unat s + word_sum b"
proof (induction b s rule: sum_pairs.induct)
  case (1 a b r s)
  have w: "unat (be16 a b) < 65536" by simp
  then have w': "unat (be16 a b) \<le> 65535" by linarith
  have u: "unat (ucast (be16 a b) :: u32) = unat (be16 a b)"
    by (simp add: unsigned_ucast_eq take_bit_nat_eq_self less_trans [OF w])
  have "unat s + unat (ucast (be16 a b) :: u32) < 2 ^ LENGTH(32)"
    using "1.prems"(2) w' by (simp add: u)
  then have s': "unat (s + ucast (be16 a b)) = unat s + unat (be16 a b)"
    using u by (simp only: unat_add_lem [THEN iffD1])
  have "unat (sum_pairs r (s + ucast (be16 a b))) = unat s + unat (be16 a b) + word_sum r"
    using "1.IH" "1.prems" w' by (simp add: s')
  then show ?case by simp
qed simp_all

lemma unat_not_u16: "unat (NOT w) = 65535 - unat (w :: u16)"
proof -
  have "NOT w = - 1 - w" by (simp add: not_eq_complement)
  moreover have "unat (- 1 - w) = unat (- 1 :: u16) - unat w" by (rule unat_sub) simp
  ultimately show ?thesis by (simp add: unsigned_minus_1_eq_mask mask_eq_exp_minus_1)
qed

lemma unat_tw_checksum: "unat (tw_checksum b) = 65535 - unat (fold_carry (sum_pairs b 0))"
proof -
  have "unat (ucast (fold_carry s) :: u16) = unat (fold_carry s)" for s
    using fold_carry_bound [of s] by (simp add: unsigned_ucast_eq take_bit_nat_eq_self)
  then show ?thesis by (simp add: tw_checksum_def unat_not_u16)
qed

lemma checksum_zero_iff:
  assumes "even (length b)" "length b \<le> 65000" "0 < word_sum b"
  shows "tw_checksum b = 0 \<longleftrightarrow> word_sum b mod 65535 = 0"
proof -
  let ?f = "unat (fold_carry (sum_pairs b 0))"
  have sum: "unat (sum_pairs b 0) = word_sum b"
    using sum_pairs_word_sum [of b 0] assms(1,2) by simp
  then have m: "?f mod 65535 = word_sum b mod 65535" and z: "?f \<noteq> 0"
    using fold_carry_mod [of "sum_pairs b 0"] fold_carry_zero [of "sum_pairs b 0"] assms(3) by simp_all
  have "tw_checksum b = 0 \<longleftrightarrow> unat (tw_checksum b) = 0" by (rule unat_eq_zero [symmetric])
  also have "\<dots> \<longleftrightarrow> ?f = 65535"
    using fold_carry_bound [of "sum_pairs b 0"] by (auto simp: unat_tw_checksum)
  also have "\<dots> \<longleftrightarrow> ?f mod 65535 = 0"
    using fold_carry_bound [of "sum_pairs b 0"] z by (auto elim!: dvdE simp: mod_eq_0_iff_dvd)
  finally show ?thesis by (simp only: m)
qed

lemma word_sum_append: "even (length a) \<Longrightarrow> word_sum (a @ b) = word_sum a + word_sum b"
  by (induction a rule: word_sum.induct) auto

lemma word_sum_put16: "word_sum (put16 w) = unat w"
  by (simp add: put16_def)

lemma length_wrap_header [simp]: "length (wrap_header tot s t c) = 20"
  by (simp add: wrap_header_def)

lemma word_sum_wrap_header:
  "word_sum (wrap_header tot s t c) = word_sum (wrap_header tot s t 0) + unat c"
  by (simp add: wrap_header_def word_sum_append word_sum_put16 put16_def put32_def)

lemma wrap_header_checksum:
  "tw_checksum (wrap_header tot s t (tw_checksum (wrap_header tot s t 0))) = 0"
proof -
  let ?h = "wrap_header tot s t 0"
  let ?f = "unat (fold_carry (sum_pairs ?h 0))"
  have sum: "unat (sum_pairs ?h 0) = word_sum ?h"
    using sum_pairs_word_sum [of ?h 0] by simp
  have pos: "0 < word_sum ?h"
    by (simp add: wrap_header_def unat_be16)
  have "?f mod 65535 = word_sum ?h mod 65535"
    using fold_carry_mod [of "sum_pairs ?h 0"] by (simp add: sum)
  then have "(word_sum ?h + (65535 - ?f)) mod 65535 = (?f + (65535 - ?f)) mod 65535"
    by (metis mod_add_left_eq)
  also have "\<dots> = 0" using fold_carry_bound [of "sum_pairs ?h 0"] by simp
  finally show ?thesis
    by (subst checksum_zero_iff)
      (simp_all only: word_sum_wrap_header [of _ _ _ "tw_checksum ?h"] unat_tw_checksum length_wrap_header,
       simp_all add: pos)
qed

section \<open>Wrapping and unwrapping\<close>

text \<open>A wrapped packet byte by byte.\<close>

lemma tw_wrap_bytes:
  assumes "tw_self d = V4 (be32 s0 s1 s2 s3)"
  obtains c where "tw_wrap d orig (V4 (be32 t0 t1 t2 t3)) = Some
    ([0x45, 0, hi8 (of_nat (32 + length orig)), lo8 (of_nat (32 + length orig)), 0, 0, hi8 0x4000, lo8 0x4000,
      64, 17, hi8 c, lo8 c, s0, s1, s2, s3, t0, t1, t2, t3, hi8 4797, lo8 4797, hi8 4797, lo8 4797,
      hi8 (of_nat (12 + length orig)), lo8 (of_nat (12 + length orig)), 0, 0, 0x7a, 0x70, 0x74, 0x62] @ orig)"
    and "c = tw_checksum (wrap_header (of_nat (32 + length orig)) (be32 s0 s1 s2 s3) (be32 t0 t1 t2 t3) 0)"
  using assms
  by (simp add: tw_wrap_def as4_def Let_def wrap_header_def put16_def tw_magic_def tw_Port_def
      wrapHdr_def udpHdr_def ipHdr_def protoUDP_def)

lemma slice_numeral_Cons: "bslice (numeral i) (numeral j) (x # xs) =
  bslice (pred_numeral i) (pred_numeral j) xs"
  by (simp add: bslice_def numeral_eq_Suc)

lemma slice_0_numeral_Cons: "bslice 0 (numeral j) (x # xs) = x # bslice 0 (pred_numeral j) xs"
  by (simp add: bslice_def numeral_eq_Suc)

lemma slice_Suc_Cons: "bslice (Suc i) (Suc j) (x # xs) = bslice i j xs"
  "bslice 0 (Suc j) (x # xs) = x # bslice 0 j xs" "bslice 0 0 xs = []"
  "bslice (numeral a) (Suc j) (x # xs) = bslice (pred_numeral a) j xs"
  "bslice (Suc i) (numeral b) (x # xs) = bslice i (pred_numeral b) xs"
  by (simp_all add: bslice_def numeral_eq_Suc)

lemmas slice_simps = slice_numeral_Cons slice_0_numeral_Cons slice_Suc_Cons

text \<open>a broadcast that one member shares is, for a member of the same room that receives
  the wrapped copy with broadcasts switched on, exactly the original packet.\<close>

theorem tw_unwrap_wrap:
  assumes fwd: "shouldForward a pkt"
    and self: "tw_self a = V4 s" "tw_self b = V4 t"
    and room: "contains (tw_subnet b) (tw_self a)" "tw_bcast b = tw_bcast a"
    and mode: "tw_mode b \<noteq> ModeOff"
    and len: "unat (be16 (pkt ! 2) (pkt ! 3)) = length pkt"
  shows "\<exists>w. tw_wrap a pkt (tw_self b) = Some w \<and> tw_unwrap b w = (Some pkt, True)"
proof -
  obtain s0 s1 s2 s3 where s: "s = be32 s0 s1 s2 s3" by (rule be32_surj)
  obtain t0 t1 t2 t3 where t: "t = be32 t0 t1 t2 t3" by (rule be32_surj)
  obtain c where w: "tw_wrap a pkt (tw_self b) = Some
    ([0x45, 0, hi8 (of_nat (32 + length pkt)), lo8 (of_nat (32 + length pkt)), 0, 0, hi8 0x4000, lo8 0x4000,
      64, 17, hi8 c, lo8 c, s0, s1, s2, s3, t0, t1, t2, t3, hi8 4797, lo8 4797, hi8 4797, lo8 4797,
      hi8 (of_nat (12 + length pkt)), lo8 (of_nat (12 + length pkt)), 0, 0, 0x7a, 0x70, 0x74, 0x62] @ pkt)"
    using tw_wrap_bytes [of a s0 s1 s2 s3 pkt t0 t1 t2 t3] self s t by metis
  have p: "20 \<le> length pkt" "drop_bit 4 (pkt ! 0) = 4" "ip_src pkt = tw_self a"
    "isGroupDst a (ip_dst pkt)"
    using fwd by (auto simp: shouldForward_def ipHdr_def split: if_splits)
  have group: "isGroupDst b (ip_dst pkt)" using p(4) room(2) by (simp add: isGroupDst_def)
  show ?thesis
    unfolding w
    using p group self mode room len s t
    by (simp add: tw_unwrap_def Let_def wrapHdr_def ipHdr_def udpHdr_def protoUDP_def tw_magic_def
        tw_Port_def slice_simps ip_src_def ip_dst_def addr_from4_def)
qed

text \<open>every packet the wrapper produces has a valid IPv4 header checksum and carries the
  whole original packet.\<close>

theorem tw_wrap_checksum:
  assumes "tw_wrap d orig peer = Some w"
  shows "tw_checksum (take 20 w) = 0 \<and> drop 32 w = orig"
  using assms wrap_header_checksum
  by (auto simp: tw_wrap_def Let_def tw_magic_def split: option.splits)

lemma tw_unwrap_Some:
  assumes "tw_unwrap d pkt = (Some inner, w)"
  shows "w \<and> inner = drop 32 pkt \<and> ip_dst pkt = tw_self d \<and> ip_src inner = ip_src pkt \<and>
    contains (tw_subnet d) (ip_src pkt) \<and> isGroupDst d (ip_dst inner) \<and> tw_mode d \<noteq> ModeOff \<and>
    unat (be16 (inner ! 2) (inner ! 3)) = length inner"
  using assms by (auto simp: tw_unwrap_def Let_def wrapHdr_def ipHdr_def udpHdr_def split: if_splits)

text \<open>What the OS may receive from one batch: a packet that is no wrapped broadcast as it came,
  or the inside of a wrapped broadcast whose inner source is the outer source, a member of the
  room, and whose inner destination is a broadcast or multicast address.\<close>

definition os_packet_ok :: "tw_device \<Rightarrow> bytes list \<Rightarrow> bytes \<Rightarrow> bool" where
  "os_packet_ok d ps q \<longleftrightarrow> (\<exists>p \<in> set ps.
     q = p \<and> \<not> snd (tw_unwrap d p) \<or>
     q = drop 32 p \<and> snd (tw_unwrap d p) \<and> ip_src q = ip_src p \<and> contains (tw_subnet d) (ip_src p) \<and>
       isGroupDst d (ip_dst q) \<and> tw_mode d \<noteq> ModeOff)"

lemma tw_unwrap_filter_frame: "tw_unwrap (d\<lparr>tw_filter := f\<rparr>) p = tw_unwrap d p"
  by (simp add: tw_unwrap_def isGroupDst_def Let_def)

lemma write_one_frame:
  "write_one u d now p = Some (o1, d1) \<Longrightarrow> \<exists>f. d1 = d\<lparr>tw_filter := f\<rparr>"
proof -
  have "\<exists>f. d = d\<lparr>tw_filter := f\<rparr>" by (rule exI [of _ "tw_filter d"]) simp
  then show "write_one u d now p = Some (o1, d1) \<Longrightarrow> ?thesis"
    by (auto simp: write_one_def write_filter_def split: option.splits prod.splits if_splits)
qed

lemma write_one_ok:
  assumes "write_one u d now p = Some (Some q, d1)"
  shows "os_packet_ok d [p] q"
proof -
  obtain f where d1: "d1 = d\<lparr>tw_filter := f\<rparr>" using write_one_frame [OF assms] by blast
  from assms have "q = p \<and> \<not> snd (tw_unwrap d1 p) \<or> tw_unwrap d1 p = (Some q, True)"
    by (auto simp: write_one_def split: option.splits prod.splits if_splits)
  then show ?thesis
    using tw_unwrap_Some [of d p q True]
    by (auto simp: os_packet_ok_def d1 tw_unwrap_filter_frame)
qed

lemma os_packet_ok_frame: "os_packet_ok (d\<lparr>tw_filter := f\<rparr>) ps q = os_packet_ok d ps q"
  by (simp add: os_packet_ok_def tw_unwrap_filter_frame isGroupDst_def)

text \<open>C30: nobody can inject a broadcast in another member's name: everything written to the OS
  is one of these packets.\<close>

theorem tw_Write_no_spoof:
  assumes "tw_Write u d now ps = Some (out, d')" "q \<in> set out"
  shows "os_packet_ok d ps q"
  using assms
proof (induction ps arbitrary: d out)
  case (Cons p ps)
  from Cons.prems(1) obtain o1 d1 out1 where
    one: "write_one u d now p = Some (o1, d1)" and rest: "tw_Write u d1 now ps = Some (out1, d')"
    and out: "out = (case o1 of None \<Rightarrow> out1 | Some q \<Rightarrow> q # out1)"
    by (auto split: option.splits prod.splits)
  obtain f where d1: "d1 = d\<lparr>tw_filter := f\<rparr>" using write_one_frame [OF one] by blast
  consider "o1 = Some q" | "q \<in> set out1" using Cons.prems(2) out by (auto split: option.splits)
  then show ?case
  proof cases
    case 1
    with one write_one_ok [of u d now p q d1] show ?thesis by (auto simp: os_packet_ok_def)
  next
    case 2
    with Cons.IH [OF rest] have "os_packet_ok d ps q" by (simp add: d1 os_packet_ok_frame)
    then show ?thesis by (auto simp: os_packet_ok_def)
  qed
qed simp

section \<open>The broadcast rate limit\<close>

interpretation tw_rate: rate_window tw_allow tw_window tw_counter MaxPPS
  by unfold_locales (auto simp: MaxPPS_def tw_allow_def Let_def)

text \<open>in any second a member forwards at most 400 broadcasts (200 per window, and a second
  can touch two windows), whatever the OS sends.\<close>

theorem tw_broadcast_rate:
  assumes "0 \<le> tw_counter d" "\<And>t. t \<in> set ts \<Longrightarrow> t0 \<le> t \<and> t < t0 + second"
  shows "passed tw_allow d ts \<le> 400"
  using tw_rate.passed_in_second [OF assms] by (simp add: MaxPPS_def)

section \<open>Reads fit the buffers\<close>

definition fits :: "nat \<Rightarrow> nat \<Rightarrow> nat \<Rightarrow> bytes list \<Rightarrow> bool" where
  "fits nbufs buflen offset out \<longleftrightarrow>
     length out \<le> nbufs \<and> (\<forall>p \<in> set out. offset + length p \<le> buflen)"

lemma drain_fits: "fits nbufs buflen offset out \<Longrightarrow>
  fits nbufs buflen offset (fst (drain nbufs buflen offset out ps))"
  by (induction nbufs buflen offset out ps rule: drain.induct) (auto simp: fits_def)

lemma drainLocked_fits: "fits nbufs buflen offset out \<Longrightarrow>
  fits nbufs buflen offset (fst (drainLocked nbufs buflen offset d out))"
  using drain_fits [of nbufs buflen offset out "tw_pending d"]
  by (cases "drain nbufs buflen offset out (tw_pending d)") (simp add: drainLocked_def)

lemma read_one_keeps: "read_one d now p = Some (Some q, d1) \<Longrightarrow> q = p"
  by (auto simp: read_one_def split: if_splits prod.splits option.splits)

lemma read_batch_keeps: "read_batch d now ps = Some (out, d') \<Longrightarrow> length out \<le> length ps \<and> set out \<subseteq> set ps"
proof (induction ps arbitrary: d out)
  case (Cons p ps)
  then obtain o1 d1 out1 where "read_one d now p = Some (o1, d1)" "read_batch d1 now ps = Some (out1, d')"
    "out = (case o1 of None \<Rightarrow> out1 | Some q \<Rightarrow> q # out1)"
    by (auto split: option.splits prod.splits)
  with Cons.IH [of d1 out1] read_one_keeps [of d now p _ d1] show ?case
    by (auto split: option.splits)
qed simp

lemma pump_add_fits: "pump_add nbufs buflen offset now d out p = Some (e, out', d') \<Longrightarrow>
  fits nbufs buflen offset out \<Longrightarrow> fits nbufs buflen offset out'"
  by (auto simp: pump_add_def fits_def split: pumped.splits option.splits if_splits)

lemma pump_loop_fits: "pump_loop nbufs buflen offset now q d out = Some (e, out', d') \<Longrightarrow>
  fits nbufs buflen offset out \<Longrightarrow> fits nbufs buflen offset out'"
proof (induction q arbitrary: d out)
  case (Cons p q)
  show ?case
  proof (cases "length out + length (tw_pending d) < nbufs")
    case True
    with Cons.prems(1) obtain e1 out1 d1 where
      add: "pump_add nbufs buflen offset now d out p = Some (e1, out1, d1)"
      by (auto split: option.splits)
    with True Cons show ?thesis
      using pump_add_fits [OF add Cons.prems(2)] by (cases e1) auto
  qed (use Cons in auto)
qed simp

text \<open>what a read returns fits what the caller passed: no more packets than buffers, and
  every packet within its buffer.\<close>

theorem tw_Read_fits:
  assumes "tw_Read d now nbufs buflen offset batch = Some (out, d')"
    and "fits nbufs buflen offset batch"
  shows "fits nbufs buflen offset out"
proof (cases "tw_pending d = []")
  case True
  with assms(1) obtain kept d1 where "read_batch d now batch = Some (kept, d1)"
    and out: "drainLocked nbufs buflen offset d1 kept = (out, d')"
    by (auto simp: tw_Read_def split: option.splits)
  then have "fits nbufs buflen offset kept"
    using assms(2) read_batch_keeps [of d now batch kept d1] by (auto simp: fits_def)
  from drainLocked_fits [OF this, of d1] show ?thesis by (simp add: out)
next
  case False
  with assms(1) have "drainLocked nbufs buflen offset d [] = (out, d')" by (simp add: tw_Read_def)
  with drainLocked_fits [of nbufs buflen offset "[]" d] show ?thesis by (simp add: fits_def)
qed

lemma readPumped_fits:
  assumes "readPumped d now nbufs buflen offset = Some (PumpRead out e d')"
  shows "fits nbufs buflen offset out"
proof -
  have empty: "fits nbufs buflen offset []" by (simp add: fits_def)
  have loop: "fits nbufs buflen offset out" if "fits nbufs buflen offset out0"
    and r: "map_option (pump_finish nbufs buflen offset) (pump_loop nbufs buflen offset now q d0 out0) =
      Some (PumpRead out e d')" for q d0 out0
  proof -
    from r obtain e1 out1 d1 where l: "pump_loop nbufs buflen offset now q d0 out0 = Some (e1, out1, d1)"
      and "pump_finish nbufs buflen offset (e1, out1, d1) = PumpRead out e d'"
      by auto
    then have "out = fst (drainLocked nbufs buflen offset d1 out1)"
      by (cases "drainLocked nbufs buflen offset d1 out1") (simp add: pump_finish_def)
    with drainLocked_fits [OF pump_loop_fits [OF l that(1)]] show ?thesis by simp
  qed
  show ?thesis
  proof (cases "tw_pending d = []")
    case True
    with assms obtain p q where q: "tw_queue d = p # q"
      by (auto simp: readPumped_def split: list.splits if_splits)
    with True assms obtain e1 out1 d1 where
      add: "pump_add nbufs buflen offset now d [] p = Some (e1, out1, d1)"
      by (auto simp: readPumped_def split: option.splits)
    note fit = pump_add_fits [OF add empty]
    show ?thesis using assms True q add fit loop [OF fit, of q d1]
      by (cases e1) (auto simp: readPumped_def)
  next
    case False
    with assms loop [OF empty, of "tw_queue d" d] show ?thesis by (simp add: readPumped_def)
  qed
qed

section \<open>A sample room\<close>

definition sample_device :: "u32 \<Rightarrow> tw_device" where
  "sample_device ip = tw_SetPeers (the (tw_New \<lparr>pfx_addr = V4 ip, pfx_bits = 24\<rparr> ''on''))
     [V4 0x0a640102]"

text \<open>A UDP broadcast from 10.100.1.1 to 10.100.1.255.\<close>

definition sample_bcast :: bytes where
  "sample_bcast = [0x45, 0, 0, 28, 0, 0, 0, 0, 64, 17, 0, 0, 10, 100, 1, 1, 10, 100, 1, 255,
     19, 136, 0, 53, 0, 8, 0, 0]"

theorem tw_unwrap_wrap_witness:
  "\<exists>w. tw_wrap (sample_device 0x0a640101) sample_bcast (tw_self (sample_device 0x0a640102)) = Some w \<and>
     tw_unwrap (sample_device 0x0a640102) w = (Some sample_bcast, True)"
proof (rule tw_unwrap_wrap)
  show "shouldForward (sample_device 0x0a640101) sample_bcast" by code_simp
  show "tw_self (sample_device 0x0a640101) = V4 0x0a640101" by code_simp
  show "tw_self (sample_device 0x0a640102) = V4 0x0a640102" by code_simp
  show "contains (tw_subnet (sample_device 0x0a640102)) (tw_self (sample_device 0x0a640101))" by code_simp
  show "tw_bcast (sample_device 0x0a640102) = tw_bcast (sample_device 0x0a640101)" by code_simp
  show "tw_mode (sample_device 0x0a640102) \<noteq> ModeOff" by code_simp
  show "unat (be16 (sample_bcast ! 2) (sample_bcast ! 3)) = length sample_bcast" by code_simp
qed

definition sample_wrapped :: bytes where
  "sample_wrapped = the (tw_wrap (sample_device 0x0a640101) sample_bcast (V4 0x0a640102))"

theorem tw_wrap_checksum_witness:
  "tw_checksum (take 20 sample_wrapped) = 0 \<and> drop 32 sample_wrapped = sample_bcast"
proof (rule tw_wrap_checksum)
  have "tw_wrap (sample_device 0x0a640101) sample_bcast (V4 0x0a640102) \<noteq> None" by code_simp
  then show "tw_wrap (sample_device 0x0a640101) sample_bcast (V4 0x0a640102) = Some sample_wrapped"
    by (simp add: sample_wrapped_def)
qed

theorem tw_Write_no_spoof_witness:
  "os_packet_ok (sample_device 0x0a640102) [sample_wrapped] sample_bcast"
proof (rule tw_Write_no_spoof)
  show "tw_Write plain_tables (sample_device 0x0a640102) 0 [sample_wrapped] =
    Some ([sample_bcast], sample_device 0x0a640102)"
  proof -
    have "tw_filter (sample_device 0x0a640102) = None" "tw_divert (sample_device 0x0a640102) = None"
      by code_simp+
    moreover have "tw_unwrap (sample_device 0x0a640102) sample_wrapped = (Some sample_bcast, True)"
      by code_simp
    ultimately show ?thesis by (simp add: write_one_def write_filter_def)
  qed
qed simp

theorem tw_broadcast_rate_witness: "passed tw_allow (sample_device 0x0a640101) [5, 6, 7] \<le> 400"
proof (rule tw_broadcast_rate [where ?t0.0 = 5])
  show "0 \<le> tw_counter (sample_device 0x0a640101)" by code_simp
  show "5 \<le> t \<and> t < 5 + second" if "t \<in> set [5, 6, 7]" for t
    using that by (auto simp: second_def)
qed

theorem tw_Read_fits_witness:
  "fits 4 2000 16 (fst (the (tw_Read (sample_device 0x0a640101) 5 4 2000 16 [sample_bcast])))"
proof (rule tw_Read_fits)
  have "tw_Read (sample_device 0x0a640101) 5 4 2000 16 [sample_bcast] \<noteq> None"
  proof -
    have "tw_pending (sample_device 0x0a640101) = []" by code_simp
    moreover have "read_one (sample_device 0x0a640101) 5 sample_bcast \<noteq> None"
    proof -
      have "shouldForward (sample_device 0x0a640101) sample_bcast" by code_simp
      moreover have "fst (tw_allow (sample_device 0x0a640101) 5)" by code_simp
      moreover have "wrap_all (snd (tw_allow (sample_device 0x0a640101) 5)) sample_bcast
          (tw_peers (snd (tw_allow (sample_device 0x0a640101) 5))) \<noteq> None"
        by code_simp
      ultimately show ?thesis by (auto simp: read_one_def split: prod.splits)
    qed
    ultimately show ?thesis by (auto simp: tw_Read_def split: option.splits)
  qed
  then show "tw_Read (sample_device 0x0a640101) 5 4 2000 16 [sample_bcast] =
      Some (fst (the (tw_Read (sample_device 0x0a640101) 5 4 2000 16 [sample_bcast])),
        snd (the (tw_Read (sample_device 0x0a640101) 5 4 2000 16 [sample_bcast])))"
    by simp
  show "fits 4 2000 16 [sample_bcast]" by (simp add: fits_def sample_bcast_def)
qed

end
