(* ===== verification/Stun.thy ===== *)
theory Stun
  imports Netip
begin

text \<open>
  \<^verbatim>\<open>internal/stun\<close>: the STUN messages with which a node learns how the outside world
  sees it. \<open>stun_Response\<close> builds what a controller answers, \<open>stun_ParseResponse\<close> is what
  a node makes of it, and \<open>stun_serve\<close> is one turn of the server's receive loop. A Go byte
  array of twelve bytes (\<^verbatim>\<open>TxID\<close>) is a byte string of length twelve.
\<close>

section \<open>Messages\<close>

type_synonym txid = bytes

datatype stun_error = NotRequest | NotResponse | NoMappedAddress

definition stun_headerLen :: nat where "stun_headerLen = 20"
definition magicCookie :: u32 where "magicCookie = 0x2112A442"
definition magicPort :: u16 where "magicPort = 0x2112"
definition typeBindingRequest :: u16 where "typeBindingRequest = 0x0001"
definition typeBindingResponse :: u16 where "typeBindingResponse = 0x0101"
definition attrMappedAddress :: u16 where "attrMappedAddress = 0x0001"
definition attrXORMappedAddress :: u16 where "attrXORMappedAddress = 0x0020"
definition familyIPv4 :: byte where "familyIPv4 = 0x01"
definition familyIPv6 :: byte where "familyIPv6 = 0x02"
definition MaxMessage :: nat where "MaxMessage = 512"

definition stun_Is :: "bytes \<Rightarrow> bool" where
  "stun_Is b = (stun_headerLen \<le> length b \<and> b ! 0 AND 0xC0 = 0 \<and>
     be32 (b ! 4) (b ! 5) (b ! 6) (b ! 7) = magicCookie \<and>
     unat (be16 (b ! 2) (b ! 3)) + stun_headerLen \<le> length b)"

definition stun_header :: "u16 \<Rightarrow> nat \<Rightarrow> txid \<Rightarrow> bytes" where
  "stun_header typ bodyLen i = put16 typ @ put16 (of_nat bodyLen) @ put32 magicCookie @ i"

definition stun_Request :: "txid \<Rightarrow> bytes" where
  "stun_Request i = stun_header typeBindingRequest 0 i"

definition stun_ParseRequest :: "bytes \<Rightarrow> stun_error + txid" where
  "stun_ParseRequest b =
     (if \<not> stun_Is b \<or> be16 (b ! 0) (b ! 1) \<noteq> typeBindingRequest then Inl NotRequest
      else Inr (bslice 8 20 b))"

text \<open>\<^verbatim>\<open>xorIP\<close>: the address bytes against the cookie and the transaction identifier.\<close>

definition xorIP :: "bytes \<Rightarrow> txid \<Rightarrow> bytes" where
  "xorIP ip i = map2 (XOR) ip (put32 magicCookie @ i)"

text \<open>\<^verbatim>\<open>Addr.AsSlice\<close> and \<^verbatim>\<open>AddrFromSlice\<close>.\<close>

definition as_slice :: "addr \<Rightarrow> bytes" where
  "as_slice a = (case a of NoAddr \<Rightarrow> [] | V4 w \<Rightarrow> put32 w | V6 w _ \<Rightarrow> put128 w)"

definition addr_from_slice :: "bytes \<Rightarrow> addr option" where
  "addr_from_slice b = (if length b = 4 then Some (addr_from4 b)
     else if length b = 16 then Some (V6 (be128 b) []) else None)"

text \<open>\<^verbatim>\<open>Response\<close> fills a zeroed array of 24 bytes; the address bytes it does not write (an
  invalid address has none) stay zero.\<close>

definition stun_Response :: "txid \<Rightarrow> addrport \<Rightarrow> bytes" where
  "stun_Response i ap =
     (let ip = unmap (ap_addr ap);
          ipLen = (if is6 ip then 16 else 4);
          family = (if is6 ip then familyIPv6 else familyIPv4);
          attrLen = 4 + ipLen;
          body = xorIP (as_slice ip) i
      in stun_header typeBindingResponse (4 + attrLen) i
         @ put16 attrXORMappedAddress @ put16 (of_nat attrLen) @ [0, family]
         @ put16 (ap_port ap XOR magicPort)
         @ body @ replicate (ipLen - length body) 0)"

definition stun_parseAddr :: "bytes \<Rightarrow> txid \<Rightarrow> bool \<Rightarrow> addrport option" where
  "stun_parseAddr v i xored =
     (if length v < 4 then None
      else
        let ipLen = (if v ! 1 = familyIPv4 then 4 else if v ! 1 = familyIPv6 then 16 else 0)
        in if ipLen = 0 \<or> length v < 4 + ipLen then None
           else
             let port = be16 (v ! 2) (v ! 3);
                 ip = bslice 4 (4 + ipLen) v;
                 port' = (if xored then port XOR magicPort else port);
                 ip' = (if xored then xorIP ip i else ip)
             in (case addr_from_slice ip' of
                   None \<Rightarrow> None
                 | Some a \<Rightarrow> Some \<lparr>ap_addr = unmap a, ap_port = port'\<rparr>))"

text \<open>\<^verbatim>\<open>4 + (n+3)&^3\<close>: an attribute with its header and its padding.\<close>

definition attr_span :: "nat \<Rightarrow> nat" where
  "attr_span n = 4 + (n + 3) div 4 * 4"

text \<open>The attribute loop. The answer is the address and whether it came from an
  XOR-MAPPED-ADDRESS, at which the loop returns at once. A \<^verbatim>\<open>break\<close> that stands in the
  loop's body ends the loop.\<close>

function stun_attrs :: "txid \<Rightarrow> addrport option \<Rightarrow> bytes \<Rightarrow> addrport option" where
  "stun_attrs i mapped body =
     (if length body < 4 then mapped
      else
        let typ = be16 (body ! 0) (body ! 1);
            n = unat (be16 (body ! 2) (body ! 3))
        in if length body < 4 + n then mapped
           else
             let v = bslice 4 (4 + n) body;
                 xor_addr = (if typ = attrXORMappedAddress then stun_parseAddr v i True else None);
                 mapped' = (if typ = attrMappedAddress
                            then (case stun_parseAddr v i False of None \<Rightarrow> mapped | Some a \<Rightarrow> Some a)
                            else mapped)
             in (case xor_addr of
                   Some a \<Rightarrow> Some a
                 | None \<Rightarrow> if length body < attr_span n then mapped'
                     else stun_attrs i mapped' (drop (attr_span n) body)))"
  by pat_completeness auto
termination
  by (relation "measure (\<lambda>(i, mapped, body). length body)") (auto simp: attr_span_def)

declare stun_attrs.simps [simp del]

text \<open>\<^verbatim>\<open>mapped.IsValid()\<close> holds of every address \<open>stun_parseAddr\<close> returns, so that the
  zero \<^verbatim>\<open>AddrPort\<close> is \<open>None\<close> here.\<close>

definition stun_ParseResponse :: "bytes \<Rightarrow> stun_error + txid \<times> addrport" where
  "stun_ParseResponse b =
     (if \<not> stun_Is b \<or> be16 (b ! 0) (b ! 1) \<noteq> typeBindingResponse then Inl NotResponse
      else
        let i = bslice 8 20 b;
            body = bslice stun_headerLen (stun_headerLen + unat (be16 (b ! 2) (b ! 3))) b
        in (case stun_attrs i None body of
              Some a \<Rightarrow> Inr (i, a)
            | None \<Rightarrow> Inl NoMappedAddress))"

text \<open>One turn of \<^verbatim>\<open>serveConn\<close>: the datagram cut at the buffer, and the answer if one is
  sent, with the address it goes to.\<close>

definition stun_serve :: "bytes \<Rightarrow> addrport \<Rightarrow> (bytes \<times> addrport) option" where
  "stun_serve dgram from =
     (case stun_ParseRequest (take MaxMessage dgram) of
        Inl _ \<Rightarrow> None
      | Inr i \<Rightarrow> Some (stun_Response i from, from))"

lemmas stun_consts = stun_headerLen_def magicCookie_def magicPort_def typeBindingRequest_def
  typeBindingResponse_def attrMappedAddress_def attrXORMappedAddress_def familyIPv4_def
  familyIPv6_def

section \<open>The messages as byte strings\<close>

lemma put_stun_consts:
  "put32 magicCookie = [0x21, 0x12, 0xA4, 0x42]" "be32 0x21 0x12 0xA4 0x42 = magicCookie"
  "put16 typeBindingRequest = [0, 1]" "put16 typeBindingResponse = [1, 1]"
  "put16 attrXORMappedAddress = [0, 0x20]" "be16 0 0x20 = attrXORMappedAddress"
  "be16 0 1 = typeBindingRequest" "be16 1 1 = typeBindingResponse"
  by code_simp+

lemma stun_header_nth:
  assumes "length i = 12"
  shows "stun_header typ n i @ rest = hi8 typ # lo8 typ # hi8 (of_nat n) # lo8 (of_nat n) #
     0x21 # 0x12 # 0xA4 # 0x42 # i @ rest"
  by (simp add: stun_header_def put16_def put_stun_consts)

lemma bslice_txid: "length i = 12 \<Longrightarrow>
  bslice 8 20 (a # b # c # d # e # f # g # h # i @ rest) = i"
  by (simp add: bslice_def)

lemma bslice_body: "length i = 12 \<Longrightarrow> length rest = n - 20 \<Longrightarrow>
  bslice 20 n (a # b # c # d # e # f # g # h # i @ rest) = rest"
  by (simp add: bslice_def)

lemma stun_Is_header:
  assumes i: "length i = 12" and n: "n = length rest" "n < 65536" and t: "hi8 typ AND 0xC0 = 0"
  shows "stun_Is (stun_header typ n i @ rest)"
  using i n t unfolding stun_header_nth [OF i] stun_Is_def
  by (simp add: stun_headerLen_def put_stun_consts unat_of_nat_u16)

text \<open>The two message types have their two top bits clear.\<close>

lemma stun_types_hi8:
  "hi8 typeBindingRequest AND 0xC0 = 0" "hi8 typeBindingResponse AND 0xC0 = 0"
  "typeBindingRequest \<noteq> typeBindingResponse"
  by code_simp+

lemma xorIP_length [simp]: "length i = 12 \<Longrightarrow> length ip \<le> 16 \<Longrightarrow> length (xorIP ip i) = length ip"
  by (simp add: xorIP_def put_stun_consts)

lemma map2_xor_twice: "length xs \<le> length ks \<Longrightarrow> map2 (XOR) (map2 (XOR) xs ks) ks = (xs :: bytes)"
proof (induction xs arbitrary: ks)
  case (Cons x xs)
  then obtain k ks' where "ks = k # ks'" "length xs \<le> length ks'"
    by (cases ks) auto
  with Cons.IH show ?case by (simp add: xor.assoc)
qed simp

lemma xorIP_twice: "length i = 12 \<Longrightarrow> length ip \<le> 16 \<Longrightarrow> xorIP (xorIP ip i) i = ip"
  unfolding xorIP_def by (rule map2_xor_twice) (simp add: put_stun_consts)

lemma xor_port_twice: "(p XOR magicPort) XOR magicPort = p"
  by (simp add: xor.assoc)

definition stun_ipLen :: "addr \<Rightarrow> nat" where
  "stun_ipLen a = (if is6 a then 16 else 4)"

lemma addr_from_as_slice:
  "a \<noteq> NoAddr \<Longrightarrow> addr_from_slice (as_slice a) = Some (without_zone a) \<and>
    length (as_slice a) = stun_ipLen a"
proof (cases a)
  case (V4 w)
  obtain b0 b1 b2 b3 where "w = be32 b0 b1 b2 b3" by (rule be32_surj)
  with V4 show ?thesis
    by (simp add: as_slice_def addr_from_slice_def addr_from4_def without_zone_def with_zone_def
        stun_ipLen_def is6_def)
qed (simp_all add: as_slice_def addr_from_slice_def without_zone_def with_zone_def
      stun_ipLen_def is6_def)

lemma unmap_idem [simp]: "unmap (unmap a) = unmap a"
  by (cases a) (auto simp: unmap_def)

lemma unmap_without_zone: "unmap (without_zone (unmap a)) = without_zone (unmap a)"
  by (cases a) (auto simp: unmap_def without_zone_def with_zone_def is4in6_def)

lemma stun_ipLen_cases: "stun_ipLen a = 4 \<or> stun_ipLen a = 16"
  by (simp add: stun_ipLen_def)

text \<open>The attribute a response carries, as the node reads it.\<close>

definition stun_attr_value :: "txid \<Rightarrow> addrport \<Rightarrow> bytes" where
  "stun_attr_value i ap = [0, if is6 (unmap (ap_addr ap)) then familyIPv6 else familyIPv4]
     @ put16 (ap_port ap XOR magicPort) @ xorIP (as_slice (unmap (ap_addr ap))) i"

lemma unmap_NoAddr [simp]: "unmap a = NoAddr \<longleftrightarrow> a = NoAddr"
  by (cases a) (auto simp: unmap_def)

lemma parseAddr_attr_value:
  assumes i: "length i = 12" and a: "ap_addr ap \<noteq> NoAddr"
  shows "stun_parseAddr (stun_attr_value i ap) i True =
    Some \<lparr>ap_addr = without_zone (unmap (ap_addr ap)), ap_port = ap_port ap\<rparr>"
proof -
  let ?ip = "unmap (ap_addr ap)"
  have s: "addr_from_slice (as_slice ?ip) = Some (without_zone ?ip)" "length (as_slice ?ip) = stun_ipLen ?ip"
    using addr_from_as_slice [of ?ip] a by simp_all
  have l: "length (as_slice ?ip) \<le> 16" using s stun_ipLen_cases [of ?ip] by auto
  let ?x = "xorIP (as_slice ?ip) i"
  have lx: "length ?x = stun_ipLen ?ip" using i l s by simp
  have fam: "(if is6 ?ip then familyIPv6 else familyIPv4) = familyIPv4 \<longleftrightarrow> \<not> is6 ?ip"
    by (simp add: stun_consts)
  have "bslice 4 (4 + stun_ipLen ?ip) (stun_attr_value i ap) = ?x"
    using lx by (simp add: stun_attr_value_def bslice_def put16_def)
  then show ?thesis
    using lx s(1) stun_ipLen_cases [of ?ip] fam
    by (auto simp: stun_parseAddr_def stun_attr_value_def put16_def Let_def xor_port_twice
        xorIP_twice [OF i l] unmap_without_zone stun_ipLen_def bslice_def)
qed

lemma stun_Response_split:
  assumes i: "length i = 12" and a: "ap_addr ap \<noteq> NoAddr"
  defines "n \<equiv> 4 + stun_ipLen (unmap (ap_addr ap))"
  shows "stun_Response i ap = stun_header typeBindingResponse (4 + n) i @
      ([0, 0x20] @ put16 (of_nat n) @ stun_attr_value i ap)"
    and "length (stun_attr_value i ap) = n"
proof -
  let ?ip = "unmap (ap_addr ap)"
  have s: "length (as_slice ?ip) = stun_ipLen ?ip" using addr_from_as_slice [of ?ip] a by simp
  then have lx: "length (xorIP (as_slice ?ip) i) = stun_ipLen ?ip"
    using i stun_ipLen_cases [of ?ip] by auto
  show "length (stun_attr_value i ap) = n"
    using lx by (simp add: n_def stun_attr_value_def)
  show "stun_Response i ap = stun_header typeBindingResponse (4 + n) i @
      ([0, 0x20] @ put16 (of_nat n) @ stun_attr_value i ap)"
    using lx by (simp add: stun_Response_def n_def stun_ipLen_def stun_attr_value_def Let_def
        put_stun_consts)
qed

section \<open>Properties\<close>

text \<open>What a node reads from the answer of a STUN server is the address and port the
  server saw (with an IPv4 address embedded in IPv6 unmapped, and without a zone), for every
  transaction identifier and every valid address.\<close>

theorem stun_roundtrip:
  assumes "length i = 12" "ap_addr ap \<noteq> NoAddr"
  shows "stun_ParseResponse (stun_Response i ap) =
    Inr (i, \<lparr>ap_addr = without_zone (unmap (ap_addr ap)), ap_port = ap_port ap\<rparr>)"
proof -
  define n where "n = 4 + stun_ipLen (unmap (ap_addr ap))"
  define v where "v = stun_attr_value i ap"
  define body where "body = [0, 0x20] @ put16 (of_nat n) @ v"
  have n: "n < 100" using stun_ipLen_cases [of "unmap (ap_addr ap)"] by (auto simp: n_def)
  have r: "stun_Response i ap = stun_header typeBindingResponse (4 + n) i @ body"
    and lv: "length v = n"
    using stun_Response_split [OF assms] by (simp_all add: n_def body_def v_def)
  have lb: "length body = 4 + n" using lv by (simp add: body_def)
  have Is: "stun_Is (stun_Response i ap)"
    unfolding r using assms lb n stun_types_hi8 by (intro stun_Is_header) simp_all
  have un: "unat (of_nat n :: u16) = n" "unat (of_nat (4 + n) :: u16) = 4 + n"
    by (rule unat_of_nat_u16; use n in simp)+
  have "stun_attrs i None body = Some \<lparr>ap_addr = without_zone (unmap (ap_addr ap)), ap_port = ap_port ap\<rparr>"
    using parseAddr_attr_value [OF assms] lv un
    by (subst stun_attrs.simps)
      (simp add: body_def put16_def put_stun_consts bslice_def v_def [symmetric])
  then show ?thesis
    using Is assms lb un
    by (simp add: stun_ParseResponse_def r stun_header_nth bslice_txid bslice_body stun_headerLen_def)
qed

theorem stun_roundtrip_witness:
  "stun_ParseResponse (stun_Response [1, 2, 3, 4, 5, 6, 7, 8, 9, 10, 11, 12]
     \<lparr>ap_addr = V6 0x20010db8000000000000000000000001 ''eth0'', ap_port = 41641\<rparr>) =
   Inr ([1, 2, 3, 4, 5, 6, 7, 8, 9, 10, 11, 12],
     \<lparr>ap_addr = V6 0x20010db8000000000000000000000001 [], ap_port = 41641\<rparr>)"
proof -
  have "without_zone (unmap (V6 0x20010db8000000000000000000000001 ''eth0'')) =
      V6 0x20010db8000000000000000000000001 []"
    by code_simp
  then show ?thesis
    using stun_roundtrip [of "[1, 2, 3, 4, 5, 6, 7, 8, 9, 10, 11, 12]"
        "\<lparr>ap_addr = V6 0x20010db8000000000000000000000001 ''eth0'', ap_port = 41641\<rparr>"]
    by simp
qed

text \<open>The STUN server answers exactly the well-formed binding requests, to the address
  they came from and with their own transaction identifier; whatever it answers is a response
  of at most 44 bytes, against at least 20 of the request, and no answer of the server makes
  a server answer again.\<close>

theorem stun_serve_answers:
  "case stun_serve dgram from of
     None \<Rightarrow> \<forall>i. stun_ParseRequest (take MaxMessage dgram) \<noteq> Inr i
   | Some (out, dst) \<Rightarrow> dst = from \<and> 20 \<le> length dgram \<and> length out \<le> 44 \<and>
       out = stun_Response (bslice 8 20 dgram) from \<and> (\<forall>src. stun_serve out src = None)"
proof (cases "stun_ParseRequest (take MaxMessage dgram)")
  case (Inl e)
  then show ?thesis by (simp add: stun_serve_def)
next
  case (Inr i)
  let ?b = "take MaxMessage dgram"
  have l: "20 \<le> length ?b" and i: "i = bslice 8 20 ?b"
    using Inr by (auto simp: stun_ParseRequest_def stun_Is_def stun_headerLen_def split: if_splits)
  have i': "i = bslice 8 20 dgram" using i by (simp add: bslice_def MaxMessage_def drop_take)
  then have li: "length i = 12" using l by simp linarith
  let ?out = "stun_Response i from"
  have "length (as_slice a) \<le> stun_ipLen a" for a
    by (cases a) (simp_all add: as_slice_def stun_ipLen_def is6_def)
  from this [of "unmap (ap_addr from)"] have lo: "length ?out = 28 + stun_ipLen (unmap (ap_addr from))"
    using li stun_ipLen_cases [of "unmap (ap_addr from)"]
    by (auto simp: stun_Response_def stun_header_def stun_ipLen_def Let_def split: if_splits)
  have "stun_serve ?out src = None" for src
  proof -
    have "take 2 ?out = [1, 1]"
      by (simp add: stun_Response_def stun_header_def put_stun_consts Let_def)
    then have "be16 (take MaxMessage ?out ! 0) (take MaxMessage ?out ! 1) = typeBindingResponse"
      using lo by (cases ?out; cases "tl ?out") (simp_all add: put_stun_consts MaxMessage_def)
    then show ?thesis
      using stun_types_hi8(3) by (simp add: stun_serve_def stun_ParseRequest_def)
  qed
  with Inr i' l lo stun_ipLen_cases [of "unmap (ap_addr from)"] show ?thesis
    by (auto simp: stun_serve_def)
qed

end
