(* ===== verification/Obfs.thy ===== *)
theory Obfs
  imports Go_Strings "HOL-Library.Multiset"
begin

text \<open>
  \<^verbatim>\<open>internal/obfs\<close>: what a room needs on the wire, derived from its secret. \<open>Derive\<close> is
  \<^verbatim>\<open>Secret.Derive\<close>, with the shuffle of the quarters, the four header ranges in \<^verbatim>\<open>uint64\<close>
  arithmetic and the paddings; \<open>Tagger_Put\<close> and \<open>Tagger_Match\<close> write and check the room tag.
  The key derivation function and the block cipher are arguments: every result holds for
  whatever bytes they return, HKDF as long as it returns the number of bytes asked for.
\<close>

type_synonym u64 = "64 word"

section \<open>The room profile\<close>

definition TagLen :: nat where "TagLen = 8"
definition nonceLen :: nat where "nonceLen = 4"
definition MaxTransportPadding :: u16 where "MaxTransportPadding = 32"
definition MinPadding :: u16 where "MinPadding = 12"

record obfs_range =
  Lo :: u32
  Hi :: u32

definition Range_String :: "obfs_range \<Rightarrow> string" where
  "Range_String r = (if Lo r = Hi r then dec (unat (Lo r))
     else dec (unat (Lo r)) @ ''-'' @ dec (unat (Hi r)))"

record profile =
  Headers :: "obfs_range list"
  Paddings :: "u16 list"
  HeaderProtectionKey :: bytes
  PresharedKey :: bytes
  TagKey :: bytes

text \<open>The shuffle of \<open>[0, 1, 2, 3]\<close> by the first bytes of the stream.\<close>

definition swap_at :: "nat \<Rightarrow> nat \<Rightarrow> 'a list \<Rightarrow> 'a list" where
  "swap_at i j xs = xs[i := xs ! j, j := xs ! i]"

definition header_order :: "bytes \<Rightarrow> nat list" where
  "header_order r = fold (\<lambda>i. swap_at i (unat (r ! i) mod (i + 1))) [3, 2, 1] [0, 1, 2, 3]"

definition quarter :: u64 where "quarter = 0x40000000"

definition rd32 :: "nat \<Rightarrow> bytes \<Rightarrow> u32" where
  "rd32 k r = be32 (r ! k) (r ! (k + 1)) (r ! (k + 2)) (r ! (k + 3))"

definition header_range :: "nat \<Rightarrow> u32 \<Rightarrow> u32 \<Rightarrow> obfs_range" where
  "header_range q a b =
     (let base0 = of_nat q * quarter;
          base = (if base0 = 0 then 0x10000 else base0);
          width = 0x100000 + (ucast a :: u64) mod 0x1000000;
          span = quarter - base mod quarter - width - 1;
          lo = base + (ucast b :: u64) mod span
      in \<lparr>Lo = ucast lo, Hi = ucast (lo + width)\<rparr>)"

definition handshake_padding :: "byte \<Rightarrow> u16" where
  "handshake_padding x = 16 + (ucast x :: u16) mod 128"

definition Derive :: "(bytes \<Rightarrow> string \<Rightarrow> nat \<Rightarrow> bytes) \<Rightarrow> bytes \<Rightarrow> profile" where
  "Derive hkdf s =
     (let r = hkdf s ''awg-params'' 64;
          order = header_order r;
          s1 = handshake_padding (r ! 36);
          s2 = handshake_padding (r ! 37);
          s3 = handshake_padding (r ! 38);
          s2' = (if s1 + 148 = s2 + 92 then s2 + 1 else s2);
          s4 = MinPadding + (ucast (r ! 39) :: u16) mod (MaxTransportPadding - MinPadding + 1)
      in \<lparr>Headers = map (\<lambda>i. header_range (order ! i) (rd32 (4 + 4 * i) r) (rd32 (20 + 4 * i) r)) [0, 1, 2, 3],
          Paddings = [s1, s2', s3, s4],
          HeaderProtectionKey = hkdf s ''awg-header-protection'' 32,
          PresharedKey = hkdf s ''wireguard-psk'' 32,
          TagKey = hkdf s ''room-tag'' 16\<rparr>)"

section \<open>The device configuration\<close>

definition hex_digit :: "nat \<Rightarrow> char" where
  "hex_digit n = (''0123456789abcdef'' ! n)"

definition hex_string :: "bytes \<Rightarrow> string" where
  "hex_string bs = concat (map (\<lambda>b. [hex_digit (unat b div 16), hex_digit (unat b mod 16)]) bs)"

definition RoomID :: "(bytes \<Rightarrow> string \<Rightarrow> nat \<Rightarrow> bytes) \<Rightarrow> bytes \<Rightarrow> string" where
  "RoomID hkdf s = hex_string (hkdf s ''room-id'' 16)"

record client_params =
  Jc :: int
  Jmin :: int
  Jmax :: int
  cp_I :: "string list"
  ContentPadding :: string

definition DefaultClientParams :: client_params where
  "DefaultClientParams = \<lparr>Jc = 4, Jmin = 40, Jmax = 120, cp_I = replicate 5 [], ContentPadding = ''0-32''\<rparr>"

definition uapi_line :: "string \<Rightarrow> string \<Rightarrow> string" where
  "uapi_line k v = k @ ''='' @ v @ [CHR 0x0A]"

definition uapi_lines :: "string \<Rightarrow> string list \<Rightarrow> string list" where
  "uapi_lines k vs = map (\<lambda>(i, v). uapi_line (k @ dec (i + 1)) v) (enumerate 0 vs)"

definition DeviceUAPI :: "profile \<Rightarrow> client_params \<Rightarrow> string" where
  "DeviceUAPI p c = concat (
     [uapi_line ''jc'' (dec_int (Jc c)), uapi_line ''jmin'' (dec_int (Jmin c)),
      uapi_line ''jmax'' (dec_int (Jmax c))]
     @ uapi_lines ''s'' (map (\<lambda>s. dec (unat s)) (Paddings p))
     @ uapi_lines ''h'' (map Range_String (Headers p))
     @ map (\<lambda>(i, v). uapi_line (''i'' @ dec (i + 1)) v) (filter (\<lambda>(i, v). v \<noteq> []) (enumerate 0 (cp_I c)))
     @ [uapi_line ''header_protection_key'' (hex_string (HeaderProtectionKey p))]
     @ (if ContentPadding c \<noteq> [] then [uapi_line ''content_padding_addition'' (ContentPadding c)] else []))"

section \<open>The room tag\<close>

text \<open>\<open>enc key block\<close> is the block cipher; the nonce is drawn by the caller.\<close>

definition Tagger_mac :: "(bytes \<Rightarrow> bytes \<Rightarrow> bytes) \<Rightarrow> bytes \<Rightarrow> bytes \<Rightarrow> bytes" where
  "Tagger_mac enc key nonce = enc key (nonce @ replicate (16 - length nonce) 0)"

definition Tagger_Put :: "(bytes \<Rightarrow> bytes \<Rightarrow> bytes) \<Rightarrow> bytes \<Rightarrow> bytes \<Rightarrow> bytes" where
  "Tagger_Put enc key nonce = nonce @ take (TagLen - nonceLen) (Tagger_mac enc key nonce)"

definition Tagger_Match :: "(bytes \<Rightarrow> bytes \<Rightarrow> bytes) \<Rightarrow> bytes \<Rightarrow> bytes \<Rightarrow> bool" where
  "Tagger_Match enc key pkt = (TagLen \<le> length pkt \<and>
     take (TagLen - nonceLen) (Tagger_mac enc key (take nonceLen pkt)) = bslice nonceLen TagLen pkt)"

section \<open>The header ranges\<close>

lemma set_swap_at: "i < length xs \<Longrightarrow> j < length xs \<Longrightarrow> mset (swap_at i j xs) = mset xs"
  unfolding swap_at_def by (rule mset_swap)

lemma length_swap_at [simp]: "length (swap_at i j xs) = length xs"
  by (simp add: swap_at_def)

lemma header_order_perm: "mset (header_order r) = mset [0, 1, 2, 3]"
proof -
  have step: "mset (swap_at i (unat (r ! i) mod (i + 1)) xs) = mset xs" if "i < 4" "length xs = 4" for i xs
    using that mod_less_divisor [of "i + 1" "unat (r ! i)"] by (intro set_swap_at) linarith+
  have "mset (fold (\<lambda>i. swap_at i (unat (r ! i) mod (i + 1))) is xs) = mset xs"
    if "\<forall>i \<in> set is. i < 4" "length xs = 4" for "is" xs
    using that by (induction "is" arbitrary: xs) (simp_all add: step del: add_Suc_right One_nat_def)
  from this [of "[3, 2, 1]" "[0, 1, 2, 3 :: nat]"] show ?thesis unfolding header_order_def by simp
qed

text \<open>The range drawn in quarter \<open>q\<close>, as numbers.\<close>

definition hr_base :: "nat \<Rightarrow> nat" where
  "hr_base q = (if q = 0 then 65536 else q * 1073741824)"

definition hr_width :: "u32 \<Rightarrow> nat" where
  "hr_width a = 1048576 + unat a mod 16777216"

lemma unat_u32_u64: "unat (ucast (a :: u32) :: u64) = unat a"
proof -
  have "unat a < 18446744073709551616" by (rule less_trans [OF unat_u32_less]) simp
  then show ?thesis by (simp add: unsigned_ucast_eq take_bit_nat_eq_self)
qed

lemma unat_u64_add: "unat (a :: u64) + unat b < 18446744073709551616 \<Longrightarrow> unat (a + b) = unat a + unat b"
  by (simp add: unat_word_ariths)

lemma unat_u64_sub: "unat (b :: u64) \<le> unat a \<Longrightarrow> unat (a - b) = unat a - unat b"
  by (simp add: unat_sub_if')

lemma hr_width_bound: "1048576 \<le> hr_width a" "hr_width a < 17825792"
  using mod_less_divisor [of 16777216 "unat a"] by (simp_all add: hr_width_def)

lemma unat_width: "unat (0x100000 + (ucast (a :: u32) :: u64) mod 0x1000000) = hr_width a"
proof -
  have "unat ((ucast a :: u64) mod 0x1000000) = unat a mod 16777216"
    by (simp add: unat_mod_distrib unat_u32_u64)
  then show ?thesis
    using hr_width_bound [of a] by (subst unat_u64_add) (simp_all add: hr_width_def)
qed

lemma less_4_cases: "(q::nat) < 4 \<Longrightarrow> q = 0 \<or> q = 1 \<or> q = 2 \<or> q = 3"
  by linarith

lemma unat_base: "q < 4 \<Longrightarrow>
  unat (if of_nat q * quarter = 0 then 0x10000 else of_nat q * quarter) = hr_base q"
  by (drule less_4_cases, elim disjE) (simp_all add: quarter_def hr_base_def)

lemma unat_base_mod: "q < 4 \<Longrightarrow> hr_base q mod 1073741824 = (if q = 0 then 65536 else 0)"
  by (auto simp: hr_base_def)

text \<open>No step of the computation wraps around: the range lies in its own quarter.\<close>

lemma header_range_bounds:
  assumes q: "q < 4" and h_def: "h = header_range q a b"
  shows "hr_base q \<le> unat (Lo h)" "unat (Hi h) = unat (Lo h) + hr_width a"
    "unat (Hi h) < (q + 1) * 1073741824"
proof -
  define base :: u64 where "base = (if of_nat q * quarter = 0 then 0x10000 else of_nat q * quarter)"
  define width :: u64 where "width = 0x100000 + (ucast a :: u64) mod 0x1000000"
  define span where "span = quarter - base mod quarter - width - 1"
  define lo where "lo = base + (ucast b :: u64) mod span"
  have ub: "unat base = hr_base q" and uw: "unat width = hr_width a"
    using unat_base [OF q] unat_width by (simp_all add: base_def width_def)
  have q4: "unat quarter = 1073741824" by (simp add: quarter_def)
  have bm: "unat (base mod quarter) = (if q = 0 then 65536 else 0)"
    using unat_base_mod [OF q] by (simp add: unat_mod_distrib ub q4)
  have us: "unat span = 1073741824 - (if q = 0 then 65536 else 0) - hr_width a - 1"
    using hr_width_bound [of a] by (simp add: span_def unat_u64_sub q4 bm uw)
  then have pos: "0 < unat span" using hr_width_bound [of a] by simp
  define m where "m = unat ((ucast b :: u64) mod span)"
  have m: "m < unat span" using pos by (simp add: m_def unat_mod_distrib)
  have bb: "hr_base q + unat span + hr_width a < (q + 1) * 1073741824"
    using us hr_width_bound [of a] by (simp add: hr_base_def)
  have q1: "(q + 1) * 1073741824 \<le> 4294967296" using q by simp
  have ul: "unat lo = hr_base q + m"
    using bb m q1 unfolding lo_def by (subst unat_u64_add) (simp_all add: ub m_def [symmetric])
  have uh: "unat (lo + width) = hr_base q + m + hr_width a"
    using bb m q1 by (subst unat_u64_add) (simp_all add: ul uw)
  have c: "unat (ucast x :: u32) = unat x" if "unat x < 4294967296" for x :: u64
    using that take_bit_nat_eq_self [of "unat x" 32] by (simp add: unsigned_ucast_eq)
  have h: "Lo h = ucast lo" "Hi h = ucast (lo + width)"
    by (simp_all add: h_def header_range_def Let_def lo_def span_def width_def base_def)
  have L: "unat (Lo h) = hr_base q + m" and H: "unat (Hi h) = hr_base q + m + hr_width a"
    unfolding h using bb m q1 by (simp_all add: c ul uh)
  show "hr_base q \<le> unat (Lo h)" "unat (Hi h) = unat (Lo h) + hr_width a"
    "unat (Hi h) < (q + 1) * 1073741824"
    using L H bb m by simp_all
qed

section \<open>Properties\<close>

definition ranges_apart :: "obfs_range \<Rightarrow> obfs_range \<Rightarrow> bool" where
  "ranges_apart g h = (Hi g < Lo h \<or> Hi h < Lo g)"

definition range_ok :: "obfs_range \<Rightarrow> bool" where
  "range_ok h = (4 < Lo h \<and> Lo h < Hi h)"

lemma quarters_apart:
  assumes "q < 4" "q' < 4" "q \<noteq> q'"
  shows "ranges_apart (header_range q a b) (header_range q' a' b')"
proof -
  have "ranges_apart (header_range q a b) (header_range q' a' b')" if "q < q'" "q' < 4" for q q' a b a' b'
  proof -
    have "(q + 1) * 1073741824 \<le> q' * 1073741824" using that by (intro mult_le_mono1) simp
    also have "\<dots> = hr_base q'" using that by (simp add: hr_base_def)
    also have "\<dots> \<le> unat (Lo (header_range q' a' b'))"
      using that by (intro header_range_bounds(1)) simp_all
    finally have "unat (Hi (header_range q a b)) < unat (Lo (header_range q' a' b'))"
      using header_range_bounds(3) [OF _ refl, of q a b] that by linarith
    then show ?thesis by (simp add: ranges_apart_def word_less_nat_alt)
  qed
  with assms show ?thesis
    by (cases "q < q'") (auto, metis ranges_apart_def linorder_neqE_nat)
qed

lemma header_range_ok: "q < 4 \<Longrightarrow> range_ok (header_range q a b)"
  using header_range_bounds(1,2) [OF _ refl, of q a b] hr_width_bound(1) [of a]
  by (auto simp: range_ok_def word_less_nat_alt hr_base_def split: if_splits)

lemma header_order_nth:
  "distinct (header_order r)" "length (header_order r) = 4" "set (header_order r) = {0, 1, 2, 3}"
  using mset_eq_imp_distinct_iff [OF header_order_perm] mset_eq_length [OF header_order_perm]
    mset_eq_setD [OF header_order_perm]
  by simp_all

lemma header_order_nth_less: "i < 4 \<Longrightarrow> header_order r ! i < 4"
  using nth_mem [of i "header_order r"] header_order_nth [of r] by auto

lemma header_order_inj: "i < 4 \<Longrightarrow> j < 4 \<Longrightarrow> i \<noteq> j \<Longrightarrow> header_order r ! i \<noteq> header_order r ! j"
  by (simp add: nth_eq_iff_index_eq header_order_nth)

lemma unat_byte_u16: "unat (ucast (x :: byte) :: u16) = unat x"
proof -
  have "unat x < 65536" by (rule less_trans [OF unat_byte_less]) simp
  then show ?thesis by (simp add: unsigned_ucast_eq take_bit_nat_eq_self)
qed

lemma unat_u16_add: "unat (a :: u16) + unat b < 65536 \<Longrightarrow> unat (a + b) = unat a + unat b"
  by (simp add: unat_word_ariths)

lemma unat_handshake_padding: "unat (handshake_padding x) = 16 + unat x mod 128"
proof -
  have m: "unat ((ucast x :: u16) mod 128) = unat x mod 128"
    by (simp add: unat_mod_distrib unat_byte_u16)
  have "unat x mod 128 < 128" by simp
  then show ?thesis
    unfolding handshake_padding_def by (subst unat_u16_add) (simp_all only: m, simp_all)
qed

definition padding_ok :: "u16 \<Rightarrow> bool" where
  "padding_ok s = (MinPadding \<le> s \<and> s \<le> 144)"

lemma handshake_padding_ok: "padding_ok (handshake_padding x)" "padding_ok (handshake_padding x + 1)"
proof -
  have "unat x mod 128 < 128" by simp
  moreover have "unat (handshake_padding x + 1) = 17 + unat x mod 128"
    using calculation by (subst unat_u16_add) (simp_all add: unat_handshake_padding)
  ultimately show "padding_ok (handshake_padding x)" "padding_ok (handshake_padding x + 1)"
    by (simp_all add: padding_ok_def MinPadding_def word_le_nat_alt unat_handshake_padding)
qed

lemma transport_padding_ok:
  "MinPadding \<le> MinPadding + (ucast (x :: byte) :: u16) mod (MaxTransportPadding - MinPadding + 1) \<and>
   MinPadding + (ucast x :: u16) mod (MaxTransportPadding - MinPadding + 1) \<le> MaxTransportPadding"
proof -
  have m: "unat ((ucast x :: u16) mod 21) = unat x mod 21"
    by (simp add: unat_mod_distrib unat_byte_u16)
  have b: "unat x mod 21 < 21" by simp
  have "unat (12 + (ucast x :: u16) mod 21) = 12 + unat x mod 21"
    using b by (subst unat_u16_add) (simp_all only: m, simp_all)
  then show ?thesis
    using b by (simp add: MinPadding_def MaxTransportPadding_def word_le_nat_alt)
qed

lemma sizes_distinct: "(s1::u16) + 148 \<noteq> (if s1 + 148 = s2 + 92 then s2 + 1 else s2) + 92"
proof (cases "s1 + 148 = s2 + 92")
  case True
  then have "s1 + 148 \<noteq> s2 + 1 + 92" unfolding True by simp
  then show ?thesis unfolding if_P [OF True] .
qed simp

text \<open>C35: Whatever bytes the key derivation returns, a derived profile is one the tunnel
  accepts: four header ranges that avoid the plain WireGuard types 1 to 4, do not wrap around
  and are pairwise disjoint, so that a message type is never ambiguous; every padding is
  at least the nonce of the header cipher, the transport padding at most 32 bytes; and the
  padded handshake messages have different sizes.\<close>

theorem Derive_profile_ok:
  "let p = Derive hkdf s in
     length (Headers p) = 4 \<and> list_all range_ok (Headers p) \<and> sorted_wrt ranges_apart (Headers p) \<and>
     length (Paddings p) = 4 \<and> list_all padding_ok (Paddings p) \<and>
     Paddings p ! 3 \<le> MaxTransportPadding \<and>
     Paddings p ! 0 + 148 \<noteq> Paddings p ! 1 + 92"
proof -
  let ?r = "hkdf s ''awg-params'' 64"
  have t: "padding_ok (MinPadding + (ucast (?r ! 39) :: u16) mod (MaxTransportPadding - MinPadding + 1))"
    using transport_padding_ok [of "?r ! 39"] order_trans [of _ MaxTransportPadding 144]
    by (auto simp: padding_ok_def MaxTransportPadding_def)
  have h: "Headers (Derive hkdf s) = map (\<lambda>i. header_range (header_order ?r ! i)
      (rd32 (4 + 4 * i) ?r) (rd32 (20 + 4 * i) ?r)) [0, 1, 2, 3]"
    by (simp only: Derive_def Let_def profile.simps)
  have q: "header_order ?r ! 0 < 4" "header_order ?r ! 1 < 4" "header_order ?r ! 2 < 4" "header_order ?r ! 3 < 4"
    by (simp_all add: header_order_nth_less)
  have "list_all range_ok (Headers (Derive hkdf s))"
    unfolding h using q by (simp add: header_range_ok)
  moreover have "sorted_wrt ranges_apart (Headers (Derive hkdf s))"
    unfolding h using q by (simp add: quarters_apart header_order_inj)
  moreover have p: "Paddings (Derive hkdf s) = [handshake_padding (?r ! 36),
      if handshake_padding (?r ! 36) + 148 = handshake_padding (?r ! 37) + 92
      then handshake_padding (?r ! 37) + 1 else handshake_padding (?r ! 37),
      handshake_padding (?r ! 38),
      MinPadding + (ucast (?r ! 39) :: u16) mod (MaxTransportPadding - MinPadding + 1)]"
    by (simp only: Derive_def Let_def profile.simps)
  moreover have "list_all padding_ok (Paddings (Derive hkdf s))"
    unfolding p using t by (simp add: handshake_padding_ok)
  moreover have "Paddings (Derive hkdf s) ! 3 \<le> MaxTransportPadding"
    unfolding p using transport_padding_ok by simp
  moreover have "Paddings (Derive hkdf s) ! 0 + 148 \<noteq> Paddings (Derive hkdf s) ! 1 + 92"
    unfolding p nth_Cons_0 nth_Cons_Suc One_nat_def by (rule sizes_distinct)
  ultimately show ?thesis by (simp add: Let_def h)
qed

text \<open>A packet that carries a room's tag matches, whatever follows the tag; and what
  matches is determined by its first eight bytes, which are a tag the room would write for
  the packet's own nonce.\<close>

theorem Tagger_tag:
  assumes enc: "\<forall>blk. length (enc key blk) = 16" and n: "length nonce = nonceLen"
  shows "Tagger_Match enc key (Tagger_Put enc key nonce @ rest) \<and>
    (Tagger_Match enc key pkt \<longleftrightarrow> TagLen \<le> length pkt \<and>
       take TagLen pkt = Tagger_Put enc key (take nonceLen pkt))"
proof -
  have "length (take 4 (Tagger_mac enc key nonce)) = 4"
    using enc by (simp add: Tagger_mac_def)
  then have 1: "Tagger_Match enc key (Tagger_Put enc key nonce @ rest)"
    using n by (simp add: Tagger_Match_def Tagger_Put_def TagLen_def nonceLen_def bslice_def)
  have "take 8 pkt = take 4 pkt @ take 4 (drop 4 pkt)"
    using take_add [of 4 4 pkt] by simp
  with 1 show ?thesis
    by (auto simp: Tagger_Match_def Tagger_Put_def TagLen_def nonceLen_def bslice_def)
qed

text \<open>A block function of the right size, for the witness: the key against the block.\<close>

definition sample_enc :: "bytes \<Rightarrow> bytes \<Rightarrow> bytes" where
  "sample_enc key blk = take 16 (map2 (XOR) (blk @ replicate 16 0) (key @ replicate 16 7))"

theorem Tagger_tag_witness:
  "Tagger_Match sample_enc (replicate 16 3) ([1, 2, 3, 4, 2, 1, 0, 7] @ [9, 9]) \<and>
   \<not> Tagger_Match sample_enc (replicate 16 3) [1, 2, 3, 4, 2, 1, 0, 6]"
proof -
  have l: "\<forall>blk. length (sample_enc (replicate 16 3) blk) = 16"
    by (simp add: sample_enc_def)
  have p: "Tagger_Put sample_enc (replicate 16 3) [1, 2, 3, 4] = [1, 2, 3, 4, 2, 1, 0, 7]"
    by code_simp
  show ?thesis
    using Tagger_tag [of sample_enc "replicate 16 3" "[1, 2, 3, 4]" "[9, 9]"
        "[1, 2, 3, 4, 2, 1, 0, 6]"] l
    by (simp add: p nonceLen_def TagLen_def)
qed

end
