(* ===== verification/Disco.thy ===== *)
theory Disco
  imports Netip Obfs
begin

text \<open>
  \<^verbatim>\<open>internal/disco\<close>: the encrypted path discovery messages between nodes. The payload
  codec is \<open>encodePayload\<close> and \<open>decodePayload\<close>; \<open>disco_Seal\<close> and \<open>disco_Open\<close> put it into an
  authenticated box inside an anonymous one behind the receiver's tag. The boxes of
  \<^verbatim>\<open>golang.org/x/crypto/nacl/box\<close> are the fields of a record \<open>nacl\<close>, and \<open>nacl_ok\<close>
  states what that package documents of them: a box opens with the matching keys to what was
  sealed, and its size is the size of the message plus a fixed overhead.
\<close>

section \<open>Messages\<close>

definition TypePing :: byte where "TypePing = 1"
definition TypePong :: byte where "TypePong = 2"
definition TypeJoin :: byte where "TypeJoin = 3"
definition TypeJoinReply :: byte where "TypeJoinReply = 4"
definition disco_version :: byte where "disco_version = 1"
definition txLen :: nat where "txLen = 12"
definition payloadLen :: nat where "payloadLen = 1 + 1 + txLen + 18"
definition MaxLen :: nat where "MaxLen = 1400"
definition MaxData :: nat where "MaxData = 1000"

lemmas disco_consts = TypePing_def TypePong_def TypeJoin_def TypeJoinReply_def
  disco_version_def txLen_def payloadLen_def MaxLen_def MaxData_def

record disco_msg =
  msg_Type :: byte
  msg_Tx :: bytes
  msg_Src :: "addrport option"
  msg_Data :: bytes

datatype disco_error = BadSize | CannotOpen | SenderNotAuthenticated | JoinTooLong | BadPayload

text \<open>\<^verbatim>\<open>Addr.As16\<close> and \<^verbatim>\<open>AddrFrom16\<close>: an IPv4 address is embedded in IPv6.\<close>

definition as16 :: "addr \<Rightarrow> bytes" where
  "as16 a = (case a of NoAddr \<Rightarrow> replicate 16 0
     | V4 w \<Rightarrow> put128 (push_bit 32 0xffff OR ucast w) | V6 w _ \<Rightarrow> put128 w)"

definition addr_from16 :: "bytes \<Rightarrow> addr" where
  "addr_from16 b = V6 (be128 b) []"

text \<open>The zero \<^verbatim>\<open>AddrPort\<close> of the source is \<open>None\<close>; \<^verbatim>\<open>Src.IsValid()\<close> asks for a valid
  address in it.\<close>

definition encodePayload :: "disco_msg \<Rightarrow> bytes" where
  "encodePayload m =
     (if msg_Type m = TypeJoin \<or> msg_Type m = TypeJoinReply
      then [disco_version, msg_Type m] @ msg_Tx m @ msg_Data m
      else [disco_version, msg_Type m] @ msg_Tx m @
        (case msg_Src m of
           Some ap \<Rightarrow> if ap_addr ap \<noteq> NoAddr then as16 (ap_addr ap) @ put16 (ap_port ap)
             else replicate 18 0
         | None \<Rightarrow> replicate 18 0))"

definition decodePayload :: "bytes \<Rightarrow> disco_error + disco_msg" where
  "decodePayload p =
     (if 2 + txLen \<le> length p \<and> p ! 0 = disco_version \<and> (p ! 1 = TypeJoin \<or> p ! 1 = TypeJoinReply)
      then if 2 + txLen + MaxData < length p then Inl JoinTooLong
        else Inr \<lparr>msg_Type = p ! 1, msg_Tx = bslice 2 (2 + txLen) p, msg_Src = None,
                  msg_Data = drop (2 + txLen) p\<rparr>
      else if length p \<noteq> payloadLen \<or> p ! 0 \<noteq> disco_version \<or> (p ! 1 \<noteq> TypePing \<and> p ! 1 \<noteq> TypePong)
      then Inl BadPayload
      else
        let a = unmap (addr_from16 (bslice (2 + txLen) (2 + txLen + 16) p));
            port = be16 (p ! (2 + txLen + 16)) (p ! (2 + txLen + 17))
        in Inr \<lparr>msg_Type = p ! 1, msg_Tx = bslice 2 (2 + txLen) p,
                msg_Src = (if is_unspecified a then None else Some \<lparr>ap_addr = a, ap_port = port\<rparr>),
                msg_Data = []\<rparr>)"

section \<open>Sealing\<close>

record nacl =
  box_pub :: "bytes \<Rightarrow> bytes"
  box_seal :: "bytes \<Rightarrow> bytes \<Rightarrow> bytes \<Rightarrow> bytes \<Rightarrow> bytes"
  box_open :: "bytes \<Rightarrow> bytes \<Rightarrow> bytes \<Rightarrow> bytes \<Rightarrow> bytes option"
  anon_seal :: "bytes \<Rightarrow> bytes \<Rightarrow> bytes \<Rightarrow> bytes"
  anon_open :: "bytes \<Rightarrow> bytes \<Rightarrow> bytes \<Rightarrow> bytes option"

definition nacl_ok :: "nacl \<Rightarrow> bool" where
  "nacl_ok N \<longleftrightarrow>
     (\<forall>m n a b. box_open N (box_seal N m n (box_pub N b) a) n (box_pub N a) b = Some m) \<and>
     (\<forall>m r b. anon_open N (anon_seal N m (box_pub N b) r) (box_pub N b) b = Some m) \<and>
     (\<forall>m n k a. length (box_seal N m n k a) = length m + 16) \<and>
     (\<forall>m k r. length (anon_seal N m k r) = length m + 48) \<and>
     (\<forall>a. length (box_pub N a) = 32)"

text \<open>\<^verbatim>\<open>TagKey\<close>: the first 16 bytes of a SHA-256 digest.\<close>

definition TagKeyOf :: "(bytes \<Rightarrow> bytes) \<Rightarrow> bytes \<Rightarrow> bytes" where
  "TagKeyOf sha256 pub = take 16 (sha256 (bytes_of ''zeropentime/disco-tag/v1'' @ pub))"

text \<open>The three random draws of \<^verbatim>\<open>Seal\<close> (the box nonce, the ephemeral key of the sealed box
  and the tag nonce) are arguments.\<close>

definition disco_Seal :: "nacl \<Rightarrow> (bytes \<Rightarrow> bytes \<Rightarrow> bytes) \<Rightarrow> (bytes \<Rightarrow> bytes) \<Rightarrow> disco_msg \<Rightarrow>
    bytes \<Rightarrow> bytes \<Rightarrow> bytes \<Rightarrow> bytes \<Rightarrow> bytes \<Rightarrow> bytes \<Rightarrow> bytes" where
  "disco_Seal N enc sha256 m priv pub to nonce rnd tagnonce =
     (let inner = box_seal N (encodePayload m) nonce to priv;
          outer = anon_seal N (pub @ nonce @ inner) to rnd
      in Tagger_Put enc (TagKeyOf sha256 to) tagnonce @ outer)"

definition disco_Open :: "nacl \<Rightarrow> bytes \<Rightarrow> bytes \<Rightarrow> bytes \<Rightarrow> disco_error + bytes \<times> disco_msg" where
  "disco_Open N pkt priv pub =
     (if length pkt < TagLen \<or> MaxLen < length pkt then Inl BadSize
      else case anon_open N (drop TagLen pkt) pub priv of
        None \<Rightarrow> Inl CannotOpen
      | Some plain \<Rightarrow>
          if length plain < 32 + 24 then Inl CannotOpen
          else
            let sender = take 32 plain; nonce = bslice 32 56 plain
            in (case box_open N (drop 56 plain) nonce sender priv of
                  None \<Rightarrow> Inl SenderNotAuthenticated
                | Some payload \<Rightarrow> (case decodePayload payload of
                    Inl e \<Rightarrow> Inl e
                  | Inr m \<Rightarrow> Inr (sender, m))))"

section \<open>The payload\<close>

lemma unmap_as16:
  "a \<noteq> NoAddr \<Longrightarrow> unmap (addr_from16 (as16 a)) = without_zone (unmap a)"
proof (cases a)
  case (V4 w)
  have 1: "drop_bit 32 (push_bit 32 0xffff OR ucast w :: 128 word) = 0xffff"
    by (rule bit_word_eqI) (auto simp: bit_simps dest: bit_imp_le_length)
  have 2: "ucast (push_bit 32 x OR ucast w :: 128 word) = w" for x :: "128 word"
    by (rule bit_word_eqI) (auto simp: bit_simps)
  show ?thesis
    using V4 1 2 [of "0xffff"] by (simp add: as16_def addr_from16_def unmap_def is4in6_def without_zone_def with_zone_def)
qed (auto simp: as16_def addr_from16_def unmap_def is4in6_def without_zone_def with_zone_def)

lemma length_as16 [simp]: "length (as16 a) = 16"
  by (simp add: as16_def split: addr.splits)

text \<open>What the payload keeps of a message: the body of a join message and the source of the
  others, with an IPv4 address unmapped, without zone, and not if it is unspecified.\<close>

definition src_kept :: "addrport option \<Rightarrow> addrport option" where
  "src_kept s = (case s of None \<Rightarrow> None
     | Some ap \<Rightarrow> (let a = without_zone (unmap (ap_addr ap)) in
         if ap_addr ap = NoAddr \<or> is_unspecified a then None
         else Some \<lparr>ap_addr = a, ap_port = ap_port ap\<rparr>))"

definition msg_kept :: "disco_msg \<Rightarrow> disco_msg" where
  "msg_kept m = (if msg_Type m = TypeJoin \<or> msg_Type m = TypeJoinReply then m\<lparr>msg_Src := None\<rparr>
     else m\<lparr>msg_Src := src_kept (msg_Src m), msg_Data := []\<rparr>)"

definition msg_ok :: "disco_msg \<Rightarrow> bool" where
  "msg_ok m = (length (msg_Tx m) = txLen \<and>
     msg_Type m \<in> {TypePing, TypePong, TypeJoin, TypeJoinReply} \<and> length (msg_Data m) \<le> MaxData)"

lemma unspecified_zeros: "is_unspecified (unmap (addr_from16 (replicate 16 0)))"
  by code_simp

lemma src_payload:
  "src = (case s of Some ap \<Rightarrow> if ap_addr ap \<noteq> NoAddr then as16 (ap_addr ap) @ put16 (ap_port ap)
       else replicate 18 0 | None \<Rightarrow> replicate 18 0) \<Longrightarrow>
   length src = 18 \<and>
   (let a = unmap (addr_from16 (take 16 src)) in
      (if is_unspecified a then None else Some \<lparr>ap_addr = a, ap_port = be16 (src ! 16) (src ! 17)\<rparr>)
      = src_kept s)"
proof (cases "\<exists>ap. s = Some ap \<and> ap_addr ap \<noteq> NoAddr")
  case True
  then obtain ap where s: "s = Some ap" "ap_addr ap \<noteq> NoAddr" by blast
  assume "src = (case s of Some ap \<Rightarrow> if ap_addr ap \<noteq> NoAddr then as16 (ap_addr ap) @ put16 (ap_port ap)
       else replicate 18 0 | None \<Rightarrow> replicate 18 0)"
  with s show ?thesis
    by (simp add: nth_append put16_def unmap_as16 src_kept_def Let_def)
next
  case False
  assume "src = (case s of Some ap \<Rightarrow> if ap_addr ap \<noteq> NoAddr then as16 (ap_addr ap) @ put16 (ap_port ap)
       else replicate 18 0 | None \<Rightarrow> replicate 18 0)"
  with False have "src = replicate 18 0" "src_kept s = None"
    by (auto simp: src_kept_def split: option.splits)
  then show ?thesis using unspecified_zeros by (simp add: min_def Let_def)
qed

lemma disco_type_neq: "TypePing \<noteq> TypeJoin" "TypePing \<noteq> TypeJoinReply"
  "TypePong \<noteq> TypeJoin" "TypePong \<noteq> TypeJoinReply"
  by (simp_all add: disco_consts)

lemma decode_encode:
  assumes m: "msg_ok m"
  shows "decodePayload (encodePayload m) = Inr (msg_kept m)"
proof (cases "msg_Type m = TypeJoin \<or> msg_Type m = TypeJoinReply")
  case True
  with m show ?thesis
    by (auto simp: encodePayload_def decodePayload_def msg_kept_def msg_ok_def txLen_def MaxData_def
        bslice_def)
next
  case False
  define src where "src = (case msg_Src m of
      Some ap \<Rightarrow> if ap_addr ap \<noteq> NoAddr then as16 (ap_addr ap) @ put16 (ap_port ap) else replicate 18 0
    | None \<Rightarrow> replicate 18 0)"
  have e: "encodePayload m = [disco_version, msg_Type m] @ msg_Tx m @ src"
    using False by (simp add: encodePayload_def src_def)
  have tx: "length (msg_Tx m) = 12" using m by (simp add: msg_ok_def txLen_def)
  have t: "msg_Type m = TypePing \<or> msg_Type m = TypePong" using m False by (auto simp: msg_ok_def)
  have l: "length src = 18" and k: "(let a = unmap (addr_from16 (take 16 src)) in
      (if is_unspecified a then None else Some \<lparr>ap_addr = a, ap_port = be16 (src ! 16) (src ! 17)\<rparr>)
      = src_kept (msg_Src m))"
    using src_payload [OF src_def] by blast+
  have n: "([disco_version, msg_Type m] @ msg_Tx m @ src) ! 30 = src ! 16"
    "([disco_version, msg_Type m] @ msg_Tx m @ src) ! 31 = src ! 17"
    using tx by (simp_all add: nth_append nth_Cons_numeral)
  have d: "bslice 14 30 (encodePayload m) = take 16 src" "bslice 2 14 (encodePayload m) = msg_Tx m"
    "length (encodePayload m) = 32"
    using tx l by (simp_all add: e bslice_def)
  have h: "encodePayload m ! 0 = disco_version" "encodePayload m ! 1 = msg_Type m"
    by (simp_all add: e)
  have pl: "payloadLen = 32" "2 + txLen = 14" "14 + 16 = (30::nat)" "14 + 17 = (31::nat)"
    by (simp_all add: payloadLen_def txLen_def)
  show ?thesis
    unfolding decodePayload_def pl h d n [folded e]
    using False t k by (auto simp: msg_kept_def Let_def)
qed

section \<open>Properties\<close>

definition disco_sealed_ok :: "nacl \<Rightarrow> disco_msg \<Rightarrow> bytes \<Rightarrow> bytes \<Rightarrow> bool" where
  "disco_sealed_ok N m nonce tagnonce \<longleftrightarrow>
     nacl_ok N \<and> msg_ok m \<and> length nonce = 24 \<and> length tagnonce = nonceLen"

text \<open>What the receiver opens is what the sender sealed, under the sender's own public
  key: a packet sealed to a node carries that node's tag, is never too big for it, and opens
  to the sender's key and the message (a join message with its body, a ping or pong with the
  source address in its unmapped form).\<close>

theorem disco_open_seal:
  assumes ok: "disco_sealed_ok N m nonce tagnonce" and enc: "\<forall>k blk. length (enc k blk) = 16"
    and pkt_def: "pkt = disco_Seal N enc sha256 m priv (box_pub N priv) (box_pub N priv') nonce rnd tagnonce"
  shows "Tagger_Match enc (TagKeyOf sha256 (box_pub N priv')) pkt \<and> length pkt \<le> MaxLen \<and>
    disco_Open N pkt priv' (box_pub N priv') = Inr (box_pub N priv, msg_kept m)"
proof -
  let ?tag = "Tagger_Put enc (TagKeyOf sha256 (box_pub N priv')) tagnonce"
  let ?plain = "box_pub N priv @ nonce @ box_seal N (encodePayload m) nonce (box_pub N priv') priv"
  have n: "length nonce = 24" "length tagnonce = 4" and N: "nacl_ok N" and m: "msg_ok m"
    using ok by (simp_all add: disco_sealed_ok_def nonceLen_def)
  have p: "pkt = ?tag @ anon_seal N ?plain (box_pub N priv') rnd"
    by (simp add: pkt_def disco_Seal_def Let_def)
  have mac: "length (take 4 (Tagger_mac enc k tagnonce)) = 4" for k
    using enc by (simp add: Tagger_mac_def)
  have lt: "length ?tag = 8"
    using n mac by (simp add: Tagger_Put_def TagLen_def nonceLen_def)
  have match: "Tagger_Match enc (TagKeyOf sha256 (box_pub N priv')) pkt"
    unfolding p using n mac by (simp add: Tagger_Match_def Tagger_Put_def TagLen_def nonceLen_def bslice_def)
  have le: "length (encodePayload m) \<le> 1014"
    using m src_payload [OF refl, of "msg_Src m"]
    by (simp add: encodePayload_def msg_ok_def txLen_def MaxData_def)
  have pub: "length (box_pub N k) = 32" for k using N by (simp add: nacl_ok_def)
  have lp: "length pkt \<le> MaxLen"
    unfolding p using N n le lt pub by (simp add: nacl_ok_def MaxLen_def)
  have o: "anon_open N (drop TagLen pkt) (box_pub N priv') priv' = Some ?plain"
    unfolding p using N lt by (simp add: nacl_ok_def TagLen_def)
  have s: "take 32 ?plain = box_pub N priv" "bslice 32 56 ?plain = nonce"
    "drop 56 ?plain = box_seal N (encodePayload m) nonce (box_pub N priv') priv"
    using pub n by (simp_all add: bslice_def)
  have "box_open N (drop 56 ?plain) (bslice 32 56 ?plain) (take 32 ?plain) priv' = Some (encodePayload m)"
    unfolding s using N by (simp add: nacl_ok_def)
  moreover have "length ?plain \<ge> 32 + 24" "TagLen \<le> length pkt"
    using pub n lt by (simp_all add: p TagLen_def)
  ultimately have "disco_Open N pkt priv' (box_pub N priv') = Inr (box_pub N priv, msg_kept m)"
    using lp o decode_encode [OF m] s by (simp add: disco_Open_def)
  with match lp show ?thesis by blast
qed

text \<open>Boxes of the documented sizes, for the witness: the key of the receiver is in the box
  and opening checks it.\<close>

definition sample_nacl :: nacl where
  "sample_nacl = \<lparr>box_pub = (\<lambda>k. take 32 (k @ replicate 32 0)),
     box_seal = (\<lambda>m n k a. take 16 (k @ replicate 16 0) @ m),
     box_open = (\<lambda>c n k b. if take 16 c = take 16 (take 32 (b @ replicate 32 0)) then Some (drop 16 c) else None),
     anon_seal = (\<lambda>m k r. take 48 (k @ replicate 48 1) @ m),
     anon_open = (\<lambda>c k b. if take 32 c = take 32 k then Some (drop 48 c) else None)\<rparr>"

lemma sample_nacl_ok: "nacl_ok sample_nacl"
  by (simp add: nacl_ok_def sample_nacl_def min_def)

definition sample_pong :: disco_msg where
  "sample_pong = \<lparr>msg_Type = TypePong, msg_Tx = [1, 2, 3, 4, 5, 6, 7, 8, 9, 10, 11, 12],
     msg_Src = Some \<lparr>ap_addr = V4 0xC0A80105, ap_port = 41641\<rparr>, msg_Data = []\<rparr>"

theorem disco_open_seal_witness:
  "disco_Open sample_nacl (disco_Seal sample_nacl sample_enc rev sample_pong
      (replicate 32 5) (replicate 32 5) (replicate 32 6) (replicate 24 9) [] [1, 2, 3, 4])
      (replicate 32 6) (replicate 32 6) = Inr (replicate 32 5, sample_pong)"
proof -
  have b: "box_pub sample_nacl (replicate 32 x) = replicate 32 x" for x
    by (simp add: sample_nacl_def)
  have ok: "disco_sealed_ok sample_nacl sample_pong (replicate 24 9) [1, 2, 3, 4]"
    by (simp add: disco_sealed_ok_def sample_nacl_ok msg_ok_def sample_pong_def disco_consts nonceLen_def)
  have "msg_kept sample_pong = sample_pong" by code_simp
  then show ?thesis
    using disco_open_seal [OF ok _ refl, of sample_enc rev "replicate 32 6" "replicate 32 5" "[]"]
    by (simp add: b sample_enc_def)
qed

lemma decodePayload_ok: "decodePayload p = Inr m \<Longrightarrow> msg_ok m"
  by (auto simp: decodePayload_def msg_ok_def Let_def txLen_def payloadLen_def split: if_splits)

text \<open>A message is taken over only if it is authentic and well formed: when \<open>disco_Open\<close>
  succeeds, the packet had an acceptable size, the box opened under the key it names as its
  sender, and the message has one of the four known types, a transaction identifier of twelve
  bytes and a body within its bound.\<close>

theorem disco_open_sound:
  assumes "disco_Open N pkt priv pub = Inr (sender, m)"
  shows "TagLen \<le> length pkt \<and> length pkt \<le> MaxLen \<and> msg_ok m \<and>
    (\<exists>inner nonce payload. anon_open N (drop TagLen pkt) pub priv = Some (sender @ nonce @ inner) \<and>
       box_open N inner nonce sender priv = Some payload \<and> decodePayload payload = Inr m)"
proof -
  obtain plain payload where
    o: "anon_open N (drop TagLen pkt) pub priv = Some plain" "\<not> length plain < 56" and
    b: "box_open N (drop 56 plain) (bslice 32 56 plain) (take 32 plain) priv = Some payload" and
    d: "decodePayload payload = Inr m" and s: "sender = take 32 plain" and
    l: "TagLen \<le> length pkt" "length pkt \<le> MaxLen"
    using assms by (auto simp: disco_Open_def Let_def split: if_splits option.splits sum.splits)
  have "plain = sender @ bslice 32 56 plain @ drop 56 plain"
    using append_take_drop_id [of 24 "drop 32 plain"] by (simp add: s bslice_def)
  then show ?thesis
    using o b d s l decodePayload_ok [OF d] by metis
qed

theorem disco_open_sound_witness:
  "\<exists>inner nonce payload.
     anon_open sample_nacl (drop TagLen (replicate 8 0 @ replicate 32 6 @ replicate 16 1 @ replicate 32 5
        @ replicate 24 9 @ replicate 16 6 @ encodePayload sample_pong)) (replicate 32 6) (replicate 32 6)
       = Some (replicate 32 5 @ nonce @ inner) \<and>
     box_open sample_nacl inner nonce (replicate 32 5) (replicate 32 6) = Some payload \<and>
     decodePayload payload = Inr sample_pong"
proof -
  have "disco_Open sample_nacl (replicate 8 0 @ replicate 32 6 @ replicate 16 1 @ replicate 32 5
        @ replicate 24 9 @ replicate 16 6 @ encodePayload sample_pong) (replicate 32 6) (replicate 32 6)
      = Inr (replicate 32 5, sample_pong)"
    by code_simp
  from disco_open_sound [OF this] show ?thesis by blast
qed

end
