(* ===== verification/Encodings.thy ===== *)
theory Encodings
  imports Go_Strings
begin

text \<open>
  Base32 and base64 as Go's \<^verbatim>\<open>encoding/base32\<close> (standard alphabet, no padding) and
  \<^verbatim>\<open>encoding/base64\<close> (standard encoding) have them, and the text forms built on them:
  node identifiers (\<^verbatim>\<open>identity.NodeIDFromPublic\<close>, \<^verbatim>\<open>relay.NodeIDBytes\<close>), keys
  (\<^verbatim>\<open>identity.ParseKey\<close>), room secrets (\<^verbatim>\<open>obfs.ParseSecret\<close>) and the key file. Both decoders
  skip line breaks. The digits of a group are the digits of the number its bytes form.
\<close>

section \<open>Digits in a base\<close>

fun digits :: "int \<Rightarrow> nat \<Rightarrow> int \<Rightarrow> int list" where
  "digits B 0 n = []"
| "digits B (Suc k) n = digits B k (n div B) @ [n mod B]"

definition digits_value :: "int \<Rightarrow> int list \<Rightarrow> int" where
  "digits_value B ds = foldl (\<lambda>a d. a * B + d) 0 ds"

lemma length_digits [simp]: "length (digits B k n) = k"
  by (induction k arbitrary: n) auto

lemma digits_range: "0 < B \<Longrightarrow> d \<in> set (digits B k n) \<Longrightarrow> 0 \<le> d \<and> d < B"
  by (induction k arbitrary: n) auto

lemma digits_value_digits: "0 < B \<Longrightarrow> 0 \<le> n \<Longrightarrow> digits_value B (digits B k n) = n mod B ^ k"
proof (induction k arbitrary: n)
  case 0
  then show ?case by (simp add: digits_value_def)
next
  case (Suc k)
  have "n mod (B * B ^ k) = B * (n div B mod B ^ k) + n mod B"
    using Suc.prems by (intro zmod_zmult2_eq) simp
  with Suc show ?case
    by (simp add: digits_value_def pos_imp_zdiv_nonneg_iff mult.commute)
qed

lemma be_val_nonneg: "0 \<le> be_val bs"
  by (induction bs rule: rev_induct) (simp_all add: be_val_snoc, simp add: be_val_def)

lemma be_val_less: "be_val bs < 256 ^ length bs"
proof (induction bs rule: rev_induct)
  case (snoc b bs)
  have "uint b < 256" using uint_lt2p [of b] by simp
  with snoc have "be_val bs * 256 + uint b < (be_val bs + 1) * 256" by simp
  also have "\<dots> \<le> 256 ^ length bs * 256" using snoc by (intro mult_right_mono) simp_all
  finally show ?case by (simp add: be_val_snoc mult.commute)
qed (simp add: be_val_def)

text \<open>A group of bytes is the group of digits of its number.\<close>

lemma group_roundtrip:
  assumes "0 < B" "256 ^ length bs = B ^ k"
  shows "be_digits (length bs) (digits_value B (digits B k (be_val bs))) = bs"
proof -
  have "digits_value B (digits B k (be_val bs)) = be_val bs"
    using assms be_val_nonneg [of bs] be_val_less [of bs] by (simp add: digits_value_digits)
  then show ?thesis by (simp add: be_digits_val)
qed

section \<open>Alphabets\<close>

definition b32_alphabet :: string where
  "b32_alphabet = ''ABCDEFGHIJKLMNOPQRSTUVWXYZ234567''"

definition b64_alphabet :: string where
  "b64_alphabet = ''ABCDEFGHIJKLMNOPQRSTUVWXYZabcdefghijklmnopqrstuvwxyz0123456789+/''"

definition alpha_char :: "string \<Rightarrow> int \<Rightarrow> char" where
  "alpha_char al d = al ! nat d"

definition alpha_val :: "string \<Rightarrow> char \<Rightarrow> int option" where
  "alpha_val al c = map_option int (find_index (\<lambda>x. x = c) al)"

lemma alpha_val_char: "distinct al \<Longrightarrow> 0 \<le> d \<Longrightarrow> d < int (length al) \<Longrightarrow>
  alpha_val al (alpha_char al d) = Some d"
proof -
  assume d: "distinct al" "0 \<le> d" "d < int (length al)"
  then have "nat d < length al" by simp
  with d have "find_index (\<lambda>x. x = al ! nat d) al = Some (nat d)"
    by (auto simp: find_index_Some nth_eq_iff_index_eq)
  with d show ?thesis by (simp add: alpha_val_def alpha_char_def)
qed

lemma alphabets: "distinct b32_alphabet" "length b32_alphabet = 32"
  "distinct b64_alphabet" "length b64_alphabet = 64"
  by (simp_all add: b32_alphabet_def b64_alphabet_def)

fun map_opt :: "('a \<Rightarrow> 'b option) \<Rightarrow> 'a list \<Rightarrow> 'b list option" where
  "map_opt f [] = Some []"
| "map_opt f (x # xs) = (case f x of None \<Rightarrow> None | Some y \<Rightarrow> map_option (Cons y) (map_opt f xs))"

lemma map_opt_map: "(\<And>x. x \<in> set xs \<Longrightarrow> f (g x) = Some x) \<Longrightarrow> map_opt f (map g xs) = Some xs"
  by (induction xs) auto

definition strip_newlines :: "string \<Rightarrow> string" where
  "strip_newlines s = filter (\<lambda>c. c \<noteq> CHR 0x0A \<and> c \<noteq> CHR 0x0D) s"

section \<open>Base32\<close>

text \<open>Whole groups of five bytes give eight characters; a last group of fewer bytes is filled
  with zeros and cut.\<close>

definition b32_chars :: "nat \<Rightarrow> nat" where
  "b32_chars n = (8 * n + 4) div 5"

function b32_encode :: "bytes \<Rightarrow> string" where
  "b32_encode bs = (if bs = [] then [] else
     let c = take 5 bs; p = c @ replicate (5 - length c) 0
     in take (b32_chars (length c)) (map (alpha_char b32_alphabet) (digits 32 8 (be_val p)))
        @ b32_encode (drop 5 bs))"
  by pat_completeness auto
termination
  by (relation "measure length") auto

declare b32_encode.simps [simp del]

text \<open>The bytes a group of \<open>n\<close> characters yields: the decoder's switch has cases for 8, 7, 5, 4
  and 2 characters and writes nothing for the others.\<close>

definition b32_bytes :: "nat \<Rightarrow> nat" where
  "b32_bytes n = (if n = 8 then 5 else if n = 7 then 4 else if n = 5 then 3
     else if n = 4 then 2 else if n = 2 then 1 else 0)"

function b32_groups :: "int list \<Rightarrow> bytes" where
  "b32_groups ds = (if ds = [] then [] else
     let c = take 8 ds
     in take (b32_bytes (length c)) (be_digits 5 (digits_value 32 (c @ replicate (8 - length c) 0)))
        @ b32_groups (drop 8 ds))"
  by pat_completeness auto
termination
  by (relation "measure length") auto

declare b32_groups.simps [simp del]

definition b32_decode :: "string \<Rightarrow> bytes option" where
  "b32_decode s = map_option b32_groups (map_opt (alpha_val b32_alphabet) (strip_newlines s))"

section \<open>Base64\<close>

definition b64_group :: "bytes \<Rightarrow> string" where
  "b64_group c = map (alpha_char b64_alphabet) (digits 64 4 (be_val c))"

fun b64_encode :: "bytes \<Rightarrow> string" where
  "b64_encode [] = []"
| "b64_encode [a] = take 2 (b64_group [a, 0, 0]) @ ''==''"
| "b64_encode [a, b] = take 3 (b64_group [a, b, 0]) @ ''=''"
| "b64_encode (a # b # c # r) = b64_group [a, b, c] @ b64_encode r"

fun b64_groups :: "string \<Rightarrow> bytes option" where
  "b64_groups [] = Some []"
| "b64_groups (a # b # c # d # r) =
     (case (alpha_val b64_alphabet a, alpha_val b64_alphabet b) of
        (Some x, Some y) \<Rightarrow>
          if c = CHR ''='' then
            if d = CHR ''='' \<and> r = [] then Some (take 1 (be_digits 3 (digits_value 64 [x, y, 0, 0])))
            else None
          else (case alpha_val b64_alphabet c of
              None \<Rightarrow> None
            | Some z \<Rightarrow>
                if d = CHR ''='' then
                  if r = [] then Some (take 2 (be_digits 3 (digits_value 64 [x, y, z, 0]))) else None
                else (case alpha_val b64_alphabet d of
                    None \<Rightarrow> None
                  | Some w \<Rightarrow> map_option (append (be_digits 3 (digits_value 64 [x, y, z, w])))
                      (b64_groups r)))
      | _ \<Rightarrow> None)"
| "b64_groups _ = None"

definition b64_decode :: "string \<Rightarrow> bytes option" where
  "b64_decode s = b64_groups (strip_newlines s)"

text \<open>Without padding (\<^verbatim>\<open>RawStdEncoding\<close>), and with the URL-safe alphabet too (\<^verbatim>\<open>RawURLEncoding\<close>).\<close>

definition b64raw_encode :: "bytes \<Rightarrow> string" where
  "b64raw_encode bs = filter (\<lambda>c. c \<noteq> CHR ''='') (b64_encode bs)"

definition b64raw_decode :: "string \<Rightarrow> bytes option" where
  "b64raw_decode s = (let t = strip_newlines s in
     if CHR ''='' \<in> set t then None else b64_groups (t @ replicate ((4 - length t mod 4) mod 4) CHR ''=''))"

definition b64url_encode :: "bytes \<Rightarrow> string" where
  "b64url_encode bs = map (\<lambda>c. if c = CHR ''+'' then CHR ''-'' else if c = CHR ''/'' then CHR ''_'' else c) (b64raw_encode bs)"

definition b64url_decode :: "string \<Rightarrow> bytes option" where
  "b64url_decode s =
     (if CHR ''+'' \<in> set s \<or> CHR ''/'' \<in> set s then None
      else b64raw_decode (map (\<lambda>c. if c = CHR ''-'' then CHR ''+'' else if c = CHR ''_'' then CHR ''/'' else c) s))"

section \<open>Round trips\<close>

lemma map_opt_digits:
  assumes "distinct al" "length al = nat B" "0 < B"
  shows "map_opt (alpha_val al) (map (alpha_char al) (digits B k n)) = Some (digits B k n)"
  using assms digits_range [of B _ k n] by (intro map_opt_map alpha_val_char) auto

lemma map_opt_append: "map_opt f (xs @ ys) =
  (case map_opt f xs of None \<Rightarrow> None | Some a \<Rightarrow> map_option (append a) (map_opt f ys))"
  by (induction xs) (cases "map_opt f ys"; auto split: option.splits)+

lemma b32_group_decode: "length c = 5 \<Longrightarrow>
  be_digits 5 (digits_value 32 (digits 32 8 (be_val c))) = c"
  using group_roundtrip [of 32 c 8] by simp

lemma b32_values:
  "5 dvd length bs \<Longrightarrow>
   \<exists>ds. map_opt (alpha_val b32_alphabet) (b32_encode bs) = Some ds \<and> b32_groups ds = bs"
proof (induction bs rule: b32_encode.induct)
  case (1 bs)
  show ?case
  proof (cases "bs = []")
    case True
    then show ?thesis by (simp add: b32_encode.simps b32_groups.simps)
  next
    case False
    let ?c = "take 5 bs"
    have "5 \<le> length bs" using 1(2) False by (intro dvd_imp_le) simp_all
    then have l: "length ?c = 5" by simp
    have "5 dvd length (drop 5 bs)" using 1(2) l by (simp add: dvd_diff_nat)
    with 1(1) [OF False refl refl] obtain ds where
      ds: "map_opt (alpha_val b32_alphabet) (b32_encode (drop 5 bs)) = Some ds" "b32_groups ds = drop 5 bs"
      by blast
    let ?d = "digits 32 8 (be_val ?c)"
    have "b32_encode bs = map (alpha_char b32_alphabet) ?d @ b32_encode (drop 5 bs)"
      using False l by (subst b32_encode.simps) (simp add: b32_chars_def Let_def)
    moreover have "map_opt (alpha_val b32_alphabet) (map (alpha_char b32_alphabet) ?d) = Some ?d"
      by (rule map_opt_digits) (simp_all add: alphabets)
    ultimately have "map_opt (alpha_val b32_alphabet) (b32_encode bs) = Some (?d @ ds)"
      using ds by (simp add: map_opt_append)
    moreover have "b32_groups (?d @ ds) = ?c @ b32_groups ds"
    proof -
      have "?d \<noteq> []" using length_digits [of 32 8] by (metis list.size(3) zero_neq_numeral)
      then show ?thesis
        using l by (subst b32_groups.simps) (simp add: Let_def b32_bytes_def b32_group_decode)
    qed
    ultimately show ?thesis using ds by simp
  qed
qed

lemma alpha_set: "0 < B \<Longrightarrow> length al = nat B \<Longrightarrow> set (map (alpha_char al) (digits B k n)) \<subseteq> set al"
  using digits_range [of B _ k n] by (auto simp: alpha_char_def)

lemma b32_encode_set: "set (b32_encode bs) \<subseteq> set b32_alphabet"
proof (induction bs rule: b32_encode.induct)
  case (1 bs)
  have "set (take k (map (alpha_char b32_alphabet) (digits 32 8 n))) \<subseteq> set b32_alphabet" for k n
    using alpha_set [of 32 b32_alphabet 8 n] set_take_subset by (fastforce simp: alphabets)
  with 1 show ?case by (subst b32_encode.simps) (auto simp: Let_def)
qed

lemma strip_newlines_id: "CHR 0x0A \<notin> set s \<Longrightarrow> CHR 0x0D \<notin> set s \<Longrightarrow> strip_newlines s = s"
  by (auto simp: strip_newlines_def filter_id_conv)

lemma newline_notin_alphabets:
  "CHR 0x0A \<notin> set b32_alphabet" "CHR 0x0D \<notin> set b32_alphabet"
  "CHR 0x0A \<notin> set b64_alphabet" "CHR 0x0D \<notin> set b64_alphabet" "CHR ''='' \<notin> set b64_alphabet"
  by (simp_all add: b32_alphabet_def b64_alphabet_def)

lemma b32_decode_encode: "5 dvd length bs \<Longrightarrow> b32_decode (b32_encode bs) = Some bs"
proof -
  assume d: "5 dvd length bs"
  have "strip_newlines (b32_encode bs) = b32_encode bs"
    using b32_encode_set [of bs] newline_notin_alphabets by (intro strip_newlines_id) auto
  with b32_values [OF d] show ?thesis by (auto simp: b32_decode_def)
qed

lemma digits4: "digits 64 4 n =
  [n div 64 div 64 div 64 mod 64, n div 64 div 64 mod 64, n div 64 mod 64, n mod 64]"
  by (simp add: numeral_eq_Suc)

lemma b64_val: "0 \<le> d \<Longrightarrow> d < 64 \<Longrightarrow> alpha_val b64_alphabet (alpha_char b64_alphabet d) = Some d"
  by (rule alpha_val_char) (simp_all add: alphabets)

lemma b64_pad: "0 \<le> d \<Longrightarrow> d < 64 \<Longrightarrow> alpha_char b64_alphabet d \<noteq> CHR ''=''"
  using newline_notin_alphabets(5) alphabets(4) by (metis alpha_char_def nat_less_iff nth_mem of_nat_numeral)

lemma b64_group_decode: "be_digits 3 (digits_value 64 (digits 64 4 (be_val [a, b, c]))) = [a, b, c]"
proof -
  have "length [a, b, c] = 3" by simp
  then show ?thesis using group_roundtrip [of 64 "[a, b, c]" 4] by (simp only:) simp
qed

lemma b64_groups_encode: "b64_groups (b64_encode bs) = Some bs"
proof (induction bs rule: b64_encode.induct)
  case (2 a)
  have z: "be_val [a, 0, 0] div 64 mod 64 = 0" "be_val [a, 0, 0] mod 64 = 0"
    by (simp_all add: be_val_def)
  show ?case using b64_group_decode [of a 0 0]
    by (simp add: b64_group_def digits4 z b64_val)
next
  case (3 a b)
  have z: "be_val [a, b, 0] mod 64 = 0"
    by (simp add: be_val_def)
  show ?case using b64_group_decode [of a b 0]
    by (simp add: b64_group_def digits4 z b64_val b64_pad)
next
  case (4 a b c r)
  then show ?case using b64_group_decode [of a b c]
    by (simp add: b64_group_def digits4 b64_val b64_pad)
qed simp

lemma b64_encode_set: "set (b64_encode bs) \<subseteq> insert CHR ''='' (set b64_alphabet)"
proof -
  have "set (b64_group c) \<subseteq> set b64_alphabet" for c
    unfolding b64_group_def by (rule alpha_set) (simp_all add: alphabets)
  then show ?thesis
    by (induction bs rule: b64_encode.induct) (auto dest!: in_set_takeD)
qed

lemma b64_decode_encode: "b64_decode (b64_encode bs) = Some bs"
proof -
  have "strip_newlines (b64_encode bs) = b64_encode bs"
    using b64_encode_set [of bs] newline_notin_alphabets by (intro strip_newlines_id) auto
  then show ?thesis by (simp add: b64_decode_def b64_groups_encode)
qed

lemma b64_group_set: "set (b64_group c) \<subseteq> set b64_alphabet"
  unfolding b64_group_def by (rule alpha_set) (simp_all add: alphabets)

lemma length_b64_group: "length (b64_group c) = 4"
  by (simp add: b64_group_def length_digits)

lemma filter_pad_take: "filter (\<lambda>c. c \<noteq> CHR ''='') (take k (b64_group c)) = take k (b64_group c)"
  using b64_group_set [of c] newline_notin_alphabets(5) by (auto simp: filter_id_conv dest: in_set_takeD)

lemma filter_pad_group: "filter (\<lambda>c. c \<noteq> CHR ''='') (b64_group c) = b64_group c"
  using filter_pad_take [of 4 c] by (simp add: length_b64_group)

lemma replicate_2: "replicate 2 x = [x, x]"
  by (simp add: numeral_2_eq_2)

lemma b64raw_pad: "b64raw_encode bs @ replicate ((4 - length (b64raw_encode bs) mod 4) mod 4) CHR ''='' = b64_encode bs"
proof (induction bs rule: b64_encode.induct)
  case (4 a b c r)
  then show ?case by (simp add: b64raw_encode_def filter_pad_group length_b64_group)
qed (simp_all add: b64raw_encode_def filter_pad_take length_b64_group replicate_2)

lemma b64raw_set: "set (b64raw_encode bs) \<subseteq> set b64_alphabet"
  using b64_encode_set [of bs] by (auto simp: b64raw_encode_def)

lemma b64raw_decode_encode: "b64raw_decode (b64raw_encode bs) = Some bs"
proof -
  have "strip_newlines (b64raw_encode bs) = b64raw_encode bs"
    using b64raw_set [of bs] newline_notin_alphabets by (intro strip_newlines_id) auto
  moreover have "CHR ''='' \<notin> set (b64raw_encode bs)" by (simp add: b64raw_encode_def)
  ultimately show ?thesis by (simp add: b64raw_decode_def b64raw_pad b64_groups_encode)
qed

lemma url_chars: "CHR ''-'' \<notin> set b64_alphabet" "CHR ''_'' \<notin> set b64_alphabet"
  by (simp_all add: b64_alphabet_def)

lemma b64url_decode_encode: "b64url_decode (b64url_encode bs) = Some bs"
proof -
  let ?f = "\<lambda>c. if c = CHR ''+'' then CHR ''-'' else if c = CHR ''/'' then CHR ''_'' else c"
  let ?g = "\<lambda>c. if c = CHR ''-'' then CHR ''+'' else if c = CHR ''_'' then CHR ''/'' else c"
  have "map ?g (map ?f (b64raw_encode bs)) = b64raw_encode bs"
    unfolding map_map by (rule map_idI) (use b64raw_set [of bs] url_chars in auto)
  moreover have "CHR ''+'' \<notin> set (map ?f xs)" "CHR ''/'' \<notin> set (map ?f xs)" for xs by auto
  ultimately show ?thesis
    by (simp only: b64url_decode_def b64url_encode_def b64raw_decode_encode) simp
qed

end
