(* ===== verification/Identity.thy ===== *)
theory Identity
  imports Encodings Obfs
begin

text \<open>
  \<^verbatim>\<open>internal/identity\<close>: the long-term key of a node and what is derived from it. A key pair
  is its Ed25519 seed; \<open>key_file\<close> and \<open>Load_key\<close> are the contents \<^verbatim>\<open>Save\<close> writes and what
  \<^verbatim>\<open>Load\<close> makes of them; \<open>RoomKey\<close>, \<open>BoxKey\<close> and \<open>DiscoKey\<close> the derived Curve25519 keys,
  with the key derivation function as an argument. \<open>ParseSecret\<close> and \<open>Secret_String\<close> are the
  text form of a room secret in \<^verbatim>\<open>internal/obfs\<close>.
\<close>

section \<open>Keys\<close>

definition KeyLen :: nat where "KeyLen = 32"
definition keyFilePrefix :: string where "keyFilePrefix = ''zpt-node-key-v1:''"

datatype key_error = BadKey | UnknownFormat | CorruptFile

definition ParseKey :: "string \<Rightarrow> key_error + bytes" where
  "ParseKey s = (case b64_decode (trim_space s) of
     None \<Rightarrow> Inl BadKey
   | Some b \<Rightarrow> if length b \<noteq> KeyLen then Inl BadKey else Inr b)"

definition Key_String :: "bytes \<Rightarrow> string" where
  "Key_String k = b64_encode k"

definition clamp :: "bytes \<Rightarrow> bytes" where
  "clamp k = k[0 := k ! 0 AND 248, 31 := (k ! 31 AND 127) OR 64]"

definition RoomKey :: "(bytes \<Rightarrow> string \<Rightarrow> nat \<Rightarrow> bytes) \<Rightarrow> bytes \<Rightarrow> string \<Rightarrow> bytes" where
  "RoomKey hkdf seed roomID = clamp (hkdf seed (''room:'' @ roomID) KeyLen)"

definition BoxKey :: "(bytes \<Rightarrow> string \<Rightarrow> nat \<Rightarrow> bytes) \<Rightarrow> bytes \<Rightarrow> bytes" where
  "BoxKey hkdf seed = clamp (hkdf seed ''controller-box'' KeyLen)"

definition DiscoKey :: "(bytes \<Rightarrow> string \<Rightarrow> nat \<Rightarrow> bytes) \<Rightarrow> bytes \<Rightarrow> bytes" where
  "DiscoKey hkdf seed = clamp (hkdf seed ''disco'' KeyLen)"

text \<open>The identifier of a node: ten bytes of a digest of its public key, in base32.\<close>

definition NodeIDFromPublic :: "unicode \<Rightarrow> (bytes \<Rightarrow> bytes) \<Rightarrow> bytes \<Rightarrow> string" where
  "NodeIDFromPublic u blake2s pub = to_lower u (b32_encode (take 10 (blake2s pub)))"

section \<open>The key file\<close>

definition key_file :: "bytes \<Rightarrow> string" where
  "key_file seed = keyFilePrefix @ b64_encode seed @ [CHR 0x0A]"

definition Load_key :: "string \<Rightarrow> key_error + bytes" where
  "Load_key raw = (let s = trim_space raw in
     if \<not> has_prefix s keyFilePrefix then Inl UnknownFormat
     else case b64_decode (drop (length keyFilePrefix) s) of
       None \<Rightarrow> Inl CorruptFile
     | Some seed \<Rightarrow> if length seed \<noteq> 32 then Inl CorruptFile else Inr seed)"

section \<open>Room secrets\<close>

definition SecretLen :: nat where "SecretLen = 32"

definition ParseSecret :: "string \<Rightarrow> key_error + bytes" where
  "ParseSecret v = (case b64_decode (trim_space v) of
     None \<Rightarrow> Inl BadKey
   | Some b \<Rightarrow> if length b \<noteq> SecretLen then Inl BadKey else Inr b)"

definition Secret_String :: "bytes \<Rightarrow> string" where
  "Secret_String s = b64_encode s"

section \<open>Text forms\<close>

lemma b64_alphabet_plain:
  "list_all (\<lambda>c. ascii_char c \<and> \<not> ascii_space c) b64_alphabet"
  by code_simp

lemma b64_no_space: "no_space (b64_encode bs)"
proof (rule no_space_ascii)
  have "ascii_char c \<and> \<not> ascii_space c" if "c \<in> set (b64_encode bs)" for c
  proof -
    from that b64_encode_set [of bs] have "c = CHR ''='' \<or> c \<in> set b64_alphabet" by auto
    then show ?thesis
      using b64_alphabet_plain by (auto simp: list_all_iff ascii_char_def ascii_space_def)
  qed
  then show "list_all (\<lambda>c. ascii_char c \<and> \<not> ascii_space c) (b64_encode bs)"
    by (simp add: list_all_iff)
qed

lemma trim_space_newline:
  assumes "no_space w" "w \<noteq> []"
  shows "trim_space (w @ [CHR 0x0A]) = w"
proof -
  have "space_len (w @ [CHR 0x0A]) = 0"
    using assms by (simp add: space_len_append_space ascii_space_char no_space_space_len)
  then have l: "trim_left space_len (w @ [CHR 0x0A]) = w @ [CHR 0x0A]" by (rule trim_left_id)
  have "space_len_rev (CHR 0x0A # rev w) = 1"
    by (simp add: space_len_rev_def ascii_space_char)
  then have "trim_left space_len_rev (CHR 0x0A # rev w) = rev w"
    using no_space_rev [OF assms(1)] by (subst trim_left.simps) (simp add: trim_left_id)
  then show ?thesis by (simp add: trim_space_def l)
qed

text \<open>Keys, room secrets and the node's key file survive being written and read back:
  parsing the text form of a 32-byte key or secret gives it back, and loading a saved key
  file gives the seed that was saved.\<close>

theorem key_texts_roundtrip:
  assumes "length k = 32"
  shows "ParseKey (Key_String k) = Inr k \<and> ParseSecret (Secret_String k) = Inr k \<and>
    Load_key (key_file k) = Inr k"
proof -
  have ns: "trim_space (b64_encode k) = b64_encode k"
    by (rule trim_space_no_space) (rule b64_no_space)
  have p: "no_space (keyFilePrefix @ b64_encode k)"
  proof -
    have "no_space ''zpt-node-key-v1''" by code_simp
    then show ?thesis
      using no_space_join_ascii [of "''zpt-node-key-v1''" "b64_encode k" "CHR '':''"] b64_no_space
      by (simp add: keyFilePrefix_def ascii_char_def ascii_space_def)
  qed
  have "trim_space (key_file k) = keyFilePrefix @ b64_encode k"
    using trim_space_newline [OF p] by (simp add: key_file_def keyFilePrefix_def)
  then have "Load_key (key_file k) = Inr k"
    using assms by (simp add: Load_key_def has_prefix_def b64_decode_encode)
  then show ?thesis
    using assms by (simp add: ParseKey_def Key_String_def ParseSecret_def Secret_String_def ns
        b64_decode_encode KeyLen_def SecretLen_def)
qed

theorem key_texts_roundtrip_witness:
  "Load_key (key_file (replicate 32 7)) = Inr (replicate 32 7)"
  using key_texts_roundtrip [of "replicate 32 7"] by simp

end
