(* ===== verification/Relay_Proto.thy ===== *)
theory Relay_Proto
  imports Disco Identity
begin

text \<open>
  \<^verbatim>\<open>internal/relay/proto.go\<close> and \<^verbatim>\<open>nodeid.go\<close>: session frames, the registration handshake
  and node identifiers on the wire. The primitives (NaCl boxes, secretbox, SHA-256, AES) are
  the fields of a record \<open>relay_crypto\<close>; \<open>crypto_ok\<close> states what their packages document. Random
  draws are arguments.
\<close>

section \<open>Frames\<close>

definition TypeSend :: byte where "TypeSend = 1"
definition TypeRecv :: byte where "TypeRecv = 2"
definition relay_TypePing :: byte where "relay_TypePing = 3"
definition hsHello :: byte where "hsHello = 0x11"
definition hsWelcome :: byte where "hsWelcome = 0x12"

definition NodeIDLen :: nat where "NodeIDLen = 10"
definition sessLen :: nat where "sessLen = 8"
definition relay_nonceLen :: nat where "relay_nonceLen = 24"
definition relay_headerLen :: nat where "relay_headerLen = TagLen + sessLen + relay_nonceLen"
definition innerHdr :: nat where "innerHdr = 1 + NodeIDLen"
definition relay_overhead :: nat where "relay_overhead = relay_headerLen + 16 + innerHdr"
definition maxFrame :: nat where "maxFrame = 65535"
definition maxPayload :: nat where "maxPayload = maxFrame - relay_overhead"

lemmas relay_sizes = NodeIDLen_def sessLen_def relay_nonceLen_def relay_headerLen_def innerHdr_def
  relay_overhead_def TagLen_def

record relay_crypto =
  rc_box :: nacl
  sbox_seal :: "bytes \<Rightarrow> bytes \<Rightarrow> bytes \<Rightarrow> bytes"
  sbox_open :: "bytes \<Rightarrow> bytes \<Rightarrow> bytes \<Rightarrow> bytes option"
  rc_sha256 :: "bytes \<Rightarrow> bytes"
  rc_aes :: "bytes \<Rightarrow> bytes \<Rightarrow> bytes"

definition crypto_ok :: "relay_crypto \<Rightarrow> bool" where
  "crypto_ok C \<longleftrightarrow> nacl_ok (rc_box C) \<and>
     (\<forall>m n k. sbox_open C (sbox_seal C m n k) n k = Some m) \<and>
     (\<forall>m n k. length (sbox_seal C m n k) = length m + 16) \<and>
     (\<forall>b. length (rc_sha256 C b) = 32) \<and> (\<forall>k b. length (rc_aes C k b) = 16)"

record relay_session =
  sess_ID :: bytes
  sess_Key :: bytes

definition session_ok :: "relay_session \<Rightarrow> bool" where
  "session_ok s = (length (sess_ID s) = sessLen \<and> length (sess_Key s) = 32)"

datatype relay_error = PayloadTooLarge | BadFrameSize | CannotOpenFrame | BadHelloSize
  | CannotOpenHello | HelloNotAuthenticated | BadWelcomeSize | BadWelcome | BadNodeID | NoSession

definition relay_TagKey :: "relay_crypto \<Rightarrow> bytes \<Rightarrow> bytes" where
  "relay_TagKey C relayPub = take 16 (rc_sha256 C (bytes_of ''zeropentime/relay-tag/v1'' @ relayPub))"

definition relay_mask :: "relay_crypto \<Rightarrow> bytes \<Rightarrow> bytes \<Rightarrow> bytes" where
  "relay_mask C tag relayPub =
     take sessLen (rc_sha256 C ((bytes_of ''zeropentime/relay-mask/v1'' @ relayPub) @ tag))"

definition relay_Seal :: "relay_crypto \<Rightarrow> relay_session \<Rightarrow> bytes \<Rightarrow> byte \<Rightarrow> bytes \<Rightarrow> bytes \<Rightarrow>
    bytes \<Rightarrow> bytes \<Rightarrow> relay_error + bytes" where
  "relay_Seal C s relayPub typ node payload tagnonce nonce =
     (if maxPayload < length payload then Inl PayloadTooLarge
      else
        let tag = Tagger_Put (rc_aes C) (relay_TagKey C relayPub) tagnonce;
            out = tag @ map2 (XOR) (sess_ID s) (relay_mask C tag relayPub) @ nonce;
            inner = [typ] @ node @ payload
        in Inr (out @ sbox_seal C inner nonce (sess_Key s)))"

definition relay_SessionID :: "relay_crypto \<Rightarrow> bytes \<Rightarrow> bytes \<Rightarrow> bytes option" where
  "relay_SessionID C frame relayPub =
     (if length frame < relay_overhead then None
      else Some (map2 (XOR) (bslice TagLen (TagLen + sessLen) frame)
             (relay_mask C (take TagLen frame) relayPub)))"

definition relay_Open :: "relay_crypto \<Rightarrow> relay_session \<Rightarrow> bytes \<Rightarrow>
    relay_error + byte \<times> bytes \<times> bytes" where
  "relay_Open C s frame =
     (if length frame < relay_overhead \<or> maxFrame < length frame then Inl BadFrameSize
      else
        let nonce = bslice (TagLen + sessLen) relay_headerLen frame
        in (case sbox_open C (drop relay_headerLen frame) nonce (sess_Key s) of
              None \<Rightarrow> Inl CannotOpenFrame
            | Some inner \<Rightarrow>
                if length inner < innerHdr then Inl CannotOpenFrame
                else Inr (inner ! 0, bslice 1 innerHdr inner, drop innerHdr inner)))"

section \<open>The handshake\<close>

definition helloTagKey :: "relay_crypto \<Rightarrow> bytes \<Rightarrow> bytes" where
  "helloTagKey C relayPub = take 16 (rc_sha256 C (bytes_of ''zeropentime/relay-hello/v1'' @ relayPub))"

definition welcomeTagKey :: "relay_crypto \<Rightarrow> bytes \<Rightarrow> bytes" where
  "welcomeTagKey C nodePub = take 16 (rc_sha256 C (bytes_of ''zeropentime/relay-welcome/v1'' @ nodePub))"

definition Hello :: "relay_crypto \<Rightarrow> bytes \<Rightarrow> bytes \<Rightarrow> bytes \<Rightarrow> bytes \<Rightarrow> bytes \<Rightarrow> bytes \<Rightarrow> bytes \<Rightarrow> bytes" where
  "Hello C nodePriv nodePub relayPub nonce stamp rnd tagnonce =
     (let inner = box_seal (rc_box C) (hsHello # stamp) nonce relayPub nodePriv;
          plain = nodePub @ nonce @ inner
      in Tagger_Put (rc_aes C) (helloTagKey C relayPub) tagnonce
         @ anon_seal (rc_box C) plain relayPub rnd)"

definition IsHello :: "relay_crypto \<Rightarrow> bytes \<Rightarrow> bytes \<Rightarrow> bool" where
  "IsHello C pkt relayPub = Tagger_Match (rc_aes C) (helloTagKey C relayPub) pkt"

definition OpenHello :: "relay_crypto \<Rightarrow> bytes \<Rightarrow> bytes \<Rightarrow> bytes \<Rightarrow> relay_error + bytes" where
  "OpenHello C pkt relayPriv relayPub =
     (if length pkt < TagLen \<or> 512 < length pkt then Inl BadHelloSize
      else case anon_open (rc_box C) (drop TagLen pkt) relayPub relayPriv of
        None \<Rightarrow> Inl CannotOpenHello
      | Some plain \<Rightarrow>
          if length plain < 32 + 24 then Inl CannotOpenHello
          else
            let node = take 32 plain; nonce = bslice 32 56 plain
            in (case box_open (rc_box C) (drop 56 plain) nonce node relayPriv of
                  None \<Rightarrow> Inl HelloNotAuthenticated
                | Some stamp \<Rightarrow>
                    if length stamp \<noteq> 9 \<or> stamp ! 0 \<noteq> hsHello then Inl HelloNotAuthenticated
                    else Inr node))"

definition Welcome :: "relay_crypto \<Rightarrow> relay_session \<Rightarrow> bytes \<Rightarrow> bytes \<Rightarrow> bytes \<Rightarrow> bytes \<Rightarrow> bytes" where
  "Welcome C s relayPriv nodePub nonce tagnonce =
     (let msg = [hsWelcome] @ sess_ID s @ sess_Key s
      in Tagger_Put (rc_aes C) (welcomeTagKey C nodePub) tagnonce
         @ nonce @ box_seal (rc_box C) msg nonce nodePub relayPriv)"

definition IsWelcome :: "relay_crypto \<Rightarrow> bytes \<Rightarrow> bytes \<Rightarrow> bool" where
  "IsWelcome C pkt nodePub = Tagger_Match (rc_aes C) (welcomeTagKey C nodePub) pkt"

definition OpenWelcome :: "relay_crypto \<Rightarrow> bytes \<Rightarrow> bytes \<Rightarrow> bytes \<Rightarrow> relay_error + relay_session" where
  "OpenWelcome C pkt nodePriv relayPub =
     (if length pkt < TagLen + 24 then Inl BadWelcomeSize
      else
        let nonce = bslice TagLen (TagLen + 24) pkt
        in (case box_open (rc_box C) (drop (TagLen + 24) pkt) nonce relayPub nodePriv of
              None \<Rightarrow> Inl BadWelcome
            | Some msg \<Rightarrow>
                if length msg \<noteq> 1 + sessLen + 32 \<or> msg ! 0 \<noteq> hsWelcome then Inl BadWelcome
                else Inr \<lparr>sess_ID = bslice 1 (1 + sessLen) msg, sess_Key = drop (1 + sessLen) msg\<rparr>))"

section \<open>Node identifiers\<close>

definition NodeIDBytes :: "unicode \<Rightarrow> string \<Rightarrow> relay_error + bytes" where
  "NodeIDBytes u i = (case b32_decode (to_upper u i) of
     None \<Rightarrow> Inl BadNodeID
   | Some raw \<Rightarrow> if length raw \<noteq> NodeIDLen then Inl BadNodeID else Inr raw)"

definition NodeIDString :: "unicode \<Rightarrow> bytes \<Rightarrow> string" where
  "NodeIDString u b = to_lower u (b32_encode b)"

section \<open>Lemmas\<close>

lemma map2_xor_length: "length xs \<le> length ks \<Longrightarrow> length (map2 (XOR) xs ks) = length (xs :: bytes)"
  by simp

lemma xor_mask_twice: "length xs = length ks \<Longrightarrow> map2 (XOR) (map2 (XOR) xs ks) ks = (xs :: bytes)"
proof (induction xs ks rule: list_induct2)
  case (Cons x xs k ks)
  then show ?case by (simp add: xor.assoc)
qed simp

lemma length_relay_mask: "crypto_ok C \<Longrightarrow> length (relay_mask C t p) = 8"
  by (simp add: crypto_ok_def relay_mask_def sessLen_def)

lemma length_mac4: "(\<forall>k b. length (enc k b) = 16) \<Longrightarrow> length (take 4 (Tagger_mac enc k n)) = 4"
  by (simp add: Tagger_mac_def)

lemma length_Tagger_Put:
  assumes "\<forall>k b. length (enc k b) = 16" "length n = 4"
  shows "length (Tagger_Put enc k n) = 8"
  using length_mac4 [OF assms(1), of k n] assms(2) by (simp add: Tagger_Put_def TagLen_def nonceLen_def)

lemma Tagger_Match_Put:
  assumes "\<forall>k b. length (enc k b) = 16" "length n = 4"
  shows "Tagger_Match enc k (Tagger_Put enc k n @ rest)"
  using length_mac4 [OF assms(1), of k n] assms(2)
  by (simp add: Tagger_Match_def Tagger_Put_def TagLen_def nonceLen_def bslice_def)

lemma upper_lower_b32: "c \<in> set b32_alphabet \<Longrightarrow> ascii_upper (ascii_lower c) = c"
proof -
  have "list_all (\<lambda>c. ascii_upper (ascii_lower c) = c) b32_alphabet"
    by (simp add: b32_alphabet_def ascii_upper_def ascii_lower_def char_of_eq_iff)
  then show "c \<in> set b32_alphabet \<Longrightarrow> ascii_upper (ascii_lower c) = c" by (simp add: list_all_iff)
qed

lemma ascii_lower_b32: "c \<in> set b32_alphabet \<Longrightarrow>
  (of_char c :: nat) < 128 \<and> (of_char (ascii_lower c) :: nat) < 128"
proof -
  have "list_all (\<lambda>c. (of_char c :: nat) < 128 \<and> (of_char (ascii_lower c) :: nat) < 128) b32_alphabet"
    by (simp add: b32_alphabet_def ascii_lower_def)
  then show "c \<in> set b32_alphabet \<Longrightarrow>
      (of_char c :: nat) < 128 \<and> (of_char (ascii_lower c) :: nat) < 128"
    by (simp add: list_all_iff)
qed

lemma NodeIDBytes_String:
  assumes "length b = NodeIDLen"
  shows "NodeIDBytes u (NodeIDString u b) = Inr b"
proof -
  have a: "is_ascii (b32_encode b)" "is_ascii (map ascii_lower (b32_encode b))"
    using b32_encode_set [of b] ascii_lower_b32 by (auto simp: is_ascii_def list_all_iff)
  have "map ascii_upper (map ascii_lower (b32_encode b)) = b32_encode b"
    using b32_encode_set [of b] upper_lower_b32 by (auto intro!: map_idI)
  then have "to_upper u (NodeIDString u b) = b32_encode b"
    using a by (simp add: NodeIDString_def to_lower_def to_upper_def)
  then show ?thesis
    using assms b32_decode_encode [of b] by (simp add: NodeIDBytes_def NodeIDLen_def)
qed

section \<open>Properties\<close>

definition frame_args_ok :: "relay_crypto \<Rightarrow> relay_session \<Rightarrow> bytes \<Rightarrow> bytes \<Rightarrow> bytes \<Rightarrow> bool" where
  "frame_args_ok C s node tagnonce nonce \<longleftrightarrow> crypto_ok C \<and> session_ok s \<and> length node = NodeIDLen \<and>
     length tagnonce = nonceLen \<and> length nonce = relay_nonceLen"

lemma relay_frame_parts:
  assumes ok: "frame_args_ok C s node tagnonce nonce" and l: "length payload \<le> maxPayload"
  shows "\<exists>tag hid box. relay_Seal C s pub typ node payload tagnonce nonce = Inr (tag @ hid @ nonce @ box) \<and>
    tag = Tagger_Put (rc_aes C) (relay_TagKey C pub) tagnonce \<and>
    hid = map2 (XOR) (sess_ID s) (relay_mask C tag pub) \<and>
    box = sbox_seal C ([typ] @ node @ payload) nonce (sess_Key s) \<and>
    length tag = 8 \<and> length hid = 8 \<and> length nonce = 24 \<and> length box = 27 + length payload"
proof -
  let ?tag = "Tagger_Put (rc_aes C) (relay_TagKey C pub) tagnonce"
  have C: "crypto_ok C" and r: "length tagnonce = 4" "length nonce = 24" "length node = 10"
    "length (sess_ID s) = 8"
    using ok by (simp_all add: frame_args_ok_def session_ok_def relay_sizes nonceLen_def)
  have "length ?tag = 8" using C r by (intro length_Tagger_Put) (simp_all add: crypto_ok_def)
  moreover have "length (sbox_seal C ([typ] @ node @ payload) nonce (sess_Key s)) = 27 + length payload"
    using C r by (simp add: crypto_ok_def)
  moreover have "length (map2 (XOR) (sess_ID s) (relay_mask C ?tag pub)) = 8"
    using C r by (simp add: length_relay_mask)
  ultimately show ?thesis
    using l r by (simp add: relay_Seal_def Let_def)
qed

text \<open>Whatever a side seals into a session frame, the other side opens: the frame is
  never longer than a datagram, it carries the relay's tag, its session identifier reads back,
  and opening it with the session gives the type, node and payload.\<close>

theorem relay_frame_roundtrip:
  assumes "frame_args_ok C s node tagnonce nonce" "length payload \<le> maxPayload"
  shows "\<exists>f. relay_Seal C s pub typ node payload tagnonce nonce = Inr f \<and> length f \<le> maxFrame \<and>
    Tagger_Match (rc_aes C) (relay_TagKey C pub) f \<and>
    relay_SessionID C f pub = Some (sess_ID s) \<and> relay_Open C s f = Inr (typ, node, payload)"
proof -
  obtain tag hid box where
    f: "relay_Seal C s pub typ node payload tagnonce nonce = Inr (tag @ hid @ nonce @ box)" and
    tag: "tag = Tagger_Put (rc_aes C) (relay_TagKey C pub) tagnonce" and
    hid: "hid = map2 (XOR) (sess_ID s) (relay_mask C tag pub)" and
    box: "box = sbox_seal C ([typ] @ node @ payload) nonce (sess_Key s)" and
    len: "length tag = 8" "length hid = 8" "length nonce = 24" "length box = 27 + length payload"
    using relay_frame_parts [OF assms] by blast
  have C: "crypto_ok C" and n: "length node = 10" "length (sess_ID s) = 8" "length tagnonce = 4"
    using assms(1) by (simp_all add: frame_args_ok_def session_ok_def relay_sizes nonceLen_def)
  have size: "length (tag @ hid @ nonce @ box) = 67 + length payload" using len by simp
  then have max: "length (tag @ hid @ nonce @ box) \<le> maxFrame"
    using assms(2) by (simp add: maxPayload_def maxFrame_def relay_sizes)
  have match: "Tagger_Match (rc_aes C) (relay_TagKey C pub) (tag @ hid @ nonce @ box)"
    unfolding tag using C n by (intro Tagger_Match_Put) (simp_all add: crypto_ok_def)
  have "map2 (XOR) hid (relay_mask C tag pub) = sess_ID s"
    unfolding hid using C n by (intro xor_mask_twice) (simp add: length_relay_mask)
  then have sid: "relay_SessionID C (tag @ hid @ nonce @ box) pub = Some (sess_ID s)"
    using len by (simp add: relay_SessionID_def relay_sizes bslice_def)
  have "sbox_open C box nonce (sess_Key s) = Some ([typ] @ node @ payload)"
    unfolding box using C by (simp add: crypto_ok_def)
  then have "relay_Open C s (tag @ hid @ nonce @ box) = Inr (typ, node, payload)"
    using len n max by (simp add: relay_Open_def relay_sizes bslice_def)
  with f max match sid show ?thesis by blast
qed

definition hello_args_ok :: "relay_crypto \<Rightarrow> relay_session \<Rightarrow> bytes \<Rightarrow> bytes \<Rightarrow> bytes \<Rightarrow> bool" where
  "hello_args_ok C s nonce stamp tagnonce \<longleftrightarrow> crypto_ok C \<and> session_ok s \<and>
     length nonce = 24 \<and> length stamp = 8 \<and> length tagnonce = nonceLen"

text \<open>Registration: the relay recognises a hello and reads from it the public key of the
  node that made it, and the node recognises the welcome and reads from it the session the
  relay created.\<close>

theorem relay_handshake:
  assumes ok: "hello_args_ok C s nonce stamp tagnonce"
    and keys: "nodePub = box_pub (rc_box C) nodePriv" "relayPub = box_pub (rc_box C) relayPriv"
    and hello: "hello = Hello C nodePriv nodePub relayPub nonce stamp rnd tagnonce"
    and wel: "welcome = Welcome C s relayPriv nodePub nonce tagnonce"
  shows "IsHello C hello relayPub \<and> OpenHello C hello relayPriv relayPub = Inr nodePub \<and>
    IsWelcome C welcome nodePub \<and> OpenWelcome C welcome nodePriv relayPub = Inr s"
proof -
  have C: "crypto_ok C" and N: "nacl_ok (rc_box C)" and aes: "\<forall>k b. length (rc_aes C k b) = 16"
    and l: "length nonce = 24" "length stamp = 8" "length tagnonce = 4" "length (sess_ID s) = 8"
      "length (sess_Key s) = 32"
    using ok by (simp_all add: hello_args_ok_def crypto_ok_def session_ok_def relay_sizes nonceLen_def)
  have tag: "length (Tagger_Put (rc_aes C) k tagnonce) = 8"
    and match: "Tagger_Match (rc_aes C) k (Tagger_Put (rc_aes C) k tagnonce @ rest)" for k rest
    using aes l by (simp_all add: length_Tagger_Put Tagger_Match_Put)
  have pub: "length (box_pub (rc_box C) k) = 32" for k using N by (simp add: nacl_ok_def)
  let ?plain = "nodePub @ nonce @ box_seal (rc_box C) (hsHello # stamp) nonce relayPub nodePriv"
  have h: "hello = Tagger_Put (rc_aes C) (helloTagKey C relayPub) tagnonce
      @ anon_seal (rc_box C) ?plain relayPub rnd"
    by (simp add: hello Hello_def Let_def)
  have ls: "length (anon_seal (rc_box C) m k r) = length m + 48"
    "length (box_seal (rc_box C) m n k a) = length m + 16" for m k r n a
    using N by (simp_all add: nacl_ok_def)
  have lh: "length hello = 137" using tag pub l by (simp add: h ls keys)
  have o: "anon_open (rc_box C) (drop TagLen hello) relayPub relayPriv = Some ?plain"
    using N tag by (simp add: h nacl_ok_def TagLen_def keys)
  have p: "take 32 ?plain = nodePub" "bslice 32 56 ?plain = nonce" "56 \<le> length ?plain"
    "drop 56 ?plain = box_seal (rc_box C) (hsHello # stamp) nonce relayPub nodePriv"
    using pub l by (simp_all add: keys bslice_def)
  have b: "box_open (rc_box C) (drop 56 ?plain) nonce nodePub relayPriv = Some (hsHello # stamp)"
    unfolding p(4) using N by (simp add: nacl_ok_def keys)
  have "OpenHello C hello relayPriv relayPub = Inr nodePub"
    using lh o p b l by (simp add: OpenHello_def TagLen_def)
  moreover have "OpenWelcome C welcome nodePriv relayPub = Inr s"
  proof -
    have w: "welcome = Tagger_Put (rc_aes C) (welcomeTagKey C nodePub) tagnonce @ nonce
        @ box_seal (rc_box C) ([hsWelcome] @ sess_ID s @ sess_Key s) nonce nodePub relayPriv"
      by (simp add: wel Welcome_def Let_def)
    have "box_open (rc_box C) (drop 32 welcome) (bslice 8 32 welcome) relayPub nodePriv =
        Some ([hsWelcome] @ sess_ID s @ sess_Key s)"
      using N tag l by (simp add: w bslice_def nacl_ok_def keys)
    moreover have "32 \<le> length welcome" using tag l by (simp add: w)
    ultimately show ?thesis
      using l by (simp add: OpenWelcome_def TagLen_def sessLen_def bslice_def)
  qed
  ultimately show ?thesis
    using match by (simp add: IsHello_def IsWelcome_def h wel Welcome_def Let_def)
qed

section \<open>A sample instance\<close>

definition sample_crypto :: relay_crypto where
  "sample_crypto = \<lparr>rc_box = sample_nacl,
     sbox_seal = (\<lambda>m n k. take 16 (k @ replicate 16 0) @ m),
     sbox_open = (\<lambda>c n k. if take 16 c = take 16 (k @ replicate 16 0) then Some (drop 16 c) else None),
     rc_sha256 = (\<lambda>b. take 32 (drop 18 b @ replicate 32 0)),
     rc_aes = sample_enc\<rparr>"

lemma sample_crypto_ok: "crypto_ok sample_crypto"
  by (simp add: crypto_ok_def sample_crypto_def sample_nacl_ok sample_enc_def min_def)

definition sample_session :: relay_session where
  "sample_session = \<lparr>sess_ID = [1, 2, 3, 4, 5, 6, 7, 8], sess_Key = replicate 32 9\<rparr>"

lemma sample_session_ok: "session_ok sample_session"
  by (simp add: session_ok_def sample_session_def sessLen_def)

theorem relay_frame_roundtrip_witness:
  "\<exists>f. relay_Seal sample_crypto sample_session (replicate 32 6) TypeSend (replicate 10 4) [1, 2, 3]
      [1, 2, 3, 4] (replicate 24 0) = Inr f \<and>
    relay_Open sample_crypto sample_session f = Inr (TypeSend, replicate 10 4, [1, 2, 3])"
proof -
  have "frame_args_ok sample_crypto sample_session (replicate 10 4) [1, 2, 3, 4] (replicate 24 0)"
    by (simp add: frame_args_ok_def sample_crypto_ok sample_session_ok relay_sizes nonceLen_def)
  from relay_frame_roundtrip [OF this, of "[1, 2, 3]"] show ?thesis
    by (auto simp: maxPayload_def maxFrame_def relay_sizes)
qed

theorem relay_handshake_witness:
  "OpenHello sample_crypto (Hello sample_crypto (replicate 32 5) (box_pub sample_nacl (replicate 32 5))
      (box_pub sample_nacl (replicate 32 6)) (replicate 24 0) (replicate 8 1) [] [1, 2, 3, 4])
      (replicate 32 6) (box_pub sample_nacl (replicate 32 6)) = Inr (box_pub sample_nacl (replicate 32 5))"
proof -
  have "hello_args_ok sample_crypto sample_session (replicate 24 0) (replicate 8 1) [1, 2, 3, 4]"
    by (simp add: hello_args_ok_def sample_crypto_ok sample_session_ok nonceLen_def)
  from relay_handshake [OF this, of _ "replicate 32 5" _ "replicate 32 6"] show ?thesis
    by (simp add: sample_crypto_def)
qed

end
