(* ===== verification/Relay_Server.thy ===== *)
theory Relay_Server
  imports Relay_Proto Rate_Window "HOL-Library.AList"
begin

text \<open>
  \<^verbatim>\<open>internal/relay/server.go\<close>: the relay. The source shares one \<^verbatim>\<open>*serverSession\<close> between the
  maps \<^verbatim>\<open>byID\<close> and \<^verbatim>\<open>byNode\<close> and updates it in place, so the sessions live in a store here
  (\<open>heap\<close>) and both maps hold references, the addresses in it. A Go map is an association list with
  distinct keys; the order in which the source ranges over a map does not matter for any
  result below. The handlers are atomic (the source holds \<^verbatim>\<open>mu\<close> around each group of accesses);
  the clock and the random draws are arguments, and so is the \<^verbatim>\<open>Authorizer\<close>.
\<close>

section \<open>State\<close>

record server_session =
  ss_Session :: relay_session
  ss_nodeID :: string
  ss_raw :: bytes
  ss_addr :: addrport
  ss_last :: time
  ss_window :: time
  ss_packets :: int

record permEntry =
  pe_ok :: bool
  pe_at :: time

record authorizer =
  auth_Node :: "bytes \<Rightarrow> string option"
  auth_CanSend :: "string \<Rightarrow> string \<Rightarrow> bool"

record relay_server =
  rs_priv :: bytes
  rs_pub :: bytes
  rs_heap :: "server_session list"
  rs_byID :: "(bytes \<times> nat) list"
  rs_byNode :: "(string \<times> nat) list"
  rs_perm :: "((string \<times> string) \<times> permEntry) list"
  rs_packets :: "64 word"
  rs_bytes :: "64 word"
  rs_listening :: bool
  rs_streams :: "addrport list"
  rs_nextID :: "64 word"

record relay_out =
  out_Data :: bytes
  out_To :: addrport

text \<open>The random draws of one call: a new session, a nonce and a tag nonce.\<close>

record relay_draw =
  dr_session :: relay_session
  dr_nonce :: bytes
  dr_tagnonce :: bytes

definition sessionIdle :: duration where "sessionIdle = 2 * minute"
definition maxPPS :: int where "maxPPS = 20000"

definition NewServer :: "bytes \<Rightarrow> bytes \<Rightarrow> relay_server" where
  "NewServer priv pub = \<lparr>rs_priv = priv, rs_pub = pub, rs_heap = [], rs_byID = [], rs_byNode = [],
     rs_perm = [], rs_packets = 0, rs_bytes = 0, rs_listening = False, rs_streams = [], rs_nextID = 0\<rparr>"

section \<open>Operations\<close>

text \<open>The packet counter of a session, as \<^verbatim>\<open>Handle\<close> advances it.\<close>

definition count_packet :: "server_session \<Rightarrow> time \<Rightarrow> bool \<times> server_session" where
  "count_packet s now =
     (let s1 = (if second \<le> time_sub now (ss_window s) then s\<lparr>ss_window := now, ss_packets := 0\<rparr> else s);
          s2 = s1\<lparr>ss_packets := ss_packets s1 + 1\<rparr>
      in (\<not> maxPPS < ss_packets s2, s2))"

definition allowed :: "authorizer \<Rightarrow> time \<Rightarrow> string \<Rightarrow> string \<Rightarrow> relay_server \<Rightarrow> bool \<times> relay_server" where
  "allowed A now src dst s =
     (case map_of (rs_perm s) (src, dst) of
        Some e \<Rightarrow>
          if time_sub now (pe_at e) < minute then (pe_ok e, s)
          else let allow = auth_CanSend A src dst
            in (allow, s\<lparr>rs_perm := AList.update (src, dst) \<lparr>pe_ok = allow, pe_at = now\<rparr> (rs_perm s)\<rparr>)
      | None \<Rightarrow>
          let allow = auth_CanSend A src dst
          in (allow, s\<lparr>rs_perm := AList.update (src, dst) \<lparr>pe_ok = allow, pe_at = now\<rparr> (rs_perm s)\<rparr>))"

definition relay_hello :: "relay_crypto \<Rightarrow> unicode \<Rightarrow> authorizer \<Rightarrow> time \<Rightarrow> relay_draw \<Rightarrow> bytes \<Rightarrow> addrport \<Rightarrow>
    relay_server \<Rightarrow> relay_out list \<times> relay_server" where
  "relay_hello C u A now d pkt from s =
     (case OpenHello C pkt (rs_priv s) (rs_pub s) of
        Inl _ \<Rightarrow> ([], s)
      | Inr key \<Rightarrow> (case auth_Node A key of
          None \<Rightarrow> ([], s)
        | Some nodeID \<Rightarrow> (case NodeIDBytes u nodeID of
            Inl _ \<Rightarrow> ([], s)
          | Inr raw \<Rightarrow>
              let sess = dr_session d;
                  w = Welcome C sess (rs_priv s) key (dr_nonce d) (dr_tagnonce d);
                  byID1 = (case map_of (rs_byNode s) nodeID of
                      Some old \<Rightarrow> AList.delete (sess_ID (ss_Session (rs_heap s ! old))) (rs_byID s)
                    | None \<Rightarrow> rs_byID s);
                  ss = \<lparr>ss_Session = sess, ss_nodeID = nodeID, ss_raw = raw, ss_addr = from,
                        ss_last = now, ss_window = 0, ss_packets = 0\<rparr>;
                  r = length (rs_heap s)
              in ([\<lparr>out_Data = w, out_To = from\<rparr>],
                  s\<lparr>rs_heap := rs_heap s @ [ss],
                    rs_byID := AList.update (sess_ID sess) r byID1,
                    rs_byNode := AList.update nodeID r (rs_byNode s)\<rparr>))))"

definition relay_Handle :: "relay_crypto \<Rightarrow> unicode \<Rightarrow> authorizer \<Rightarrow> time \<Rightarrow> relay_draw \<Rightarrow> bytes \<Rightarrow> addrport \<Rightarrow>
    relay_server \<Rightarrow> relay_out list \<times> relay_server" where
  "relay_Handle C u A now d pkt from s =
     (if IsHello C pkt (rs_pub s) then relay_hello C u A now d pkt from s
      else case relay_SessionID C pkt (rs_pub s) of
        None \<Rightarrow> ([], s)
      | Some i \<Rightarrow> (case map_of (rs_byID s) i of
          None \<Rightarrow> ([], s)
        | Some r \<Rightarrow>
            let (pass, src) = count_packet (rs_heap s ! r) now;
                s1 = s\<lparr>rs_heap := (rs_heap s)[r := src]\<rparr>;
                sess = ss_Session src
            in if \<not> pass then ([], s1)
               else case relay_Open C sess pkt of
                 Inl _ \<Rightarrow> ([], s1)
               | Inr (typ, node, payload) \<Rightarrow>
                   let s2 = s1\<lparr>rs_heap := (rs_heap s1)[r := src\<lparr>ss_addr := from, ss_last := now\<rparr>]\<rparr>
                   in if typ = relay_TypePing then
                        (case relay_Seal C sess (rs_pub s) relay_TypePing (replicate NodeIDLen 0) []
                            (dr_tagnonce d) (dr_nonce d) of
                           Inl _ \<Rightarrow> ([], s2)
                         | Inr f \<Rightarrow> ([\<lparr>out_Data = f, out_To = from\<rparr>], s2))
                      else if typ = TypeSend then
                        let dstID = NodeIDString u node;
                            (ok, s3) = allowed A now (ss_nodeID src) dstID s2
                        in if \<not> ok then ([], s3)
                           else case map_of (rs_byNode s3) dstID of
                             None \<Rightarrow> ([], s3)
                           | Some q \<Rightarrow>
                               let dst = rs_heap s3 ! q
                               in (case relay_Seal C (ss_Session dst) (rs_pub s) TypeRecv (ss_raw src) payload
                                     (dr_tagnonce d) (dr_nonce d) of
                                     Inl _ \<Rightarrow> ([], s3)
                                   | Inr f \<Rightarrow> ([\<lparr>out_Data = f, out_To = ss_addr dst\<rparr>], s3))
                      else ([], s2)))"

text \<open>One tick of \<^verbatim>\<open>expireLoop\<close>.\<close>

definition expire_one :: "server_session list \<Rightarrow> time \<Rightarrow> bytes \<times> nat \<Rightarrow>
    (bytes \<times> nat) list \<times> (string \<times> nat) list \<Rightarrow> (bytes \<times> nat) list \<times> (string \<times> nat) list" where
  "expire_one h now e st = (case e of (i, r) \<Rightarrow> case st of (bi, bn) \<Rightarrow>
     if sessionIdle < time_sub now (ss_last (h ! r)) then
       (AList.delete i bi,
        if map_of bn (ss_nodeID (h ! r)) = Some r then AList.delete (ss_nodeID (h ! r)) bn else bn)
     else (bi, bn))"

definition relay_expire :: "time \<Rightarrow> relay_server \<Rightarrow> relay_server" where
  "relay_expire now s =
     (let (bi, bn) = fold (expire_one (rs_heap s) now) (rs_byID s) (rs_byID s, rs_byNode s)
      in s\<lparr>rs_byID := bi, rs_byNode := bn,
           rs_perm := filter (\<lambda>(k, e). \<not> minute < time_sub now (pe_at e)) (rs_perm s)\<rparr>)"

text \<open>\<^verbatim>\<open>send\<close>: the counters, and which datagrams go to a stream and which to the socket (a
  pseudo address of a stream that is gone is never sent to the network).\<close>

datatype relay_delivery = ToStream addrport bytes | ToUDP addrport bytes

definition streamPrefix :: prefix where
  "streamPrefix = \<lparr>pfx_addr = V6 0xfd7a7a70727300000000000000000000 [], pfx_bits = 48\<rparr>"

definition deliver_one :: "relay_server \<Rightarrow> relay_out \<Rightarrow> relay_delivery list" where
  "deliver_one s o' =
     (if out_To o' \<in> set (rs_streams s) then [ToStream (out_To o') (out_Data o')]
      else if rs_listening s \<and> \<not> contains streamPrefix (ap_addr (out_To o'))
      then [ToUDP (out_To o') (out_Data o')]
      else [])"

definition relay_send :: "relay_out list \<Rightarrow> relay_server \<Rightarrow> relay_delivery list \<times> relay_server" where
  "relay_send outs s =
     (concat (map (deliver_one s) outs),
      s\<lparr>rs_packets := rs_packets s + of_nat (length outs),
        rs_bytes := rs_bytes s + of_nat (sum_list (map (\<lambda>o'. length (out_Data o')) outs))\<rparr>)"

text \<open>Opening and closing a stream in \<^verbatim>\<open>ServeStream\<close>: the pseudo address is the prefix with the
  next number in its low 64 bits.\<close>

definition stream_addr :: "64 word \<Rightarrow> addrport" where
  "stream_addr n = \<lparr>ap_addr = V6 (0xfd7a7a70727300000000000000000000 OR ucast n) [], ap_port = 1\<rparr>"

definition stream_open :: "relay_server \<Rightarrow> addrport \<times> relay_server" where
  "stream_open s =
     (let n = rs_nextID s + 1; a = stream_addr n
      in (a, s\<lparr>rs_nextID := n, rs_streams := List.insert a (rs_streams s)\<rparr>))"

definition stream_close :: "addrport \<Rightarrow> relay_server \<Rightarrow> relay_server" where
  "stream_close a s = s\<lparr>rs_streams := removeAll a (rs_streams s)\<rparr>"

definition relay_Stats :: "relay_server \<Rightarrow> nat \<times> 64 word \<times> 64 word" where
  "relay_Stats s = (length (rs_byNode s), rs_packets s, rs_bytes s)"

section \<open>The invariant\<close>

text \<open>References are valid, a session is registered under its own identifier and under its own
  node, and every session that can be addressed by its identifier is the current session of
  its node. (The converse needs fresh session identifiers and is not part of it.)\<close>

definition relay_inv :: "unicode \<Rightarrow> relay_server \<Rightarrow> bool" where
  "relay_inv u s \<longleftrightarrow>
     distinct (map fst (rs_byID s)) \<and> distinct (map fst (rs_byNode s)) \<and>
     (\<forall>i r. map_of (rs_byID s) i = Some r \<longrightarrow> r < length (rs_heap s) \<and>
        sess_ID (ss_Session (rs_heap s ! r)) = i \<and>
        map_of (rs_byNode s) (ss_nodeID (rs_heap s ! r)) = Some r) \<and>
     (\<forall>n r. map_of (rs_byNode s) n = Some r \<longrightarrow> r < length (rs_heap s) \<and>
        ss_nodeID (rs_heap s ! r) = n \<and> NodeIDBytes u n = Inr (ss_raw (rs_heap s ! r)))"

definition same_ident :: "server_session \<Rightarrow> server_session \<Rightarrow> bool" where
  "same_ident a b = (ss_Session a = ss_Session b \<and> ss_nodeID a = ss_nodeID b \<and> ss_raw a = ss_raw b)"

lemma count_packet_ident: "same_ident (snd (count_packet x now)) x"
  by (simp add: count_packet_def same_ident_def Let_def)

lemma relay_inv_new: "relay_inv u (NewServer priv pub)"
  by (simp add: relay_inv_def NewServer_def)

lemma relay_inv_heap_upd [go_inv]:
  assumes "relay_inv u s" "same_ident x (rs_heap s ! r)"
  shows "relay_inv u (s\<lparr>rs_heap := (rs_heap s)[r := x]\<rparr>)"
proof -
  have "ss_Session ((rs_heap s)[r := x] ! q) = ss_Session (rs_heap s ! q) \<and>
      ss_nodeID ((rs_heap s)[r := x] ! q) = ss_nodeID (rs_heap s ! q) \<and>
      ss_raw ((rs_heap s)[r := x] ! q) = ss_raw (rs_heap s ! q)" for q
    using assms(2) by (cases "r < length (rs_heap s)") (auto simp: nth_list_update list_update_beyond same_ident_def)
  then show ?thesis using assms(1) by (simp add: relay_inv_def)
qed

lemma relay_inv_perm [simp]: "relay_inv u (s\<lparr>rs_perm := p\<rparr>) = relay_inv u s"
  by (simp add: relay_inv_def)

lemma relay_inv_allowed [go_inv]: "relay_inv u s \<Longrightarrow> relay_inv u (snd (allowed A now a b s))"
  by (simp add: allowed_def Let_def split: option.splits)

lemma allowed_frame [simp]:
  "rs_heap (snd (allowed A now a b s)) = rs_heap s" "rs_byID (snd (allowed A now a b s)) = rs_byID s"
  "rs_byNode (snd (allowed A now a b s)) = rs_byNode s" "rs_pub (snd (allowed A now a b s)) = rs_pub s"
  by (simp_all add: allowed_def Let_def split: option.splits)

lemma relay_inv_hello [go_inv]:
  assumes inv: "relay_inv u s"
  shows "relay_inv u (snd (relay_hello C u A now d pkt from s))"
proof (cases "\<exists>key nodeID raw. OpenHello C pkt (rs_priv s) (rs_pub s) = Inr key \<and>
    auth_Node A key = Some nodeID \<and> NodeIDBytes u nodeID = Inr raw")
  case False
  then show ?thesis using inv
    by (auto simp: relay_hello_def split: sum.splits option.splits)
next
  case True
  then obtain key nodeID raw where h: "OpenHello C pkt (rs_priv s) (rs_pub s) = Inr key"
    "auth_Node A key = Some nodeID" "NodeIDBytes u nodeID = Inr raw" by blast
  define byID1 where "byID1 = (case map_of (rs_byNode s) nodeID of
      Some old \<Rightarrow> AList.delete (sess_ID (ss_Session (rs_heap s ! old))) (rs_byID s) | None \<Rightarrow> rs_byID s)"
  define ss where "ss = \<lparr>ss_Session = dr_session d, ss_nodeID = nodeID, ss_raw = raw, ss_addr = from,
      ss_last = now, ss_window = 0, ss_packets = 0\<rparr>"
  let ?s' = "s\<lparr>rs_heap := rs_heap s @ [ss],
      rs_byID := AList.update (sess_ID (dr_session d)) (length (rs_heap s)) byID1,
      rs_byNode := AList.update nodeID (length (rs_heap s)) (rs_byNode s)\<rparr>"
  have s': "snd (relay_hello C u A now d pkt from s) = ?s'"
    using h by (simp add: relay_hello_def byID1_def ss_def Let_def)
  have 1: "map_of (rs_byID s) i = Some r \<and> ss_nodeID (rs_heap s ! r) \<noteq> nodeID"
    if "map_of byID1 i = Some r" for i r
  proof -
    have i: "map_of (rs_byID s) i = Some r"
      using that by (auto simp: byID1_def delete_conv' split: option.splits if_splits)
    have "ss_nodeID (rs_heap s ! r) \<noteq> nodeID"
    proof
      assume n: "ss_nodeID (rs_heap s ! r) = nodeID"
      from inv i have "sess_ID (ss_Session (rs_heap s ! r)) = i" "map_of (rs_byNode s) nodeID = Some r"
        unfolding relay_inv_def n [symmetric] by blast+
      with that show False by (simp add: byID1_def delete_conv')
    qed
    with i show ?thesis ..
  qed
  have d: "distinct (map fst byID1)" "distinct (map fst (rs_byNode s))"
    using inv by (auto simp: relay_inv_def byID1_def distinct_delete split: option.splits)
  have byID: "r < length (rs_heap s) \<and> sess_ID (ss_Session (rs_heap s ! r)) = i \<and>
      map_of (rs_byNode s) (ss_nodeID (rs_heap s ! r)) = Some r" if "map_of (rs_byID s) i = Some r" for i r
    using inv that unfolding relay_inv_def by blast
  have byNode: "r < length (rs_heap s) \<and> ss_nodeID (rs_heap s ! r) = n \<and>
      NodeIDBytes u n = Inr (ss_raw (rs_heap s ! r))" if "map_of (rs_byNode s) n = Some r" for n r
    using inv that unfolding relay_inv_def by blast
  show ?thesis
    unfolding s' relay_inv_def
    using d h(3) 1 byID byNode
    by (auto simp: update_conv' distinct_update nth_append ss_def less_Suc_eq split: if_splits)
qed

text \<open>The state after a frame of the session \<open>r\<close> was counted, and after it was opened.\<close>

definition st_counted :: "time \<Rightarrow> nat \<Rightarrow> relay_server \<Rightarrow> relay_server" where
  "st_counted now r s = s\<lparr>rs_heap := (rs_heap s)[r := snd (count_packet (rs_heap s ! r) now)]\<rparr>"

definition st_opened :: "time \<Rightarrow> addrport \<Rightarrow> nat \<Rightarrow> relay_server \<Rightarrow> relay_server" where
  "st_opened now from r s = s\<lparr>rs_heap := (rs_heap s)[r :=
     (snd (count_packet (rs_heap s ! r) now))\<lparr>ss_addr := from, ss_last := now\<rparr>]\<rparr>"

lemma relay_inv_counted [go_inv]: "relay_inv u s \<Longrightarrow> relay_inv u (st_counted now r s)"
  unfolding st_counted_def by (rule relay_inv_heap_upd) (simp_all add: count_packet_ident)

lemma relay_inv_opened [go_inv]: "relay_inv u s \<Longrightarrow> relay_inv u (st_opened now from r s)"
  unfolding st_opened_def using count_packet_ident [of "rs_heap s ! r" now]
  by (intro relay_inv_heap_upd) (simp_all add: same_ident_def)

lemma st_opened_frame [simp]: "rs_byNode (st_opened now from r s) = rs_byNode s"
  by (simp add: st_opened_def)

text \<open>What a call of \<^verbatim>\<open>Handle\<close> does with a packet that is not a hello, case by case: it is not
  a frame of a known session; it is counted and dropped (over the limit, or it does not open);
  it opens, and there is nothing to do; it is a ping; it may not be forwarded; it is
  forwarded.\<close>

inductive handled :: "relay_crypto \<Rightarrow> unicode \<Rightarrow> authorizer \<Rightarrow> time \<Rightarrow> relay_draw \<Rightarrow> bytes \<Rightarrow> addrport \<Rightarrow>
    relay_server \<Rightarrow> relay_out list \<Rightarrow> relay_server \<Rightarrow> bool"
  for C u A now d pkt from' s where
  unknown: "handled C u A now d pkt from' s [] s"
| dropped: "map_of (rs_byID s) i = Some r \<Longrightarrow> handled C u A now d pkt from' s [] (st_counted now r s)"
| quiet: "map_of (rs_byID s) i = Some r \<Longrightarrow> handled C u A now d pkt from' s [] (st_opened now from' r s)"
| ping: "relay_SessionID C pkt (rs_pub s) = Some i \<Longrightarrow> map_of (rs_byID s) i = Some r \<Longrightarrow>
    relay_Open C (ss_Session (rs_heap s ! r)) pkt = Inr (relay_TypePing, node, payload) \<Longrightarrow>
    relay_Seal C (ss_Session (rs_heap s ! r)) (rs_pub s) relay_TypePing (replicate NodeIDLen 0) []
      (dr_tagnonce d) (dr_nonce d) = Inr f \<Longrightarrow>
    handled C u A now d pkt from' s [\<lparr>out_Data = f, out_To = from'\<rparr>] (st_opened now from' r s)"
| refused: "map_of (rs_byID s) i = Some r \<Longrightarrow>
    handled C u A now d pkt from' s [] (snd (allowed A now (ss_nodeID (rs_heap s ! r)) b (st_opened now from' r s)))"
| forward: "relay_SessionID C pkt (rs_pub s) = Some i \<Longrightarrow> map_of (rs_byID s) i = Some r \<Longrightarrow>
    relay_Open C (ss_Session (rs_heap s ! r)) pkt = Inr (TypeSend, node, payload) \<Longrightarrow>
    fst (allowed A now (ss_nodeID (rs_heap s ! r)) (NodeIDString u node) (st_opened now from' r s)) \<Longrightarrow>
    map_of (rs_byNode s) (NodeIDString u node) = Some q \<Longrightarrow>
    relay_Seal C (ss_Session (rs_heap (st_opened now from' r s) ! q)) (rs_pub s) TypeRecv
      (ss_raw (rs_heap s ! r)) payload (dr_tagnonce d) (dr_nonce d) = Inr f \<Longrightarrow>
    handled C u A now d pkt from' s
      [\<lparr>out_Data = f, out_To = ss_addr (rs_heap (st_opened now from' r s) ! q)\<rparr>]
      (snd (allowed A now (ss_nodeID (rs_heap s ! r)) (NodeIDString u node) (st_opened now from' r s)))"

lemma handled_opened:
  assumes sid: "relay_SessionID C pkt (rs_pub s) = Some i" and byid: "map_of (rs_byID s) i = Some r"
    and op: "relay_Open C (ss_Session (rs_heap s ! r)) pkt = Inr (typ, node, payload)"
    and s2: "s2 = st_opened now from' r s"
    and res: "res =
      (if typ = relay_TypePing then
         (case relay_Seal C (ss_Session (rs_heap s ! r)) (rs_pub s) relay_TypePing (replicate NodeIDLen 0) []
             (dr_tagnonce d) (dr_nonce d) of
            Inl _ \<Rightarrow> ([], s2)
          | Inr f \<Rightarrow> ([\<lparr>out_Data = f, out_To = from'\<rparr>], s2))
       else if typ = TypeSend then
         case allowed A now (ss_nodeID (rs_heap s ! r)) (NodeIDString u node) s2 of (ok, s3) \<Rightarrow>
           if \<not> ok then ([], s3)
           else case map_of (rs_byNode s3) (NodeIDString u node) of
             None \<Rightarrow> ([], s3)
           | Some q \<Rightarrow> (case relay_Seal C (ss_Session (rs_heap s3 ! q)) (rs_pub s) TypeRecv
                 (ss_raw (rs_heap s ! r)) payload (dr_tagnonce d) (dr_nonce d) of
                 Inl _ \<Rightarrow> ([], s3)
               | Inr f \<Rightarrow> ([\<lparr>out_Data = f, out_To = ss_addr (rs_heap s3 ! q)\<rparr>], s3))
       else ([], s2))"
  shows "handled C u A now d pkt from' s (fst res) (snd res)"
proof -
  let ?al = "allowed A now (ss_nodeID (rs_heap s ! r)) (NodeIDString u node) s2"
  have fr: "rs_heap (snd ?al) = rs_heap s2" "rs_byNode (snd ?al) = rs_byNode s"
    "rs_byNode s2 = rs_byNode s"
    by (simp_all add: s2)
  have ref: "handled C u A now d pkt from' s [] (snd ?al)"
    unfolding s2 using byid by (rule refused)
  have qu: "handled C u A now d pkt from' s [] s2"
    unfolding s2 using byid by (rule quiet)
  show ?thesis
  proof (cases "typ = TypeSend \<and> typ \<noteq> relay_TypePing")
    case True
    have "handled C u A now d pkt from' s [\<lparr>out_Data = f, out_To = ss_addr (rs_heap s2 ! q)\<rparr>] (snd ?al)"
      if "fst ?al" "map_of (rs_byNode s) (NodeIDString u node) = Some q"
        "relay_Seal C (ss_Session (rs_heap s2 ! q)) (rs_pub s) TypeRecv (ss_raw (rs_heap s ! r)) payload
          (dr_tagnonce d) (dr_nonce d) = Inr f" for q f
      using that op True unfolding s2 by (intro forward [OF sid byid]) auto
    with True ref show ?thesis
      unfolding res by (auto simp: fr split_beta split: option.split sum.split)
  next
    case False
    then show ?thesis
      using qu ping [OF sid byid] op unfolding res s2 by (auto split: sum.split)
  qed
qed

lemma relay_Handle_handled:
  assumes "\<not> IsHello C pkt (rs_pub s)"
  shows "handled C u A now d pkt from' s (fst (relay_Handle C u A now d pkt from' s))
    (snd (relay_Handle C u A now d pkt from' s))"
proof (cases "\<exists>i r. relay_SessionID C pkt (rs_pub s) = Some i \<and> map_of (rs_byID s) i = Some r")
  case False
  then have "relay_Handle C u A now d pkt from' s = ([], s)"
    using assms by (auto simp: relay_Handle_def split: option.splits)
  then show ?thesis by (simp add: unknown)
next
  case True
  then obtain i r where sid: "relay_SessionID C pkt (rs_pub s) = Some i" and
    byid: "map_of (rs_byID s) i = Some r" by blast
  let ?x = "snd (count_packet (rs_heap s ! r) now)"
  have x: "ss_Session ?x = ss_Session (rs_heap s ! r)" "ss_nodeID ?x = ss_nodeID (rs_heap s ! r)"
    "ss_raw ?x = ss_raw (rs_heap s ! r)"
    using count_packet_ident [of "rs_heap s ! r" now] by (simp_all add: same_ident_def)
  note H = assms sid byid x st_counted_def [of now r s]
  note dr = dropped [OF byid, of C u A now d pkt from']
  show ?thesis
  proof (cases "relay_Open C (ss_Session (rs_heap s ! r)) pkt")
    case (Inl e)
    with dr show ?thesis by (simp add: relay_Handle_def H split_beta Let_def)
  next
    case (Inr m)
    then obtain ty node payload where
      op: "relay_Open C (ss_Session (rs_heap s ! r)) pkt = Inr (ty, node, payload)"
      by (cases m) auto
    show ?thesis
    proof (cases "fst (count_packet (rs_heap s ! r) now)")
      case False
      with dr show ?thesis by (simp add: relay_Handle_def H split_beta Let_def)
    next
      case True
      show ?thesis
        by (rule handled_opened [OF sid byid op refl], unfold st_opened_def)
          (use True in \<open>simp add: relay_Handle_def H op split_beta Let_def cong: sum.case_cong option.case_cong\<close>)
    qed
  qed
qed

lemma relay_inv_Handle [go_inv]:
  assumes "relay_inv u s"
  shows "relay_inv u (snd (relay_Handle C u A now d pkt from' s))"
proof (cases "IsHello C pkt (rs_pub s)")
  case True
  then show ?thesis using relay_inv_hello [OF assms] by (simp add: relay_Handle_def)
next
  case False
  from relay_Handle_handled [OF this, of u A now d from'] show ?thesis
    by cases (use assms in \<open>simp_all add: relay_inv_counted relay_inv_opened relay_inv_allowed\<close>)
qed

text \<open>Expiry removes exactly the idle sessions.\<close>

definition idle :: "server_session list \<Rightarrow> time \<Rightarrow> nat \<Rightarrow> bool" where
  "idle h now r = (sessionIdle < time_sub now (ss_last (h ! r)))"

lemma expire_fold:
  "map_of (fst (fold (expire_one h now) es (bi, bn))) i =
     (if \<exists>r. (i, r) \<in> set es \<and> idle h now r then None else map_of bi i) \<and>
   map_of (snd (fold (expire_one h now) es (bi, bn))) n =
     (if \<exists>i r. (i, r) \<in> set es \<and> idle h now r \<and> ss_nodeID (h ! r) = n \<and> map_of bn n = Some r
      then None else map_of bn n)"
proof (induction es arbitrary: bi bn)
  case (Cons e es)
  obtain j r where e: "e = (j, r)" by (cases e)
  obtain bi' bn' where st: "expire_one h now e (bi, bn) = (bi', bn')" by fastforce
  have bi': "map_of bi' i = (if i = j \<and> idle h now r then None else map_of bi i)"
    using st by (auto simp: expire_one_def e idle_def delete_conv' split: if_splits)
  have bn': "map_of bn' n =
      (if idle h now r \<and> ss_nodeID (h ! r) = n \<and> map_of bn n = Some r then None else map_of bn n)"
    using st by (auto simp: expire_one_def e idle_def delete_conv' split: if_splits)
  have f: "fold (expire_one h now) (e # es) (bi, bn) = fold (expire_one h now) es (bi', bn')"
    by (simp add: st)
  have "map_of (fst (fold (expire_one h now) (e # es) (bi, bn))) i =
      (if \<exists>r. (i, r) \<in> set (e # es) \<and> idle h now r then None else map_of bi i)"
    unfolding f unfolding Cons.IH [of bi' bn', THEN conjunct1] bi' e by auto
  moreover have "map_of (snd (fold (expire_one h now) (e # es) (bi, bn))) n =
      (if \<exists>i r. (i, r) \<in> set (e # es) \<and> idle h now r \<and> ss_nodeID (h ! r) = n \<and> map_of bn n = Some r
       then None else map_of bn n)"
    unfolding f unfolding Cons.IH [of bi' bn', THEN conjunct2] bn' e by auto
  ultimately show ?case ..
qed simp

lemma expire_distinct:
  "distinct (map fst bi) \<Longrightarrow> distinct (map fst bn) \<Longrightarrow>
   distinct (map fst (fst (fold (expire_one h now) es (bi, bn)))) \<and>
   distinct (map fst (snd (fold (expire_one h now) es (bi, bn))))"
proof (induction es arbitrary: bi bn)
  case (Cons e es)
  obtain bi' bn' where st: "expire_one h now e (bi, bn) = (bi', bn')" by fastforce
  then have "distinct (map fst bi')" "distinct (map fst bn')"
    using Cons.prems by (auto simp: expire_one_def distinct_delete split: if_splits prod.splits)
  from Cons.IH [OF this] show ?case by (simp add: st)
qed simp

lemma expire_maps:
  assumes inv: "relay_inv u s"
  shows "map_of (rs_byID (relay_expire now s)) i =
      (case map_of (rs_byID s) i of
         None \<Rightarrow> None | Some r \<Rightarrow> if idle (rs_heap s) now r then None else Some r)"
    and "map_of (rs_byNode (relay_expire now s)) n =
      (case map_of (rs_byNode s) n of
         None \<Rightarrow> None
       | Some r \<Rightarrow> if idle (rs_heap s) now r \<and>
             map_of (rs_byID s) (sess_ID (ss_Session (rs_heap s ! r))) = Some r then None else Some r)"
proof -
  have d: "distinct (map fst (rs_byID s))" using inv by (simp add: relay_inv_def)
  have m: "(j, r) \<in> set (rs_byID s) \<longleftrightarrow> map_of (rs_byID s) j = Some r" for j r
    using d by simp
  have b: "map_of (rs_byID s) j = Some r \<Longrightarrow> sess_ID (ss_Session (rs_heap s ! r)) = j" for j r
    using inv unfolding relay_inv_def by blast
  have nd: "map_of (rs_byNode s) n = Some r \<Longrightarrow> ss_nodeID (rs_heap s ! r) = n" for r
    using inv unfolding relay_inv_def by blast
  have e: "rs_byID (relay_expire now s) =
      fst (fold (expire_one (rs_heap s) now) (rs_byID s) (rs_byID s, rs_byNode s))"
    "rs_byNode (relay_expire now s) =
      snd (fold (expire_one (rs_heap s) now) (rs_byID s) (rs_byID s, rs_byNode s))"
    by (simp_all add: relay_expire_def split_beta Let_def)
  show "map_of (rs_byID (relay_expire now s)) i =
      (case map_of (rs_byID s) i of
         None \<Rightarrow> None | Some r \<Rightarrow> if idle (rs_heap s) now r then None else Some r)"
    unfolding e using expire_fold [of "rs_heap s" now "rs_byID s" "rs_byID s" "rs_byNode s" i]
    by (auto simp: m split: option.splits)
  show "map_of (rs_byNode (relay_expire now s)) n =
      (case map_of (rs_byNode s) n of
         None \<Rightarrow> None
       | Some r \<Rightarrow> if idle (rs_heap s) now r \<and>
             map_of (rs_byID s) (sess_ID (ss_Session (rs_heap s ! r))) = Some r then None else Some r)"
    unfolding e using expire_fold [of "rs_heap s" now "rs_byID s" "rs_byID s" "rs_byNode s"] b nd
    by (auto simp: m split: option.splits)
qed

lemma relay_inv_expire [go_inv]:
  assumes inv: "relay_inv u s"
  shows "relay_inv u (relay_expire now s)"
proof -
  have h: "rs_heap (relay_expire now s) = rs_heap s"
    by (simp add: relay_expire_def split_beta Let_def)
  have d: "distinct (map fst (rs_byID (relay_expire now s)))" "distinct (map fst (rs_byNode (relay_expire now s)))"
    using inv expire_distinct [of "rs_byID s" "rs_byNode s"]
    by (simp_all add: relay_expire_def split_beta Let_def relay_inv_def)
  have byID: "r < length (rs_heap s) \<and> sess_ID (ss_Session (rs_heap s ! r)) = i \<and>
      map_of (rs_byNode s) (ss_nodeID (rs_heap s ! r)) = Some r" if "map_of (rs_byID s) i = Some r" for i r
    using inv that unfolding relay_inv_def by blast
  have byNode: "r < length (rs_heap s) \<and> ss_nodeID (rs_heap s ! r) = n \<and>
      NodeIDBytes u n = Inr (ss_raw (rs_heap s ! r))" if "map_of (rs_byNode s) n = Some r" for n r
    using inv that unfolding relay_inv_def by blast
  show ?thesis
    unfolding relay_inv_def h
  proof (intro conjI allI impI d)
    fix i r assume "map_of (rs_byID (relay_expire now s)) i = Some r"
    then have r: "map_of (rs_byID s) i = Some r" "\<not> idle (rs_heap s) now r"
      by (auto simp: expire_maps [OF inv] split: option.splits if_splits)
    with byID show "r < length (rs_heap s)" "sess_ID (ss_Session (rs_heap s ! r)) = i" by blast+
    show "map_of (rs_byNode (relay_expire now s)) (ss_nodeID (rs_heap s ! r)) = Some r"
      using byID [OF r(1)] r(2) by (simp add: expire_maps [OF inv])
  next
    fix n r assume "map_of (rs_byNode (relay_expire now s)) n = Some r"
    then have "map_of (rs_byNode s) n = Some r"
      by (auto simp: expire_maps [OF inv] split: option.splits if_splits)
    with byNode show "r < length (rs_heap s)" "ss_nodeID (rs_heap s ! r) = n"
      "NodeIDBytes u n = Inr (ss_raw (rs_heap s ! r))" by blast+
  qed
qed

section \<open>Runs\<close>

text \<open>The authorizer may change its mind: \<open>A now\<close> is what it answers at time \<open>now\<close>.\<close>

datatype relay_event = Packet time relay_draw bytes addrport | Tick time | StreamOpen
  | StreamClose addrport

definition relay_step :: "relay_crypto \<Rightarrow> unicode \<Rightarrow> (time \<Rightarrow> authorizer) \<Rightarrow> relay_event \<Rightarrow>
    relay_server \<Rightarrow> relay_server" where
  "relay_step C u A e s = (case e of
     Packet now d pkt from' \<Rightarrow>
       (case relay_Handle C u (A now) now d pkt from' s of (outs, s1) \<Rightarrow> snd (relay_send outs s1))
   | Tick now \<Rightarrow> relay_expire now s
   | StreamOpen \<Rightarrow> snd (stream_open s)
   | StreamClose a \<Rightarrow> stream_close a s)"

definition relay_run :: "relay_crypto \<Rightarrow> unicode \<Rightarrow> (time \<Rightarrow> authorizer) \<Rightarrow> bytes \<Rightarrow> bytes \<Rightarrow>
    relay_event list \<Rightarrow> relay_server" where
  "relay_run C u A priv pub evs = fold (relay_step C u A) evs (NewServer priv pub)"

text \<open>Cached permissions are answers the authorizer gave.\<close>

definition perm_inv :: "(time \<Rightarrow> authorizer) \<Rightarrow> relay_server \<Rightarrow> bool" where
  "perm_inv A s \<longleftrightarrow> (\<forall>(k, e) \<in> set (rs_perm s). pe_ok e = auth_CanSend (A (pe_at e)) (fst k) (snd k))"

lemma set_AList_update: "set (AList.update k v al) \<subseteq> insert (k, v) (set al)"
  by (induction al) auto

lemma perm_inv_allowed: "perm_inv A s \<Longrightarrow> perm_inv A (snd (allowed (A now) now a b s))"
  using set_AList_update [of "(a, b)" "\<lparr>pe_ok = auth_CanSend (A now) a b, pe_at = now\<rparr>" "rs_perm s"]
  by (fastforce simp: allowed_def perm_inv_def Let_def split: option.splits)

lemma rs_perm_frame [simp]:
  "rs_perm (st_counted now r s) = rs_perm s" "rs_perm (st_opened now from' r s) = rs_perm s"
  "rs_perm (snd (relay_hello C u A now d pkt from' s)) = rs_perm s"
  by (simp_all add: st_counted_def st_opened_def relay_hello_def Let_def split: sum.splits option.splits)

lemma perm_inv_Handle:
  assumes "perm_inv A s"
  shows "perm_inv A (snd (relay_Handle C u (A now) now d pkt from' s))"
proof (cases "IsHello C pkt (rs_pub s)")
  case True
  then show ?thesis using assms by (simp add: relay_Handle_def perm_inv_def)
next
  case False
  have o: "perm_inv A (st_opened now from' r s)" for r using assms by (simp add: perm_inv_def)
  from relay_Handle_handled [OF False, of u "A now" now d from'] show ?thesis
    by cases (use assms o in \<open>simp_all add: perm_inv_allowed\<close>, simp add: perm_inv_def)
qed

lemma relay_run_inv: "relay_inv u (relay_run C u A priv pub evs) \<and> perm_inv A (relay_run C u A priv pub evs)"
proof (induction evs rule: rev_induct)
  case Nil
  then show ?case by (simp add: relay_run_def relay_inv_new) (simp add: perm_inv_def NewServer_def)
next
  case (snoc e evs)
  let ?s = "relay_run C u A priv pub evs"
  have send: "relay_inv u (snd (relay_send outs t)) = relay_inv u t"
    "perm_inv A (snd (relay_send outs t)) = perm_inv A t" for outs t
    by (simp_all add: relay_send_def relay_inv_def perm_inv_def)
  have ex: "perm_inv A (relay_expire now ?s)" for now
    using snoc by (auto simp: perm_inv_def relay_expire_def split_beta Let_def)
  have st: "relay_inv u (stream_close a ?s) = relay_inv u ?s" "relay_inv u (snd (stream_open ?s)) = relay_inv u ?s"
    "perm_inv A (stream_close a ?s) = perm_inv A ?s" "perm_inv A (snd (stream_open ?s)) = perm_inv A ?s" for a
    by (simp_all add: stream_close_def stream_open_def relay_inv_def perm_inv_def Let_def)
  have "relay_inv u (relay_step C u A e ?s) \<and> perm_inv A (relay_step C u A e ?s)"
    using snoc by (cases e)
      (simp_all add: relay_step_def split_beta send st ex relay_inv_Handle perm_inv_Handle relay_inv_expire)
  then show ?case by (simp add: relay_run_def)
qed

section \<open>Properties\<close>

text \<open>C23: In every run of the relay, whatever packets arrive and however the session
  identifiers are drawn, the session tables stay consistent: references are valid, every
  session is found under its own identifier and its own node, and a node never has two
  sessions that can be used.\<close>

theorem relay_sessions_consistent:
  "let s = relay_run C u A priv pub evs in
     relay_inv u s \<and>
     inj_on (\<lambda>i. ss_nodeID (rs_heap s ! the (map_of (rs_byID s) i))) (dom (map_of (rs_byID s)))"
proof -
  let ?s = "relay_run C u A priv pub evs"
  have inv: "relay_inv u ?s" using relay_run_inv by blast
  have b: "sess_ID (ss_Session (rs_heap ?s ! r)) = i \<and>
      map_of (rs_byNode ?s) (ss_nodeID (rs_heap ?s ! r)) = Some r" if "map_of (rs_byID ?s) i = Some r" for i r
    using inv that unfolding relay_inv_def by blast
  have "inj_on (\<lambda>i. ss_nodeID (rs_heap ?s ! the (map_of (rs_byID ?s) i))) (dom (map_of (rs_byID ?s)))"
  proof (rule inj_onI)
    fix i j assume "i \<in> dom (map_of (rs_byID ?s))" "j \<in> dom (map_of (rs_byID ?s))"
      and eq: "ss_nodeID (rs_heap ?s ! the (map_of (rs_byID ?s) i)) =
        ss_nodeID (rs_heap ?s ! the (map_of (rs_byID ?s) j))"
    then obtain r q where r: "map_of (rs_byID ?s) i = Some r" "map_of (rs_byID ?s) j = Some q" by blast
    have "ss_nodeID (rs_heap ?s ! r) = ss_nodeID (rs_heap ?s ! q)"
      using eq unfolding r option.sel .
    with b [OF r(1)] b [OF r(2)] have "r = q" by (metis option.inject)
    with b [OF r(1)] b [OF r(2)] show "i = j" by metis
  qed
  with inv show ?thesis by (simp add: Let_def)
qed

text \<open>Why the relay may send a datagram: it welcomes a node the authorizer knows, it answers a
  ping, or it forwards.\<close>

definition welcome_out :: "relay_crypto \<Rightarrow> authorizer \<Rightarrow> relay_draw \<Rightarrow> bytes \<Rightarrow> addrport \<Rightarrow>
    relay_server \<Rightarrow> relay_out \<Rightarrow> bool" where
  "welcome_out C A d pkt from' s out \<longleftrightarrow> (\<exists>key n. OpenHello C pkt (rs_priv s) (rs_pub s) = Inr key \<and>
     auth_Node A key = Some n \<and> out_To out = from' \<and>
     out_Data out = Welcome C (dr_session d) (rs_priv s) key (dr_nonce d) (dr_tagnonce d))"

definition ping_out :: "relay_crypto \<Rightarrow> bytes \<Rightarrow> addrport \<Rightarrow> relay_server \<Rightarrow> relay_out \<Rightarrow> bool" where
  "ping_out C pkt from' s out \<longleftrightarrow> (\<exists>i r node payload. relay_SessionID C pkt (rs_pub s) = Some i \<and>
     map_of (rs_byID s) i = Some r \<and>
     relay_Open C (ss_Session (rs_heap s ! r)) pkt = Inr (relay_TypePing, node, payload) \<and> out_To out = from')"

definition forward_out :: "relay_crypto \<Rightarrow> unicode \<Rightarrow> (time \<Rightarrow> authorizer) \<Rightarrow> time \<Rightarrow> relay_draw \<Rightarrow> bytes \<Rightarrow>
    addrport \<Rightarrow> relay_server \<Rightarrow> relay_out \<Rightarrow> bool" where
  "forward_out C u A now d pkt from' s out \<longleftrightarrow> (\<exists>i r q node payload t raw.
     relay_SessionID C pkt (rs_pub s) = Some i \<and> map_of (rs_byID s) i = Some r \<and>
     relay_Open C (ss_Session (rs_heap s ! r)) pkt = Inr (TypeSend, node, payload) \<and>
     NodeIDBytes u (ss_nodeID (rs_heap s ! r)) = Inr raw \<and>
     now - t < minute \<and> auth_CanSend (A t) (ss_nodeID (rs_heap s ! r)) (NodeIDString u node) \<and>
     map_of (rs_byNode s) (NodeIDString u node) = Some q \<and> ss_nodeID (rs_heap s ! q) = NodeIDString u node \<and>
     out_To out = (if q = r then from' else ss_addr (rs_heap s ! q)) \<and>
     relay_Seal C (ss_Session (rs_heap s ! q)) (rs_pub s) TypeRecv raw payload (dr_tagnonce d) (dr_nonce d)
       = Inr (out_Data out))"

lemma allowed_recent:
  assumes "perm_inv A s" "fst (allowed (A now) now a b s)"
  shows "\<exists>t. now - t < minute \<and> auth_CanSend (A t) a b"
proof (cases "\<exists>e. map_of (rs_perm s) (a, b) = Some e \<and> time_sub now (pe_at e) < minute")
  case True
  then obtain e where e: "map_of (rs_perm s) (a, b) = Some e" "time_sub now (pe_at e) < minute" by blast
  then have "pe_ok e" using assms(2) by (simp add: allowed_def)
  moreover have "((a, b), e) \<in> set (rs_perm s)" using e(1) by (rule map_of_SomeD)
  ultimately have "auth_CanSend (A (pe_at e)) a b" using assms(1) by (auto simp: perm_inv_def)
  moreover have "now - pe_at e < minute"
    using e(2) time_sub_less_iff [of minute now "pe_at e"]
    by (simp add: minute_def second_def max_duration_def min_duration_def)
  ultimately show ?thesis by blast
next
  case False
  then have "auth_CanSend (A now) a b"
    using assms(2) by (auto simp: allowed_def Let_def split: option.splits if_splits)
  moreover have "now - now < minute" by (simp add: minute_def second_def)
  ultimately show ?thesis by blast
qed

lemma st_opened_nth:
  "ss_Session (rs_heap (st_opened now from' r s) ! q) = ss_Session (rs_heap s ! q)"
  "r < length (rs_heap s) \<Longrightarrow>
     ss_addr (rs_heap (st_opened now from' r s) ! q) = (if q = r then from' else ss_addr (rs_heap s ! q))"
  using count_packet_ident [of "rs_heap s ! r" now]
  by (cases "r < length (rs_heap s)";
      auto simp: st_opened_def nth_list_update list_update_beyond same_ident_def)+

lemma relay_outputs:
  fixes C u A priv pub evs
  defines "s \<equiv> relay_run C u A priv pub evs"
  shows "list_all (\<lambda>out. welcome_out C (A now) d pkt from' s out \<or> ping_out C pkt from' s out \<or>
       forward_out C u A now d pkt from' s out)
     (fst (relay_Handle C u (A now) now d pkt from' s))"
proof -
  have inv: "relay_inv u s" and perm: "perm_inv A s" unfolding s_def using relay_run_inv by blast+
  show ?thesis
  proof (cases "IsHello C pkt (rs_pub s)")
    case True
    then show ?thesis
      by (auto simp: relay_Handle_def relay_hello_def welcome_out_def Let_def split: sum.splits option.splits)
  next
    case False
    from relay_Handle_handled [OF False, of u "A now" now d from'] show ?thesis
    proof cases
      case (ping i r node payload f)
      then show ?thesis unfolding Let_def by (simp add: ping_out_def)
    next
      case (forward i r node payload q f)
      have "perm_inv A (st_opened now from' r s)" using perm by (simp add: perm_inv_def)
      from allowed_recent [OF this forward(6)] obtain t where
        t: "now - t < minute" "auth_CanSend (A t) (ss_nodeID (rs_heap s ! r)) (NodeIDString u node)" by blast
      have r: "r < length (rs_heap s)" "map_of (rs_byNode s) (ss_nodeID (rs_heap s ! r)) = Some r"
        using inv forward(4) unfolding relay_inv_def by blast+
      have raw: "NodeIDBytes u (ss_nodeID (rs_heap s ! r)) = Inr (ss_raw (rs_heap s ! r))"
        using inv r(2) unfolding relay_inv_def by blast
      have q: "ss_nodeID (rs_heap s ! q) = NodeIDString u node"
        using inv forward(7) unfolding relay_inv_def by blast
      have "forward_out C u A now d pkt from' s \<lparr>out_Data = f, out_To = ss_addr (rs_heap (st_opened now from' r s) ! q)\<rparr>"
        unfolding forward_out_def
        using forward(3-8) t r(1) raw q
        by (intro exI [of _ i] exI [of _ r] exI [of _ q] exI [of _ node] exI [of _ payload] exI [of _ t]
            exI [of _ "ss_raw (rs_heap s ! r)"]) (simp add: st_opened_nth)
      with forward(1) show ?thesis by (simp add: Let_def)
    qed simp_all
  qed
qed

text \<open>The relay sends nothing it should not. In every run, a datagram it sends is the
  welcome of a node the authorizer knows, sent back to where the hello came from; or the answer
  to a ping of a registered session; or a payload that a registered node sealed for exactly
  the node it is sent to, where the authorizer allowed this pair less than a minute before,
  sealed again for the receiver with the true identifier of the sender.\<close>

theorem relay_sends_justified:
  "let s = relay_run C u A priv pub evs in
   list_all (\<lambda>out. welcome_out C (A now) d pkt from' s out \<or> ping_out C pkt from' s out \<or>
       forward_out C u A now d pkt from' s out)
     (fst (relay_Handle C u (A now) now d pkt from' s))"
  unfolding Let_def by (rule relay_outputs)

text \<open>The limit on the frames of a session.\<close>

interpretation session_rate: rate_window count_packet ss_window ss_packets maxPPS
  by unfold_locales (auto simp: count_packet_def maxPPS_def Let_def)

text \<open>Whatever arrives, in any second the relay opens at most twice 20000 frames of one
  session (the counter starts again at most once in a second).\<close>

theorem relay_session_rate:
  assumes "0 \<le> ss_packets x" "\<forall>t \<in> set ts. t0 \<le> t \<and> t < t0 + second"
  shows "int (passed count_packet x ts) \<le> 40000"
proof -
  have "int (passed count_packet x ts) \<le> 2 * maxPPS"
    using assms by (intro session_rate.passed_in_second [of _ _ t0]) auto
  then show ?thesis by (simp add: maxPPS_def)
qed

definition sample_ss :: "relay_session \<Rightarrow> bytes \<Rightarrow> addrport \<Rightarrow> server_session" where
  "sample_ss s raw a = \<lparr>ss_Session = s, ss_nodeID = NodeIDString plain_tables raw, ss_raw = raw, ss_addr = a,
     ss_last = 100 * second, ss_window = 0, ss_packets = 0\<rparr>"

theorem relay_session_rate_witness:
  "int (passed count_packet (sample_ss sample_session (replicate 10 4) \<lparr>ap_addr = V4 1, ap_port = 2\<rparr>)
     [5 * second, 5 * second + 1]) \<le> 40000"
  using relay_session_rate [of "sample_ss sample_session (replicate 10 4) \<lparr>ap_addr = V4 1, ap_port = 2\<rparr>"
      "[5 * second, 5 * second + 1]" "5 * second"]
  by (simp add: sample_ss_def second_def)

text \<open>A tick of the expiry loop removes exactly the sessions that have been silent for more
  than two minutes, from both tables; a session that was heard of is kept. Nothing else of the
  sessions changes.\<close>

theorem relay_expire_exact:
  assumes "relay_inv u s" "map_of (rs_byID s) i = Some r"
  shows "map_of (rs_byID (relay_expire now s)) i =
      (if 120 * second < now - ss_last (rs_heap s ! r) then None else Some r) \<and>
    map_of (rs_byNode (relay_expire now s)) (ss_nodeID (rs_heap s ! r)) =
      (if 120 * second < now - ss_last (rs_heap s ! r) then None else Some r)"
proof -
  have i: "idle (rs_heap s) now r \<longleftrightarrow> 120 * second < now - ss_last (rs_heap s ! r)"
    using time_sub_greater_iff [of "120 * second" now "ss_last (rs_heap s ! r)"]
    by (simp add: idle_def sessionIdle_def minute_def second_def max_duration_def min_duration_def)
  have r: "sess_ID (ss_Session (rs_heap s ! r)) = i" "map_of (rs_byNode s) (ss_nodeID (rs_heap s ! r)) = Some r"
    using assms unfolding relay_inv_def by blast+
  show ?thesis
    using assms(2) r by (simp add: expire_maps [OF assms(1)] i)
qed

text \<open>Two registered nodes, for the witnesses.\<close>

definition node_a :: bytes where "node_a = [1, 2, 3, 4, 5, 6, 7, 8, 9, 10]"
definition node_b :: bytes where "node_b = [11, 12, 13, 14, 15, 16, 17, 18, 19, 20]"

definition sample_session_b :: relay_session where
  "sample_session_b = \<lparr>sess_ID = [8, 8, 8, 8, 8, 8, 8, 8], sess_Key = replicate 32 7\<rparr>"

definition sample_relay :: relay_server where
  "sample_relay = \<lparr>rs_priv = replicate 32 6, rs_pub = replicate 32 6,
     rs_heap = [sample_ss sample_session node_a \<lparr>ap_addr = V4 1, ap_port = 1\<rparr>,
                sample_ss sample_session_b node_b \<lparr>ap_addr = V4 2, ap_port = 2\<rparr>],
     rs_byID = [([1, 2, 3, 4, 5, 6, 7, 8], 0), ([8, 8, 8, 8, 8, 8, 8, 8], 1)],
     rs_byNode = [(NodeIDString plain_tables node_a, 0), (NodeIDString plain_tables node_b, 1)],
     rs_perm = [], rs_packets = 0, rs_bytes = 0, rs_listening = True, rs_streams = [], rs_nextID = 0\<rparr>"

lemma sample_nodes:
  "NodeIDBytes plain_tables (NodeIDString plain_tables node_a) = Inr node_a"
  "NodeIDBytes plain_tables (NodeIDString plain_tables node_b) = Inr node_b"
  by (rule NodeIDBytes_String; simp add: node_a_def node_b_def NodeIDLen_def)+

lemma sample_nodes_neq: "NodeIDString plain_tables node_a \<noteq> NodeIDString plain_tables node_b"
proof
  assume "NodeIDString plain_tables node_a = NodeIDString plain_tables node_b"
  with sample_nodes have "node_a = node_b" by (metis sum.inject(2))
  then show False by (simp add: node_a_def node_b_def)
qed

lemma sample_relay_inv: "relay_inv plain_tables sample_relay"
  using sample_nodes sample_nodes_neq
  by (auto simp: relay_inv_def sample_relay_def sample_ss_def sample_session_def sample_session_b_def
      split: if_splits)

theorem relay_expire_exact_witness:
  "map_of (rs_byID (relay_expire (221 * second) sample_relay)) [8, 8, 8, 8, 8, 8, 8, 8] = None \<and>
   map_of (rs_byID (relay_expire (220 * second) sample_relay)) [8, 8, 8, 8, 8, 8, 8, 8] = Some 1"
proof -
  have r: "map_of (rs_byID sample_relay) [8, 8, 8, 8, 8, 8, 8, 8] = Some 1"
    "ss_last (rs_heap sample_relay ! 1) = 100 * second"
    by (simp_all add: sample_relay_def sample_ss_def)
  show ?thesis
    using relay_expire_exact [OF sample_relay_inv r(1), of "221 * second"]
      relay_expire_exact [OF sample_relay_inv r(1), of "220 * second"] r(2)
    by (simp add: second_def)
qed

end
