(* ===== verification/Relay_Client.thy ===== *)
theory Relay_Client
  imports Relay_Server
begin

text \<open>
  \<^verbatim>\<open>internal/relay/client.go\<close>: a node's session with one relay, and the way of a payload from
  one client through the relay to another. \<open>client_Handle\<close> returns the payload it hands to
  \<^verbatim>\<open>deliver\<close>, if any; \<open>client_tick\<close> is one turn of the loop of \<^verbatim>\<open>Run\<close>.
\<close>

definition helloEvery :: duration where "helloEvery = 2 * second"
definition keepaliveEvery :: duration where "keepaliveEvery = 20 * second"
definition silenceLimit :: duration where "silenceLimit = 60 * second"

record relay_client =
  cl_Addr :: addrport
  cl_relayPub :: bytes
  cl_priv :: bytes
  cl_pub :: bytes
  cl_sess :: "relay_session option"
  cl_heard :: time
  cl_lastPing :: time

definition NewClient :: "addrport \<Rightarrow> bytes \<Rightarrow> bytes \<Rightarrow> bytes \<Rightarrow> relay_client" where
  "NewClient a relayPub priv pub = \<lparr>cl_Addr = a, cl_relayPub = relayPub, cl_priv = priv, cl_pub = pub,
     cl_sess = None, cl_heard = 0, cl_lastPing = 0\<rparr>"

definition client_Ready :: "time \<Rightarrow> relay_client \<Rightarrow> bool" where
  "client_Ready now c = (cl_sess c \<noteq> None \<and> time_sub now (cl_heard c) < silenceLimit)"

text \<open>The draws of a hello: nonce, stamp, ephemeral key and tag nonce.\<close>

record hello_draw =
  hd_nonce :: bytes
  hd_stamp :: bytes
  hd_rnd :: bytes
  hd_tagnonce :: bytes

definition client_Hello :: "relay_crypto \<Rightarrow> hello_draw \<Rightarrow> relay_client \<Rightarrow> relay_out" where
  "client_Hello C h c = \<lparr>out_Data = Hello C (cl_priv c) (cl_pub c) (cl_relayPub c)
     (hd_nonce h) (hd_stamp h) (hd_rnd h) (hd_tagnonce h), out_To = cl_Addr c\<rparr>"

definition client_tick :: "relay_crypto \<Rightarrow> hello_draw \<Rightarrow> time \<Rightarrow> relay_client \<Rightarrow> relay_out list \<times> relay_client" where
  "client_tick C h now c =
     (case cl_sess c of
        None \<Rightarrow> ([client_Hello C h c], c)
      | Some sess \<Rightarrow>
          if silenceLimit < time_sub now (cl_heard c) then ([client_Hello C h c], c)
          else if keepaliveEvery < time_sub now (cl_lastPing c) then
            (case relay_Seal C sess (cl_relayPub c) relay_TypePing (replicate NodeIDLen 0) []
                (hd_tagnonce h) (hd_nonce h) of
               Inl _ \<Rightarrow> ([], c)
             | Inr f \<Rightarrow> ([\<lparr>out_Data = f, out_To = cl_Addr c\<rparr>], c\<lparr>cl_lastPing := now\<rparr>))
          else ([], c))"

definition client_Handle :: "relay_crypto \<Rightarrow> time \<Rightarrow> bytes \<Rightarrow> relay_client \<Rightarrow>
    (bytes \<times> bytes) option \<times> relay_client" where
  "client_Handle C now pkt c =
     (if IsWelcome C pkt (cl_pub c) then
        (case OpenWelcome C pkt (cl_priv c) (cl_relayPub c) of
           Inl _ \<Rightarrow> (None, c)
         | Inr s \<Rightarrow> (None, c\<lparr>cl_sess := Some s, cl_heard := now\<rparr>))
      else case cl_sess c of
        None \<Rightarrow> (None, c)
      | Some sess \<Rightarrow> (case relay_Open C sess pkt of
          Inl _ \<Rightarrow> (None, c)
        | Inr (typ, node, payload) \<Rightarrow>
            (if typ = TypeRecv then Some (node, payload) else None, c\<lparr>cl_heard := now\<rparr>)))"

definition client_Send :: "relay_crypto \<Rightarrow> bytes \<Rightarrow> bytes \<Rightarrow> bytes \<Rightarrow> bytes \<Rightarrow> relay_client \<Rightarrow>
    relay_error + relay_out" where
  "client_Send C dst payload tagnonce nonce c =
     (case cl_sess c of
        None \<Rightarrow> Inl NoSession
      | Some sess \<Rightarrow> (case relay_Seal C sess (cl_relayPub c) TypeSend dst payload tagnonce nonce of
          Inl e \<Rightarrow> Inl e
        | Inr f \<Rightarrow> Inr \<lparr>out_Data = f, out_To = cl_Addr c\<rparr>))"

section \<open>Registration\<close>

text \<open>\<open>registered s c r\<close>: the client's session is the relay's session \<open>r\<close>.\<close>

definition registered :: "relay_server \<Rightarrow> relay_client \<Rightarrow> nat \<Rightarrow> bool" where
  "registered s c r \<longleftrightarrow> cl_relayPub c = rs_pub s \<and> (\<exists>sess. cl_sess c = Some sess \<and> session_ok sess \<and>
     map_of (rs_byID s) (sess_ID sess) = Some r \<and> ss_Session (rs_heap s ! r) = sess)"

definition hello_ok :: "relay_crypto \<Rightarrow> hello_draw \<Rightarrow> relay_draw \<Rightarrow> bool" where
  "hello_ok C h d \<longleftrightarrow> hello_args_ok C (dr_session d) (hd_nonce h) (hd_stamp h) (hd_tagnonce h) \<and>
     hello_args_ok C (dr_session d) (dr_nonce d) (hd_stamp h) (dr_tagnonce d)"

text \<open>C29: Registration works: if the authorizer knows the node's key, then the hello of a client
  makes the relay answer to the address it came from with a welcome, after which the client and the
  relay hold the same session, and the client is ready.\<close>

theorem client_registers:
  assumes ok: "hello_ok C h d"
    and pubs: "cl_pub c = box_pub (rc_box C) (cl_priv c)" "cl_relayPub c = box_pub (rc_box C) (rs_priv s)"
      "rs_pub s = cl_relayPub c"
    and auth: "auth_Node A (cl_pub c) = Some n" "NodeIDBytes u n = Inr raw"
  shows "\<exists>w s' c'. relay_Handle C u A now d (out_Data (client_Hello C h c)) from' s =
      ([\<lparr>out_Data = w, out_To = from'\<rparr>], s') \<and>
    client_Handle C now w c = (None, c') \<and> client_Ready now c' \<and>
    registered s' c' (length (rs_heap s)) \<and> map_of (rs_byNode s') n = Some (length (rs_heap s))"
proof -
  let ?w = "Welcome C (dr_session d) (rs_priv s) (cl_pub c) (dr_nonce d) (dr_tagnonce d)"
  have h: "IsHello C (out_Data (client_Hello C h c)) (rs_pub s)"
    "OpenHello C (out_Data (client_Hello C h c)) (rs_priv s) (rs_pub s) = Inr (cl_pub c)"
    using relay_handshake [of C "dr_session d" "hd_nonce h" "hd_stamp h" "hd_tagnonce h" "cl_pub c" "cl_priv c"
        "cl_relayPub c" "rs_priv s", OF _ pubs(1,2) refl refl, of "hd_rnd h"] ok pubs
    by (simp_all add: client_Hello_def hello_ok_def)
  have w: "IsWelcome C ?w (cl_pub c)" "OpenWelcome C ?w (cl_priv c) (cl_relayPub c) = Inr (dr_session d)"
    using relay_handshake [of C "dr_session d" "dr_nonce d" "hd_stamp h" "dr_tagnonce d" "cl_pub c" "cl_priv c"
        "cl_relayPub c" "rs_priv s", OF _ pubs(1,2) refl refl, of "hd_rnd h"] ok
    by (simp_all add: hello_ok_def)
  have "client_Handle C now ?w c = (None, c\<lparr>cl_sess := Some (dr_session d), cl_heard := now\<rparr>)"
    using w by (simp add: client_Handle_def)
  moreover have "client_Ready now (c\<lparr>cl_sess := Some (dr_session d), cl_heard := now\<rparr>)"
    by (simp add: client_Ready_def silenceLimit_def second_def)
  moreover have "session_ok (dr_session d)" using ok by (simp add: hello_ok_def hello_args_ok_def)
  ultimately show ?thesis
    using h auth pubs
    by (simp add: relay_Handle_def relay_hello_def Let_def registered_def update_conv')
qed

definition sample_auth :: authorizer where
  "sample_auth = \<lparr>auth_Node = (\<lambda>k. if k = replicate 32 5 then Some (NodeIDString plain_tables node_a) else None),
     auth_CanSend = (\<lambda>a b. a \<noteq> b)\<rparr>"

definition sample_draw :: relay_draw where
  "sample_draw = \<lparr>dr_session = sample_session, dr_nonce = replicate 24 2, dr_tagnonce = [4, 3, 2, 1]\<rparr>"

definition sample_hello_draw :: hello_draw where
  "sample_hello_draw = \<lparr>hd_nonce = replicate 24 1, hd_stamp = replicate 8 1, hd_rnd = [], hd_tagnonce = [1, 2, 3, 4]\<rparr>"

definition sample_client :: "bytes \<Rightarrow> relay_session option \<Rightarrow> relay_client" where
  "sample_client k s = \<lparr>cl_Addr = \<lparr>ap_addr = V4 9, ap_port = 9\<rparr>, cl_relayPub = replicate 32 6, cl_priv = k, cl_pub = k,
     cl_sess = s, cl_heard = 0, cl_lastPing = 0\<rparr>"

lemma sample_pub: "box_pub (rc_box sample_crypto) (replicate 32 k) = replicate 32 k"
  by (simp add: sample_crypto_def sample_nacl_def)

theorem client_registers_witness:
  "\<exists>w s' c'. relay_Handle sample_crypto plain_tables sample_auth 5 sample_draw
      (out_Data (client_Hello sample_crypto sample_hello_draw (sample_client (replicate 32 5) None)))
      \<lparr>ap_addr = V4 1, ap_port = 1\<rparr> (NewServer (replicate 32 6) (replicate 32 6)) =
      ([\<lparr>out_Data = w, out_To = \<lparr>ap_addr = V4 1, ap_port = 1\<rparr>\<rparr>], s') \<and>
    client_Handle sample_crypto 5 w (sample_client (replicate 32 5) None) = (None, c') \<and> client_Ready 5 c'"
proof -
  have ok: "hello_ok sample_crypto sample_hello_draw sample_draw"
    by (simp add: hello_ok_def hello_args_ok_def sample_hello_draw_def sample_draw_def sample_crypto_ok
        sample_session_ok nonceLen_def)
  show ?thesis
    using client_registers [OF ok, of "sample_client (replicate 32 5) None" "NewServer (replicate 32 6) (replicate 32 6)"
        sample_auth "NodeIDString plain_tables node_a" plain_tables node_a 5 "\<lparr>ap_addr = V4 1, ap_port = 1\<rparr>"]
    by (auto simp: sample_client_def NewServer_def sample_pub sample_auth_def sample_nodes)
qed

section \<open>Delivery\<close>

definition draws_ok :: "relay_draw \<Rightarrow> bool" where
  "draws_ok d = (length (dr_nonce d) = relay_nonceLen \<and> length (dr_tagnonce d) = nonceLen)"

definition forwards :: "relay_crypto \<Rightarrow> unicode \<Rightarrow> authorizer \<Rightarrow> time \<Rightarrow> relay_server \<Rightarrow> nat \<Rightarrow> nat \<Rightarrow> bool" where
  "forwards C u A now s r q \<longleftrightarrow> fst (count_packet (rs_heap s ! r) now) \<and>
     NodeIDString u (ss_raw (rs_heap s ! q)) = ss_nodeID (rs_heap s ! q) \<and>
     fst (allowed A now (ss_nodeID (rs_heap s ! r)) (ss_nodeID (rs_heap s ! q)) s)"

lemma allowed_opened:
  "fst (allowed A now a b (st_opened now' from' r s)) = fst (allowed A now a b s)"
  by (simp add: allowed_def Let_def split: option.splits)

lemma relay_raw_length:
  assumes "relay_inv u s" "map_of (rs_byID s) i = Some r"
  shows "length (ss_raw (rs_heap s ! r)) = NodeIDLen"
proof -
  have "map_of (rs_byNode s) (ss_nodeID (rs_heap s ! r)) = Some r"
    using assms unfolding relay_inv_def by blast
  then have "NodeIDBytes u (ss_nodeID (rs_heap s ! r)) = Inr (ss_raw (rs_heap s ! r))"
    using assms unfolding relay_inv_def by blast
  then show ?thesis by (auto simp: NodeIDBytes_def split: option.splits if_splits)
qed

lemma NodeID_types: "TypeSend \<noteq> relay_TypePing"
  by (simp add: TypeSend_def relay_TypePing_def)

text \<open>C25: A payload gets through: if both clients are registered, the sender is within its rate
  and the authorizer allows the pair, then a frame the sender makes for the receiver leaves the
  relay as exactly one datagram to the receiver's current address, and the receiver's client
  delivers the payload with the sender's identifier. (A frame whose tag happens to match the
  tag of a hello or of a welcome is taken for that, which the two conditions on tags exclude.)\<close>

theorem relay_delivers:
  assumes inv: "relay_inv u s" and C: "crypto_ok C" and d: "draws_ok d" "draws_ok d'"
    and a: "registered s ca r" and b: "registered s cb q"
    and fw: "forwards C u A now s r q" and l: "length payload \<le> maxPayload"
    and snd': "client_Send C (ss_raw (rs_heap s ! q)) payload (dr_tagnonce d') (dr_nonce d') ca = Inr pkt"
    and nohello: "\<not> IsHello C (out_Data pkt) (rs_pub s)"
  shows "\<exists>f s'. relay_Handle C u A now d (out_Data pkt) from' s =
      ([\<lparr>out_Data = f, out_To = if q = r then from' else ss_addr (rs_heap s ! q)\<rparr>], s') \<and>
    (IsWelcome C f (cl_pub cb) \<or>
     fst (client_Handle C now f cb) = Some (ss_raw (rs_heap s ! r), payload))"
proof -
  let ?S = "\<lambda>x. ss_Session (rs_heap s ! x)" and ?raw = "\<lambda>x. ss_raw (rs_heap s ! x)"
  have sa: "cl_sess ca = Some (?S r)" "session_ok (?S r)" "map_of (rs_byID s) (sess_ID (?S r)) = Some r"
    "cl_relayPub ca = rs_pub s" using a by (auto simp: registered_def)
  have sb: "cl_sess cb = Some (?S q)" "session_ok (?S q)" "map_of (rs_byID s) (sess_ID (?S q)) = Some q"
    using b by (auto simp: registered_def)
  have raw: "length (?raw r) = NodeIDLen" "length (?raw q) = NodeIDLen"
    using relay_raw_length [OF inv] sa(3) sb(3) by blast+
  have byq: "map_of (rs_byNode s) (ss_nodeID (rs_heap s ! q)) = Some q"
    using inv sb(3) unfolding relay_inv_def by blast
  have r: "r < length (rs_heap s)" using inv sa(3) unfolding relay_inv_def by blast
  obtain f0 where f0: "relay_Seal C (?S r) (rs_pub s) TypeSend (?raw q) payload (dr_tagnonce d') (dr_nonce d') = Inr f0"
      "relay_SessionID C f0 (rs_pub s) = Some (sess_ID (?S r))" "relay_Open C (?S r) f0 = Inr (TypeSend, ?raw q, payload)"
    using relay_frame_roundtrip [of C "?S r" "?raw q" "dr_tagnonce d'" "dr_nonce d'" payload "rs_pub s" TypeSend]
      C sa(2) raw d l by (auto simp: frame_args_ok_def draws_ok_def)
  have pkt: "out_Data pkt = f0" using snd' sa f0 by (auto simp: client_Send_def)
  obtain f where f: "relay_Seal C (?S q) (rs_pub s) TypeRecv (?raw r) payload (dr_tagnonce d) (dr_nonce d) = Inr f"
      "relay_Open C (?S q) f = Inr (TypeRecv, ?raw r, payload)"
    using relay_frame_roundtrip [of C "?S q" "?raw r" "dr_tagnonce d" "dr_nonce d" payload "rs_pub s" TypeRecv]
      C sb(2) raw d l by (auto simp: frame_args_ok_def draws_ok_def)
  let ?x = "snd (count_packet (rs_heap s ! r) now)"
  have x: "ss_Session ?x = ?S r" "ss_nodeID ?x = ss_nodeID (rs_heap s ! r)" "ss_raw ?x = ?raw r"
    using count_packet_ident [of "rs_heap s ! r" now] by (simp_all add: same_ident_def)
  let ?s2 = "st_opened now from' r s"
  have s2: "s\<lparr>rs_heap := (rs_heap s)[r := ?x\<lparr>ss_addr := from', ss_last := now\<rparr>]\<rparr> = ?s2"
    by (simp add: st_opened_def)
  have fw': "fst (count_packet (rs_heap s ! r) now)"
    "NodeIDString u (?raw q) = ss_nodeID (rs_heap s ! q)"
    "fst (allowed A now (ss_nodeID (rs_heap s ! r)) (ss_nodeID (rs_heap s ! q)) ?s2)"
    using fw by (simp_all add: forwards_def allowed_opened)
  have "relay_Handle C u A now d (out_Data pkt) from' s =
      ([\<lparr>out_Data = f, out_To = ss_addr (rs_heap ?s2 ! q)\<rparr>],
       snd (allowed A now (ss_nodeID (rs_heap s ! r)) (ss_nodeID (rs_heap s ! q)) ?s2))"
    using nohello f0 f sa fw' byq NodeID_types
    by (simp add: relay_Handle_def pkt split_beta Let_def x s2 st_opened_nth(1))
  moreover have "IsWelcome C f (cl_pub cb) \<or> fst (client_Handle C now f cb) = Some (?raw r, payload)"
    using sb(1) f(2) by (auto simp: client_Handle_def)
  ultimately show ?thesis using r by (simp add: st_opened_nth)
qed

lemma sample_registered:
  "registered sample_relay (sample_client (replicate 32 5) (Some sample_session)) 0"
  "registered sample_relay (sample_client (replicate 32 4) (Some sample_session_b)) 1"
  by (simp_all add: registered_def sample_client_def sample_relay_def sample_ss_def sample_session_def
      sample_session_b_def session_ok_def sessLen_def)

lemma sample_forwards: "forwards sample_crypto plain_tables sample_auth (200 * second) sample_relay 0 1"
  using sample_nodes_neq
  by (simp add: forwards_def sample_relay_def sample_ss_def count_packet_def allowed_def sample_auth_def
      maxPPS_def Let_def)

definition sample_sent :: relay_out where
  "sample_sent = \<lparr>out_Data = projr (relay_Seal sample_crypto sample_session (replicate 32 6) TypeSend node_b [1, 2, 3]
      [1, 2, 3, 4] (replicate 24 2)), out_To = \<lparr>ap_addr = V4 9, ap_port = 9\<rparr>\<rparr>"

lemma sample_sent_facts:
  "client_Send sample_crypto node_b [1, 2, 3] [1, 2, 3, 4] (replicate 24 2)
     (sample_client (replicate 32 5) (Some sample_session)) = Inr sample_sent"
  "\<not> IsHello sample_crypto (out_Data sample_sent) (replicate 32 6)"
proof -
  have "\<not> maxPayload < length [1, 2, 3 :: byte]" by (simp add: maxPayload_def maxFrame_def relay_sizes)
  then show "client_Send sample_crypto node_b [1, 2, 3] [1, 2, 3, 4] (replicate 24 2)
      (sample_client (replicate 32 5) (Some sample_session)) = Inr sample_sent"
    by (simp add: client_Send_def sample_client_def sample_sent_def relay_Seal_def Let_def)
  show "\<not> IsHello sample_crypto (out_Data sample_sent) (replicate 32 6)"
    using \<open>\<not> maxPayload < length [1, 2, 3 :: byte]\<close>
    by (simp add: sample_sent_def relay_Seal_def Let_def IsHello_def Tagger_Match_def Tagger_Put_def
        Tagger_mac_def helloTagKey_def relay_TagKey_def sample_crypto_def sample_enc_def TagLen_def nonceLen_def
        bslice_def bytes_of_def)
qed

theorem relay_delivers_witness:
  "\<exists>f s'. relay_Handle sample_crypto plain_tables sample_auth (200 * second)
      \<lparr>dr_session = sample_session, dr_nonce = replicate 24 2, dr_tagnonce = [4, 3, 2, 1]\<rparr>
      (out_Data sample_sent) \<lparr>ap_addr = V4 1, ap_port = 1\<rparr> sample_relay =
      ([\<lparr>out_Data = f, out_To = \<lparr>ap_addr = V4 2, ap_port = 2\<rparr>\<rparr>], s') \<and>
    (IsWelcome sample_crypto f (replicate 32 4) \<or>
     fst (client_Handle sample_crypto (200 * second) f (sample_client (replicate 32 4) (Some sample_session_b))) =
       Some (node_a, [1, 2, 3]))"
proof -
  let ?d = "\<lparr>dr_session = sample_session, dr_nonce = replicate 24 2, dr_tagnonce = [4, 3, 2, 1]\<rparr>"
  let ?d' = "\<lparr>dr_session = sample_session, dr_nonce = replicate 24 2, dr_tagnonce = [1, 2, 3, 4]\<rparr>"
  have d: "draws_ok ?d" "draws_ok ?d'" by (simp_all add: draws_ok_def relay_sizes nonceLen_def)
  have l: "length [1, 2, 3 :: byte] \<le> maxPayload" by (simp add: maxPayload_def maxFrame_def relay_sizes)
  have h: "ss_raw (rs_heap sample_relay ! 1) = node_b" "ss_raw (rs_heap sample_relay ! 0) = node_a"
    "ss_addr (rs_heap sample_relay ! 1) = \<lparr>ap_addr = V4 2, ap_port = 2\<rparr>" "rs_pub sample_relay = replicate 32 6"
    "cl_pub (sample_client k x) = k" for k x
    by (simp_all add: sample_relay_def sample_ss_def sample_client_def)
  have S: "client_Send sample_crypto (ss_raw (rs_heap sample_relay ! 1)) [1, 2, 3] (dr_tagnonce ?d') (dr_nonce ?d')
      (sample_client (replicate 32 5) (Some sample_session)) = Inr sample_sent"
    unfolding h using sample_sent_facts(1) by simp
  have n: "\<not> IsHello sample_crypto (out_Data sample_sent) (rs_pub sample_relay)"
    using sample_sent_facts(2) by (simp add: h)
  show ?thesis
    using relay_delivers [OF sample_relay_inv sample_crypto_ok d sample_registered sample_forwards l S n,
        of "\<lparr>ap_addr = V4 1, ap_port = 1\<rparr>"]
    unfolding h by simp
qed

end
