(* ===== verification/Store.thy ===== *)
theory Store
  imports Netip "HOL-Library.List_Lexorder"
begin

text \<open>
  \<^verbatim>\<open>internal/store\<close>: the controller's database. A table is the list of its rows in insertion
  order, and every statement of \<^verbatim>\<open>store.go\<close> is a function on the database with the
  constraints of \<^verbatim>\<open>schema.sql\<close> as errors: primary keys, unique columns, references and their
  cascades. Columns that hold addresses, prefixes and lists as text or JSON hold the values
  themselves here. Unix times are integers. Secrets are sealed with the key-encryption key
  of \<^verbatim>\<open>kek.go\<close>: the AEAD is a record of functions, the nonces are arguments.
\<close>

section \<open>Sealed values\<close>

datatype store_error = ErrNotFound | ErrConstraint | ErrNeedKEK | ErrDamaged

record aead =
  aead_nonceSize :: nat
  aead_seal :: "bytes \<Rightarrow> bytes \<Rightarrow> bytes"
  aead_open :: "bytes \<Rightarrow> bytes \<Rightarrow> bytes option"

type_synonym kek = "aead option"

definition sealedPrefix :: bytes where
  "sealedPrefix = bytes_of ''zptkek1:''"

definition tx_seal :: "kek \<Rightarrow> bytes \<Rightarrow> bytes \<Rightarrow> bytes" where
  "tx_seal K nonce v = (case K of None \<Rightarrow> v | Some a \<Rightarrow> sealedPrefix @ nonce @ aead_seal a nonce v)"

definition isSealed :: "bytes \<Rightarrow> bool" where
  "isSealed v = (take (length sealedPrefix) v = sealedPrefix)"

definition tx_open :: "kek \<Rightarrow> bytes \<Rightarrow> store_error + bytes" where
  "tx_open K v =
     (if \<not> isSealed v then Inr v
      else case K of
        None \<Rightarrow> Inl ErrNeedKEK
      | Some a \<Rightarrow>
          let w = drop (length sealedPrefix) v
          in if length w < aead_nonceSize a then Inl ErrDamaged
             else case aead_open a (take (aead_nonceSize a) w) (drop (aead_nonceSize a) w) of
               None \<Rightarrow> Inl ErrDamaged
             | Some out \<Rightarrow> Inr out)"

section \<open>Rows\<close>

record user =
  usr_ID :: int
  usr_Login :: string
  usr_PassHash :: string
  usr_IsAdmin :: bool
  usr_Created :: int
  usr_totp_secret :: bytes
  usr_totp_step :: int
  usr_oidc_email :: string

record panel_session =
  ses_TokenHash :: bytes
  ses_UserID :: int
  ses_CSRF :: string
  ses_Expires :: int

record reach =
  rch_PublicIP :: addr
  rch_UDPPort :: u16
  rch_Locals :: "addrport list"
  rch_Reflexive :: "addrport list"
  rch_NAT :: string
  rch_PortMap :: "addrport option"
  rch_DiscoKey :: bytes
  rch_Relay :: string
  rch_Routes :: "prefix list"
  rch_Exit :: bool
  rch_ExitDNS :: bool
  rch_Version :: string

record node =
  nd_ID :: string
  nd_EdKey :: bytes
  nd_BoxKey :: bytes
  nd_Name :: string
  nd_reach :: reach
  nd_LastSeen :: int
  nd_CreatedAt :: int

record room =
  rm_ID :: string
  rm_Name :: string
  rm_Subnet :: prefix
  rm_Secret :: bytes
  rm_SignKey :: bytes
  rm_OwnerID :: int
  rm_JoinPolicy :: string
  rm_Broadcast :: string
  rm_DNS :: "addr list"
  rm_ACL :: string
  rm_DHT :: bool
  rm_Version :: int
  rm_CreatedAt :: int

datatype status = StatusPending | StatusActive | StatusBanned

record member =
  mb_RoomID :: string
  mb_NodeID :: string
  mb_Name :: string
  mb_WGKey :: bytes
  mb_IP :: addr
  mb_Tags :: "string list"
  mb_Status :: status
  mb_CreatedAt :: int
  mb_Routes :: "prefix list"
  mb_Exit :: bool
  mb_UseExit :: string

record invite =
  inv_ID :: int
  inv_RoomID :: string
  inv_TokenHash :: bytes
  inv_UsesLeft :: int
  inv_Expires :: int
  inv_AutoApprove :: bool
  inv_Note :: string
  inv_CreatedBy :: int
  inv_CreatedAt :: int

record audit_entry =
  au_Time :: int
  au_Actor :: string
  au_Action :: string
  au_Target :: string
  au_Details :: string

record db =
  db_version :: int
  db_users :: "user list"
  db_sessions :: "panel_session list"
  db_nodes :: "node list"
  db_rooms :: "room list"
  db_members :: "member list"
  db_invites :: "invite list"
  db_settings :: "(string \<times> bytes) list"
  db_audit :: "audit_entry list"

text \<open>What \<^verbatim>\<open>memberCols\<close> selects: a row of \<^verbatim>\<open>members\<close> with the columns of its node.\<close>

record member_view =
  mv :: member
  mv_LastSeen :: int
  mv_reach :: reach

definition empty_db :: db where
  "empty_db = \<lparr>db_version = 1, db_users = [], db_sessions = [], db_nodes = [], db_rooms = [],
     db_members = [], db_invites = [], db_settings = [], db_audit = []\<rparr>"

text \<open>The next \<^verbatim>\<open>INTEGER PRIMARY KEY\<close> of a table.\<close>

definition next_id :: "int list \<Rightarrow> int" where
  "next_id ids = foldr max ids 0 + 1"

section \<open>Meta, users and sessions\<close>

definition BumpVersion :: "db \<Rightarrow> int \<times> db" where
  "BumpVersion d = (db_version d + 1, d\<lparr>db_version := db_version d + 1\<rparr>)"

definition CreateUser :: "int \<Rightarrow> string \<Rightarrow> string \<Rightarrow> bool \<Rightarrow> db \<Rightarrow> store_error + int \<times> db" where
  "CreateUser now login passHash admin d =
     (if login \<in> usr_Login ` set (db_users d) then Inl ErrConstraint
      else let i = next_id (map usr_ID (db_users d))
        in Inr (i, d\<lparr>db_users := db_users d @ [\<lparr>usr_ID = i, usr_Login = login, usr_PassHash = passHash,
             usr_IsAdmin = admin, usr_Created = now, usr_totp_secret = [], usr_totp_step = 0,
             usr_oidc_email = []\<rparr>]\<rparr>))"

definition find_row :: "('a \<Rightarrow> bool) \<Rightarrow> 'a list \<Rightarrow> store_error + 'a" where
  "find_row p xs = (case List.find p xs of None \<Rightarrow> Inl ErrNotFound | Some x \<Rightarrow> Inr x)"

definition UserByLogin :: "string \<Rightarrow> db \<Rightarrow> store_error + user" where
  "UserByLogin login d = find_row (\<lambda>u. usr_Login u = login) (db_users d)"

definition UserByOIDCEmail :: "string \<Rightarrow> db \<Rightarrow> store_error + user" where
  "UserByOIDCEmail email d = (if email = [] then Inl ErrNotFound
     else find_row (\<lambda>u. usr_oidc_email u = email) (db_users d))"

definition UserByID :: "int \<Rightarrow> db \<Rightarrow> store_error + user" where
  "UserByID i d = find_row (\<lambda>u. usr_ID u = i) (db_users d)"

text \<open>Text columns are ordered by their bytes.\<close>

definition text_key :: "string \<Rightarrow> nat list" where
  "text_key s = map of_char s"

definition ListUsers :: "db \<Rightarrow> user list" where
  "ListUsers d = sort_key (\<lambda>u. text_key (usr_Login u)) (db_users d)"

definition CountUsers :: "db \<Rightarrow> nat" where
  "CountUsers d = length (db_users d)"

definition upd_user :: "int \<Rightarrow> (user \<Rightarrow> user) \<Rightarrow> db \<Rightarrow> db" where
  "upd_user i f d = d\<lparr>db_users := map (\<lambda>u. if usr_ID u = i then f u else u) (db_users d)\<rparr>"

definition SetOIDCEmail :: "int \<Rightarrow> string \<Rightarrow> db \<Rightarrow> store_error + db" where
  "SetOIDCEmail i email d =
     (if email \<noteq> [] \<and> (\<exists>u \<in> set (db_users d). usr_ID u \<noteq> i \<and> usr_oidc_email u = email) then Inl ErrConstraint
      else Inr (upd_user i (\<lambda>u. u\<lparr>usr_oidc_email := email\<rparr>) d))"

definition SetPassword :: "int \<Rightarrow> string \<Rightarrow> db \<Rightarrow> db" where
  "SetPassword i h d = upd_user i (\<lambda>u. u\<lparr>usr_PassHash := h\<rparr>) d"

definition TOTP :: "kek \<Rightarrow> int \<Rightarrow> db \<Rightarrow> store_error + bytes option \<times> int" where
  "TOTP K i d = (case UserByID i d of
     Inl e \<Rightarrow> Inl e
   | Inr u \<Rightarrow> if usr_totp_secret u = [] then Inr (None, 0)
       else case tx_open K (usr_totp_secret u) of Inl e \<Rightarrow> Inl e | Inr s \<Rightarrow> Inr (Some s, usr_totp_step u))"

definition SetTOTP :: "kek \<Rightarrow> bytes \<Rightarrow> int \<Rightarrow> bytes option \<Rightarrow> db \<Rightarrow> db" where
  "SetTOTP K nonce i secret d = upd_user i (\<lambda>u. u\<lparr>
     usr_totp_secret := (case secret of None \<Rightarrow> [] | Some s \<Rightarrow> tx_seal K nonce s), usr_totp_step := 0\<rparr>) d"

definition UseTOTPStep :: "int \<Rightarrow> int \<Rightarrow> db \<Rightarrow> bool \<times> db" where
  "UseTOTPStep i step d =
     (length (filter (\<lambda>u. usr_ID u = i \<and> usr_totp_step u < step) (db_users d)) = 1,
      d\<lparr>db_users := map (\<lambda>u. if usr_ID u = i \<and> usr_totp_step u < step then u\<lparr>usr_totp_step := step\<rparr> else u)
          (db_users d)\<rparr>)"

definition DeleteUser :: "int \<Rightarrow> db \<Rightarrow> store_error + db" where
  "DeleteUser i d = (if \<exists>r \<in> set (db_rooms d). rm_OwnerID r = i then Inl ErrConstraint
     else Inr (d\<lparr>db_users := filter (\<lambda>u. usr_ID u \<noteq> i) (db_users d),
                 db_sessions := filter (\<lambda>s. ses_UserID s \<noteq> i) (db_sessions d)\<rparr>))"

definition CreateSession :: "bytes \<Rightarrow> int \<Rightarrow> string \<Rightarrow> int \<Rightarrow> db \<Rightarrow> store_error + db" where
  "CreateSession h uid csrf expires d =
     (if h \<in> ses_TokenHash ` set (db_sessions d) \<or> uid \<notin> usr_ID ` set (db_users d) then Inl ErrConstraint
      else Inr (d\<lparr>db_sessions := db_sessions d @
        [\<lparr>ses_TokenHash = h, ses_UserID = uid, ses_CSRF = csrf, ses_Expires = expires\<rparr>]\<rparr>))"

definition SessionByToken :: "bytes \<Rightarrow> db \<Rightarrow> store_error + panel_session" where
  "SessionByToken h d = find_row (\<lambda>s. ses_TokenHash s = h) (db_sessions d)"

definition DeleteSession :: "int \<Rightarrow> bytes \<Rightarrow> db \<Rightarrow> db" where
  "DeleteSession now h d = d\<lparr>db_sessions := filter (\<lambda>s. \<not> (ses_TokenHash s = h \<or> ses_Expires s < now)) (db_sessions d)\<rparr>"

section \<open>Nodes\<close>

definition NodeByID :: "string \<Rightarrow> db \<Rightarrow> store_error + node" where
  "NodeByID i d = find_row (\<lambda>n. nd_ID n = i) (db_nodes d)"

definition empty_reach :: reach where
  "empty_reach = \<lparr>rch_PublicIP = NoAddr, rch_UDPPort = 0, rch_Locals = [], rch_Reflexive = [], rch_NAT = [],
     rch_PortMap = None, rch_DiscoKey = [], rch_Relay = [], rch_Routes = [], rch_Exit = False,
     rch_ExitDNS = False, rch_Version = []\<rparr>"

text \<open>A new node gets the reachability columns given; on a conflict only the box key, the
  name and the time change.\<close>

definition UpsertNode :: "int \<Rightarrow> node \<Rightarrow> db \<Rightarrow> store_error + db" where
  "UpsertNode now n d =
     (if \<exists>m \<in> set (db_nodes d). nd_ID m \<noteq> nd_ID n \<and> nd_EdKey m = nd_EdKey n \<and> nd_ID n \<notin> nd_ID ` set (db_nodes d)
      then Inl ErrConstraint
      else if nd_ID n \<in> nd_ID ` set (db_nodes d) then
        Inr (d\<lparr>db_nodes := map (\<lambda>m. if nd_ID m = nd_ID n
               then m\<lparr>nd_BoxKey := nd_BoxKey n, nd_Name := nd_Name n, nd_LastSeen := now\<rparr> else m) (db_nodes d)\<rparr>)
      else Inr (d\<lparr>db_nodes := db_nodes d @ [n\<lparr>nd_LastSeen := now, nd_CreatedAt := now\<rparr>]\<rparr>))"

text \<open>What peers care about: everything but the client version.\<close>

definition UpdateNodeEndpoints :: "int \<Rightarrow> string \<Rightarrow> reach \<Rightarrow> db \<Rightarrow> store_error + bool \<times> db" where
  "UpdateNodeEndpoints now i r d = (case NodeByID i d of
     Inl e \<Rightarrow> Inl e
   | Inr n \<Rightarrow> Inr ((nd_reach n)\<lparr>rch_Version := rch_Version r\<rparr> \<noteq> r,
       d\<lparr>db_nodes := map (\<lambda>m. if nd_ID m = i then m\<lparr>nd_reach := r, nd_LastSeen := now\<rparr> else m) (db_nodes d)\<rparr>))"

definition NodeByDiscoKey :: "bytes \<Rightarrow> db \<Rightarrow> store_error + string" where
  "NodeByDiscoKey key d = (case find_row (\<lambda>n. rch_DiscoKey (nd_reach n) = key \<and>
       (\<exists>m \<in> set (db_members d). mb_NodeID m = nd_ID n \<and> mb_Status m = StatusActive)) (db_nodes d) of
     Inl e \<Rightarrow> Inl e | Inr n \<Rightarrow> Inr (nd_ID n))"

definition ShareActiveRoom :: "string \<Rightarrow> string \<Rightarrow> db \<Rightarrow> bool" where
  "ShareActiveRoom a b d = (\<exists>x \<in> set (db_members d). \<exists>y \<in> set (db_members d). mb_RoomID x = mb_RoomID y \<and>
     mb_NodeID x = a \<and> mb_NodeID y = b \<and> mb_Status x = StatusActive \<and> mb_Status y = StatusActive)"

section \<open>Settings\<close>

definition Setting :: "kek \<Rightarrow> string \<Rightarrow> db \<Rightarrow> store_error + bytes" where
  "Setting K k d = (case map_of (db_settings d) k of None \<Rightarrow> Inl ErrNotFound | Some v \<Rightarrow> tx_open K v)"

definition SetSetting :: "kek \<Rightarrow> bytes \<Rightarrow> string \<Rightarrow> bytes \<Rightarrow> db \<Rightarrow> db" where
  "SetSetting K nonce k v d = d\<lparr>db_settings :=
     (k, tx_seal K nonce v) # filter (\<lambda>(k', _). k' \<noteq> k) (db_settings d)\<rparr>"

section \<open>Rooms\<close>

definition tx_CreateRoom :: "kek \<Rightarrow> int \<Rightarrow> bytes \<Rightarrow> bytes \<Rightarrow> room \<Rightarrow> db \<Rightarrow> store_error + db" where
  "tx_CreateRoom K now n1 n2 r d =
     (if rm_ID r \<in> rm_ID ` set (db_rooms d) \<or> rm_OwnerID r \<notin> usr_ID ` set (db_users d) then Inl ErrConstraint
      else Inr (d\<lparr>db_rooms := db_rooms d @ [r\<lparr>rm_Secret := tx_seal K n1 (rm_Secret r),
          rm_SignKey := tx_seal K n2 (rm_SignKey r), rm_Broadcast := ''on'', rm_DNS := [], rm_ACL := [],
          rm_DHT := False, rm_Version := 1, rm_CreatedAt := now\<rparr>]\<rparr>))"

definition openRoom :: "kek \<Rightarrow> room \<Rightarrow> store_error + room" where
  "openRoom K r = (case tx_open K (rm_Secret r) of
     Inl e \<Rightarrow> Inl e
   | Inr s \<Rightarrow> (case tx_open K (rm_SignKey r) of
       Inl e \<Rightarrow> Inl e
     | Inr k \<Rightarrow> Inr (r\<lparr>rm_Secret := s, rm_SignKey := k\<rparr>)))"

definition RoomByID :: "kek \<Rightarrow> string \<Rightarrow> db \<Rightarrow> store_error + room" where
  "RoomByID K i d = (case find_row (\<lambda>r. rm_ID r = i) (db_rooms d) of Inl e \<Rightarrow> Inl e | Inr r \<Rightarrow> openRoom K r)"

fun open_rooms :: "kek \<Rightarrow> room list \<Rightarrow> store_error + room list" where
  "open_rooms K [] = Inr []"
| "open_rooms K (r # rs) = (case openRoom K r of
     Inl e \<Rightarrow> Inl e
   | Inr r' \<Rightarrow> (case open_rooms K rs of Inl e \<Rightarrow> Inl e | Inr rs' \<Rightarrow> Inr (r' # rs')))"

definition ListRooms :: "kek \<Rightarrow> int \<Rightarrow> db \<Rightarrow> store_error + room list" where
  "ListRooms K owner d = open_rooms K (sort_key (\<lambda>r. text_key (rm_Name r))
     (filter (\<lambda>r. owner = 0 \<or> rm_OwnerID r = owner) (db_rooms d)))"

definition AllSubnets :: "db \<Rightarrow> prefix list" where
  "AllSubnets d = map rm_Subnet (db_rooms d)"

definition upd_room :: "string \<Rightarrow> (room \<Rightarrow> room) \<Rightarrow> db \<Rightarrow> db" where
  "upd_room i f d = d\<lparr>db_rooms := map (\<lambda>r. if rm_ID r = i then f r else r) (db_rooms d)\<rparr>"

definition tx_UpdateRoom :: "string \<Rightarrow> string \<Rightarrow> string \<Rightarrow> string \<Rightarrow> db \<Rightarrow> db" where
  "tx_UpdateRoom i name policy broadcast d =
     upd_room i (\<lambda>r. r\<lparr>rm_Name := name, rm_JoinPolicy := policy, rm_Broadcast := broadcast\<rparr>) d"

definition tx_SetRoomDHT :: "string \<Rightarrow> bool \<Rightarrow> db \<Rightarrow> db" where
  "tx_SetRoomDHT i on d = upd_room i (\<lambda>r. r\<lparr>rm_DHT := on\<rparr>) d"

definition tx_SetRoomACL :: "string \<Rightarrow> string \<Rightarrow> db \<Rightarrow> db" where
  "tx_SetRoomACL i rules d = upd_room i (\<lambda>r. r\<lparr>rm_ACL := rules\<rparr>) d"

definition tx_SetRoomDNS :: "string \<Rightarrow> addr list \<Rightarrow> db \<Rightarrow> db" where
  "tx_SetRoomDNS i dns d = upd_room i (\<lambda>r. r\<lparr>rm_DNS := dns\<rparr>) d"

definition BumpRoom :: "string \<Rightarrow> db \<Rightarrow> db" where
  "BumpRoom i d = upd_room i (\<lambda>r. r\<lparr>rm_Version := rm_Version r + 1\<rparr>) d"

definition tx_DeleteRoom :: "string \<Rightarrow> db \<Rightarrow> db" where
  "tx_DeleteRoom i d = d\<lparr>db_rooms := filter (\<lambda>r. rm_ID r \<noteq> i) (db_rooms d),
     db_members := filter (\<lambda>m. mb_RoomID m \<noteq> i) (db_members d),
     db_invites := filter (\<lambda>v. inv_RoomID v \<noteq> i) (db_invites d)\<rparr>"

section \<open>Members\<close>

text \<open>The text of an address, as the column \<^verbatim>\<open>ip\<close> holds it and the queries order by it.\<close>

definition v6_group_text :: "nat \<Rightarrow> string" where
  "v6_group_text n = (let ds = [n div 4096 mod 16, n div 256 mod 16, n div 16 mod 16, n mod 16];
       ks = dropWhile (\<lambda>x. x = 0) ds
     in map (\<lambda>x. ''0123456789abcdef'' ! x) (if ks = [] then [0] else ks))"

definition v6_groups :: "128 word \<Rightarrow> nat list" where
  "v6_groups w = map (\<lambda>k. unat (drop_bit (16 * (7 - k)) w AND 0xffff)) [0..<8]"

definition zero_run :: "nat list \<Rightarrow> nat \<Rightarrow> nat" where
  "zero_run gs i = length (takeWhile (\<lambda>g. g = 0) (drop i gs))"

definition longest_run :: "nat list \<Rightarrow> nat \<times> nat" where
  "longest_run gs = foldl (\<lambda>(b, l) i. if zero_run gs i > l \<and> zero_run gs i \<ge> 2 then (i, zero_run gs i) else (b, l))
     (0, 0) [0..<8]"

definition v6_string :: "128 word \<Rightarrow> string" where
  "v6_string w = (let gs = v6_groups w; (i, l) = longest_run gs
     in if l = 0 then join '':'' (map v6_group_text gs)
        else join '':'' (map v6_group_text (take i gs)) @ ''::'' @ join '':'' (map v6_group_text (drop (i + l) gs)))"

definition addr_text :: "addr \<Rightarrow> string" where
  "addr_text a = (case a of NoAddr \<Rightarrow> [] | V4 w \<Rightarrow> v4_string w
     | V6 w z \<Rightarrow> (if is4in6 a then ''::ffff:'' @ v4_string (ucast w) else v6_string w)
         @ (if z = [] then [] else CHR ''%'' # z))"

definition view_of :: "db \<Rightarrow> member \<Rightarrow> member_view option" where
  "view_of d m = (case List.find (\<lambda>n. nd_ID n = mb_NodeID m) (db_nodes d) of
     None \<Rightarrow> None
   | Some n \<Rightarrow> Some \<lparr>mv = m, mv_LastSeen = nd_LastSeen n, mv_reach = nd_reach n\<rparr>)"

definition AddMember :: "int \<Rightarrow> member \<Rightarrow> db \<Rightarrow> store_error + db" where
  "AddMember now m d =
     (if (\<exists>o' \<in> set (db_members d). mb_RoomID o' = mb_RoomID m \<and> (mb_NodeID o' = mb_NodeID m \<or> mb_IP o' = mb_IP m))
         \<or> mb_RoomID m \<notin> rm_ID ` set (db_rooms d) \<or> mb_NodeID m \<notin> nd_ID ` set (db_nodes d)
      then Inl ErrConstraint
      else Inr (d\<lparr>db_members := db_members d @
        [m\<lparr>mb_CreatedAt := now, mb_Routes := [], mb_Exit := False, mb_UseExit := []\<rparr>]\<rparr>))"

definition Member :: "string \<Rightarrow> string \<Rightarrow> db \<Rightarrow> store_error + member_view" where
  "Member roomID nodeID d = (case find_row (\<lambda>m. mb_RoomID m = roomID \<and> mb_NodeID m = nodeID) (db_members d) of
     Inl e \<Rightarrow> Inl e
   | Inr m \<Rightarrow> (case view_of d m of None \<Rightarrow> Inl ErrNotFound | Some v \<Rightarrow> Inr v))"

definition queryMembers :: "(member \<Rightarrow> bool) \<Rightarrow> db \<Rightarrow> member_view list" where
  "queryMembers p d = sort_key (\<lambda>v. text_key (addr_text (mb_IP (mv v)))) (List.map_filter (view_of d) (filter p (db_members d)))"

definition ListMembers :: "string \<Rightarrow> db \<Rightarrow> member_view list" where
  "ListMembers roomID d = queryMembers (\<lambda>m. mb_RoomID m = roomID) d"

definition Memberships :: "string \<Rightarrow> db \<Rightarrow> member_view list" where
  "Memberships nodeID d = queryMembers (\<lambda>m. mb_NodeID m = nodeID) d"

text \<open>The columns an update sets; room, node, key and creation time stay.\<close>

definition set_columns :: "member \<Rightarrow> member \<Rightarrow> member" where
  "set_columns m o' = o'\<lparr>mb_Name := mb_Name m, mb_IP := mb_IP m, mb_Tags := mb_Tags m, mb_Status := mb_Status m,
     mb_Routes := mb_Routes m, mb_Exit := mb_Exit m, mb_UseExit := mb_UseExit m\<rparr>"

definition same_key :: "member \<Rightarrow> member \<Rightarrow> bool" where
  "same_key m o' = (mb_RoomID o' = mb_RoomID m \<and> mb_NodeID o' = mb_NodeID m)"

definition tx_UpdateMember :: "member \<Rightarrow> db \<Rightarrow> store_error + db" where
  "tx_UpdateMember m d =
     (if (\<exists>o' \<in> set (db_members d). same_key m o') \<and>
         (\<exists>o' \<in> set (db_members d). mb_RoomID o' = mb_RoomID m \<and> mb_NodeID o' \<noteq> mb_NodeID m \<and> mb_IP o' = mb_IP m)
      then Inl ErrConstraint
      else Inr (d\<lparr>db_members := map (\<lambda>o'. if same_key m o' then set_columns m o' else o') (db_members d)\<rparr>))"

definition DeleteMember :: "string \<Rightarrow> string \<Rightarrow> db \<Rightarrow> db" where
  "DeleteMember roomID nodeID d = d\<lparr>db_members :=
     filter (\<lambda>m. \<not> (mb_RoomID m = roomID \<and> mb_NodeID m = nodeID)) (db_members d)\<rparr>"

section \<open>Invites and audit\<close>

definition tx_CreateInvite :: "int \<Rightarrow> invite \<Rightarrow> db \<Rightarrow> store_error + db" where
  "tx_CreateInvite now v d =
     (if inv_TokenHash v \<in> inv_TokenHash ` set (db_invites d) \<or> inv_RoomID v \<notin> rm_ID ` set (db_rooms d)
      then Inl ErrConstraint
      else Inr (d\<lparr>db_invites := db_invites d @
        [v\<lparr>inv_ID := next_id (map inv_ID (db_invites d)), inv_CreatedAt := now\<rparr>]\<rparr>))"

definition live_invite :: "int \<Rightarrow> invite \<Rightarrow> bool" where
  "live_invite now v = (now < inv_Expires v \<and> inv_UsesLeft v \<noteq> 0)"

definition UseInvite :: "int \<Rightarrow> string \<Rightarrow> bytes \<Rightarrow> db \<Rightarrow> store_error + invite \<times> db" where
  "UseInvite now roomID h d =
     (case find_row (\<lambda>v. inv_RoomID v = roomID \<and> inv_TokenHash v = h \<and> live_invite now v) (db_invites d) of
        Inl e \<Rightarrow> Inl e
      | Inr v \<Rightarrow> Inr (v, if 0 < inv_UsesLeft v
          then d\<lparr>db_invites := map (\<lambda>w. if inv_ID w = inv_ID v then w\<lparr>inv_UsesLeft := inv_UsesLeft w - 1\<rparr> else w)
                  (db_invites d)\<rparr>
          else d))"

definition ListInvites :: "int \<Rightarrow> string \<Rightarrow> db \<Rightarrow> invite list" where
  "ListInvites now roomID d = sort_key (\<lambda>v. - inv_CreatedAt v)
     (filter (\<lambda>v. inv_RoomID v = roomID \<and> live_invite now v) (db_invites d))"

definition tx_RevokeInvite :: "string \<Rightarrow> int \<Rightarrow> db \<Rightarrow> db" where
  "tx_RevokeInvite roomID i d = d\<lparr>db_invites := map (\<lambda>v. if inv_RoomID v = roomID \<and> inv_ID v = i
     then v\<lparr>inv_UsesLeft := 0\<rparr> else v) (db_invites d)\<rparr>"

definition Audit :: "int \<Rightarrow> string \<Rightarrow> string \<Rightarrow> string \<Rightarrow> string \<Rightarrow> db \<Rightarrow> db" where
  "Audit now actor action target details d = d\<lparr>db_audit := db_audit d @
     [\<lparr>au_Time = now, au_Actor = actor, au_Action = action, au_Target = target, au_Details = details\<rparr>]\<rparr>"

definition ListAudit :: "int \<Rightarrow> db \<Rightarrow> audit_entry list" where
  "ListAudit limit d = (if limit < 0 then rev (db_audit d) else take (nat limit) (rev (db_audit d)))"

section \<open>The schema's invariant\<close>

text \<open>Keys are unique, a room's owner, a member's room and node and an invite's room exist, and
  no two members of a room have the same address.\<close>

definition members_ok :: "member list \<Rightarrow> bool" where
  "members_ok ms \<longleftrightarrow> distinct (map (\<lambda>m. (mb_RoomID m, mb_NodeID m)) ms) \<and>
     distinct (map (\<lambda>m. (mb_RoomID m, mb_IP m)) ms)"

definition schema_ok :: "db \<Rightarrow> bool" where
  "schema_ok d \<longleftrightarrow>
     distinct (map usr_ID (db_users d)) \<and> distinct (map usr_Login (db_users d)) \<and>
     distinct (map ses_TokenHash (db_sessions d)) \<and> distinct (map nd_ID (db_nodes d)) \<and>
     distinct (map rm_ID (db_rooms d)) \<and> members_ok (db_members d) \<and>
     distinct (map inv_ID (db_invites d)) \<and> distinct (map inv_TokenHash (db_invites d)) \<and>
     set (map ses_UserID (db_sessions d)) \<subseteq> set (map usr_ID (db_users d)) \<and>
     set (map rm_OwnerID (db_rooms d)) \<subseteq> set (map usr_ID (db_users d)) \<and>
     set (map mb_RoomID (db_members d)) \<subseteq> set (map rm_ID (db_rooms d)) \<and>
     set (map mb_NodeID (db_members d)) \<subseteq> set (map nd_ID (db_nodes d)) \<and>
     set (map inv_RoomID (db_invites d)) \<subseteq> set (map rm_ID (db_rooms d))"

lemma schema_ok_empty: "schema_ok empty_db"
  by (simp add: schema_ok_def empty_db_def members_ok_def)

lemma next_id_notin: "next_id is \<notin> set is"
proof -
  have "x \<le> foldr max is 0" if "x \<in> set is" for x
    using that by (induction "is") auto
  then show ?thesis by (fastforce simp: next_id_def)
qed

lemma map_upd_key: "(\<And>x. k (f x) = k x) \<Longrightarrow> map k (map (\<lambda>x. if p x then f x else x) xs) = map k xs"
  by simp

lemma distinct_map_filter': "distinct (map f xs) \<Longrightarrow> distinct (map f (filter p xs))"
  by (induction xs) auto

lemma members_ok_filter: "members_ok ms \<Longrightarrow> members_ok (filter p ms)"
  by (simp add: members_ok_def distinct_map_filter')

text \<open>Updates that keep the keys.\<close>

definition schema_keys :: "db \<Rightarrow> (int list \<times> string list \<times> bytes list \<times> int list \<times> string list) \<times>
    (string list \<times> int list) \<times> (int list \<times> bytes list \<times> string list)" where
  "schema_keys d = ((map usr_ID (db_users d), map usr_Login (db_users d), map ses_TokenHash (db_sessions d),
       map ses_UserID (db_sessions d), map nd_ID (db_nodes d)),
     (map rm_ID (db_rooms d), map rm_OwnerID (db_rooms d)),
     (map inv_ID (db_invites d), map inv_TokenHash (db_invites d), map inv_RoomID (db_invites d)))"

lemma schema_ok_cong: "schema_keys d = schema_keys d' \<Longrightarrow> db_members d = db_members d' \<Longrightarrow> schema_ok d = schema_ok d'"
  unfolding schema_keys_def schema_ok_def prod.inject by metis

lemma schema_ok_upd_room [go_inv]:
  assumes "\<And>r. rm_ID (f r) = rm_ID r" "\<And>r. rm_OwnerID (f r) = rm_OwnerID r"
  shows "schema_ok (upd_room i f d) = schema_ok d"
  by (rule schema_ok_cong) (simp_all add: schema_keys_def upd_room_def map_upd_key assms del: map_map)

lemma schema_ok_upd_user [go_inv]:
  assumes "\<And>r. usr_ID (f r) = usr_ID r" "\<And>r. usr_Login (f r) = usr_Login r"
  shows "schema_ok (upd_user i f d) = schema_ok d"
  by (rule schema_ok_cong) (simp_all add: schema_keys_def upd_user_def map_upd_key assms del: map_map)

lemma schema_ok_nodes [go_inv]:
  assumes "\<And>n. nd_ID (f n) = nd_ID n"
  shows "schema_ok (d\<lparr>db_nodes := map (\<lambda>n. if p n then f n else n) (db_nodes d)\<rparr>) = schema_ok d"
  by (rule schema_ok_cong) (simp_all add: schema_keys_def map_upd_key assms del: map_map)

lemma schema_ok_invites [go_inv]:
  assumes "\<And>v. inv_ID (f v) = inv_ID v" "\<And>v. inv_TokenHash (f v) = inv_TokenHash v" "\<And>v. inv_RoomID (f v) = inv_RoomID v"
  shows "schema_ok (d\<lparr>db_invites := map (\<lambda>v. if p v then f v else v) (db_invites d)\<rparr>) = schema_ok d"
  by (rule schema_ok_cong) (simp_all add: schema_keys_def map_upd_key assms del: map_map)

lemma schema_ok_frame [simp]:
  "schema_ok (d\<lparr>db_version := v\<rparr>) = schema_ok d" "schema_ok (d\<lparr>db_settings := st\<rparr>) = schema_ok d"
  "schema_ok (d\<lparr>db_audit := au\<rparr>) = schema_ok d"
  by (simp_all add: schema_ok_def)

lemma image_filter_iff: "x \<in> f ` {y \<in> A. f y \<noteq> i} \<longleftrightarrow> x \<in> f ` A \<and> x \<noteq> i"
  by auto

text \<open>Every statement keeps the invariant or fails.\<close>

lemma schema_ok_rooms_stmts [go_inv]:
  "schema_ok (tx_UpdateRoom i n p b d) = schema_ok d" "schema_ok (tx_SetRoomDHT i on d) = schema_ok d"
  "schema_ok (tx_SetRoomACL i a d) = schema_ok d" "schema_ok (tx_SetRoomDNS i dns d) = schema_ok d"
  "schema_ok (BumpRoom i d) = schema_ok d"
  by (simp_all add: tx_UpdateRoom_def tx_SetRoomDHT_def tx_SetRoomACL_def tx_SetRoomDNS_def BumpRoom_def
      schema_ok_upd_room)

lemma schema_ok_misc_stmts [go_inv]:
  "schema_ok (SetPassword i h d) = schema_ok d" "schema_ok (SetTOTP K nn i sec d) = schema_ok d"
  "schema_ok (snd (BumpVersion d)) = schema_ok d" "schema_ok (SetSetting K nn k v d) = schema_ok d"
  "schema_ok (Audit now a b c e d) = schema_ok d" "schema_ok (tx_RevokeInvite r i d) = schema_ok d"
  by (simp_all add: SetPassword_def SetTOTP_def BumpVersion_def SetSetting_def Audit_def tx_RevokeInvite_def
      schema_ok_upd_user schema_ok_invites)

lemma schema_ok_UseInvite [go_inv]: "UseInvite now r h d = Inr (v, d') \<Longrightarrow> schema_ok d' = schema_ok d"
  by (auto simp: UseInvite_def schema_ok_invites split: sum.splits if_splits)

lemma schema_ok_CreateUser [go_inv]: "schema_ok d \<Longrightarrow> CreateUser now l h a d = Inr (i, d') \<Longrightarrow> schema_ok d'"
  using next_id_notin [of "map usr_ID (db_users d)"]
  by (auto simp: CreateUser_def schema_ok_def image_subset_iff Let_def split: if_splits)

lemma schema_ok_DeleteUser [go_inv]: "schema_ok d \<Longrightarrow> DeleteUser i d = Inr d' \<Longrightarrow> schema_ok d'"
  by (auto simp: DeleteUser_def image_filter_iff schema_ok_def image_subset_iff distinct_map_filter' split: if_splits)

lemma schema_ok_CreateSession [go_inv]: "schema_ok d \<Longrightarrow> CreateSession h uid c e d = Inr d' \<Longrightarrow> schema_ok d'"
  by (auto simp: CreateSession_def schema_ok_def image_subset_iff split: if_splits)

lemma schema_ok_DeleteSession [go_inv]: "schema_ok d \<Longrightarrow> schema_ok (DeleteSession now h d)"
  by (auto simp: DeleteSession_def schema_ok_def image_subset_iff distinct_map_filter')

lemma schema_ok_UpsertNode [go_inv]: "schema_ok d \<Longrightarrow> UpsertNode now n d = Inr d' \<Longrightarrow> schema_ok d'"
  by (auto simp: UpsertNode_def schema_ok_nodes split: if_splits) (auto simp: schema_ok_def image_subset_iff)

lemma schema_ok_UpdateNodeEndpoints [go_inv]: "UpdateNodeEndpoints now i r d = Inr (c, d') \<Longrightarrow> schema_ok d' = schema_ok d"
  by (auto simp: UpdateNodeEndpoints_def schema_ok_nodes split: sum.splits)

lemma schema_ok_CreateRoom [go_inv]: "schema_ok d \<Longrightarrow> tx_CreateRoom K now n1 n2 r d = Inr d' \<Longrightarrow> schema_ok d'"
  by (auto simp: tx_CreateRoom_def schema_ok_def image_subset_iff split: if_splits)

lemma schema_ok_DeleteRoom [go_inv]: "schema_ok d \<Longrightarrow> schema_ok (tx_DeleteRoom i d)"
  by (auto simp: tx_DeleteRoom_def image_filter_iff schema_ok_def image_subset_iff distinct_map_filter' members_ok_filter)

lemma schema_ok_AddMember [go_inv]: "schema_ok d \<Longrightarrow> AddMember now m d = Inr d' \<Longrightarrow> schema_ok d'"
  by (auto simp: AddMember_def schema_ok_def image_subset_iff members_ok_def split: if_splits) blast+

lemma schema_ok_DeleteMember [go_inv]: "schema_ok d \<Longrightarrow> schema_ok (DeleteMember r n d)"
  by (auto simp: DeleteMember_def schema_ok_def image_subset_iff members_ok_filter)

lemma schema_ok_CreateInvite [go_inv]: "schema_ok d \<Longrightarrow> tx_CreateInvite now v d = Inr d' \<Longrightarrow> schema_ok d'"
  using next_id_notin [of "map inv_ID (db_invites d)"]
  by (auto simp: tx_CreateInvite_def schema_ok_def image_subset_iff split: if_splits)

lemma members_ok_update:
  assumes ok: "members_ok ms"
    and free: "\<not> (\<exists>o' \<in> set ms. mb_RoomID o' = mb_RoomID m \<and> mb_NodeID o' \<noteq> mb_NodeID m \<and> mb_IP o' = mb_IP m)"
  shows "members_ok (map (\<lambda>o'. if same_key m o' then set_columns m o' else o') ms)"
proof -
  let ?f = "\<lambda>o'. if same_key m o' then set_columns m o' else o'"
  have keys: "map (\<lambda>m. (mb_RoomID m, mb_NodeID m)) (map ?f ms) = map (\<lambda>m. (mb_RoomID m, mb_NodeID m)) ms"
    by (rule map_upd_key) (simp add: set_columns_def)
  have d: "distinct ms" and ik: "inj_on (\<lambda>m. (mb_RoomID m, mb_NodeID m)) (set ms)"
    and ii: "inj_on (\<lambda>m. (mb_RoomID m, mb_IP m)) (set ms)"
    using ok by (simp_all add: members_ok_def distinct_map)
  have f: "mb_RoomID (?f x) = mb_RoomID x" "mb_IP (?f x) = (if same_key m x then mb_IP m else mb_IP x)" for x
    by (simp_all add: set_columns_def)
  have "inj_on (\<lambda>x. (mb_RoomID (?f x), mb_IP (?f x))) (set ms)"
  proof (rule inj_onI)
    fix x y assume xy: "x \<in> set ms" "y \<in> set ms"
      and eq: "(mb_RoomID (?f x), mb_IP (?f x)) = (mb_RoomID (?f y), mb_IP (?f y))"
    have no: "same_key m z" if "z \<in> set ms" "mb_RoomID z = mb_RoomID m" "mb_IP z = mb_IP m" for z
      using free that by (auto simp: same_key_def)
    have "same_key m x = same_key m y"
      using no [OF xy(1)] no [OF xy(2)] eq unfolding f by (auto simp: same_key_def split: if_splits)
    then show "x = y"
      using eq xy ik ii unfolding f by (auto simp: same_key_def inj_on_def split: if_splits)
  qed
  then show ?thesis
    unfolding members_ok_def keys using ok d by (simp add: members_ok_def distinct_map o_def comp_inj_on_iff inj_on_def)
qed

lemma schema_ok_UpdateMember [go_inv]:
  assumes "schema_ok d" "tx_UpdateMember m d = Inr d'"
  shows "schema_ok d'"
proof -
  let ?ms = "map (\<lambda>o'. if same_key m o' then set_columns m o' else o') (db_members d)"
  have d': "d' = d\<lparr>db_members := ?ms\<rparr>"
    using assms(2) by (auto simp: tx_UpdateMember_def split: if_splits)
  have keys: "map mb_RoomID ?ms = map mb_RoomID (db_members d)" "map mb_NodeID ?ms = map mb_NodeID (db_members d)"
    by (rule map_upd_key; simp add: set_columns_def)+
  have "members_ok ?ms"
  proof (cases "\<exists>o' \<in> set (db_members d). same_key m o'")
    case True
    then show ?thesis
      using assms by (intro members_ok_update) (auto simp: schema_ok_def tx_UpdateMember_def split: if_splits)
  next
    case False
    then have "?ms = db_members d" by (intro map_idI) auto
    then show ?thesis using assms(1) by (simp only: schema_ok_def)
  qed
  then show ?thesis
    using assms(1) keys unfolding d' schema_ok_def by (simp del: map_map set_map)
qed

lemma find_row_Inr: "find_row p xs = Inr x \<Longrightarrow> x \<in> set xs \<and> p x"
  by (auto simp: find_row_def dest!: find_SomeD split: option.splits)

lemma find_row_Inl: "find_row p xs = Inl e \<longleftrightarrow> e = ErrNotFound \<and> (\<forall>x \<in> set xs. \<not> p x)"
  by (auto simp: find_row_def find_None_iff dest: find_SomeD split: option.splits)

lemma find_row_unique:
  "distinct (map k xs) \<Longrightarrow> x \<in> set xs \<Longrightarrow> find_row (\<lambda>y. k y = k x) xs = Inr x"
proof -
  assume d: "distinct (map k xs)" and x: "x \<in> set xs"
  show "find_row (\<lambda>y. k y = k x) xs = Inr x"
  proof (cases "find_row (\<lambda>y. k y = k x) xs")
    case (Inl e)
    then show ?thesis using x by (auto simp: find_row_Inl)
  next
    case (Inr y)
    then show ?thesis using find_row_Inr [OF Inr] d x by (auto simp: distinct_map inj_on_def)
  qed
qed

section \<open>Sealing a database\<close>

text \<open>\<^verbatim>\<open>sealAll\<close>: plaintext secrets get sealed, and sealed ones are checked to open. \<open>nf\<close> gives
  the random nonce for a row and a column.\<close>

definition seal_col :: "kek \<Rightarrow> bytes \<Rightarrow> bytes \<Rightarrow> store_error + bytes" where
  "seal_col K nonce v =
     (if isSealed v then (case tx_open K v of Inl e \<Rightarrow> Inl e | Inr _ \<Rightarrow> Inr v)
      else Inr (tx_seal K nonce v))"

fun seal_rooms :: "kek \<Rightarrow> (string \<Rightarrow> string \<Rightarrow> bytes) \<Rightarrow> room list \<Rightarrow> store_error + room list" where
  "seal_rooms K nf [] = Inr []"
| "seal_rooms K nf (r # rs) =
     (case seal_col K (nf (rm_ID r) ''secret'') (rm_Secret r) of
        Inl e \<Rightarrow> Inl e
      | Inr s \<Rightarrow> (case seal_col K (nf (rm_ID r) ''sign_key'') (rm_SignKey r) of
          Inl e \<Rightarrow> Inl e
        | Inr k \<Rightarrow> (case seal_rooms K nf rs of
            Inl e \<Rightarrow> Inl e
          | Inr rs' \<Rightarrow> Inr (r\<lparr>rm_Secret := s, rm_SignKey := k\<rparr> # rs'))))"

fun seal_settings :: "kek \<Rightarrow> (string \<Rightarrow> string \<Rightarrow> bytes) \<Rightarrow> (string \<times> bytes) list \<Rightarrow>
    store_error + (string \<times> bytes) list" where
  "seal_settings K nf [] = Inr []"
| "seal_settings K nf ((k, v) # kvs) =
     (case seal_col K (nf k ''value'') v of
        Inl e \<Rightarrow> Inl e
      | Inr w \<Rightarrow> (case seal_settings K nf kvs of Inl e \<Rightarrow> Inl e | Inr r \<Rightarrow> Inr ((k, w) # r)))"

definition sealAll :: "kek \<Rightarrow> (string \<Rightarrow> string \<Rightarrow> bytes) \<Rightarrow> db \<Rightarrow> store_error + db" where
  "sealAll K nf d =
     (case seal_rooms K nf (db_rooms d) of
        Inl e \<Rightarrow> Inl e
      | Inr rs \<Rightarrow> (case seal_settings K nf (db_settings d) of
          Inl e \<Rightarrow> Inl e
        | Inr st \<Rightarrow> Inr (d\<lparr>db_rooms := rs, db_settings := st\<rparr>)))"

definition Sealed :: "db \<Rightarrow> bool" where
  "Sealed d = (\<exists>r \<in> set (db_rooms d). take 8 (rm_SignKey r) = sealedPrefix)"

text \<open>\<^verbatim>\<open>OpenOptions\<close>, after the schema is in place.\<close>

definition open_db :: "kek \<Rightarrow> (string \<Rightarrow> string \<Rightarrow> bytes) \<Rightarrow> db \<Rightarrow> store_error + db" where
  "open_db K nf d = (if K \<noteq> None then sealAll K nf d else if Sealed d then Inl ErrNeedKEK else Inr d)"

definition aead_ok :: "aead \<Rightarrow> bool" where
  "aead_ok a \<longleftrightarrow> (\<forall>n v. length n = aead_nonceSize a \<longrightarrow> aead_open a n (aead_seal a n v) = Some v)"

lemma sealedPrefix_len: "length sealedPrefix = 8"
  by (simp add: sealedPrefix_def)

lemma isSealed_tx_seal: "isSealed (tx_seal (Some a) n v)"
  by (simp add: isSealed_def tx_seal_def)

lemma tx_open_seal:
  assumes "aead_ok a" "length n = aead_nonceSize a"
  shows "tx_open (Some a) (tx_seal (Some a) n v) = Inr v"
  using assms by (simp add: tx_open_def isSealed_def tx_seal_def aead_ok_def)

lemma seal_col_ok:
  assumes "aead_ok a" "length n = aead_nonceSize a" "seal_col (Some a) n v = Inr w"
  shows "isSealed w \<and> tx_open (Some a) w = tx_open (Some a) v"
proof (cases "isSealed v")
  case True
  then show ?thesis using assms(3) by (auto simp: seal_col_def split: sum.splits)
next
  case False
  then have "w = tx_seal (Some a) n v" "tx_open (Some a) v = Inr v"
    using assms(3) by (simp_all add: seal_col_def tx_open_def)
  then show ?thesis using isSealed_tx_seal tx_open_seal [OF assms(1,2)] by simp
qed

text \<open>What a database tells: the rooms and settings as the controller reads them.\<close>

definition opened :: "kek \<Rightarrow> db \<Rightarrow> (store_error + room) list \<times> (string \<times> (store_error + bytes)) list" where
  "opened K d = (map (openRoom K) (db_rooms d), map (\<lambda>(k, v). (k, tx_open K v)) (db_settings d))"

lemma seal_rooms_ok:
  assumes "aead_ok a" "\<And>i c. length (nf i c) = aead_nonceSize a"
  shows "seal_rooms (Some a) nf rs = Inr rs' \<Longrightarrow>
    list_all (\<lambda>r. isSealed (rm_Secret r) \<and> isSealed (rm_SignKey r)) rs' \<and>
    map (openRoom (Some a)) rs' = map (openRoom (Some a)) rs"
proof (induction rs arbitrary: rs')
  case (Cons r rs)
  from Cons.prems obtain s k rs0 where
    s: "seal_col (Some a) (nf (rm_ID r) ''secret'') (rm_Secret r) = Inr s" and
    k: "seal_col (Some a) (nf (rm_ID r) ''sign_key'') (rm_SignKey r) = Inr k" and
    rs0: "seal_rooms (Some a) nf rs = Inr rs0" and rs': "rs' = r\<lparr>rm_Secret := s, rm_SignKey := k\<rparr> # rs0"
    by (auto split: sum.splits)
  have "openRoom (Some a) (r\<lparr>rm_Secret := s, rm_SignKey := k\<rparr>) = openRoom (Some a) r"
    using seal_col_ok [OF assms(1) assms(2) s] seal_col_ok [OF assms(1) assms(2) k]
    by (cases r) (auto simp: openRoom_def split: sum.splits)
  with Cons.IH [OF rs0] rs' seal_col_ok [OF assms(1) assms(2) s] seal_col_ok [OF assms(1) assms(2) k]
  show ?case by simp
qed simp

lemma seal_settings_ok:
  assumes "aead_ok a" "\<And>i c. length (nf i c) = aead_nonceSize a"
  shows "seal_settings (Some a) nf kvs = Inr kvs' \<Longrightarrow>
    list_all (\<lambda>(k, v). isSealed v) kvs' \<and>
    map (\<lambda>(k, v). (k, tx_open (Some a) v)) kvs' = map (\<lambda>(k, v). (k, tx_open (Some a) v)) kvs"
proof (induction kvs arbitrary: kvs')
  case (Cons kv kvs)
  obtain k v where kv: "kv = (k, v)" by (cases kv)
  with Cons.prems obtain w r where w: "seal_col (Some a) (nf k ''value'') v = Inr w" and
    r: "seal_settings (Some a) nf kvs = Inr r" and kvs': "kvs' = (k, w) # r"
    by (auto split: sum.splits)
  with Cons.IH [OF r] seal_col_ok [OF assms(1) assms(2) w] kv show ?case by simp
qed simp

text \<open>Opening a database with a key-encryption key seals every room secret, every signing key
  and every setting, and the controller reads the same rooms and settings from it as before;
  from then on it does not open without a key if it has a room.\<close>

theorem open_db_seals:
  assumes "aead_ok a" "\<forall>i c. length (nf i c) = aead_nonceSize a" "open_db (Some a) nf d = Inr d'"
  shows "list_all (\<lambda>r. isSealed (rm_Secret r) \<and> isSealed (rm_SignKey r)) (db_rooms d') \<and>
    list_all (\<lambda>(k, v). isSealed v) (db_settings d') \<and>
    opened (Some a) d' = opened (Some a) d \<and>
    (db_rooms d \<noteq> [] \<longrightarrow> open_db None nf d' = Inl ErrNeedKEK)"
proof -
  obtain rs st where rs: "seal_rooms (Some a) nf (db_rooms d) = Inr rs" and
    st: "seal_settings (Some a) nf (db_settings d) = Inr st" and
    d': "d' = d\<lparr>db_rooms := rs, db_settings := st\<rparr>"
    using assms(3) by (auto simp: open_db_def sealAll_def split: sum.splits)
  have n: "\<And>i c. length (nf i c) = aead_nonceSize a" using assms(2) by blast
  note r = seal_rooms_ok [OF assms(1) n rs] and s = seal_settings_ok [OF assms(1) n st]
  have "open_db None nf d' = Inl ErrNeedKEK" if "db_rooms d \<noteq> []"
  proof -
    have "rs \<noteq> []" using that r by auto
    then have "\<exists>x \<in> set rs. isSealed (rm_SignKey x)" using r by (cases rs) auto
    then show ?thesis by (simp add: open_db_def d' Sealed_def isSealed_def sealedPrefix_len)
  qed
  with r s show ?thesis by (simp add: d' opened_def)
qed

text \<open>The one-time-password secrets of the users are not among the columns that are sealed when a
  key is introduced: a secret that was stored before stays as it was.\<close>

lemma sealAll_keeps_totp: "sealAll K nf d = Inr d' \<Longrightarrow> db_users d' = db_users d"
  by (auto simp: sealAll_def split: sum.splits)

definition sample_aead :: aead where
  "sample_aead = \<lparr>aead_nonceSize = 2, aead_seal = (\<lambda>n v. rev v @ [1]), aead_open = (\<lambda>n c. if c = [] then None else Some (rev (butlast c)))\<rparr>"

definition sample_room :: room where
  "sample_room = \<lparr>rm_ID = ''r1'', rm_Name = ''home'', rm_Subnet = \<lparr>pfx_addr = V4 0x0A640100, pfx_bits = 24\<rparr>,
     rm_Secret = replicate 32 1, rm_SignKey = replicate 64 2, rm_OwnerID = 1, rm_JoinPolicy = ''manual'',
     rm_Broadcast = ''on'', rm_DNS = [], rm_ACL = [], rm_DHT = False, rm_Version = 1, rm_CreatedAt = 0\<rparr>"

theorem open_db_seals_witness:
  "\<exists>d'. open_db (Some sample_aead) (\<lambda>i c. [1, 2]) (empty_db\<lparr>db_rooms := [sample_room]\<rparr>) = Inr d' \<and>
     opened (Some sample_aead) d' = opened (Some sample_aead) (empty_db\<lparr>db_rooms := [sample_room]\<rparr>) \<and>
     open_db None (\<lambda>i c. [1, 2]) d' = Inl ErrNeedKEK"
proof -
  have a: "aead_ok sample_aead" by (simp add: aead_ok_def sample_aead_def)
  have n: "\<forall>i c. length ((\<lambda>(i::string) (c::string). [1, 2 :: byte]) i c) = aead_nonceSize sample_aead"
    by (simp add: sample_aead_def)
  have ns: "\<not> isSealed (replicate 32 1)" "\<not> isSealed (replicate 64 2)"
    by code_simp+
  obtain d' where d': "open_db (Some sample_aead) (\<lambda>i c. [1, 2]) (empty_db\<lparr>db_rooms := [sample_room]\<rparr>) = Inr d'"
    using ns by (simp add: open_db_def sealAll_def empty_db_def sample_room_def seal_col_def)
  from open_db_seals [OF a n d'] d' show ?thesis by simp
qed

end
