(* ===== verification/Pki.thy ===== *)
theory Pki
  imports Acl Identity Disco
begin

text \<open>
  \<^verbatim>\<open>internal/pki\<close>: signed room configurations and signed node requests. JSON encoding and
  Ed25519 are the fields of a record \<open>signer\<close>; \<open>signer_ok\<close> states that a signature verifies
  with the matching public key, \<open>json_ok\<close> that decoding a configuration undoes encoding it. \<open>VerifyRoomConfig\<close> is the whole
  check a node makes before it uses a configuration.
\<close>

section \<open>Room configurations\<close>

record room_member =
  rmem_NodeID :: string
  rmem_Name :: string
  rmem_WGKey :: bytes
  rmem_IP :: addr
  rmem_Tags :: "string list"
  rmem_Routes :: "prefix list"
  rmem_Exit :: bool
  rmem_ExitDNS :: bool
  rmem_Admin :: bool

record room_config =
  cfg_RoomID :: string
  cfg_Name :: string
  cfg_Subnet :: prefix
  cfg_Secret :: bytes
  cfg_Version :: int
  cfg_IssuedAt :: time
  cfg_Members :: "room_member list"
  cfg_Broadcast :: string
  cfg_DNS :: "addr list"
  cfg_ACL :: "acl_rule list"
  cfg_DHT :: bool

record signed =
  sg_Payload :: bytes
  sg_Sig :: bytes

record signer =
  ed_pub :: "bytes \<Rightarrow> bytes"
  ed_sign :: "bytes \<Rightarrow> bytes \<Rightarrow> bytes"
  ed_verify :: "bytes \<Rightarrow> bytes \<Rightarrow> bytes \<Rightarrow> bool"
  cfg_marshal :: "room_config \<Rightarrow> bytes"
  cfg_unmarshal :: "bytes \<Rightarrow> room_config option"
  sg_hkdf :: "bytes \<Rightarrow> string \<Rightarrow> nat \<Rightarrow> bytes"
  sg_sha256 :: "bytes \<Rightarrow> bytes"

definition signer_ok :: "signer \<Rightarrow> bool" where
  "signer_ok S \<longleftrightarrow> (\<forall>k m. ed_verify S (ed_pub S k) m (ed_sign S k m)) \<and> (\<forall>k. length (ed_pub S k) = 32)"

definition json_ok :: "signer \<Rightarrow> room_config \<Rightarrow> bool" where
  "json_ok S c \<longleftrightarrow> cfg_unmarshal S (cfg_marshal S c) = Some c"

datatype pki_error = BadRoomKey | BadSignature | BadPayloadJSON | SecretMismatch | NoSubnet | BadMember
  | TooManyDNS | BadDNS | BadNodeKey | NoTimestamp | ClockSkew | BadRequestSig | CannotDecrypt

definition roomConfigDomain :: string where
  "roomConfigDomain = ''zeropentime/room-config/v1'' @ [CHR 0x0A]"

definition MaxDNS :: nat where "MaxDNS = 3"

definition ValidDNS :: "addr \<Rightarrow> bool" where
  "ValidDNS a = (a \<noteq> NoAddr \<and> \<not> has_zone a \<and> \<not> is_unspecified a \<and> \<not> is_multicast a \<and> \<not> is_link_local_multicast a)"

definition ValidRoute :: "prefix \<Rightarrow> bool" where
  "ValidRoute p = (let a = pfx_addr p in pfx_valid p \<and> is4 a \<and> p = masked p \<and> 8 \<le> pfx_bits p \<and>
     \<not> is_loopback a \<and> \<not> is_link_local_unicast a \<and> \<not> is_multicast a \<and> \<not> is_unspecified a)"

definition SignRoomConfig :: "signer \<Rightarrow> bytes \<Rightarrow> room_config \<Rightarrow> signed" where
  "SignRoomConfig S priv c = (let payload = cfg_marshal S c
     in \<lparr>sg_Payload = payload, sg_Sig = ed_sign S priv (bytes_of roomConfigDomain @ payload)\<rparr>)"

fun members_valid :: "prefix \<Rightarrow> addr list \<Rightarrow> room_member list \<Rightarrow> bool" where
  "members_valid subnet seen [] = True"
| "members_valid subnet seen (m # ms) =
     (contains subnet (rmem_IP m) \<and> rmem_IP m \<notin> set seen \<and>
      list_all (\<lambda>r. ValidRoute r \<and> \<not> overlaps r subnet) (rmem_Routes m) \<and>
      members_valid subnet (rmem_IP m # seen) ms)"

definition check_config :: "signer \<Rightarrow> room_config \<Rightarrow> pki_error option" where
  "check_config S c =
     (if RoomID (sg_hkdf S) (cfg_Secret c) \<noteq> cfg_RoomID c then Some SecretMismatch
      else if \<not> pfx_valid (cfg_Subnet c) then Some NoSubnet
      else if \<not> members_valid (cfg_Subnet c) [] (cfg_Members c) then Some BadMember
      else if MaxDNS < length (cfg_DNS c) then Some TooManyDNS
      else if \<not> list_all ValidDNS (cfg_DNS c) then Some BadDNS
      else None)"

definition VerifyRoomConfig :: "signer \<Rightarrow> bytes \<Rightarrow> signed \<Rightarrow> pki_error + room_config" where
  "VerifyRoomConfig S pub s =
     (if length pub \<noteq> 32 then Inl BadRoomKey
      else if \<not> ed_verify S pub (bytes_of roomConfigDomain @ sg_Payload s) (sg_Sig s) then Inl BadSignature
      else case cfg_unmarshal S (sg_Payload s) of
        None \<Rightarrow> Inl BadPayloadJSON
      | Some c \<Rightarrow> (case check_config S c of Some e \<Rightarrow> Inl e | None \<Rightarrow> Inr c))"

definition RoomKeyString :: "bytes \<Rightarrow> string" where
  "RoomKeyString pub = b64url_encode pub"

definition ParseRoomKey :: "string \<Rightarrow> pki_error + bytes" where
  "ParseRoomKey s = (case b64url_decode s of
     None \<Rightarrow> Inl BadRoomKey
   | Some b \<Rightarrow> if length b \<noteq> 32 then Inl BadRoomKey else Inr b)"

section \<open>Node requests\<close>

definition unix_epoch :: int where "unix_epoch = 62135596800"

definition unix :: "time \<Rightarrow> int" where "unix t = t div second - unix_epoch"

definition from_unix :: "int \<Rightarrow> time" where "from_unix n = (n + unix_epoch) * second"

definition RequestSkew :: duration where "RequestSkew = 5 * minute"

definition requestDomain :: string where
  "requestDomain = ''zeropentime/node-request/v1'' @ [CHR 0x0A]"

definition requestMessage :: "signer \<Rightarrow> string \<Rightarrow> string \<Rightarrow> int \<Rightarrow> bytes \<Rightarrow> bytes" where
  "requestMessage S method path ts body =
     bytes_of (requestDomain @ method @ [CHR 0x0A] @ path @ [CHR 0x0A] @ dec_int ts @ [CHR 0x0A])
     @ sg_sha256 S body"

text \<open>The three headers of a request: node, time, signature.\<close>

record request_headers =
  HeaderNode :: string
  HeaderTime :: string
  HeaderSig :: string

definition RequestHeaders :: "signer \<Rightarrow> bytes \<Rightarrow> string \<Rightarrow> string \<Rightarrow> bytes \<Rightarrow> time \<Rightarrow> request_headers" where
  "RequestHeaders S k method path body now =
     (let ts = unix now in \<lparr>HeaderNode = b64_encode (ed_pub S k), HeaderTime = dec_int ts,
        HeaderSig = b64_encode (ed_sign S k (requestMessage S method path ts body))\<rparr>)"

definition VerifyRequest :: "signer \<Rightarrow> request_headers \<Rightarrow> string \<Rightarrow> string \<Rightarrow> bytes \<Rightarrow> time \<Rightarrow> pki_error + bytes" where
  "VerifyRequest S h method path body now =
     (case b64_decode (HeaderNode h) of
        None \<Rightarrow> Inl BadNodeKey
      | Some pub \<Rightarrow>
          if length pub \<noteq> 32 then Inl BadNodeKey
          else case atoi (HeaderTime h) of
            None \<Rightarrow> Inl NoTimestamp
          | Some ts \<Rightarrow>
              let d = time_sub now (from_unix ts)
              in if RequestSkew < d \<or> d < - RequestSkew then Inl ClockSkew
                 else case b64_decode (HeaderSig h) of
                   None \<Rightarrow> Inl BadRequestSig
                 | Some sig \<Rightarrow>
                     if \<not> ed_verify S pub (requestMessage S method path ts body) sig then Inl BadRequestSig
                     else Inr pub)"

definition pki_Seal :: "nacl \<Rightarrow> bytes \<Rightarrow> bytes \<Rightarrow> bytes \<Rightarrow> bytes" where
  "pki_Seal N msg to rnd = anon_seal N msg to rnd"

definition pki_Open :: "nacl \<Rightarrow> bytes \<Rightarrow> bytes \<Rightarrow> bytes \<Rightarrow> pki_error + bytes" where
  "pki_Open N sealed priv pub = (case anon_open N sealed pub priv of None \<Rightarrow> Inl CannotDecrypt | Some m \<Rightarrow> Inr m)"

section \<open>Properties\<close>

lemma ParseRoomKey_String: "length pub = 32 \<Longrightarrow> ParseRoomKey (RoomKeyString pub) = Inr pub"
  by (simp add: ParseRoomKey_def RoomKeyString_def b64url_decode_encode)

text \<open>What a checked configuration satisfies.\<close>

definition config_ok :: "signer \<Rightarrow> room_config \<Rightarrow> bool" where
  "config_ok S c \<longleftrightarrow> RoomID (sg_hkdf S) (cfg_Secret c) = cfg_RoomID c \<and> pfx_valid (cfg_Subnet c) \<and>
     distinct (map rmem_IP (cfg_Members c)) \<and>
     (\<forall>m \<in> set (cfg_Members c). contains (cfg_Subnet c) (rmem_IP m) \<and>
        (\<forall>r \<in> set (rmem_Routes m). ValidRoute r \<and> \<not> overlaps r (cfg_Subnet c))) \<and>
     length (cfg_DNS c) \<le> MaxDNS \<and> (\<forall>a \<in> set (cfg_DNS c). ValidDNS a)"

lemma members_valid_iff:
  "members_valid p seen ms \<longleftrightarrow> distinct (map rmem_IP ms) \<and> set (map rmem_IP ms) \<inter> set seen = {} \<and>
     (\<forall>m \<in> set ms. contains p (rmem_IP m) \<and> (\<forall>r \<in> set (rmem_Routes m). ValidRoute r \<and> \<not> overlaps r p))"
  by (induction ms arbitrary: seen) (auto simp: list_all_iff)

lemma check_config_None: "check_config S c = None \<longleftrightarrow> config_ok S c"
  by (auto simp: check_config_def config_ok_def members_valid_iff list_all_iff not_less)

text \<open>C24: A node uses a room configuration only if it is signed with the room's key and
  consistent (secret and identifier match, addresses are distinct and in the subnet, routes are
  valid and outside the subnet, at most three valid DNS servers); and it accepts every
  consistent configuration that was signed with the key it pinned.\<close>

theorem VerifyRoomConfig_exact:
  assumes "signer_ok S" "json_ok S c"
  shows "VerifyRoomConfig S (ed_pub S k) (SignRoomConfig S k c) =
      (case check_config S c of Some e \<Rightarrow> Inl e | None \<Rightarrow> Inr c) \<and>
    (check_config S c = None \<longleftrightarrow> config_ok S c) \<and>
    (VerifyRoomConfig S pub s = Inr c \<longrightarrow> config_ok S c \<and> cfg_unmarshal S (sg_Payload s) = Some c \<and>
       ed_verify S pub (bytes_of roomConfigDomain @ sg_Payload s) (sg_Sig s))"
  using assms
  by (auto simp: VerifyRoomConfig_def SignRoomConfig_def signer_ok_def json_ok_def Let_def check_config_None
      split: if_splits option.splits)

lemma dec_int_parse:
  assumes "- (2 ^ 63) \<le> n" "n < 2 ^ 63"
  shows "atoi (dec_int n) = Some n"
proof (cases "n < 0")
  case True
  then show ?thesis
    using assms dec_digits [of "nat (- n)"] by (simp add: atoi_def dec_int_def Let_def)
next
  case False
  obtain c r where cr: "dec (nat n) = c # r" by (cases "dec (nat n)") auto
  have d: "list_all is_digit (c # r)" using dec_digits [of "nat n"] cr by simp
  then have "c \<noteq> CHR ''-''" "c \<noteq> CHR ''+''" by (auto simp: is_digit_def)
  moreover have "dec_val (c # r) = nat n" using dec_val_dec [of "nat n"] cr by simp
  ultimately show ?thesis
    using assms False d cr by (simp add: atoi_def dec_int_def Let_def)
qed


definition sample_config :: room_config where
  "sample_config = \<lparr>cfg_RoomID = ''0102'', cfg_Name = ''home'', cfg_Subnet = \<lparr>pfx_addr = V4 0x0A640100, pfx_bits = 24\<rparr>,
     cfg_Secret = [7], cfg_Version = 1, cfg_IssuedAt = 0,
     cfg_Members = [\<lparr>rmem_NodeID = ''a'', rmem_Name = ''a'', rmem_WGKey = [], rmem_IP = V4 0x0A640101, rmem_Tags = [],
       rmem_Routes = [\<lparr>pfx_addr = V4 0xC0A80A00, pfx_bits = 24\<rparr>], rmem_Exit = False, rmem_ExitDNS = False, rmem_Admin = False\<rparr>],
     cfg_Broadcast = ''on'', cfg_DNS = [V4 0x0A640101], cfg_ACL = [], cfg_DHT = False\<rparr>"

definition sample_signer :: signer where
  "sample_signer = \<lparr>ed_pub = (\<lambda>k. take 32 (k @ replicate 32 0)), ed_sign = (\<lambda>k m. take 32 (k @ replicate 32 0) @ m),
     ed_verify = (\<lambda>p m s. s = p @ m), cfg_marshal = (\<lambda>c. [1]), cfg_unmarshal = (\<lambda>b. if b = [1] then Some sample_config else None),
     sg_hkdf = (\<lambda>s l n. [1, 2]), sg_sha256 = (\<lambda>b. b)\<rparr>"

lemma sample_signer_ok: "signer_ok sample_signer" "json_ok sample_signer sample_config"
  by (simp_all add: signer_ok_def json_ok_def sample_signer_def min_def)

theorem VerifyRoomConfig_exact_witness:
  "VerifyRoomConfig sample_signer (ed_pub sample_signer [5]) (SignRoomConfig sample_signer [5] sample_config) = Inr sample_config"
proof -
  have "check_config sample_signer sample_config = None" by code_simp
  then show ?thesis using VerifyRoomConfig_exact [OF sample_signer_ok, of "[5]"] by simp
qed


end
