(* ===== verification/Subnets.thy ===== *)
theory Subnets
  imports Netip
begin

text \<open>
  The address management of \<^verbatim>\<open>internal/controller/service.go\<close>: which addresses of a room are host
  addresses (\<open>usableHost\<close>), the first free one (\<open>allocateIP\<close>), and a free subnet for a new room
  (\<open>pickSubnet\<close>, with the random numbers it draws as a list). \<open>alloc_loop\<close> is the \<^verbatim>\<open>for\<close> loop of
  \<open>allocateIP\<close>; it ends because the address grows until the last one.
\<close>

definition subnetPool :: prefix where
  "subnetPool = \<lparr>pfx_addr = V4 0x0A800000, pfx_bits = 9\<rparr>"

definition usableHost :: "prefix \<Rightarrow> addr \<Rightarrow> bool" where
  "usableHost p a = (if \<not> contains p a \<or> a = pfx_addr (masked p) then False else Some a \<noteq> last_addr p)"

function alloc_loop :: "prefix \<Rightarrow> addr list \<Rightarrow> addr \<Rightarrow> addr option" where
  "alloc_loop p used a =
     (if \<not> contains p a then None
      else if usableHost p a \<and> a \<notin> set used then Some a
      else alloc_loop p used (addr_next a))"
  by pat_completeness auto

lemma unat_next: "w \<noteq> -1 \<Longrightarrow> unat (w + 1 :: 'a::len word) = unat w + 1"
  using unatSuc [of w] by (simp add: add.commute add_eq_0_iff)

definition addrs_left :: "addr \<Rightarrow> nat" where
  "addrs_left a = (case a of NoAddr \<Rightarrow> 0 | V4 w \<Rightarrow> 2 ^ 32 - unat w | V6 w _ \<Rightarrow> 2 ^ 128 - unat w)"

lemma diff_Suc_less': "n < m \<Longrightarrow> m - (n + 1) < m - (n::nat)"
  by linarith

lemma addrs_left_next: "a \<noteq> NoAddr \<Longrightarrow> addrs_left (addr_next a) < addrs_left a"
proof (cases a)
  case (V4 w)
  have u: "unat w < 2 ^ 32" using unsigned_less [where 'a = nat, of w] by simp
  then have "2 ^ 32 - (unat w + 1) < (2 ^ 32 - unat w :: nat)" by (rule diff_Suc_less')
  then show ?thesis
    using V4 unat_next [of w] u by (simp only: addrs_left_def addr_next_def addr.case split: if_split) auto
next
  case (V6 w z)
  have u: "unat w < 2 ^ 128" using unsigned_less [where 'a = nat, of w] by simp
  then have "2 ^ 128 - (unat w + 1) < (2 ^ 128 - unat w :: nat)" by (rule diff_Suc_less')
  then show ?thesis
    using V6 unat_next [of w] u by (simp only: addrs_left_def addr_next_def addr.case split: if_split) auto
qed simp

termination alloc_loop
  by (relation "measure (\<lambda>(p, used, a). addrs_left a)") (auto intro!: addrs_left_next)

declare alloc_loop.simps [simp del]

definition allocateIP :: "prefix \<Rightarrow> addr list \<Rightarrow> addr option" where
  "allocateIP p used = alloc_loop p used (addr_next (pfx_addr (masked p)))"

text \<open>At most 200 draws; a draw is a number below the number of /24 blocks of the pool.\<close>

definition pool_blocks :: int where
  "pool_blocks = 2 ^ (24 - nat (pfx_bits subnetPool))"

definition block :: "int \<Rightarrow> prefix" where
  "block i = prefix_from (addr_from4 [10, 128 + of_int (i div 256), of_int i, 0]) 24"

fun pick_loop :: "nat \<Rightarrow> int list \<Rightarrow> prefix list \<Rightarrow> prefix option" where
  "pick_loop 0 draws used = None"
| "pick_loop (Suc n) [] used = None"
| "pick_loop (Suc n) (i # draws) used =
     (if list_ex (\<lambda>u. overlaps u (block i)) used then pick_loop n draws used else Some (block i))"

definition pickSubnet :: "int list \<Rightarrow> prefix list \<Rightarrow> prefix option" where
  "pickSubnet draws used = pick_loop 200 draws used"

section \<open>Allocation\<close>

definition v4_net :: "prefix \<Rightarrow> bool" where
  "v4_net p = (is4 (pfx_addr p) \<and> pfx_valid p \<and> pfx_bits p \<le> 32)"

lemma v4_net_obtain:
  assumes "v4_net p"
  obtains v base last' where "pfx_addr p = V4 v" "pfx_addr (masked p) = V4 base" "last_addr p = Some (V4 last')"
    "\<And>w. contains p (V4 w) \<longleftrightarrow> base \<le> w \<and> w \<le> last'"
proof -
  obtain v where v: "pfx_addr p = V4 v" using assms by (auto simp: v4_net_def is4_def split: addr.splits)
  have pv: "pfx_valid p" "pfx_bits p \<le> 32" using assms by (simp_all add: v4_net_def)
  show ?thesis
    using that [OF v masked_v4 [OF v pv(1)] last_addr_v4 [OF v pv]] contains_v4_range [OF v pv]
    by (auto simp: masked_v4 [OF v pv(1)] last_addr_v4 [OF v pv])
qed

lemma alloc_loop_some: "alloc_loop p used a = Some b \<Longrightarrow> usableHost p b \<and> b \<notin> set used"
proof (induction p used a rule: alloc_loop.induct)
  case (1 p used a)
  then show ?case
    by (subst (asm) (2) alloc_loop.simps) (auto split: if_splits)
qed

lemma alloc_loop_first:
  assumes base: "\<And>w. contains p (V4 w) \<longleftrightarrow> base \<le> w \<and> w \<le> last'"
  shows "(case alloc_loop p used a of None \<Rightarrow> True | Some b \<Rightarrow> \<exists>y. b = V4 y \<and> x < y) \<Longrightarrow> a = V4 w \<Longrightarrow> base \<le> w \<Longrightarrow> w \<le> x \<Longrightarrow>
    usableHost p (V4 x) \<Longrightarrow> V4 x \<in> set used"
proof (induction "addrs_left a" arbitrary: a w rule: less_induct)
  case less
  have xc: "base \<le> x" "x \<le> last'" using less.prems(5) base [of x] by (auto simp: usableHost_def split: if_splits)
  have c: "contains p (V4 w)" using base [of w] less.prems xc by auto
  show ?case
  proof (cases "w = x")
    case True
    then show ?thesis using less.prems c by (auto simp: alloc_loop.simps [of p used "V4 x"] split: if_splits)
  next
    case False
    then have wx: "w < x" using less.prems by auto
    then have w1: "w \<noteq> -1" by (metis word_order.extremum_strict)
    have n: "addr_next a = V4 (w + 1)" using less.prems w1 by (simp add: addr_next_def)
    have "case alloc_loop p used (addr_next a) of None \<Rightarrow> True | Some b \<Rightarrow> \<exists>y. b = V4 y \<and> x < y"
      using wx less.prems c by (auto simp: alloc_loop.simps [of p used "V4 w"] split: if_splits)
    moreover have "w + 1 \<le> x" using wx by (simp add: inc_le)
    moreover have "base \<le> w + 1"
      using less.prems(3) unat_next [OF w1] by (simp only: word_le_nat_alt)
    ultimately show ?thesis
      using less.hyps [of "addr_next a"] addrs_left_next [of a] less.prems n by blast
  qed
qed

lemma usableHost_base: "v4_net p \<Longrightarrow> pfx_addr (masked p) = V4 base \<Longrightarrow> \<not> usableHost p (V4 base)"
  by (simp add: usableHost_def)

lemma allocateIP_some: "allocateIP p used = Some a \<Longrightarrow> usableHost p a \<and> a \<notin> set used"
  by (auto simp: allocateIP_def dest: alloc_loop_some)

text \<open>C34: A new member gets the first free host address of the room: an address inside the subnet,
  neither its network nor its broadcast address, and not in use; and the controller reports
  that a room is full only when every host address is taken.\<close>

theorem allocateIP_exact:
  assumes net: "v4_net p"
  shows "case allocateIP p used of
      Some a \<Rightarrow> contains p a \<and> a \<noteq> pfx_addr (masked p) \<and> last_addr p \<noteq> Some a \<and> a \<notin> set used \<and>
        (\<exists>y. a = V4 y \<and> (\<forall>x < y. usableHost p (V4 x) \<longrightarrow> V4 x \<in> set used))
    | None \<Rightarrow> \<forall>a. usableHost p a \<longrightarrow> a \<in> set used"
proof -
  obtain v base last' where v: "pfx_addr p = V4 v" "pfx_addr (masked p) = V4 base"
    "last_addr p = Some (V4 last')" and c: "\<And>w. contains p (V4 w) \<longleftrightarrow> base \<le> w \<and> w \<le> last'"
    using v4_net_obtain [OF net] by blast
  have v4: "\<exists>x. a = V4 x" if "usableHost p a" for a
    using that v(1) by (cases a) (auto simp: usableHost_def contains_def split: addr.splits if_splits)
  have first: "V4 x \<in> set used"
    if r: "case allocateIP p used of None \<Rightarrow> True | Some b \<Rightarrow> \<exists>y. b = V4 y \<and> x < y" and u: "usableHost p (V4 x)" for x
  proof -
    have "base \<le> x" "x \<noteq> base" using u v(2) c by (auto simp: usableHost_def split: if_splits)
    then have lt: "base < x" by auto
    then have b1: "base \<noteq> -1" by (metis word_order.extremum_strict)
    have n: "addr_next (V4 base) = V4 (base + 1)" using b1 by (simp add: addr_next_def)
    have "case alloc_loop p used (V4 (base + 1)) of None \<Rightarrow> True | Some b \<Rightarrow> \<exists>y. b = V4 y \<and> x < y"
      using r by (simp add: allocateIP_def v(2) n)
    moreover have "base + 1 \<le> x" using lt by (simp add: inc_le)
    moreover have "base \<le> base + 1" using unat_next [OF b1] by (simp only: word_le_nat_alt)
    ultimately show ?thesis
      using alloc_loop_first [OF c, of x used "V4 (base + 1)" "base + 1"] u by blast
  qed
  show ?thesis
  proof (cases "allocateIP p used")
    case (Some a)
    then show ?thesis
      using allocateIP_some [OF Some] v4 [of a] first by (auto simp: usableHost_def split: if_splits)
  next
    case None
    then show ?thesis using v4 first by fastforce
  qed
qed

theorem allocateIP_exact_witness:
  "allocateIP \<lparr>pfx_addr = V4 0x0A640100, pfx_bits = 30\<rparr> [V4 0x0A640101] = Some (V4 0x0A640102) \<and>
   Collect (usableHost \<lparr>pfx_addr = V4 0x0A640100, pfx_bits = 30\<rparr>) \<subseteq> {V4 0x0A640101, V4 0x0A640102}"
proof -
  have net: "v4_net \<lparr>pfx_addr = V4 0x0A640100, pfx_bits = 30\<rparr>" by code_simp
  have 1: "allocateIP \<lparr>pfx_addr = V4 0x0A640100, pfx_bits = 30\<rparr> [V4 0x0A640101] = Some (V4 0x0A640102)"
    by code_simp
  have 2: "allocateIP \<lparr>pfx_addr = V4 0x0A640100, pfx_bits = 30\<rparr> [V4 0x0A640101, V4 0x0A640102] = None"
    by code_simp
  show ?thesis
    using allocateIP_exact [OF net, of "[V4 0x0A640101, V4 0x0A640102]"] 1 2 by auto
qed

lemma pick_loop_some: "pick_loop n draws used = Some p \<Longrightarrow>
  \<exists>i \<in> set draws. p = block i \<and> (\<forall>u \<in> set used. \<not> overlaps u p)"
  by (induction n draws used rule: pick_loop.induct) (auto simp: list_ex_iff split: if_splits)

lemma pickSubnet_some: "pickSubnet draws used = Some p \<Longrightarrow>
  \<exists>i \<in> set draws. p = block i \<and> (\<forall>u \<in> set used. \<not> overlaps u p)"
  unfolding pickSubnet_def by (rule pick_loop_some)

lemma v4_net_block: "v4_net (block i)"
  by (simp add: v4_net_def block_def prefix_from_def addr_from4_def is4_def without_zone_def with_zone_def pfx_valid_def)

lemma block_bits: "pfx_bits (block i) = 24" "masked (block i) = block i"
proof -
  obtain w where w: "addr_from4 [10, 128 + of_int (i div 256), of_int i, 0] = V4 w"
    and wd: "w = be32 10 (128 + of_int (i div 256)) (of_int i) 0"
    by (simp add: addr_from4_def)
  have b: "block i = \<lparr>pfx_addr = V4 w, pfx_bits = 24\<rparr>"
    by (simp add: block_def w prefix_from_def without_zone_def with_zone_def)
  have "unat (w AND NOT (mask 8)) = unat w"
    unfolding unat_net_base wd unat_be32 by simp
  then have "w AND NOT (mask 8) = w" by (simp only: word_unat_eq_iff)
  then show "pfx_bits (block i) = 24" "masked (block i) = block i"
    by (simp_all add: b masked_def pfx_valid_def net_mask_def)
qed

end
