(* ===== verification/Go_Runes.thy ===== *)
theory Go_Runes
  imports Go_Strings
begin

text \<open>
  UTF-8 as Go's \<^verbatim>\<open>unicode/utf8\<close> decodes it: how many bytes the first rune of a string has (one
  for an invalid byte), the runes of a string, and \<^verbatim>\<open>strings.FieldsFunc\<close> for separators that
  are ASCII characters.
\<close>

definition cont_in :: "nat \<Rightarrow> nat \<Rightarrow> string \<Rightarrow> nat \<Rightarrow> bool" where
  "cont_in lo hi s i = (i < length s \<and> lo \<le> (of_char (s ! i) :: nat) \<and> (of_char (s ! i) :: nat) \<le> hi)"

abbreviation cont :: "string \<Rightarrow> nat \<Rightarrow> bool" where
  "cont s i \<equiv> cont_in 0x80 0xBF s i"

definition rune_len :: "string \<Rightarrow> nat" where
  "rune_len s = (case s of [] \<Rightarrow> 0 | c # _ \<Rightarrow>
     let b = (of_char c :: nat) in
     if 0xC2 \<le> b \<and> b \<le> 0xDF \<and> cont s 1 then 2
     else if b = 0xE0 \<and> cont_in 0xA0 0xBF s 1 \<and> cont s 2 then 3
     else if b = 0xED \<and> cont_in 0x80 0x9F s 1 \<and> cont s 2 then 3
     else if 0xE1 \<le> b \<and> b \<le> 0xEF \<and> b \<noteq> 0xED \<and> cont s 1 \<and> cont s 2 then 3
     else if b = 0xF0 \<and> cont_in 0x90 0xBF s 1 \<and> cont s 2 \<and> cont s 3 then 4
     else if 0xF1 \<le> b \<and> b \<le> 0xF3 \<and> cont s 1 \<and> cont s 2 \<and> cont s 3 then 4
     else if b = 0xF4 \<and> cont_in 0x80 0x8F s 1 \<and> cont s 2 \<and> cont s 3 then 4
     else 1)"

lemma rune_len_pos: "s \<noteq> [] \<Longrightarrow> 0 < rune_len s"
  by (cases s) (auto simp: rune_len_def Let_def)

text \<open>The runes of a string, each re-encoded (an invalid byte becomes U+FFFD).\<close>

function runes :: "string \<Rightarrow> string list" where
  "runes s = (if s = [] then [] else
     (if rune_len s = 1 \<and> 128 \<le> (of_char (hd s) :: nat) then [CHR 0xEF, CHR 0xBF, CHR 0xBD] else take (rune_len s) s)
     # runes (drop (rune_len s) s))"
  by pat_completeness auto
termination
  by (relation "measure length") (auto simp: rune_len_pos)

declare runes.simps [simp del]

definition rune_count :: "string \<Rightarrow> nat" where
  "rune_count s = length (runes s)"

fun split_by :: "char list \<Rightarrow> string \<Rightarrow> string \<Rightarrow> string list" where
  "split_by seps cur [] = (if cur = [] then [] else [rev cur])"
| "split_by seps cur (c # r) =
     (if c \<in> set seps then (if cur = [] then [] else [rev cur]) @ split_by seps [] r
      else split_by seps (c # cur) r)"

definition fields_func :: "char list \<Rightarrow> string \<Rightarrow> string list" where
  "fields_func seps s = split_by seps [] s"

lemma fields_func_ne: "w \<in> set (fields_func seps s) \<Longrightarrow> w \<noteq> []"
proof -
  have "w \<in> set (split_by seps cur s) \<Longrightarrow> w \<noteq> []" for cur
    by (induction seps cur s rule: split_by.induct) (auto split: if_splits)
  then show "w \<in> set (fields_func seps s) \<Longrightarrow> w \<noteq> []" by (simp add: fields_func_def)
qed

end
