(* ===== verification/Controller.thy ===== *)
theory Controller
  imports Store Pki Subnets Go_Runes Relay_Server
begin

text \<open>
  \<^verbatim>\<open>internal/controller/service.go\<close> and \<^verbatim>\<open>hub.go\<close>: rooms, invites, members, what nodes ask for,
  and who may use the relay. The state is the database, the hub of the long polls, the
  quotas and the last reported paths; every handler is a function on it that either fails and
  leaves it as it was, or succeeds. Texts of errors and the free text of audit entries are not
  modelled (an error has a reason instead). Random draws and the clock are arguments; Unicode
  tables, digests, the key-encryption key and the signer are in a record \<open>env\<close>.
\<close>

section \<open>State\<close>

datatype invalid_reason = RoomName | JoinPolicy | RoomQuota | BadSubnet | SubnetTaken | BadBroadcast
  | BadDNSServer | ManyDNSServers | BadACL acl_error | NoSuchMember | BadDestination | BadProtocol
  | InviteTTL | NoteTooLong | NoExitInRoom | NotAnExit | NoRoutesOffered | NoExitOffered | UnknownAction
  | MemberName | TagTooLong | BadMemberIP | IPTaken | RoomFull | KeysMissing | ShortPassword | LoginLength | LoginChars
  | UserExists | UserHasRooms | WrongPassword | BadCode | BadEmail

datatype svc_error = StoreErr store_error | Forbidden | Invalid invalid_reason | NoFreeSubnet | ACLText acl_error | BadLogin

record env =
  env_kek :: kek
  env_unicode :: unicode
  env_sha256 :: "bytes \<Rightarrow> bytes"
  env_blake2s :: "bytes \<Rightarrow> bytes"
  env_signer :: signer

text \<open>The hub: the version it knows and the pollers that wait on its channel, each with the version
  it asked to be told about changes since.\<close>

record hub =
  hub_version :: int
  hub_waiting :: "(nat \<times> int) list"

definition newHub :: "int \<Rightarrow> hub" where
  "newHub v = \<lparr>hub_version = v, hub_waiting = []\<rparr>"

text \<open>\<^verbatim>\<open>set\<close> closes the channel, which wakes everyone who waits.\<close>

definition hub_set :: "int \<Rightarrow> hub \<Rightarrow> hub" where
  "hub_set v h = (if hub_version h < v then \<lparr>hub_version = v, hub_waiting = []\<rparr> else h)"

text \<open>\<^verbatim>\<open>wait\<close>: a poller goes on at once, or it waits.\<close>

definition hub_wait :: "nat \<Rightarrow> int \<Rightarrow> hub \<Rightarrow> hub" where
  "hub_wait p since h = (if hub_version h \<noteq> since then h else h\<lparr>hub_waiting := (p, since) # hub_waiting h\<rparr>)"

record service =
  svc_db :: db
  svc_hub :: hub
  svc_maxRooms :: int
  svc_maxMembers :: int
  svc_paths :: "(string \<times> (int \<times> int)) list"

definition NewService :: "db \<Rightarrow> service" where
  "NewService d = \<lparr>svc_db = d, svc_hub = newHub (db_version d), svc_maxRooms = 0, svc_maxMembers = 0, svc_paths = []\<rparr>"

definition SetQuotas :: "int \<Rightarrow> int \<Rightarrow> service \<Rightarrow> service" where
  "SetQuotas r m s = s\<lparr>svc_maxRooms := r, svc_maxMembers := m\<rparr>"

definition bindE :: "'e + 'a \<Rightarrow> ('a \<Rightarrow> 'e + 'b) \<Rightarrow> 'e + 'b" where
  "bindE m f = (case m of Inl e \<Rightarrow> Inl e | Inr x \<Rightarrow> f x)"

definition db_err :: "store_error + 'a \<Rightarrow> svc_error + 'a" where
  "db_err m = (case m of Inl e \<Rightarrow> Inl (StoreErr e) | Inr x \<Rightarrow> Inr x)"

definition guard :: "bool \<Rightarrow> svc_error \<Rightarrow> svc_error + unit" where
  "guard b e = (if b then Inr () else Inl e)"

definition change :: "(db \<Rightarrow> svc_error + 'a \<times> db) \<Rightarrow> service \<Rightarrow> (svc_error + 'a) \<times> service" where
  "change f s = (case f (svc_db s) of
     Inl e \<Rightarrow> (Inl e, s)
   | Inr (x, d) \<Rightarrow> (case BumpVersion d of (v, d') \<Rightarrow>
       (Inr x, s\<lparr>svc_db := d', svc_hub := hub_set v (svc_hub s)\<rparr>)))"

definition canManage :: "user \<Rightarrow> room \<Rightarrow> bool" where
  "canManage u r = (usr_IsAdmin u \<or> rm_OwnerID r = usr_ID u)"

definition roomFor :: "env \<Rightarrow> user \<Rightarrow> string \<Rightarrow> db \<Rightarrow> svc_error + room" where
  "roomFor E u roomID d = bindE (db_err (RoomByID (env_kek E) roomID d))
     (\<lambda>r. if \<not> canManage u r then Inl Forbidden else Inr r)"

text \<open>An audit entry of an operation on a room, and the end of most operations: the room's
  version and the entry.\<close>

definition audited :: "time \<Rightarrow> string \<Rightarrow> string \<Rightarrow> string \<Rightarrow> 'a \<Rightarrow> db \<Rightarrow> svc_error + 'a \<times> db" where
  "audited now actor action target x d = Inr (x, Audit (unix now) actor action target [] d)"

section \<open>Rooms\<close>

definition ValidateRoomName :: "string \<Rightarrow> svc_error + string" where
  "ValidateRoomName name = (let n = trim_space name in
     if rune_count n < 1 \<or> 40 < rune_count n then Inl (Invalid RoomName) else Inr n)"

definition validPolicy :: "string \<Rightarrow> bool" where
  "validPolicy p = (p = ''manual'' \<or> p = ''auto'')"

definition choose_subnet :: "string \<Rightarrow> int list \<Rightarrow> prefix list \<Rightarrow> svc_error + prefix" where
  "choose_subnet subnet draws used =
     (let s = trim_space subnet in
      if s \<noteq> [] then
        (case parse_prefix s of
           None \<Rightarrow> Inl (Invalid BadSubnet)
         | Some p \<Rightarrow>
             if \<not> is4 (pfx_addr p) \<or> \<not> is_private (pfx_addr p) \<or> pfx_bits p < 16 \<or> 29 < pfx_bits p
             then Inl (Invalid BadSubnet)
             else if list_ex (\<lambda>u. overlaps u p) used then Inl (Invalid SubnetTaken)
             else Inr (masked p))
      else case pickSubnet draws used of None \<Rightarrow> Inl NoFreeSubnet | Some p \<Rightarrow> Inr p)"

text \<open>The random draws of \<^verbatim>\<open>CreateRoom\<close>: the secret, the signing key, the subnet and two nonces.\<close>

record room_draw =
  rd_secret :: bytes
  rd_signKey :: bytes
  rd_subnets :: "int list"
  rd_nonce1 :: bytes
  rd_nonce2 :: bytes

definition new_room :: "env \<Rightarrow> user \<Rightarrow> string \<Rightarrow> string \<Rightarrow> room_draw \<Rightarrow> prefix \<Rightarrow> room" where
  "new_room E u name policy w subnet = \<lparr>rm_ID = RoomID (sg_hkdf (env_signer E)) (rd_secret w), rm_Name = name,
     rm_Subnet = subnet, rm_Secret = rd_secret w, rm_SignKey = rd_signKey w, rm_OwnerID = usr_ID u,
     rm_JoinPolicy = policy, rm_Broadcast = [], rm_DNS = [], rm_ACL = [], rm_DHT = False, rm_Version = 0,
     rm_CreatedAt = 0\<rparr>"

definition CreateRoom :: "env \<Rightarrow> time \<Rightarrow> user \<Rightarrow> string \<Rightarrow> string \<Rightarrow> string \<Rightarrow> room_draw \<Rightarrow> service \<Rightarrow>
    (svc_error + room) \<times> service" where
  "CreateRoom E now u name subnet policy w s =
     (case ValidateRoomName name of
        Inl e \<Rightarrow> (Inl e, s)
      | Inr name' \<Rightarrow>
          if \<not> validPolicy policy then (Inl (Invalid JoinPolicy), s)
          else change (\<lambda>d.
            bindE (if 0 < svc_maxRooms s \<and> \<not> usr_IsAdmin u
                 then bindE (db_err (ListRooms (env_kek E) (usr_ID u) d))
                   (\<lambda>own. guard (int (length own) < svc_maxRooms s) (Invalid RoomQuota))
                 else Inr ()) (\<lambda>_.
            bindE (choose_subnet subnet (rd_subnets w) (AllSubnets d)) (\<lambda>p.
            let r = new_room E u name' policy w p in
            bindE (db_err (tx_CreateRoom (env_kek E) (unix now) (rd_nonce1 w) (rd_nonce2 w) r d)) (\<lambda>d1.
            audited now (usr_Login u) ''room.create'' (rm_ID r) r d1)))) s)"

text \<open>The operations that change settings of a room: the check of the user, the statement, the
  room's version, the audit entry.\<close>

definition room_change :: "env \<Rightarrow> time \<Rightarrow> user \<Rightarrow> string \<Rightarrow> string \<Rightarrow> (db \<Rightarrow> db) \<Rightarrow> service \<Rightarrow>
    (svc_error + unit) \<times> service" where
  "room_change E now u roomID action f s = change (\<lambda>d.
     bindE (roomFor E u roomID d) (\<lambda>_. audited now (usr_Login u) action roomID () (BumpRoom roomID (f d)))) s"

definition UpdateRoom :: "env \<Rightarrow> time \<Rightarrow> user \<Rightarrow> string \<Rightarrow> string \<Rightarrow> string \<Rightarrow> string \<Rightarrow> service \<Rightarrow>
    (svc_error + unit) \<times> service" where
  "UpdateRoom E now u roomID name policy broadcast s =
     (case ValidateRoomName name of
        Inl e \<Rightarrow> (Inl e, s)
      | Inr name' \<Rightarrow>
          if \<not> validPolicy policy then (Inl (Invalid JoinPolicy), s)
          else if broadcast \<noteq> ''on'' \<and> broadcast \<noteq> ''off'' \<and> broadcast \<noteq> ''mdns'' then (Inl (Invalid BadBroadcast), s)
          else room_change E now u roomID ''room.update'' (tx_UpdateRoom roomID name' policy broadcast) s)"

fun parse_servers :: "addr list \<Rightarrow> string list \<Rightarrow> svc_error + addr list" where
  "parse_servers dns [] = Inr dns"
| "parse_servers dns (f # fs) =
     (case parse_addr f of
        None \<Rightarrow> Inl (Invalid BadDNSServer)
      | Some a \<Rightarrow> if \<not> ValidDNS a then Inl (Invalid BadDNSServer)
          else parse_servers (if a \<in> set dns then dns else dns @ [a]) fs)"

definition SetRoomDNS :: "env \<Rightarrow> time \<Rightarrow> user \<Rightarrow> string \<Rightarrow> string \<Rightarrow> service \<Rightarrow> (svc_error + unit) \<times> service" where
  "SetRoomDNS E now u roomID servers s =
     (case parse_servers [] (fields_func [CHR '','', CHR '' '', CHR '';''] servers) of
        Inl e \<Rightarrow> (Inl e, s)
      | Inr dns \<Rightarrow>
          if MaxDNS < length dns then (Inl (Invalid ManyDNSServers), s)
          else room_change E now u roomID ''room.dns'' (tx_SetRoomDNS roomID dns) s)"

definition SetRoomDHT :: "env \<Rightarrow> time \<Rightarrow> user \<Rightarrow> string \<Rightarrow> bool \<Rightarrow> service \<Rightarrow> (svc_error + unit) \<times> service" where
  "SetRoomDHT E now u roomID on s = room_change E now u roomID ''room.dht'' (tx_SetRoomDHT roomID on) s"

fun replace_crlf :: "string \<Rightarrow> string" where
  "replace_crlf [] = []"
| "replace_crlf [c] = [c]"
| "replace_crlf (c # d # r) = (if c = CHR 0x0D \<and> d = CHR 0x0A then CHR 0x0A # replace_crlf r else c # replace_crlf (d # r))"

definition SetRoomACL :: "env \<Rightarrow> time \<Rightarrow> user \<Rightarrow> string \<Rightarrow> string \<Rightarrow> service \<Rightarrow> (svc_error + unit) \<times> service" where
  "SetRoomACL E now u roomID text s =
     (case acl_Parse (env_unicode E) text of
        Inl e \<Rightarrow> (Inl (Invalid (BadACL e)), s)
      | Inr rules \<Rightarrow>
          let t = trim_space (replace_crlf text); t' = (if rules = [] then [] else t @ [CHR 0x0A])
          in room_change E now u roomID ''room.acl'' (tx_SetRoomACL roomID t') s)"

definition DeleteRoom :: "env \<Rightarrow> time \<Rightarrow> user \<Rightarrow> string \<Rightarrow> service \<Rightarrow> (svc_error + unit) \<times> service" where
  "DeleteRoom E now u roomID s = change (\<lambda>d.
     bindE (roomFor E u roomID d) (\<lambda>_. audited now (usr_Login u) ''room.delete'' roomID () (tx_DeleteRoom roomID d))) s"

section \<open>Views\<close>

record room_view =
  rv_Room :: room
  rv_RoomKey :: string
  rv_Members :: "member_view list"
  rv_Invites :: "invite list"

definition svc_Rooms :: "env \<Rightarrow> user \<Rightarrow> service \<Rightarrow> svc_error + room list" where
  "svc_Rooms E u s = db_err (ListRooms (env_kek E) (if usr_IsAdmin u then 0 else usr_ID u) (svc_db s))"

definition svc_Room :: "env \<Rightarrow> time \<Rightarrow> user \<Rightarrow> string \<Rightarrow> service \<Rightarrow> svc_error + room_view" where
  "svc_Room E now u roomID s = bindE (roomFor E u roomID (svc_db s)) (\<lambda>r.
     Inr \<lparr>rv_Room = r, rv_RoomKey = RoomKeyString (ed_pub (env_signer E) (rm_SignKey r)),
          rv_Members = ListMembers roomID (svc_db s), rv_Invites = ListInvites (unix now) roomID (svc_db s)\<rparr>)"

definition find_last :: "('a \<Rightarrow> bool) \<Rightarrow> 'a list \<Rightarrow> 'a option" where
  "find_last p xs = List.find p (rev xs)"

definition TestACL :: "env \<Rightarrow> time \<Rightarrow> user \<Rightarrow> string \<Rightarrow> string \<Rightarrow> string \<Rightarrow> string \<Rightarrow> int \<Rightarrow> service \<Rightarrow>
    svc_error + bool \<times> string" where
  "TestACL E now u roomID from' to' proto port s =
     bindE (svc_Room E now u roomID s) (\<lambda>v.
     case acl_Parse (env_unicode E) (rm_ACL (rv_Room v)) of
       Inl e \<Rightarrow> Inl (ACLText e)
     | Inr rules \<Rightarrow>
         let ms = map mv (rv_Members v);
             pol = \<lparr>pol_rules = rules, pol_members = map (\<lambda>m. \<lparr>am_name = mb_Name m, am_ip = mb_IP m, am_tags = mb_Tags m\<rparr>) ms,
                    pol_subnet = rm_Subnet (rv_Room v)\<rparr>;
             named = (\<lambda>x m. equal_fold (env_unicode E) (mb_Name m) x \<or> mb_NodeID m = x);
             ip = (\<lambda>x. case find_last (named x) ms of None \<Rightarrow> NoAddr | Some m \<Rightarrow> mb_IP m);
             src = ip from'; dst0 = ip to'
         in if src = NoAddr then Inl (Invalid NoSuchMember)
            else bindE (if dst0 \<noteq> NoAddr then Inr dst0
                      else case parse_addr to' of None \<Rightarrow> Inl (Invalid BadDestination) | Some a \<Rightarrow> Inr a) (\<lambda>dst.
              let pr = to_lower (env_unicode E) proto;
                  p = (if pr = ''tcp'' then TCP else if pr = ''udp'' then UDP else if pr = ''icmp'' then ICMP else 0)
              in if p = 0 \<or> port < 0 \<or> 65535 < port then Inl (Invalid BadProtocol)
                 else case pol_Allowed (env_unicode E) pol src dst p (of_int port) of (ok, i) \<Rightarrow>
                   if \<not> ok \<or> i < 0 then Inr (ok, [])
                   else Inr (True, trim_space (acl_String [rules ! nat i]))))"

section \<open>Invites\<close>

definition hashToken :: "env \<Rightarrow> string \<Rightarrow> bytes" where
  "hashToken E t = env_sha256 E (bytes_of t)"

text \<open>The link of an invite: \<^verbatim>\<open>api.Invite\<close>. The 18 random bytes are an argument of \<^verbatim>\<open>CreateInvite\<close>.\<close>

record api_invite =
  ai_Controller :: string
  ai_RoomID :: string
  ai_RoomKey :: string
  ai_Token :: string

definition CreateInvite :: "env \<Rightarrow> time \<Rightarrow> user \<Rightarrow> string \<Rightarrow> string \<Rightarrow> int \<Rightarrow> duration \<Rightarrow> bool \<Rightarrow> string \<Rightarrow> bytes \<Rightarrow> service \<Rightarrow>
    (svc_error + api_invite) \<times> service" where
  "CreateInvite E now u controllerURL roomID uses ttl autoApprove note raw s =
     (if ttl \<le> 0 \<or> 365 * 24 * 3600 * second < ttl then (Inl (Invalid InviteTTL), s)
      else let uses' = (if uses \<le> 0 then -1 else uses) in
        if 100 < rune_count note then (Inl (Invalid NoteTooLong), s)
        else let token = b64url_encode raw in change (\<lambda>d.
          bindE (roomFor E u roomID d) (\<lambda>r.
          bindE (db_err (tx_CreateInvite (unix now) \<lparr>inv_ID = 0, inv_RoomID = roomID, inv_TokenHash = hashToken E token,
                 inv_UsesLeft = uses', inv_Expires = unix (now + ttl), inv_AutoApprove = autoApprove,
                 inv_Note = trim_space note, inv_CreatedBy = usr_ID u, inv_CreatedAt = 0\<rparr> d)) (\<lambda>d1.
          audited now (usr_Login u) ''invite.create'' roomID
            \<lparr>ai_Controller = trim_right_char (CHR ''/'') controllerURL, ai_RoomID = roomID,
             ai_RoomKey = RoomKeyString (ed_pub (env_signer E) (rm_SignKey r)), ai_Token = token\<rparr> d1))) s)"

definition RevokeInvite :: "env \<Rightarrow> time \<Rightarrow> user \<Rightarrow> string \<Rightarrow> int \<Rightarrow> service \<Rightarrow> (svc_error + unit) \<times> service" where
  "RevokeInvite E now u roomID i s = change (\<lambda>d.
     bindE (roomFor E u roomID d) (\<lambda>_. audited now (usr_Login u) ''invite.revoke'' roomID () (tx_RevokeInvite roomID i d))) s"

section \<open>Members\<close>

definition SetMemberExit :: "env \<Rightarrow> time \<Rightarrow> user \<Rightarrow> string \<Rightarrow> string \<Rightarrow> string \<Rightarrow> service \<Rightarrow> (svc_error + unit) \<times> service" where
  "SetMemberExit E now u roomID nodeID exitID s = change (\<lambda>d.
     bindE (roomFor E u roomID d) (\<lambda>_.
     bindE (db_err (Member roomID nodeID d)) (\<lambda>m.
     bindE (if exitID \<noteq> [] then
             (case Member roomID exitID d of
                Inl _ \<Rightarrow> Inl (Invalid NoExitInRoom)
              | Inr x \<Rightarrow> guard (\<not> (exitID = nodeID \<or> \<not> mb_Exit (mv x) \<or> \<not> rch_Exit (mv_reach x) \<or> mb_Status (mv x) \<noteq> StatusActive))
                  (Invalid NotAnExit))
           else Inr ()) (\<lambda>_.
     bindE (db_err (tx_UpdateMember ((mv m)\<lparr>mb_UseExit := exitID\<rparr>) d)) (\<lambda>d1.
     audited now (usr_Login u) ''member.use_exit'' roomID () (BumpRoom roomID d1)))))) s"

datatype member_action = ActApprove | ActBan | ActUnban | ActKick | ActRoutes | ActNoRoutes | ActExit | ActNoExit
  | ActOther string

definition action_name :: "member_action \<Rightarrow> string" where
  "action_name a = (case a of ActApprove \<Rightarrow> ''approve'' | ActBan \<Rightarrow> ''ban'' | ActUnban \<Rightarrow> ''unban'' | ActKick \<Rightarrow> ''kick''
     | ActRoutes \<Rightarrow> ''routes'' | ActNoRoutes \<Rightarrow> ''noroutes'' | ActExit \<Rightarrow> ''exit'' | ActNoExit \<Rightarrow> ''noexit'' | ActOther x \<Rightarrow> x)"

definition apply_action :: "env \<Rightarrow> string \<Rightarrow> string \<Rightarrow> member_action \<Rightarrow> member_view \<Rightarrow> db \<Rightarrow> svc_error + db" where
  "apply_action E roomID nodeID act v d =
     (let m = mv v in case act of
        ActApprove \<Rightarrow> db_err (tx_UpdateMember (m\<lparr>mb_Status := StatusActive\<rparr>) d)
      | ActUnban \<Rightarrow> db_err (tx_UpdateMember (m\<lparr>mb_Status := StatusActive\<rparr>) d)
      | ActBan \<Rightarrow> db_err (tx_UpdateMember (m\<lparr>mb_Status := StatusBanned\<rparr>) d)
      | ActKick \<Rightarrow> Inr (DeleteMember roomID nodeID d)
      | ActRoutes \<Rightarrow> bindE (db_err (RoomByID (env_kek E) roomID d)) (\<lambda>r.
          let routes = filter (\<lambda>p. \<not> overlaps p (rm_Subnet r)) (rch_Routes (mv_reach v))
          in if routes = [] then Inl (Invalid NoRoutesOffered)
             else db_err (tx_UpdateMember (m\<lparr>mb_Routes := routes\<rparr>) d))
      | ActNoRoutes \<Rightarrow> db_err (tx_UpdateMember (m\<lparr>mb_Routes := []\<rparr>) d)
      | ActExit \<Rightarrow> if \<not> rch_Exit (mv_reach v) then Inl (Invalid NoExitOffered)
          else db_err (tx_UpdateMember (m\<lparr>mb_Exit := True\<rparr>) d)
      | ActNoExit \<Rightarrow> db_err (tx_UpdateMember (m\<lparr>mb_Exit := False\<rparr>) d)
      | ActOther _ \<Rightarrow> Inl (Invalid UnknownAction))"

definition MemberAction :: "env \<Rightarrow> time \<Rightarrow> user \<Rightarrow> string \<Rightarrow> string \<Rightarrow> member_action \<Rightarrow> service \<Rightarrow>
    (svc_error + unit) \<times> service" where
  "MemberAction E now u roomID nodeID act s = change (\<lambda>d.
     bindE (roomFor E u roomID d) (\<lambda>_.
     bindE (db_err (Member roomID nodeID d)) (\<lambda>v.
     bindE (apply_action E roomID nodeID act v d) (\<lambda>d1.
     audited now (usr_Login u) (''member.'' @ action_name act) roomID () (BumpRoom roomID d1))))) s"

fun parse_tags :: "unicode \<Rightarrow> string list \<Rightarrow> svc_error + string list" where
  "parse_tags u [] = Inr []"
| "parse_tags u (t # ts) = (if 32 < length t then Inl (Invalid TagTooLong)
     else bindE (parse_tags u ts) (\<lambda>r. Inr (to_lower u t # r)))"

definition UpdateMember :: "env \<Rightarrow> time \<Rightarrow> user \<Rightarrow> string \<Rightarrow> string \<Rightarrow> string \<Rightarrow> string \<Rightarrow> string \<Rightarrow> service \<Rightarrow>
    (svc_error + unit) \<times> service" where
  "UpdateMember E now u roomID nodeID name ip tags s =
     (let name' = trim_space name in
      if rune_count name' < 1 \<or> 40 < rune_count name' then (Inl (Invalid MemberName), s)
      else case parse_tags (env_unicode E) (fields_func [CHR '','', CHR '' ''] tags) of
        Inl e \<Rightarrow> (Inl e, s)
      | Inr tagList \<Rightarrow> change (\<lambda>d.
          bindE (roomFor E u roomID d) (\<lambda>r.
          bindE (db_err (Member roomID nodeID d)) (\<lambda>v.
          case parse_addr (trim_space ip) of
            None \<Rightarrow> Inl (Invalid BadMemberIP)
          | Some a \<Rightarrow>
              if \<not> usableHost (rm_Subnet r) a then Inl (Invalid BadMemberIP)
              else bindE (if a \<noteq> mb_IP (mv v)
                    then guard (\<not> list_ex (\<lambda>o'. mb_IP (mv o') = a) (ListMembers roomID d)) (Invalid IPTaken)
                    else Inr ()) (\<lambda>_.
                bindE (db_err (tx_UpdateMember ((mv v)\<lparr>mb_Name := name', mb_IP := a, mb_Tags := tagList\<rparr>) d)) (\<lambda>d1.
                audited now (usr_Login u) ''member.update'' roomID () (BumpRoom roomID d1)))))) s)"

section \<open>Nodes\<close>

definition cleanName :: "string \<Rightarrow> string \<Rightarrow> string" where
  "cleanName name fallback = (let n = trim_space name in
     if n = [] then fallback else if 40 < length (runes n) then concat (take 40 (runes n)) else n)"

definition knownNAT :: "string \<Rightarrow> bool" where
  "knownNAT n = (n \<in> {[], ''none'', ''cone'', ''symmetric'', ''udp-blocked'', ''unknown''})"

record endpoints =
  ep_UDPPort :: u16
  ep_Locals :: "addrport list"
  ep_Reflexive :: "addrport list"
  ep_NAT :: string
  ep_PortMap :: addrport
  ep_DiscoKey :: bytes
  ep_Relay :: string
  ep_Paths :: "int \<times> int"
  ep_Routes :: "prefix list"
  ep_Exit :: bool
  ep_ExitDNS :: bool

definition ap_valid :: "addrport \<Rightarrow> bool" where
  "ap_valid a = (ap_addr a \<noteq> NoAddr)"

definition cleanLocals :: "endpoints \<Rightarrow> addrport list" where
  "cleanLocals e = take 16 (filter ap_valid (ep_Locals e))"

definition add_route :: "prefix \<Rightarrow> prefix list \<Rightarrow> prefix list" where
  "add_route p rs = (if ValidRoute p \<and> length rs < 16 \<and> p \<notin> set rs then rs @ [p] else rs)"

definition zero_key :: "bytes \<Rightarrow> bool" where
  "zero_key k = list_all (\<lambda>b. b = 0) k"

definition reach_of :: "endpoints \<Rightarrow> addr \<Rightarrow> string \<Rightarrow> reach" where
  "reach_of e remote version = \<lparr>rch_PublicIP = remote, rch_UDPPort = ep_UDPPort e, rch_Locals = cleanLocals e,
     rch_Reflexive = take 4 (filter ap_valid (ep_Reflexive e)),
     rch_NAT = (if knownNAT (ep_NAT e) then ep_NAT e else []),
     rch_PortMap = (if ap_valid (ep_PortMap e) then Some (ep_PortMap e) else None),
     rch_DiscoKey = (if zero_key (ep_DiscoKey e) then [] else ep_DiscoKey e),
     rch_Relay = (if length (ep_Relay e) \<le> 255 then ep_Relay e else []),
     rch_Routes = fold add_route (ep_Routes e) [],
     rch_Exit = ep_Exit e, rch_ExitDNS = (ep_Exit e \<and> ep_ExitDNS e), rch_Version = take 32 version\<rparr>"

record join_request =
  jr_RoomID :: string
  jr_Token :: string
  jr_Name :: string
  jr_WGKey :: bytes
  jr_BoxKey :: bytes
  jr_Endpoints :: endpoints
  jr_ClientVersion :: string

definition node_id :: "env \<Rightarrow> bytes \<Rightarrow> string" where
  "node_id E nodeKey = NodeIDFromPublic (env_unicode E) (env_blake2s E) nodeKey"

text \<open>What \<^verbatim>\<open>Join\<close> stores of the node before anything else.\<close>

definition join_node :: "env \<Rightarrow> bytes \<Rightarrow> join_request \<Rightarrow> addr \<Rightarrow> node" where
  "join_node E nodeKey req remote = \<lparr>nd_ID = node_id E nodeKey, nd_EdKey = nodeKey, nd_BoxKey = jr_BoxKey req,
     nd_Name = cleanName (jr_Name req) (node_id E nodeKey),
     nd_reach = empty_reach\<lparr>rch_PublicIP := remote, rch_UDPPort := ep_UDPPort (jr_Endpoints req),
        rch_Locals := cleanLocals (jr_Endpoints req), rch_Version := jr_ClientVersion req\<rparr>,
     nd_LastSeen = 0, nd_CreatedAt = 0\<rparr>"

record join_response =
  jresp_Status :: status
  jresp_RoomName :: string

definition join_status :: "invite \<Rightarrow> room \<Rightarrow> status" where
  "join_status iv r = (if inv_AutoApprove iv \<or> rm_JoinPolicy r = ''auto'' then StatusActive else StatusPending)"

definition join_row :: "room \<Rightarrow> string \<Rightarrow> join_request \<Rightarrow> addr \<Rightarrow> status \<Rightarrow> member" where
  "join_row r nodeID req ip st = \<lparr>mb_RoomID = rm_ID r, mb_NodeID = nodeID, mb_Name = cleanName (jr_Name req) nodeID,
     mb_WGKey = jr_WGKey req, mb_IP = ip, mb_Tags = [], mb_Status = st, mb_CreatedAt = 0, mb_Routes = [],
     mb_Exit = False, mb_UseExit = []\<rparr>"

definition join_member :: "env \<Rightarrow> time \<Rightarrow> int \<Rightarrow> string \<Rightarrow> join_request \<Rightarrow> room \<Rightarrow> db \<Rightarrow> svc_error + join_response \<times> db" where
  "join_member E now maxMembers nodeID req r d =
     (case UseInvite (unix now) (rm_ID r) (hashToken E (jr_Token req)) d of
        Inl _ \<Rightarrow> Inl Forbidden
      | Inr (iv, d1) \<Rightarrow>
          let members = ListMembers (rm_ID r) d1 in
          if 0 < maxMembers \<and> maxMembers \<le> int (length members) then Inl Forbidden
          else case allocateIP (rm_Subnet r) (map (\<lambda>v. mb_IP (mv v)) members) of
            None \<Rightarrow> Inl (Invalid RoomFull)
          | Some ip \<Rightarrow>
              let st = join_status iv r
              in bindE (db_err (AddMember (unix now) (join_row r nodeID req ip st) d1)) (\<lambda>d2.
                 audited now (''node:'' @ nodeID) ''member.join'' (rm_ID r) \<lparr>jresp_Status = st, jresp_RoomName = rm_Name r\<rparr>
                   (BumpRoom (rm_ID r) d2)))"

definition Join :: "env \<Rightarrow> time \<Rightarrow> bytes \<Rightarrow> join_request \<Rightarrow> addr \<Rightarrow> service \<Rightarrow> (svc_error + join_response) \<times> service" where
  "Join E now nodeKey req remote s =
     (if zero_key (jr_WGKey req) \<or> zero_key (jr_BoxKey req) then (Inl (Invalid KeysMissing), s)
      else change (\<lambda>d.
        case RoomByID (env_kek E) (jr_RoomID req) d of
          Inl _ \<Rightarrow> Inl Forbidden
        | Inr r \<Rightarrow>
            bindE (db_err (UpsertNode (unix now) (join_node E nodeKey req remote) d)) (\<lambda>d1.
            bindE (db_err (UpdateNodeEndpoints (unix now) (node_id E nodeKey)
                (reach_of (jr_Endpoints req) remote (jr_ClientVersion req)) d1)) (\<lambda>(_, d2).
            case Member (rm_ID r) (node_id E nodeKey) d2 of
              Inr v \<Rightarrow> if mb_Status (mv v) = StatusBanned then Inl Forbidden
                else Inr (\<lparr>jresp_Status = mb_Status (mv v), jresp_RoomName = rm_Name r\<rparr>, d2)
            | Inl e \<Rightarrow> if e \<noteq> ErrNotFound then Inl (StoreErr e)
                else join_member E now (svc_maxMembers s) (node_id E nodeKey) req r d2))) s)"

definition Leave :: "env \<Rightarrow> time \<Rightarrow> bytes \<Rightarrow> string \<Rightarrow> service \<Rightarrow> (svc_error + unit) \<times> service" where
  "Leave E now nodeKey roomID s = change (\<lambda>d.
     bindE (db_err (Member roomID (node_id E nodeKey) d)) (\<lambda>v.
     if mb_Status (mv v) = StatusBanned then Inr ((), d)
     else audited now (''node:'' @ node_id E nodeKey) ''member.leave'' roomID ()
       (BumpRoom roomID (DeleteMember roomID (node_id E nodeKey) d)))) s"

section \<open>The network map\<close>

record api_peer =
  pe_PublicIP :: addr
  pe_UDPPort :: u16
  pe_Locals :: "addrport list"
  pe_Reflexive :: "addrport list"
  pe_PortMap :: "addrport option"
  pe_NAT :: string
  pe_DiscoKey :: bytes
  pe_Relay :: string
  pe_Online :: bool

record room_state =
  rs_RoomID :: string
  rs_Status :: status
  rs_Config :: "signed option"
  rs_UseExit :: string

record netmap =
  nm_Version :: int
  nm_ObservedIP :: addr
  nm_Rooms :: "room_state list"
  nm_Peers :: "(string \<times> api_peer) list"

definition OnlineWindow :: duration where "OnlineWindow = 90 * second"

text \<open>\<^verbatim>\<open>copy\<close> into a 32-byte array that is zero before.\<close>

definition copy_key :: "bytes \<Rightarrow> bytes" where
  "copy_key k = take 32 k @ replicate (32 - length k) 0"

definition api_peer_of :: "time \<Rightarrow> node \<Rightarrow> api_peer" where
  "api_peer_of now n = (let r = nd_reach n in
     \<lparr>pe_PublicIP = rch_PublicIP r, pe_UDPPort = rch_UDPPort r, pe_Locals = rch_Locals r, pe_Reflexive = rch_Reflexive r,
      pe_PortMap = rch_PortMap r, pe_NAT = rch_NAT r,
      pe_DiscoKey = (if length (rch_DiscoKey r) = 32 then rch_DiscoKey r else replicate 32 0),
      pe_Relay = rch_Relay r, pe_Online = (time_sub now (from_unix (nd_LastSeen n)) < OnlineWindow)\<rparr>)"

definition config_member :: "member_view \<Rightarrow> room_member" where
  "config_member v = (let m = mv v; exit = mb_Exit m \<and> rch_Exit (mv_reach v) in
     \<lparr>rmem_NodeID = mb_NodeID m, rmem_Name = mb_Name m, rmem_WGKey = copy_key (mb_WGKey m), rmem_IP = mb_IP m, rmem_Tags = mb_Tags m,
      rmem_Routes = filter (\<lambda>p. p \<in> set (rch_Routes (mv_reach v))) (mb_Routes m),
      rmem_Exit = exit, rmem_ExitDNS = (exit \<and> rch_ExitDNS (mv_reach v)), rmem_Admin = False\<rparr>)"

definition active :: "member_view \<Rightarrow> bool" where
  "active v = (mb_Status (mv v) = StatusActive)"

definition room_config_of :: "time \<Rightarrow> room \<Rightarrow> acl_rule list \<Rightarrow> member_view list \<Rightarrow> room_config" where
  "room_config_of now r rules members = \<lparr>cfg_RoomID = rm_ID r, cfg_Name = rm_Name r, cfg_Subnet = rm_Subnet r,
     cfg_Secret = copy_key (rm_Secret r), cfg_Version = rm_Version r, cfg_IssuedAt = now,
     cfg_Members = map config_member (filter active members), cfg_Broadcast = rm_Broadcast r, cfg_DNS = rm_DNS r,
     cfg_ACL = rules, cfg_DHT = rm_DHT r\<rparr>"

text \<open>The peers a room adds to the map: its other active members that are not there yet.\<close>

fun add_peers :: "time \<Rightarrow> string \<Rightarrow> db \<Rightarrow> member_view list \<Rightarrow> (string \<times> api_peer) list \<Rightarrow>
    svc_error + (string \<times> api_peer) list" where
  "add_peers now nodeID d [] peers = Inr peers"
| "add_peers now nodeID d (v # vs) peers =
     (let i = mb_NodeID (mv v) in
      if \<not> active v \<or> i = nodeID \<or> i \<in> fst ` set peers then add_peers now nodeID d vs peers
      else bindE (db_err (NodeByID i d)) (\<lambda>n.
        add_peers now nodeID d vs (peers @ [(i, api_peer_of now n)])))"

fun map_rooms :: "env \<Rightarrow> time \<Rightarrow> string \<Rightarrow> db \<Rightarrow> member_view list \<Rightarrow> room_state list \<times> (string \<times> api_peer) list \<Rightarrow>
    svc_error + room_state list \<times> (string \<times> api_peer) list" where
  "map_rooms E now nodeID d [] acc = Inr acc"
| "map_rooms E now nodeID d (v # vs) (rooms, peers) =
     (let m = mv v; st = \<lparr>rs_RoomID = mb_RoomID m, rs_Status = mb_Status m, rs_Config = None, rs_UseExit = []\<rparr> in
      if \<not> active v then map_rooms E now nodeID d vs (rooms @ [st], peers)
      else bindE (db_err (RoomByID (env_kek E) (mb_RoomID m) d)) (\<lambda>r.
        let members = ListMembers (mb_RoomID m) d in
        case acl_Parse (env_unicode E) (rm_ACL r) of
          Inl e \<Rightarrow> Inl (ACLText e)
        | Inr rules \<Rightarrow> bindE (add_peers now nodeID d members peers) (\<lambda>peers'.
            map_rooms E now nodeID d vs (rooms @ [st\<lparr>rs_UseExit := mb_UseExit m,
              rs_Config := Some (SignRoomConfig (env_signer E) (rm_SignKey r) (room_config_of now r rules members))\<rparr>],
              peers'))))"

definition netMap :: "env \<Rightarrow> time \<Rightarrow> string \<Rightarrow> db \<Rightarrow> svc_error + netmap" where
  "netMap E now nodeID d = bindE (map_rooms E now nodeID d (Memberships nodeID d) ([], [])) (\<lambda>(rooms, peers).
     Inr \<lparr>nm_Version = db_version d, nm_ObservedIP = NoAddr, nm_Rooms = rooms, nm_Peers = peers\<rparr>)"

text \<open>\<^verbatim>\<open>Poll\<close> up to the point where it answers or waits: the endpoints are recorded, and either
  everyone's version is bumped or the poller (\<open>p\<close>) goes to the hub. The answer is the map at the
  time the wait ends (\<open>poll_answer\<close>).\<close>

definition poll_begin :: "env \<Rightarrow> time \<Rightarrow> bytes \<Rightarrow> nat \<Rightarrow> int \<Rightarrow> endpoints \<Rightarrow> string \<Rightarrow> addr \<Rightarrow> service \<Rightarrow>
    (svc_error + bytes) \<times> service" where
  "poll_begin E now nodeKey p since ep version remote s =
     (let i = node_id E nodeKey; d = svc_db s in
      case NodeByID i d of
        Inl _ \<Rightarrow> (Inl Forbidden, s)
      | Inr n \<Rightarrow> (case UpdateNodeEndpoints (unix now) i (reach_of ep remote version) d of
          Inl e \<Rightarrow> (Inl (StoreErr e), s)
        | Inr (changed, d1) \<Rightarrow>
            let s1 = s\<lparr>svc_db := d1, svc_paths := (i, ep_Paths ep) # filter (\<lambda>(k, _). k \<noteq> i) (svc_paths s)\<rparr>
            in if changed then change (\<lambda>d. Inr (nd_BoxKey n, d)) s1
               else (Inr (nd_BoxKey n), s1\<lparr>svc_hub := hub_wait p since (svc_hub s1)\<rparr>)))"

definition poll_answer :: "env \<Rightarrow> time \<Rightarrow> bytes \<Rightarrow> addr \<Rightarrow> service \<Rightarrow> svc_error + netmap" where
  "poll_answer E now nodeKey remote s = bindE (netMap E now (node_id E nodeKey) (svc_db s)) (\<lambda>nm.
     Inr (nm\<lparr>nm_ObservedIP := remote\<rparr>))"

definition svc_Paths :: "string \<Rightarrow> service \<Rightarrow> int \<times> int" where
  "svc_Paths i s = (case map_of (svc_paths s) i of None \<Rightarrow> (0, 0) | Some p \<Rightarrow> p)"

section \<open>Relay, secrets, outside changes\<close>

definition load_secret :: "kek \<Rightarrow> bytes \<Rightarrow> string \<Rightarrow> nat \<Rightarrow> bytes \<Rightarrow> db \<Rightarrow> svc_error + bytes \<times> db" where
  "load_secret K nonce key n fresh d = (case Setting K key d of
     Inr v \<Rightarrow> if length v = n then Inr (v, d) else Inr (fresh, SetSetting K nonce key fresh d)
   | Inl e \<Rightarrow> if e \<noteq> ErrNotFound then Inl (StoreErr e) else Inr (fresh, SetSetting K nonce key fresh d))"

definition RelayKey :: "env \<Rightarrow> bytes \<Rightarrow> bytes \<Rightarrow> service \<Rightarrow> (svc_error + bytes) \<times> service" where
  "RelayKey E nonce drawn s = (case load_secret (env_kek E) nonce ''relay_key'' 32 (clamp drawn) (svc_db s) of
     Inl e \<Rightarrow> (Inl e, s) | Inr (k, d) \<Rightarrow> (Inr k, s\<lparr>svc_db := d\<rparr>))"

definition VLESSSecrets :: "env \<Rightarrow> bytes \<Rightarrow> bytes \<Rightarrow> bytes \<Rightarrow> bytes \<Rightarrow> bytes \<Rightarrow> bytes \<Rightarrow> service \<Rightarrow>
    (svc_error + bytes \<times> bytes \<times> bytes) \<times> service" where
  "VLESSSecrets E n1 n2 n3 f1 f2 f3 s =
     (case bindE (load_secret (env_kek E) n1 ''reality_key'' 32 f1 (svc_db s)) (\<lambda>(a, d1).
           bindE (load_secret (env_kek E) n2 ''reality_short_id'' 8 f2 d1) (\<lambda>(b, d2).
           bindE (load_secret (env_kek E) n3 ''vless_user'' 16 f3 d2) (\<lambda>(c, d3). Inr ((a, b, c), d3)))) of
        Inl e \<Rightarrow> (Inl e, s) | Inr (x, d) \<Rightarrow> (Inr x, s\<lparr>svc_db := d\<rparr>))"

definition relayAuth :: "db \<Rightarrow> authorizer" where
  "relayAuth d = \<lparr>auth_Node = (\<lambda>key. case NodeByDiscoKey key d of Inl _ \<Rightarrow> None | Inr i \<Rightarrow> Some i),
     auth_CanSend = (\<lambda>a b. ShareActiveRoom a b d)\<rparr>"

text \<open>One tick of \<^verbatim>\<open>WatchExternalChanges\<close>.\<close>

definition watch_tick :: "service \<Rightarrow> service" where
  "watch_tick s = s\<lparr>svc_hub := hub_set (db_version (svc_db s)) (svc_hub s)\<rparr>"

section \<open>Reasoning about transactions\<close>

lemma bindE_Inr [simp]: "bindE m f = Inr y \<longleftrightarrow> (\<exists>x. m = Inr x \<and> f x = Inr y)"
  by (auto simp: bindE_def split: sum.splits)

lemma db_err_Inr [simp]: "db_err m = Inr y \<longleftrightarrow> m = Inr y"
  by (auto simp: db_err_def split: sum.splits)

lemma guard_Inr [simp]: "guard b e = Inr y \<longleftrightarrow> b"
  by (simp add: guard_def)

lemma audited_Inr [simp]: "audited now a b c x d = Inr y \<longleftrightarrow> y = (x, Audit (unix now) a b c [] d)"
  by (auto simp: audited_def)

lemma roomFor_Inr: "roomFor E u i d = Inr r \<longleftrightarrow> RoomByID (env_kek E) i d = Inr r \<and> canManage u r"
  by (auto simp: roomFor_def split: if_splits)

text \<open>A transaction that fails changes nothing; one that succeeds keeps what its body keeps.\<close>

lemma change_Inl [simp]: "fst (change f s) = Inl e \<longleftrightarrow> f (svc_db s) = Inl e"
  by (auto simp: change_def BumpVersion_def split: sum.splits)

lemma change_fails: "fst (change f s) = Inl e \<Longrightarrow> snd (change f s) = s"
  by (auto simp: change_def BumpVersion_def split: sum.splits)

lemma change_cases:
  obtains e where "f (svc_db s) = Inl e" "change f s = (Inl e, s)"
  | x d where "f (svc_db s) = Inr (x, d)" "change f s = (Inr x, s\<lparr>svc_db := d\<lparr>db_version := db_version d + 1\<rparr>,
      svc_hub := hub_set (db_version d + 1) (svc_hub s)\<rparr>)"
  by (cases "f (svc_db s)") (auto simp: change_def BumpVersion_def)

end
