(* ===== verification/Controller_Inv.thy ===== *)
theory Controller_Inv
  imports Controller
begin

text \<open>
  The invariant of the controller's database and its preservation by every operation of the
  service: the schema holds, every room has a proper private IPv4 subnet of its own that
  overlaps with no other, every member has a host address of its room and only routes that are
  valid and outside of it, DNS servers are valid and at most three, and a room's identifier is
  the one its secret determines.
\<close>

section \<open>The invariant\<close>

definition room_ok :: "env \<Rightarrow> room \<Rightarrow> bool" where
  "room_ok E r \<longleftrightarrow> v4_net (rm_Subnet r) \<and> 16 \<le> pfx_bits (rm_Subnet r) \<and> pfx_bits (rm_Subnet r) \<le> 29 \<and>
     length (rm_DNS r) \<le> MaxDNS \<and> (\<forall>a \<in> set (rm_DNS r). ValidDNS a) \<and>
     (\<forall>x. tx_open (env_kek E) (rm_Secret r) = Inr x \<longrightarrow> length x = 32 \<and> RoomID (sg_hkdf (env_signer E)) x = rm_ID r)"

definition member_ok :: "prefix \<Rightarrow> member \<Rightarrow> bool" where
  "member_ok p m \<longleftrightarrow> usableHost p (mb_IP m) \<and> (\<forall>q \<in> set (mb_Routes m). ValidRoute q \<and> \<not> overlaps q p)"

definition rooms_apart :: "room \<Rightarrow> room \<Rightarrow> bool" where
  "rooms_apart a b = (\<not> overlaps (rm_Subnet a) (rm_Subnet b))"

definition db_inv :: "env \<Rightarrow> db \<Rightarrow> bool" where
  "db_inv E d \<longleftrightarrow> schema_ok d \<and> (\<forall>r \<in> set (db_rooms d). room_ok E r) \<and> sorted_wrt rooms_apart (db_rooms d) \<and>
     (\<forall>n \<in> set (db_nodes d). \<forall>q \<in> set (rch_Routes (nd_reach n)). ValidRoute q) \<and>
     (\<forall>m \<in> set (db_members d). \<forall>r \<in> set (db_rooms d). rm_ID r = mb_RoomID m \<longrightarrow> member_ok (rm_Subnet r) m) \<and>
     (\<forall>v \<in> set (db_invites d). -1 \<le> inv_UsesLeft v)"

lemma db_inv_empty: "db_inv E empty_db"
  by (simp add: db_inv_def schema_ok_empty) (simp add: empty_db_def)

lemma db_inv_schema: "db_inv E d \<Longrightarrow> schema_ok d"
  by (simp add: db_inv_def)

lemma db_inv_frame [simp]:
  "db_inv E (d\<lparr>db_version := v\<rparr>) = db_inv E d" "db_inv E (d\<lparr>db_settings := st\<rparr>) = db_inv E d"
  "db_inv E (d\<lparr>db_audit := au\<rparr>) = db_inv E d"
  by (simp_all add: db_inv_def)

section \<open>Statements\<close>

lemma db_inv_Audit [go_inv]: "db_inv E (Audit t a b c e d) = db_inv E d"
  by (simp add: Audit_def)

lemma db_inv_BumpVersion [go_inv]: "db_inv E (snd (BumpVersion d)) = db_inv E d"
  by (simp add: BumpVersion_def)

lemma sorted_wrt_map_upd:
  assumes "\<And>x y. R (f x) (f y) = R x y"
  shows "sorted_wrt R (map f xs) = sorted_wrt R xs"
  using assms by (simp add: sorted_wrt_map)

text \<open>A room update that keeps identity, owner, subnet and secrets.\<close>

definition keeps_room :: "env \<Rightarrow> (room \<Rightarrow> room) \<Rightarrow> bool" where
  "keeps_room E f \<longleftrightarrow> (\<forall>r. rm_ID (f r) = rm_ID r \<and> rm_OwnerID (f r) = rm_OwnerID r \<and> rm_Subnet (f r) = rm_Subnet r \<and>
     (room_ok E r \<longrightarrow> room_ok E (f r)))"

lemma db_inv_upd_room:
  assumes "keeps_room E f" "db_inv E d"
  shows "db_inv E (upd_room i f d)"
proof -
  let ?g = "\<lambda>r. if rm_ID r = i then f r else r"
  have f: "rm_ID (f r) = rm_ID r" "rm_OwnerID (f r) = rm_OwnerID r" "rm_Subnet (f r) = rm_Subnet r"
    "room_ok E r \<Longrightarrow> room_ok E (f r)" for r
    using assms(1) by (auto simp: keeps_room_def)
  have g: "rm_ID (?g r) = rm_ID r" "rm_Subnet (?g r) = rm_Subnet r" for r using f by auto
  have "sorted_wrt rooms_apart (map ?g (db_rooms d))"
    using assms(2) sorted_wrt_map_upd [of rooms_apart ?g "db_rooms d"] g by (simp add: db_inv_def rooms_apart_def)
  moreover have "schema_ok (upd_room i f d)"
    using assms(2) schema_ok_upd_room [of f i d] f by (simp add: db_inv_def)
  moreover have "\<forall>r \<in> set (map ?g (db_rooms d)). room_ok E r"
    using assms(2) f(4) by (auto simp: db_inv_def)
  moreover have "\<forall>m \<in> set (db_members d). \<forall>r \<in> set (map ?g (db_rooms d)). rm_ID r = mb_RoomID m \<longrightarrow> member_ok (rm_Subnet r) m"
    using assms(2) f(1,3) by (auto simp: db_inv_def)
  ultimately show ?thesis using assms(2) by (simp add: db_inv_def upd_room_def)
qed

lemma openRoom_Inr: "openRoom K r = Inr r' \<Longrightarrow>
  \<exists>s k. tx_open K (rm_Secret r) = Inr s \<and> r' = r\<lparr>rm_Secret := s, rm_SignKey := k\<rparr>"
  by (auto simp: openRoom_def split: sum.splits)

lemma keeps_room_stmts:
  "keeps_room E (\<lambda>r. r\<lparr>rm_Name := n, rm_JoinPolicy := p, rm_Broadcast := b\<rparr>)"
  "keeps_room E (\<lambda>r. r\<lparr>rm_DHT := on\<rparr>)" "keeps_room E (\<lambda>r. r\<lparr>rm_ACL := acl\<rparr>)"
  "keeps_room E (\<lambda>r. r\<lparr>rm_Version := rm_Version r + 1\<rparr>)"
  "length dns \<le> MaxDNS \<Longrightarrow> \<forall>a \<in> set dns. ValidDNS a \<Longrightarrow> keeps_room E (\<lambda>r. r\<lparr>rm_DNS := dns\<rparr>)"
  by (simp_all add: keeps_room_def room_ok_def)

lemma db_inv_room_stmts [go_inv]:
  "db_inv E d \<Longrightarrow> db_inv E (tx_UpdateRoom i n p b d)" "db_inv E d \<Longrightarrow> db_inv E (tx_SetRoomDHT i on d)"
  "db_inv E d \<Longrightarrow> db_inv E (tx_SetRoomACL i acl d)" "db_inv E d \<Longrightarrow> db_inv E (BumpRoom i d)"
  "length dns \<le> MaxDNS \<Longrightarrow> \<forall>a \<in> set dns. ValidDNS a \<Longrightarrow> db_inv E d \<Longrightarrow> db_inv E (tx_SetRoomDNS i dns d)"
  unfolding tx_UpdateRoom_def tx_SetRoomDHT_def tx_SetRoomACL_def BumpRoom_def tx_SetRoomDNS_def
  by (rule db_inv_upd_room; simp add: keeps_room_stmts)+

lemma db_inv_DeleteRoom [go_inv]: "db_inv E d \<Longrightarrow> db_inv E (tx_DeleteRoom i d)"
  using schema_ok_DeleteRoom [of d i]
  by (auto simp: db_inv_def tx_DeleteRoom_def sorted_wrt_filter)

lemma db_inv_DeleteMember [go_inv]: "db_inv E d \<Longrightarrow> db_inv E (DeleteMember r n d)"
  using schema_ok_DeleteMember [of d r n] by (auto simp: db_inv_def DeleteMember_def)

lemma db_inv_RevokeInvite [go_inv]: "db_inv E d \<Longrightarrow> db_inv E (tx_RevokeInvite r i d)"
  using schema_ok_misc_stmts(6) [of r i d] by (auto simp: db_inv_def tx_RevokeInvite_def)

lemma db_inv_UseInvite [go_inv]:
  assumes "db_inv E d" "UseInvite now r h d = Inr (v, d')"
  shows "db_inv E d'"
proof -
  have s: "schema_ok d'" using assms schema_ok_UseInvite [OF assms(2)] by (simp add: db_inv_def)
  obtain w where w: "find_row (\<lambda>v. inv_RoomID v = r \<and> inv_TokenHash v = h \<and> live_invite now v) (db_invites d) = Inr w"
    using assms(2) by (auto simp: UseInvite_def split: sum.splits)
  have w': "w \<in> set (db_invites d)" using find_row_Inr [OF w] by blast
  show ?thesis
  proof (cases "0 < inv_UsesLeft w")
    case True
    then have d': "d' = d\<lparr>db_invites := map (\<lambda>x. if inv_ID x = inv_ID w then x\<lparr>inv_UsesLeft := inv_UsesLeft x - 1\<rparr> else x) (db_invites d)\<rparr>"
      using assms(2) w by (auto simp: UseInvite_def)
    have "x = w" if "x \<in> set (db_invites d)" "inv_ID x = inv_ID w" for x
      using that w' assms(1) by (auto simp: db_inv_def schema_ok_def distinct_map inj_on_def)
    then have "0 < inv_UsesLeft x" if "x \<in> set (db_invites d)" "inv_ID x = inv_ID w" for x
      using that True by blast
    then have "\<forall>x \<in> set (db_invites d'). -1 \<le> inv_UsesLeft x"
      using assms(1) by (fastforce simp: d' db_inv_def)
    with s show ?thesis using assms(1) by (simp add: db_inv_def d')
  next
    case False
    then show ?thesis using assms w by (simp add: UseInvite_def)
  qed
qed

lemma db_inv_CreateInvite [go_inv]:
  assumes "db_inv E d" "tx_CreateInvite now v d = Inr d'" "-1 \<le> inv_UsesLeft v"
  shows "db_inv E d'"
  using assms schema_ok_CreateInvite [OF _ assms(2)]
  by (auto simp: db_inv_def tx_CreateInvite_def split: if_splits)

lemma db_inv_UpsertNode [go_inv]:
  assumes "db_inv E d" "UpsertNode now n d = Inr d'" "\<forall>q \<in> set (rch_Routes (nd_reach n)). ValidRoute q"
  shows "db_inv E d'"
  using assms schema_ok_UpsertNode [OF _ assms(2)]
  by (auto simp: db_inv_def UpsertNode_def split: if_splits)

lemma db_inv_UpdateNodeEndpoints [go_inv]:
  assumes "db_inv E d" "UpdateNodeEndpoints now i r d = Inr (c, d')" "\<forall>q \<in> set (rch_Routes r). ValidRoute q"
  shows "db_inv E d'"
  using assms schema_ok_UpdateNodeEndpoints [OF assms(2)]
  by (auto simp: db_inv_def UpdateNodeEndpoints_def split: sum.splits)

lemma db_inv_AddMember [go_inv]:
  assumes "db_inv E d" "AddMember now m d = Inr d'" "r \<in> set (db_rooms d)" "rm_ID r = mb_RoomID m"
    "usableHost (rm_Subnet r) (mb_IP m)"
  shows "db_inv E d'"
proof -
  have s: "schema_ok d'" using assms schema_ok_AddMember by (auto simp: db_inv_def)
  let ?m = "m\<lparr>mb_CreatedAt := now, mb_Routes := [], mb_Exit := False, mb_UseExit := []\<rparr>"
  have d: "distinct (map rm_ID (db_rooms d))" using assms(1) by (simp add: db_inv_def schema_ok_def)
  have "member_ok (rm_Subnet x) ?m" if "x \<in> set (db_rooms d)" "rm_ID x = mb_RoomID m" for x
  proof -
    have "x = r" using that assms(3,4) d unfolding distinct_map inj_on_def by metis
    then show ?thesis using assms(5) by (simp add: member_ok_def)
  qed
  moreover have "d' = d\<lparr>db_members := db_members d @ [?m]\<rparr>"
    using assms(2) by (auto simp: AddMember_def split: if_splits)
  ultimately show ?thesis using s assms(1) by (auto simp: db_inv_def)
qed

lemma db_inv_UpdateMember [go_inv]:
  assumes "db_inv E d" "tx_UpdateMember m d = Inr d'" "\<And>r. r \<in> set (db_rooms d) \<Longrightarrow> rm_ID r = mb_RoomID m \<Longrightarrow> member_ok (rm_Subnet r) m"
  shows "db_inv E d'"
proof -
  have s: "schema_ok d'" using assms schema_ok_UpdateMember by (auto simp: db_inv_def)
  have d': "d' = d\<lparr>db_members := map (\<lambda>o'. if same_key m o' then set_columns m o' else o') (db_members d)\<rparr>"
    using assms(2) by (auto simp: tx_UpdateMember_def split: if_splits)
  have "member_ok p (set_columns m o') = member_ok p m" for p o' by (simp add: member_ok_def set_columns_def)
  moreover have "mb_RoomID (set_columns m o') = mb_RoomID o'" for o' by (simp add: set_columns_def)
  ultimately show ?thesis
    using s assms(1,3) by (auto simp: db_inv_def d' same_key_def)
qed

definition env_ok :: "env \<Rightarrow> bool" where
  "env_ok E \<longleftrightarrow> (case env_kek E of None \<Rightarrow> True | Some a \<Rightarrow> aead_ok a)"

definition nonce_ok :: "env \<Rightarrow> bytes \<Rightarrow> bool" where
  "nonce_ok E n \<longleftrightarrow> (case env_kek E of None \<Rightarrow> True | Some a \<Rightarrow> length n = aead_nonceSize a)"

lemma open_sealed: "env_ok E \<Longrightarrow> nonce_ok E n \<Longrightarrow> tx_open (env_kek E) (tx_seal (env_kek E) n v) = Inr x \<Longrightarrow> x = v"
  by (cases "env_kek E")
    (auto simp: env_ok_def nonce_ok_def tx_open_seal, auto simp: tx_open_def tx_seal_def split: if_splits)

lemma db_inv_CreateRoom [go_inv]:
  assumes "db_inv E d" "tx_CreateRoom (env_kek E) now n1 n2 r d = Inr d'" "env_ok E" "nonce_ok E n1"
    "v4_net (rm_Subnet r)" "16 \<le> pfx_bits (rm_Subnet r)" "pfx_bits (rm_Subnet r) \<le> 29"
    "\<forall>u \<in> set (AllSubnets d). \<not> overlaps u (rm_Subnet r)"
    "rm_ID r = RoomID (sg_hkdf (env_signer E)) (rm_Secret r)" "length (rm_Secret r) = 32"
  shows "db_inv E d'"
proof -
  have s: "schema_ok d'" using assms schema_ok_CreateRoom by (auto simp: db_inv_def)
  have d': "rm_ID r \<notin> rm_ID ` set (db_rooms d)"
    "d' = d\<lparr>db_rooms := db_rooms d @ [r\<lparr>rm_Secret := tx_seal (env_kek E) n1 (rm_Secret r),
        rm_SignKey := tx_seal (env_kek E) n2 (rm_SignKey r), rm_Broadcast := ''on'', rm_DNS := [], rm_ACL := [],
        rm_DHT := False, rm_Version := 1, rm_CreatedAt := now\<rparr>]\<rparr>"
    using assms(2) by (auto simp: tx_CreateRoom_def split: if_splits)
  have new: "rm_ID r \<noteq> mb_RoomID m" if "m \<in> set (db_members d)" for m
  proof -
    have "mb_RoomID m \<in> rm_ID ` set (db_rooms d)"
      using that assms(1) by (auto simp: db_inv_def schema_ok_def)
    with d'(1) show ?thesis by metis
  qed
  show ?thesis
    using s assms(1,5-10) new open_sealed [OF assms(3,4), of "rm_Secret r"]
    by (auto simp: db_inv_def d' room_ok_def sorted_wrt_append rooms_apart_def AllSubnets_def)
qed

section \<open>Operations\<close>

lemma change_db_inv:
  assumes "db_inv E (svc_db s)" "\<And>x d. f (svc_db s) = Inr (x, d) \<Longrightarrow> db_inv E d"
  shows "db_inv E (svc_db (snd (change f s)))"
  by (rule change_cases [of f s]) (use assms in auto)

lemma RoomByID_Inr:
  assumes "RoomByID K i d = Inr r"
  obtains r0 s k where "r0 \<in> set (db_rooms d)" "rm_ID r0 = i" "tx_open K (rm_Secret r0) = Inr s"
    "tx_open K (rm_SignKey r0) = Inr k" "r = r0\<lparr>rm_Secret := s, rm_SignKey := k\<rparr>"
proof -
  obtain r0 where r0: "find_row (\<lambda>r. rm_ID r = i) (db_rooms d) = Inr r0" "openRoom K r0 = Inr r"
    using assms by (auto simp: RoomByID_def split: sum.splits)
  obtain s k where "tx_open K (rm_Secret r0) = Inr s" "tx_open K (rm_SignKey r0) = Inr k"
    "r = r0\<lparr>rm_Secret := s, rm_SignKey := k\<rparr>"
    using r0(2) by (auto simp: openRoom_def split: sum.splits)
  with that find_row_Inr [OF r0(1)] show ?thesis by blast
qed

lemma Member_Inr:
  assumes "Member i n d = Inr v"
  shows "mv v \<in> set (db_members d)" "mb_RoomID (mv v) = i" "mb_NodeID (mv v) = n"
    "\<exists>x \<in> set (db_nodes d). nd_ID x = n \<and> mv_reach v = nd_reach x"
  using assms
  by (auto simp: Member_def view_of_def dest!: find_row_Inr find_SomeD split: sum.splits option.splits)

lemma choose_subnet_Inr:
  assumes "choose_subnet sn draws used = Inr p"
  shows "v4_net p" "16 \<le> pfx_bits p" "pfx_bits p \<le> 29" "\<forall>u \<in> set used. \<not> overlaps u p"
proof -
  have "v4_net p \<and> 16 \<le> pfx_bits p \<and> pfx_bits p \<le> 29 \<and> (\<forall>u \<in> set used. \<not> overlaps u p)"
  proof (cases "trim_space sn = []")
    case True
    then have "pickSubnet draws used = Some p"
      using assms by (auto simp: choose_subnet_def split: option.splits)
    then show ?thesis using pickSubnet_some v4_net_block block_bits(1) by fastforce
  next
    case False
    then obtain q where q: "is4 (pfx_addr q)" "16 \<le> pfx_bits q" "pfx_bits q \<le> 29" "p = masked q"
      "\<forall>u \<in> set used. \<not> overlaps u q"
      using assms by (auto simp: choose_subnet_def Let_def list_ex_iff not_less split: option.splits if_splits)
    then have "pfx_valid q" by (simp add: pfx_valid_def)
    then have "pfx_bits p = pfx_bits q" "is4 (pfx_addr p)"
      using q by (auto simp: masked_def is4_def split: addr.splits)
    then show ?thesis using q \<open>pfx_valid q\<close> by (simp add: v4_net_def pfx_valid_def overlaps_masked)
  qed
  then show "v4_net p" "16 \<le> pfx_bits p" "pfx_bits p \<le> 29" "\<forall>u \<in> set used. \<not> overlaps u p" by auto
qed

lemma parse_servers_ok:
  "parse_servers dns fs = Inr dns' \<Longrightarrow> \<forall>a \<in> set dns. ValidDNS a \<Longrightarrow> \<forall>a \<in> set dns'. ValidDNS a"
  by (induction dns fs arbitrary: dns' rule: parse_servers.induct) (auto split: option.splits if_splits)

lemma reach_of_routes: "\<forall>q \<in> set (rch_Routes (reach_of e a v)). ValidRoute q"
proof -
  have "\<forall>q \<in> set (fold add_route ps []). ValidRoute q" for ps
    by (rule fold_invariant [where Q = "\<lambda>_. True" and P = "\<lambda>rs. \<forall>q \<in> set rs. ValidRoute q"])
      (auto simp: add_route_def split: if_splits)
  then show ?thesis by (simp add: reach_of_def)
qed

lemma join_node_routes: "rch_Routes (nd_reach (join_node E k req a)) = []"
  by (simp add: join_node_def empty_reach_def)

lemma RoomByID_subnet:
  assumes "db_inv E d" "RoomByID (env_kek E) i d = Inr r"
  shows "rm_ID r = i" "\<exists>r0 \<in> set (db_rooms d). rm_ID r0 = i \<and> rm_Subnet r0 = rm_Subnet r"
    "x \<in> set (db_rooms d) \<Longrightarrow> rm_ID x = i \<Longrightarrow> rm_Subnet x = rm_Subnet r"
proof -
  obtain r0 s k where r0: "r0 \<in> set (db_rooms d)" "rm_ID r0 = i" "r = r0\<lparr>rm_Secret := s, rm_SignKey := k\<rparr>"
    using RoomByID_Inr [OF assms(2)] by metis
  then show "rm_ID r = i" "\<exists>r0 \<in> set (db_rooms d). rm_ID r0 = i \<and> rm_Subnet r0 = rm_Subnet r" by auto
  assume x: "x \<in> set (db_rooms d)" "rm_ID x = i"
  have "inj_on rm_ID (set (db_rooms d))" using assms(1) by (simp add: db_inv_def schema_ok_def distinct_map)
  with x r0 have "x = r0" by (metis inj_onD)
  with r0 show "rm_Subnet x = rm_Subnet r" by simp
qed

lemma member_ok_member:
  assumes "db_inv E d" "Member i n d = Inr v" "r \<in> set (db_rooms d)" "rm_ID r = i"
  shows "member_ok (rm_Subnet r) (mv v)"
  using assms Member_Inr [OF assms(2)] by (auto simp: db_inv_def)

lemma member_routes_valid:
  assumes "db_inv E d" "Member i n d = Inr v"
  shows "\<forall>q \<in> set (rch_Routes (mv_reach v)). ValidRoute q"
  using assms Member_Inr(4) [OF assms(2)] by (auto simp: db_inv_def)

lemma CreateRoom_inv:
  assumes "db_inv E (svc_db s)" "env_ok E" "nonce_ok E (rd_nonce1 w)" "length (rd_secret w) = 32"
  shows "db_inv E (svc_db (snd (CreateRoom E now u name subnet policy w s)))"
proof -
  have "db_inv E d1"
    if "choose_subnet subnet (rd_subnets w) (AllSubnets (svc_db s)) = Inr p"
      "tx_CreateRoom (env_kek E) t (rd_nonce1 w) (rd_nonce2 w) (new_room E u nm policy w p) (svc_db s) = Inr d1" for p t nm d1
    by (rule db_inv_CreateRoom [OF assms(1) that(2) assms(2,3)])
      (use choose_subnet_Inr [OF that(1)] assms(4) in \<open>simp_all add: new_room_def\<close>)
  then show ?thesis
    using assms(1) unfolding CreateRoom_def
    by (auto split: sum.splits intro!: change_db_inv simp: Let_def db_inv_Audit)
qed

lemma room_change_inv:
  assumes "db_inv E (svc_db s)" "\<And>d. db_inv E d \<Longrightarrow> db_inv E (f d)"
  shows "db_inv E (svc_db (snd (room_change E now u i act f s)))"
  using assms unfolding room_change_def
  by (auto intro!: change_db_inv simp: db_inv_Audit db_inv_room_stmts)

lemma room_settings_inv:
  assumes "db_inv E (svc_db s)"
  shows "db_inv E (svc_db (snd (UpdateRoom E now u i name policy bc s)))"
    "db_inv E (svc_db (snd (SetRoomDNS E now u i servers s)))"
    "db_inv E (svc_db (snd (SetRoomDHT E now u i on s)))"
    "db_inv E (svc_db (snd (SetRoomACL E now u i text s)))"
    "db_inv E (svc_db (snd (DeleteRoom E now u i s)))"
    "db_inv E (svc_db (snd (RevokeInvite E now u i k s)))"
  using assms parse_servers_ok [of "[]"] unfolding UpdateRoom_def SetRoomDNS_def SetRoomDHT_def SetRoomACL_def DeleteRoom_def RevokeInvite_def
  by (auto simp: Let_def db_inv_Audit db_inv_room_stmts db_inv_DeleteRoom db_inv_RevokeInvite not_less
      intro!: room_change_inv change_db_inv split: sum.splits)

lemma CreateInvite_inv:
  assumes "db_inv E (svc_db s)"
  shows "db_inv E (svc_db (snd (CreateInvite E now u url i uses ttl auto' note raw s)))"
proof -
  have "db_inv E d1" if "tx_CreateInvite t v (svc_db s) = Inr d1" "-1 \<le> inv_UsesLeft v" for t v d1
    using db_inv_CreateInvite [OF assms that] .
  then show ?thesis
    using assms unfolding CreateInvite_def
    by (fastforce simp: Let_def db_inv_Audit intro!: change_db_inv)
qed

lemma SetMemberExit_inv:
  assumes "db_inv E (svc_db s)"
  shows "db_inv E (svc_db (snd (SetMemberExit E now u i n x s)))"
proof -
  have "db_inv E d1" if v: "Member i n (svc_db s) = Inr v"
    "tx_UpdateMember ((mv v)\<lparr>mb_UseExit := x\<rparr>) (svc_db s) = Inr d1" for v d1
    by (rule db_inv_UpdateMember [OF assms v(2)])
      (use member_ok_member [OF assms v(1)] Member_Inr [OF v(1)] in \<open>auto simp: member_ok_def\<close>)
  then show ?thesis
    using assms unfolding SetMemberExit_def
    by (auto simp: db_inv_Audit db_inv_room_stmts intro!: change_db_inv)
qed

lemma apply_action_inv:
  assumes inv: "db_inv E d" and v: "Member i n d = Inr v" and a: "apply_action E i n act v d = Inr d1"
  shows "db_inv E d1"
proof -
  have upd: "db_inv E d1" if "tx_UpdateMember m d = Inr d1" "mb_RoomID m = i"
    "\<And>r. r \<in> set (db_rooms d) \<Longrightarrow> rm_ID r = i \<Longrightarrow> member_ok (rm_Subnet r) m" for m
    using db_inv_UpdateMember [OF inv that(1)] that(2,3) by auto
  have m: "mb_RoomID (mv v) = i" "\<And>r. r \<in> set (db_rooms d) \<Longrightarrow> rm_ID r = i \<Longrightarrow> member_ok (rm_Subnet r) (mv v)"
    using Member_Inr [OF v] member_ok_member [OF inv v] by auto
  have routes: "member_ok (rm_Subnet x) ((mv v)\<lparr>mb_Routes := filter (\<lambda>p. \<not> overlaps p (rm_Subnet r)) (rch_Routes (mv_reach v))\<rparr>)"
    if "RoomByID (env_kek E) i d = Inr r" "x \<in> set (db_rooms d)" "rm_ID x = i" for r x
    using m(2) [OF that(2,3)] RoomByID_subnet(3) [OF inv that] member_routes_valid [OF inv v]
    by (auto simp: member_ok_def)
  show ?thesis
    using a inv m
    by (cases act)
      (auto simp: apply_action_def Let_def member_ok_def db_inv_DeleteMember intro: upd routes split: if_splits)
qed

lemma MemberAction_inv:
  assumes "db_inv E (svc_db s)"
  shows "db_inv E (svc_db (snd (MemberAction E now u i n act s)))"
  using assms apply_action_inv unfolding MemberAction_def
  by (auto simp: db_inv_Audit intro!: change_db_inv db_inv_room_stmts)

lemma UpdateMember_inv:
  assumes "db_inv E (svc_db s)"
  shows "db_inv E (svc_db (snd (UpdateMember E now u i n name ip tags s)))"
proof -
  have "db_inv E d1" if r: "roomFor E u i (svc_db s) = Inr r" and v: "Member i n (svc_db s) = Inr v"
    and d1: "tx_UpdateMember m (svc_db s) = Inr d1"
    and m: "usableHost (rm_Subnet r) (mb_IP m)" "mb_RoomID m = mb_RoomID (mv v)" "mb_Routes m = mb_Routes (mv v)"
    for r v m d1
  proof (rule db_inv_UpdateMember [OF assms d1])
    fix x assume x: "x \<in> set (db_rooms (svc_db s))" "rm_ID x = mb_RoomID m"
    then have "rm_ID x = i" using Member_Inr [OF v] m(2) by simp
    moreover have "rm_Subnet x = rm_Subnet r"
      using RoomByID_subnet(3) [OF assms _ x(1) \<open>rm_ID x = i\<close>] r by (auto simp: roomFor_Inr)
    ultimately show "member_ok (rm_Subnet x) m"
      using member_ok_member [OF assms v x(1)] m by (simp add: member_ok_def)
  qed
  note upd = this
  have "db_inv E d" if r: "roomFor E u i (svc_db s) = Inr r" and v: "Member i n (svc_db s) = Inr v"
    and b: "(case parse_addr (trim_space ip) of
            None \<Rightarrow> Inl (Invalid BadMemberIP)
          | Some a \<Rightarrow>
              if \<not> usableHost (rm_Subnet r) a then Inl (Invalid BadMemberIP)
              else bindE (g a) (\<lambda>_.
                bindE (db_err (tx_UpdateMember ((mv v)\<lparr>mb_Name := nm, mb_IP := a, mb_Tags := tg\<rparr>) (svc_db s))) (\<lambda>d1.
                audited now l act i () (BumpRoom i d1)))) = Inr (x, d)" for r v g nm tg l act x d
  proof -
    obtain a where a: "parse_addr (trim_space ip) = Some a" using b by (cases "parse_addr (trim_space ip)") auto
    with b have us: "usableHost (rm_Subnet r) a" by (auto split: if_splits)
    with a b obtain d1 where d1: "tx_UpdateMember ((mv v)\<lparr>mb_Name := nm, mb_IP := a, mb_Tags := tg\<rparr>) (svc_db s) = Inr d1"
      "d = Audit (unix now) l act i [] (BumpRoom i d1)" by auto
    have "db_inv E d1" by (rule upd [OF r v d1(1)]) (use us in simp_all)
    with d1(2) show ?thesis by (simp add: db_inv_Audit db_inv_room_stmts)
  qed
  note body = this
  show ?thesis
    using assms unfolding UpdateMember_def Let_def
    by (simp split: sum.split) (auto intro!: change_db_inv intro: body)
qed

lemma RoomByID_subnet_cong:
  "db_rooms d' = db_rooms d \<Longrightarrow> RoomByID K i d' = RoomByID K i d"
  by (simp add: RoomByID_def)

lemma UseInvite_frame:
  "UseInvite now i h d = Inr (v, d') \<Longrightarrow> db_rooms d' = db_rooms d \<and> db_members d' = db_members d \<and> db_nodes d' = db_nodes d"
  by (auto simp: UseInvite_def split: sum.splits if_splits)

lemma UpsertNode_frame:
  "UpsertNode now n d = Inr d' \<Longrightarrow> db_rooms d' = db_rooms d \<and> db_members d' = db_members d \<and> db_invites d' = db_invites d"
  by (auto simp: UpsertNode_def split: if_splits)

lemma UpdateNodeEndpoints_frame:
  "UpdateNodeEndpoints now i r d = Inr (c, d') \<Longrightarrow>
    db_rooms d' = db_rooms d \<and> db_members d' = db_members d \<and> db_invites d' = db_invites d"
  by (auto simp: UpdateNodeEndpoints_def split: sum.splits)

lemma join_member_Inr:
  assumes "join_member E now mx n req r d = Inr (x, d')"
  obtains iv d1 ip d2 where "UseInvite (unix now) (rm_ID r) (hashToken E (jr_Token req)) d = Inr (iv, d1)"
    "mx \<le> 0 \<or> int (length (ListMembers (rm_ID r) d1)) < mx"
    "allocateIP (rm_Subnet r) (map (\<lambda>v. mb_IP (mv v)) (ListMembers (rm_ID r) d1)) = Some ip"
    "AddMember (unix now) (join_row r n req ip (join_status iv r)) d1 = Inr d2"
    "x = \<lparr>jresp_Status = join_status iv r, jresp_RoomName = rm_Name r\<rparr>"
    "d' = Audit (unix now) (''node:'' @ n) ''member.join'' (rm_ID r) [] (BumpRoom (rm_ID r) d2)"
  using assms by (auto simp: join_member_def Let_def not_less not_le split: sum.splits option.splits if_splits)

lemma join_member_inv:
  assumes inv: "db_inv E d" and r: "RoomByID (env_kek E) i d = Inr r" and j: "join_member E now mx n req r d = Inr (x, d')"
  shows "db_inv E d'"
proof (rule join_member_Inr [OF j])
  fix iv d1 ip d2
  assume u: "UseInvite (unix now) (rm_ID r) (hashToken E (jr_Token req)) d = Inr (iv, d1)"
    and ip: "allocateIP (rm_Subnet r) (map (\<lambda>v. mb_IP (mv v)) (ListMembers (rm_ID r) d1)) = Some ip"
    and m: "AddMember (unix now) (join_row r n req ip (join_status iv r)) d1 = Inr d2"
    and d': "d' = Audit (unix now) (''node:'' @ n) ''member.join'' (rm_ID r) [] (BumpRoom (rm_ID r) d2)"
  have i1: "db_inv E d1" using db_inv_UseInvite [OF inv u] .
  have fr: "db_rooms d1 = db_rooms d" using UseInvite_frame [OF u] by simp
  obtain r0 where r0: "r0 \<in> set (db_rooms d)" "rm_ID r0 = i" "rm_Subnet r0 = rm_Subnet r"
    using RoomByID_subnet(2) [OF inv r] by blast
  have "db_inv E d2"
    by (rule db_inv_AddMember [OF i1 m, of r0])
      (use r0 fr allocateIP_some [OF ip] RoomByID_subnet(1) [OF inv r] in \<open>simp_all add: join_row_def\<close>)
  then show ?thesis unfolding d' by (simp add: db_inv_Audit db_inv_room_stmts)
qed

lemma Join_inv:
  assumes "db_inv E (svc_db s)"
  shows "db_inv E (svc_db (snd (Join E now key req remote s)))"
proof -
  let ?n = "node_id E key"
  have *: "db_inv E d2 \<and> RoomByID (env_kek E) (jr_RoomID req) d2 = Inr r"
    if r: "RoomByID (env_kek E) (jr_RoomID req) (svc_db s) = Inr r"
      and d1: "UpsertNode (unix now) (join_node E key req remote) (svc_db s) = Inr d1"
      and d2: "UpdateNodeEndpoints (unix now) ?n (reach_of ep remote ver) d1 = Inr (c, d2)" for r d1 d2 c ep ver
  proof -
    have "db_inv E d1" using db_inv_UpsertNode [OF assms d1] by (simp add: join_node_routes)
    then have "db_inv E d2" using db_inv_UpdateNodeEndpoints [OF _ d2 reach_of_routes] by simp
    then show ?thesis
      using r UpsertNode_frame [OF d1] UpdateNodeEndpoints_frame [OF d2] RoomByID_subnet_cong by metis
  qed
  show ?thesis
  proof (cases "zero_key (jr_WGKey req) \<or> zero_key (jr_BoxKey req)")
    case True
    then show ?thesis using assms by (simp add: Join_def)
  next
    case False
    show ?thesis
      unfolding Join_def if_not_P [OF False]
    proof (rule change_db_inv [OF assms], goal_cases)
      case (1 x d)
      then obtain r where r: "RoomByID (env_kek E) (jr_RoomID req) (svc_db s) = Inr r"
        by (cases "RoomByID (env_kek E) (jr_RoomID req) (svc_db s)") auto
      with 1 obtain d1 c d2 where d: "UpsertNode (unix now) (join_node E key req remote) (svc_db s) = Inr d1"
        "UpdateNodeEndpoints (unix now) ?n (reach_of (jr_Endpoints req) remote (jr_ClientVersion req)) d1 = Inr (c, d2)" and
        m: "(case Member (rm_ID r) ?n d2 of
              Inr v \<Rightarrow> if mb_Status (mv v) = StatusBanned then Inl Forbidden
                else Inr (\<lparr>jresp_Status = mb_Status (mv v), jresp_RoomName = rm_Name r\<rparr>, d2)
            | Inl e \<Rightarrow> if e \<noteq> ErrNotFound then Inl (StoreErr e)
                else join_member E now (svc_maxMembers s) ?n req r d2) = Inr (x, d)"
        by auto
      have "db_inv E d2" "RoomByID (env_kek E) (jr_RoomID req) d2 = Inr r" using * [OF r d] by auto
      then show ?case
        using m join_member_inv by (cases "Member (rm_ID r) ?n d2") (auto split: if_splits)
    qed
  qed
qed

lemma Leave_inv:
  assumes "db_inv E (svc_db s)"
  shows "db_inv E (svc_db (snd (Leave E now key i s)))"
  using assms unfolding Leave_def
  by (auto simp: db_inv_Audit db_inv_room_stmts db_inv_DeleteMember intro!: change_db_inv split: if_splits)

lemma poll_begin_inv:
  assumes "db_inv E (svc_db s)"
  shows "db_inv E (svc_db (snd (poll_begin E now key p since ep ver remote s)))"
proof -
  have "db_inv E d1" if "UpdateNodeEndpoints (unix now) n (reach_of ep remote ver) (svc_db s) = Inr (c, d1)" for n c d1
    using db_inv_UpdateNodeEndpoints [OF assms that reach_of_routes] .
  then show ?thesis
    using assms unfolding poll_begin_def
    by (auto simp: Let_def intro!: change_db_inv split: sum.splits prod.splits)
qed

lemma load_secret_inv: "load_secret K nonce key n fresh d = Inr (v, d') \<Longrightarrow> db_inv E d' = db_inv E d"
  by (auto simp: load_secret_def SetSetting_def split: sum.splits if_splits)

lemma secrets_inv:
  assumes "db_inv E (svc_db s)"
  shows "db_inv E (svc_db (snd (RelayKey E nonce drawn s)))"
    "db_inv E (svc_db (snd (VLESSSecrets E n1 n2 n3 f1 f2 f3 s)))"
  using assms
  by (auto simp: RelayKey_def VLESSSecrets_def split: sum.split prod.split dest!: load_secret_inv [where E = E])

lemmas operation_inv = CreateRoom_inv room_settings_inv CreateInvite_inv SetMemberExit_inv MemberAction_inv
  UpdateMember_inv Join_inv Leave_inv poll_begin_inv secrets_inv

end
