(* ===== verification/Accounts.thy ===== *)
theory Accounts
  imports Controller
begin

text \<open>
  \<^verbatim>\<open>internal/controller/auth.go\<close> and \<^verbatim>\<open>totp.go\<close>: accounts, passwords, sessions, one-time codes and
  the limit on failed logins. Argon2id and HMAC-SHA1 are fields of a record \<open>hashes\<close>; random
  bytes (salts, tokens) and the clock are arguments. \<^verbatim>\<open>tokenHash\<close> is the SHA-256 of the environment.
\<close>

record hashes =
  argon_IDKey :: "bytes \<Rightarrow> bytes \<Rightarrow> nat \<Rightarrow> nat \<Rightarrow> nat \<Rightarrow> nat \<Rightarrow> bytes"
  hmac_sha1 :: "bytes \<Rightarrow> bytes \<Rightarrow> bytes"

definition argonTime :: nat where "argonTime = 3"
definition argonMemory :: nat where "argonMemory = 64 * 1024"
definition argonThreads :: nat where "argonThreads = 2"
definition argonKeyLen :: nat where "argonKeyLen = 32"
definition SessionTTL :: duration where "SessionTTL = 7 * 24 * 3600 * second"
definition MinPasswordLen :: nat where "MinPasswordLen = 10"

section \<open>Passwords\<close>

definition HashPassword :: "hashes \<Rightarrow> bytes \<Rightarrow> string \<Rightarrow> string" where
  "HashPassword H salt pw =
     ''$argon2id$v=19$m='' @ dec argonMemory @ '',t='' @ dec argonTime @ '',p='' @ dec argonThreads @ ''$''
     @ b64raw_encode salt @ ''$''
     @ b64raw_encode (argon_IDKey H (bytes_of pw) salt argonTime argonMemory argonThreads argonKeyLen)"

text \<open>What \<^verbatim>\<open>fmt.Sscanf\<close> does with a literal and with \<^verbatim>\<open>%d\<close> into an unsigned integer: spaces before
  the number are skipped (a line break is an error), digits are read, the value has to fit.
  What follows the last verb is not looked at.\<close>

definition scan_lit :: "string \<Rightarrow> string \<Rightarrow> string option" where
  "scan_lit lit s = (if take (length lit) s = lit then Some (drop (length lit) s) else None)"

definition scan_uint :: "nat \<Rightarrow> string \<Rightarrow> (nat \<times> string) option" where
  "scan_uint bits s =
     (let t = trim_left space_len s; skipped = take (length s - length t) s;
          ds = takeWhile is_digit t
      in if CHR 0x0A \<in> set skipped \<or> ds = [] \<or> 2 ^ bits \<le> dec_val ds then None
         else Some (dec_val ds, drop (length ds) t))"

definition scan_params :: "string \<Rightarrow> (nat \<times> nat \<times> nat) option" where
  "scan_params s =
     (case scan_lit ''m='' s of None \<Rightarrow> None | Some s1 \<Rightarrow>
     (case scan_uint 32 s1 of None \<Rightarrow> None | Some (m, s2) \<Rightarrow>
     (case scan_lit '',t='' s2 of None \<Rightarrow> None | Some s3 \<Rightarrow>
     (case scan_uint 32 s3 of None \<Rightarrow> None | Some (t, s4) \<Rightarrow>
     (case scan_lit '',p='' s4 of None \<Rightarrow> None | Some s5 \<Rightarrow>
     (case scan_uint 8 s5 of None \<Rightarrow> None | Some (p, _) \<Rightarrow> Some (m, t, p)))))))"

definition CheckPassword :: "hashes \<Rightarrow> string \<Rightarrow> string \<Rightarrow> bool" where
  "CheckPassword H hash pw =
     (let parts = split_on CHR ''$'' hash in
      if length parts \<noteq> 6 \<or> parts ! 1 \<noteq> ''argon2id'' then False
      else case scan_params (parts ! 3) of
        None \<Rightarrow> False
      | Some (m, t, p) \<Rightarrow>
          (case (b64raw_decode (parts ! 4), b64raw_decode (parts ! 5)) of
             (Some salt, Some want) \<Rightarrow> argon_IDKey H (bytes_of pw) salt t m p (length want) = want
           | _ \<Rightarrow> False))"

definition ValidatePassword :: "string \<Rightarrow> svc_error + unit" where
  "ValidatePassword pw = guard (MinPasswordLen \<le> rune_count pw) (Invalid ShortPassword)"

section \<open>One-time codes\<close>

definition totpPeriod :: int where "totpPeriod = 30"
definition totpDigits :: nat where "totpDigits = 6"
definition totpSkew :: int where "totpSkew = 1"

definition TOTPSecretText :: "bytes \<Rightarrow> string" where
  "TOTPSecretText secret = b32_encode secret"

definition pad_left :: "nat \<Rightarrow> string \<Rightarrow> string" where
  "pad_left n s = replicate (n - length s) CHR ''0'' @ s"

definition totpCode :: "hashes \<Rightarrow> bytes \<Rightarrow> int \<Rightarrow> string" where
  "totpCode H secret step =
     (let sum = hmac_sha1 H secret (be_digits 8 (step mod 2 ^ 64));
          off = unat (sum ! (length sum - 1) AND 0x0f);
          n = be32 (sum ! off) (sum ! (off + 1)) (sum ! (off + 2)) (sum ! (off + 3)) AND 0x7fffffff
      in pad_left totpDigits (dec (unat n mod 1000000)))"

text \<open>Go's integer division truncates towards zero.\<close>

definition go_div :: "int \<Rightarrow> int \<Rightarrow> int" where
  "go_div a b = (if 0 \<le> a then a div b else - ((- a) div b))"

definition totp_try :: "hashes \<Rightarrow> bytes \<Rightarrow> string \<Rightarrow> int \<Rightarrow> int \<Rightarrow> int \<Rightarrow> int" where
  "totp_try H secret code lastUsed step hit =
     (if code = totpCode H secret step \<and> lastUsed < step \<and> hit < step then step else hit)"

definition checkTOTP :: "hashes \<Rightarrow> bytes \<Rightarrow> string \<Rightarrow> time \<Rightarrow> int \<Rightarrow> int" where
  "checkTOTP H secret code now lastUsed =
     (let c = filter (\<lambda>x. x \<noteq> CHR '' '') (trim_space code) in
      if length c \<noteq> totpDigits then 0
      else let cur = go_div (unix now) totpPeriod
        in fold (\<lambda>d hit. totp_try H secret c lastUsed (cur + d) hit) [-totpSkew..totpSkew] 0)"

section \<open>Transactions of the account operations\<close>

definition svc_tx :: "(db \<Rightarrow> svc_error + 'a \<times> db) \<Rightarrow> service \<Rightarrow> (svc_error + 'a) \<times> service" where
  "svc_tx f s = (case f (svc_db s) of Inl e \<Rightarrow> (Inl e, s) | Inr (x, d) \<Rightarrow> (Inr x, s\<lparr>svc_db := d\<rparr>))"

definition checkSecondFactor :: "env \<Rightarrow> hashes \<Rightarrow> time \<Rightarrow> int \<Rightarrow> string \<Rightarrow> service \<Rightarrow> (svc_error + unit) \<times> service" where
  "checkSecondFactor E H now uid code s = svc_tx (\<lambda>d.
     bindE (db_err (TOTP (env_kek E) uid d)) (\<lambda>(secret, lst).
     let sec = (case secret of None \<Rightarrow> [] | Some x \<Rightarrow> x); step = checkTOTP H sec code now lst
     in if sec = [] \<or> step = 0 then Inl BadLogin
        else case UseTOTPStep uid step d of (ok, d') \<Rightarrow> if ok then Inr ((), d') else Inl BadLogin)) s"

definition newSession :: "env \<Rightarrow> time \<Rightarrow> bytes \<Rightarrow> bytes \<Rightarrow> user \<Rightarrow> string \<Rightarrow> service \<Rightarrow> (svc_error + string) \<times> service" where
  "newSession E now raw csrf u action s =
     (let token = b64url_encode raw in svc_tx (\<lambda>d.
       bindE (db_err (CreateSession (hashToken E token) (usr_ID u) (b64url_encode csrf) (unix (now + SessionTTL)) d)) (\<lambda>d1.
       audited now (usr_Login u) action (usr_Login u) token d1)) s)"

definition has_totp :: "user \<Rightarrow> bool" where
  "has_totp u = (usr_totp_secret u \<noteq> [])"

definition Login :: "env \<Rightarrow> hashes \<Rightarrow> time \<Rightarrow> bytes \<Rightarrow> bytes \<Rightarrow> string \<Rightarrow> string \<Rightarrow> string \<Rightarrow> service \<Rightarrow>
    (svc_error + string) \<times> service" where
  "Login E H now raw csrf login pw code s =
     (case UserByLogin login (svc_db s) of
        Inl _ \<Rightarrow> (Inl BadLogin, s)
      | Inr u \<Rightarrow>
          if \<not> CheckPassword H (usr_PassHash u) pw then (Inl BadLogin, s)
          else if has_totp u then
            (case checkSecondFactor E H now (usr_ID u) code s of
               (Inl e, s1) \<Rightarrow> (Inl e, s1)
             | (Inr _, s1) \<Rightarrow> newSession E now raw csrf u ''user.login'' s1)
          else newSession E now raw csrf u ''user.login'' s)"

definition LoginOIDC :: "env \<Rightarrow> time \<Rightarrow> bytes \<Rightarrow> bytes \<Rightarrow> string \<Rightarrow> service \<Rightarrow> (svc_error + string) \<times> service" where
  "LoginOIDC E now raw csrf email s =
     (case UserByOIDCEmail email (svc_db s) of
        Inl _ \<Rightarrow> (Inl BadLogin, s)
      | Inr u \<Rightarrow> newSession E now raw csrf u ''user.login.oidc'' s)"

definition BindOIDCEmail :: "env \<Rightarrow> time \<Rightarrow> string \<Rightarrow> string \<Rightarrow> service \<Rightarrow> (svc_error + unit) \<times> service" where
  "BindOIDCEmail E now login email s =
     (let e = to_lower (env_unicode E) (trim_space email) in
      if e \<noteq> [] \<and> (CHR ''@'' \<notin> set e \<or> 254 < length e) then (Inl (Invalid BadEmail), s)
      else svc_tx (\<lambda>d.
        bindE (db_err (UserByLogin login d)) (\<lambda>u.
        bindE (db_err (SetOIDCEmail (usr_ID u) e d)) (\<lambda>d1.
        audited now ''cli'' ''user.oidc'' login () d1))) s)"

definition svc_Session :: "env \<Rightarrow> time \<Rightarrow> string \<Rightarrow> service \<Rightarrow> svc_error + user \<times> panel_session" where
  "svc_Session E now token s =
     bindE (db_err (SessionByToken (hashToken E token) (svc_db s))) (\<lambda>sess.
     if from_unix (ses_Expires sess) < now then Inl (StoreErr ErrNotFound)
     else bindE (db_err (UserByID (ses_UserID sess) (svc_db s))) (\<lambda>u. Inr (u, sess)))"

definition Logout :: "env \<Rightarrow> time \<Rightarrow> string \<Rightarrow> service \<Rightarrow> (svc_error + unit) \<times> service" where
  "Logout E now token s = svc_tx (\<lambda>d. Inr ((), DeleteSession (unix now) (hashToken E token) d)) s"

section \<open>Users\<close>

definition login_char :: "char \<Rightarrow> bool" where
  "login_char c = (let n = of_char c :: nat in 97 \<le> n \<and> n \<le> 122 \<or> 48 \<le> n \<and> n \<le> 57 \<or>
     c = CHR ''-'' \<or> c = CHR ''_'' \<or> c = CHR ''.'')"

definition ValidateLogin :: "env \<Rightarrow> string \<Rightarrow> svc_error + string" where
  "ValidateLogin E login = (let l = trim_space (to_lower (env_unicode E) login) in
     if length l < 2 \<or> 32 < length l then Inl (Invalid LoginLength)
     else if \<not> list_all login_char l then Inl (Invalid LoginChars) else Inr l)"

definition svc_CreateUser :: "env \<Rightarrow> hashes \<Rightarrow> time \<Rightarrow> bytes \<Rightarrow> user option \<Rightarrow> string \<Rightarrow> string \<Rightarrow> bool \<Rightarrow> service \<Rightarrow>
    (svc_error + unit) \<times> service" where
  "svc_CreateUser E H now salt actor login pw admin s =
     (if (case actor of None \<Rightarrow> False | Some a \<Rightarrow> \<not> usr_IsAdmin a) then (Inl Forbidden, s)
      else case bindE (ValidateLogin E login) (\<lambda>l. bindE (ValidatePassword pw) (\<lambda>_. Inr l)) of
        Inl e \<Rightarrow> (Inl e, s)
      | Inr l \<Rightarrow> svc_tx (\<lambda>d.
          case UserByLogin l d of
            Inr _ \<Rightarrow> Inl (Invalid UserExists)
          | Inl _ \<Rightarrow> bindE (db_err (CreateUser (unix now) l (HashPassword H salt pw) admin d)) (\<lambda>(_, d1).
              audited now (case actor of None \<Rightarrow> ''cli'' | Some a \<Rightarrow> usr_Login a) ''user.create'' l () d1)) s)"

definition svc_Users :: "user \<Rightarrow> service \<Rightarrow> svc_error + user list" where
  "svc_Users actor s = (if \<not> usr_IsAdmin actor then Inl Forbidden else Inr (ListUsers (svc_db s)))"

definition svc_DeleteUser :: "env \<Rightarrow> time \<Rightarrow> user \<Rightarrow> int \<Rightarrow> service \<Rightarrow> (svc_error + unit) \<times> service" where
  "svc_DeleteUser E now actor i s =
     (if \<not> usr_IsAdmin actor \<or> usr_ID actor = i then (Inl Forbidden, s)
      else change (\<lambda>d.
        bindE (db_err (UserByID i d)) (\<lambda>u.
        bindE (db_err (ListRooms (env_kek E) i d)) (\<lambda>rooms.
        if 0 < length rooms then Inl (Invalid UserHasRooms)
        else bindE (db_err (DeleteUser i d)) (\<lambda>d1.
          audited now (usr_Login actor) ''user.delete'' (usr_Login u) () d1)))) s)"

definition ChangePassword :: "hashes \<Rightarrow> time \<Rightarrow> bytes \<Rightarrow> user \<Rightarrow> string \<Rightarrow> string \<Rightarrow> service \<Rightarrow> (svc_error + unit) \<times> service" where
  "ChangePassword H now salt actor oldPw newPw s =
     (if \<not> CheckPassword H (usr_PassHash actor) oldPw then (Inl (Invalid WrongPassword), s)
      else case ValidatePassword newPw of
        Inl e \<Rightarrow> (Inl e, s)
      | Inr _ \<Rightarrow> svc_tx (\<lambda>d. audited now (usr_Login actor) ''user.password'' (usr_Login actor) ()
          (SetPassword (usr_ID actor) (HashPassword H salt newPw) d)) s)"

definition svc_SetPassword :: "hashes \<Rightarrow> time \<Rightarrow> bytes \<Rightarrow> string \<Rightarrow> string \<Rightarrow> service \<Rightarrow> (svc_error + unit) \<times> service" where
  "svc_SetPassword H now salt login pw s =
     (case ValidatePassword pw of
        Inl e \<Rightarrow> (Inl e, s)
      | Inr _ \<Rightarrow> svc_tx (\<lambda>d. bindE (db_err (UserByLogin login d)) (\<lambda>u.
          audited now ''cli'' ''user.password'' login () (SetPassword (usr_ID u) (HashPassword H salt pw) d))) s)"

definition svc_Audit :: "user \<Rightarrow> int \<Rightarrow> service \<Rightarrow> svc_error + audit_entry list" where
  "svc_Audit actor limit s = (if \<not> usr_IsAdmin actor then Inl Forbidden else Inr (ListAudit limit (svc_db s)))"

definition EnableTOTP :: "env \<Rightarrow> hashes \<Rightarrow> time \<Rightarrow> bytes \<Rightarrow> user \<Rightarrow> bytes \<Rightarrow> string \<Rightarrow> service \<Rightarrow> (svc_error + unit) \<times> service" where
  "EnableTOTP E H now nonce actor secret code s =
     (let step = checkTOTP H secret code now 0 in
      if step = 0 then (Inl (Invalid BadCode), s)
      else svc_tx (\<lambda>d. audited now (usr_Login actor) ''user.totp.on'' (usr_Login actor) ()
        (snd (UseTOTPStep (usr_ID actor) step (SetTOTP (env_kek E) nonce (usr_ID actor) (Some secret) d)))) s)"

definition DisableTOTP :: "env \<Rightarrow> hashes \<Rightarrow> time \<Rightarrow> user \<Rightarrow> string \<Rightarrow> service \<Rightarrow> (svc_error + unit) \<times> service" where
  "DisableTOTP E H now actor pw s =
     (if \<not> CheckPassword H (usr_PassHash actor) pw then (Inl (Invalid WrongPassword), s)
      else svc_tx (\<lambda>d. audited now (usr_Login actor) ''user.totp.off'' (usr_Login actor) ()
        (SetTOTP (env_kek E) [] (usr_ID actor) None d)) s)"

definition ResetTOTP :: "env \<Rightarrow> time \<Rightarrow> string \<Rightarrow> service \<Rightarrow> (svc_error + unit) \<times> service" where
  "ResetTOTP E now login s = svc_tx (\<lambda>d. bindE (db_err (UserByLogin login d)) (\<lambda>u.
     audited now ''cli'' ''user.totp.off'' login () (SetTOTP (env_kek E) [] (usr_ID u) None d))) s"

section \<open>Failed logins\<close>

type_synonym limiter = "(string \<times> time list) list"

definition limiter_get :: "limiter \<Rightarrow> string \<Rightarrow> time list" where
  "limiter_get l a = (case map_of l a of None \<Rightarrow> [] | Some ts \<Rightarrow> ts)"

definition limiter_allowed :: "string \<Rightarrow> time \<Rightarrow> limiter \<Rightarrow> bool \<times> limiter" where
  "limiter_allowed a now l =
     (let recent = filter (\<lambda>t. time_sub now t < 10 * minute) (limiter_get l a);
          l' = (if recent = [] then AList.delete a l else AList.update a recent l)
      in (length recent < 10, l'))"

definition limiter_failed :: "string \<Rightarrow> time \<Rightarrow> limiter \<Rightarrow> limiter" where
  "limiter_failed a now l = AList.update a (limiter_get l a @ [now]) l"

section \<open>Passwords: what is accepted\<close>

lemma scan_lit_append [simp]: "scan_lit lit (lit @ s) = Some s"
  by (simp add: scan_lit_def)

lemma scan_uint_dec:
  assumes "n < 2 ^ bits" "s = [] \<or> \<not> is_digit (hd s)"
  shows "scan_uint bits (dec n @ s) = Some (n, s)"
proof -
  obtain c r where cr: "dec n = c # r" using dec_ne [of n] by (cases "dec n") auto
  have d: "list_all is_digit (dec n)" by (rule dec_digits)
  have c: "space_len (dec n @ s) = 0"
  proof -
    have "is_digit c" using d cr by simp
    then have "ascii_char c" "\<not> ascii_space c" by (auto simp: is_digit_def ascii_char_def ascii_space_def)
    then show ?thesis using cr by (simp add: space_len_ascii)
  qed
  then have t: "trim_left space_len (dec n @ s) = dec n @ s" by (simp add: trim_left.simps del: dec.simps)
  have "takeWhile is_digit (dec n @ s) = dec n"
    using assms(2) d by (cases s) (auto simp: list_all_iff takeWhile_append)
  then show ?thesis
    unfolding scan_uint_def Let_def t using assms(1) by (simp add: dec_val_dec del: dec.simps)
qed

lemma scan_params_dec:
  assumes "m < 2 ^ 32" "t < 2 ^ 32" "p < 2 ^ 8"
  shows "scan_params (''m='' @ dec m @ '',t='' @ dec t @ '',p='' @ dec p) = Some (m, t, p)"
proof -
  have "scan_uint 32 (dec m @ '',t='' @ dec t @ '',p='' @ dec p) = Some (m, '',t='' @ dec t @ '',p='' @ dec p)"
    by (rule scan_uint_dec) (use assms in \<open>simp_all add: is_digit_def\<close>)
  moreover have "scan_uint 32 (dec t @ '',p='' @ dec p) = Some (t, '',p='' @ dec p)"
    by (rule scan_uint_dec) (use assms in \<open>simp_all add: is_digit_def\<close>)
  moreover have "scan_uint 8 (dec p) = Some (p, [])"
    using scan_uint_dec [of p 8 "[]"] assms by simp
  ultimately show ?thesis
    unfolding scan_params_def by (simp only: scan_lit_append option.case prod.case)
qed

lemma HashPassword_parts:
  "split_on CHR ''$'' (HashPassword H salt pw) =
     [[], ''argon2id'', ''v=19'', ''m='' @ dec argonMemory @ '',t='' @ dec argonTime @ '',p='' @ dec argonThreads,
      b64raw_encode salt, b64raw_encode (argon_IDKey H (bytes_of pw) salt argonTime argonMemory argonThreads argonKeyLen)]"
  (is "_ = ?ps")
proof -
  have "CHR ''$'' \<notin> set b64_alphabet" by (simp add: b64_alphabet_def)
  then have e: "CHR ''$'' \<notin> set (b64raw_encode bs)" for bs using b64raw_set [of bs] by auto
  have "CHR ''$'' \<notin> set (dec n)" for n
    using dec_digits [of n] by (auto simp: list_all_iff is_digit_def)
  then have "\<forall>q \<in> set ?ps. CHR ''$'' \<notin> set q" using e by simp
  then have "split_on CHR ''$'' (join [CHR ''$''] ?ps) = ?ps"
    by (intro split_on_join) auto
  moreover have "join [CHR ''$''] ?ps = HashPassword H salt pw" by (simp add: HashPassword_def)
  ultimately show ?thesis by (simp only:)
qed

lemma CheckPassword_HashPassword:
  fixes H salt pw
  assumes k: "k = argon_IDKey H (bytes_of pw) salt argonTime argonMemory argonThreads argonKeyLen"
  shows "CheckPassword H (HashPassword H salt pw) pw' \<longleftrightarrow>
    argon_IDKey H (bytes_of pw') salt argonTime argonMemory argonThreads (length k) = k"
proof -
  have "scan_params (''m='' @ dec argonMemory @ '',t='' @ dec argonTime @ '',p='' @ dec argonThreads) =
      Some (argonMemory, argonTime, argonThreads)"
    by (rule scan_params_dec) (simp_all add: argonMemory_def argonTime_def argonThreads_def)
  then show ?thesis
    unfolding CheckPassword_def HashPassword_parts Let_def
    by (simp add: b64raw_decode_encode k numeral_eq_Suc)
qed

text \<open>The stored hash of a password accepts exactly the passwords that Argon2id maps to the same key
  under the stored salt and parameters; in particular it accepts the password itself.\<close>

theorem password_check_exact:
  assumes "\<And>p s t m th n. length (argon_IDKey H p s t m th n) = n"
  shows "(CheckPassword H (HashPassword H salt pw) pw' \<longleftrightarrow>
    argon_IDKey H (bytes_of pw') salt argonTime argonMemory argonThreads argonKeyLen =
    argon_IDKey H (bytes_of pw) salt argonTime argonMemory argonThreads argonKeyLen) \<and>
    CheckPassword H (HashPassword H salt pw) pw"
  by (simp add: CheckPassword_HashPassword [OF refl] assms)

section \<open>One-time codes: what is accepted\<close>

definition clean_code :: "string \<Rightarrow> string" where
  "clean_code code = filter (\<lambda>x. x \<noteq> CHR '' '') (trim_space code)"

definition totp_window :: "time \<Rightarrow> int set" where
  "totp_window now = (let c = go_div (unix now) totpPeriod in {c - 1, c, c + 1})"

lemma totp_fold:
  "hit = fold (\<lambda>d hit. totp_try H sec c lst (cur + d) hit) ds h \<Longrightarrow>
   hit = h \<or> (\<exists>d \<in> set ds. hit = cur + d \<and> lst < hit \<and> h < hit \<and> c = totpCode H sec hit)"
proof (induction ds arbitrary: h)
  case (Cons d ds)
  from Cons.prems Cons.IH [of "totp_try H sec c lst (cur + d) h"]
  show ?case by (cases "totp_try H sec c lst (cur + d) h = h") (auto simp: totp_try_def split: if_splits)
qed simp

lemma checkTOTP_hit:
  assumes "checkTOTP H secret code now lst = step" "step \<noteq> 0"
  shows "lst < step" "0 < step" "step \<in> totp_window now" "clean_code code = totpCode H secret step"
proof -
  let ?cur = "go_div (unix now) totpPeriod"
  have u: "[- totpSkew..totpSkew] = [-1, 0, 1]" by (simp add: totpSkew_def upto.simps)
  have "step = fold (\<lambda>d hit. totp_try H secret (clean_code code) lst (?cur + d) hit) [-1, 0, 1] 0"
    using assms unfolding checkTOTP_def u clean_code_def Let_def by (simp only: split: if_splits)
  from totp_fold [OF this] assms(2)
  have "\<exists>d \<in> set [-1, 0, 1]. step = ?cur + d \<and> lst < step \<and> 0 < step \<and> clean_code code = totpCode H secret step"
    by blast
  then show "lst < step" "0 < step" "step \<in> totp_window now" "clean_code code = totpCode H secret step"
    by (auto simp: totp_window_def Let_def)
qed

lemma find_row_map:
  assumes "\<And>x. p (f x) = p x"
  shows "find_row p (map f xs) = (case find_row p xs of Inl e \<Rightarrow> Inl e | Inr x \<Rightarrow> Inr (f x))"
  by (induction xs) (simp_all add: find_row_def assms)

definition secret_of :: "env \<Rightarrow> int \<Rightarrow> service \<Rightarrow> bytes" where
  "secret_of E uid s = (case TOTP (env_kek E) uid (svc_db s) of Inr (Some x, _) \<Rightarrow> x | _ \<Rightarrow> [])"

definition step_of :: "int \<Rightarrow> service \<Rightarrow> int" where
  "step_of uid s = (case UserByID uid (svc_db s) of Inr u \<Rightarrow> usr_totp_step u | Inl _ \<Rightarrow> 0)"

text \<open>The attempts of a sequence that pass, with the time step each of them used up.\<close>

fun accepted :: "env \<Rightarrow> hashes \<Rightarrow> int \<Rightarrow> (time \<times> string) list \<Rightarrow> service \<Rightarrow> (time \<times> string \<times> int) list" where
  "accepted E H uid [] s = []"
| "accepted E H uid ((now, code) # as) s =
     (case checkSecondFactor E H now uid code s of
        (Inr _, s') \<Rightarrow> (now, code, step_of uid s') # accepted E H uid as s'
      | (Inl _, s') \<Rightarrow> accepted E H uid as s')"

lemma second_factor_fails: "checkSecondFactor E H now uid code s = (Inl e, s') \<Longrightarrow> s' = s"
  by (auto simp: checkSecondFactor_def svc_tx_def split: sum.splits)

lemma second_factor_passes:
  assumes c: "checkSecondFactor E H now uid code s = (Inr x, s')"
  shows "step_of uid s < step_of uid s'" "step_of uid s' \<in> totp_window now" "secret_of E uid s' = secret_of E uid s"
    "secret_of E uid s \<noteq> []" "clean_code code = totpCode H (secret_of E uid s) (step_of uid s')"
proof -
  from c obtain sec lst d' where t: "TOTP (env_kek E) uid (svc_db s) = Inr (Some sec, lst)" "sec \<noteq> []"
    and st: "checkTOTP H sec code now lst \<noteq> 0" and us: "UseTOTPStep uid (checkTOTP H sec code now lst) (svc_db s) = (True, d')"
    and s': "s' = s\<lparr>svc_db := d'\<rparr>"
    by (auto simp: checkSecondFactor_def svc_tx_def Let_def split: sum.splits option.splits if_splits prod.splits)
  obtain u where u: "UserByID uid (svc_db s) = Inr u" "usr_totp_step u = lst" "tx_open (env_kek E) (usr_totp_secret u) = Inr sec"
    "usr_totp_secret u \<noteq> []"
    using t(1) by (auto simp: TOTP_def split: sum.splits if_splits)
  define step where "step = checkTOTP H sec code now lst"
  note hit = checkTOTP_hit [OF step_def [symmetric] st [folded step_def]]
  let ?f = "\<lambda>u. if usr_ID u = uid \<and> usr_totp_step u < step then u\<lparr>usr_totp_step := step\<rparr> else u"
  have "usr_ID u = uid" using u(1) by (auto simp: UserByID_def dest!: find_row_Inr)
  moreover have "UserByID uid d' = Inr (?f u)"
    using us u(1) by (auto simp: UseTOTPStep_def UserByID_def step_def find_row_map)
  ultimately have u': "UserByID uid d' = Inr (u\<lparr>usr_totp_step := step\<rparr>)" using u(2) hit(1) by simp
  have so: "step_of uid s = lst" "step_of uid s' = step" "secret_of E uid s = sec" "secret_of E uid s' = sec"
    using u u' t(1) by (simp_all add: step_of_def secret_of_def s' TOTP_def)
  show "step_of uid s < step_of uid s'" "step_of uid s' \<in> totp_window now" "secret_of E uid s' = secret_of E uid s"
    "secret_of E uid s \<noteq> []" "clean_code code = totpCode H (secret_of E uid s) (step_of uid s')"
    using hit t(2) so by simp_all
qed

lemma accepted_steps:
  "(\<forall>(now, code, step) \<in> set (accepted E H uid as s). step_of uid s < step \<and> step \<in> totp_window now \<and>
      clean_code code = totpCode H (secret_of E uid s) step) \<and>
   sorted_wrt (<) (map (\<lambda>(now, code, step). step) (accepted E H uid as s))"
proof (induction as arbitrary: s)
  case (Cons a as)
  obtain now code where a: "a = (now, code)" by (cases a)
  show ?case
  proof (cases "checkSecondFactor E H now uid code s")
    case (Pair r s')
    show ?thesis
    proof (cases r)
      case (Inl e)
      then show ?thesis using Cons.IH [of s] second_factor_fails [of E H now uid code s e s'] Pair a by simp
    next
      case (Inr x)
      then have c: "checkSecondFactor E H now uid code s = (Inr x, s')" using Pair by simp
      show ?thesis
        using Cons.IH [of s'] second_factor_passes [OF c] a c by fastforce
    qed
  qed
qed simp

text \<open>C8: A one-time code is good for one login. Over any sequence of attempts of a user, the attempts
  that pass use up strictly increasing time steps, so no step passes twice; each of them is the
  step of the attempt's time or a neighbour of it, and the code that was entered is the one of
  that step.\<close>

theorem totp_no_replay:
  "sorted_wrt (<) (map (\<lambda>(now, code, step). step) (accepted E H uid as s))
   \<and> list_all (\<lambda>(now, code, step). step \<in> totp_window now \<and> clean_code code = totpCode H (secret_of E uid s) step)
      (accepted E H uid as s)"
  using accepted_steps [where E = E and H = H and uid = uid and as = as and s = s] by (auto simp: list_all_iff)

section \<open>Sessions\<close>

lemma find_row_new: "\<forall>x \<in> set xs. \<not> p x \<Longrightarrow> p y \<Longrightarrow> find_row p (xs @ [y]) = Inr y"
  by (induction xs) (simp_all add: find_row_def)

lemma second_factor_users:
  assumes "checkSecondFactor E H now uid code s = (r, s')" "UserByID i (svc_db s) = Inr u"
  shows "\<exists>u'. UserByID i (svc_db s') = Inr u' \<and> usr_ID u' = usr_ID u \<and> usr_Login u' = usr_Login u"
proof -
  have "s' = s \<or> (\<exists>step. svc_db s' = snd (UseTOTPStep uid step (svc_db s)))"
    using assms(1)
    by (auto simp: checkSecondFactor_def svc_tx_def Let_def split: sum.splits option.splits if_splits prod.splits)
      (metis snd_conv)
  then show ?thesis
    using assms(2) by (auto simp: UseTOTPStep_def UserByID_def find_row_map)
qed

lemma session_lookup:
  assumes n: "newSession E now raw csrf u act s = (Inr tok, s')" and u: "UserByID (usr_ID u) (svc_db s) = Inr u'"
  shows "svc_Session E t tok s' = (if from_unix (unix (now + SessionTTL)) < t then Inl (StoreErr ErrNotFound)
      else Inr (u', \<lparr>ses_TokenHash = hashToken E tok, ses_UserID = usr_ID u, ses_CSRF = b64url_encode csrf,
        ses_Expires = unix (now + SessionTTL)\<rparr>))"
    "svc_Session E t tok (snd (Logout E t' tok s')) = Inl (StoreErr ErrNotFound)"
proof -
  let ?x = "\<lparr>ses_TokenHash = hashToken E tok, ses_UserID = usr_ID u, ses_CSRF = b64url_encode csrf,
        ses_Expires = unix (now + SessionTTL)\<rparr>"
  have d: "db_users (svc_db s') = db_users (svc_db s)" "db_sessions (svc_db s') = db_sessions (svc_db s) @ [?x]"
    "\<forall>x \<in> set (db_sessions (svc_db s)). ses_TokenHash x \<noteq> hashToken E tok"
    using n by (auto simp: newSession_def svc_tx_def Let_def CreateSession_def Audit_def image_iff split: sum.splits if_splits)
  have "SessionByToken (hashToken E tok) (svc_db s') = Inr ?x"
    unfolding SessionByToken_def d(2) by (rule find_row_new) (use d(3) in auto)
  moreover have "UserByID (usr_ID u) (svc_db s') = Inr u'" using u d(1) by (simp add: UserByID_def)
  ultimately show "svc_Session E t tok s' = (if from_unix (unix (now + SessionTTL)) < t then Inl (StoreErr ErrNotFound)
      else Inr (u', ?x))"
    by (simp add: svc_Session_def bindE_def db_err_def)
  have "SessionByToken (hashToken E tok) (svc_db (snd (Logout E t' tok s'))) = Inl ErrNotFound"
    by (simp add: SessionByToken_def Logout_def svc_tx_def DeleteSession_def find_row_Inl)
  then show "svc_Session E t tok (snd (Logout E t' tok s')) = Inl (StoreErr ErrNotFound)"
    by (simp add: svc_Session_def bindE_def db_err_def)
qed

text \<open>A login succeeds only with the user's password and, when the user has one-time codes on, with a
  code of the current time. The token it returns resolves to that user for seven days (to the
  second the database keeps), and to nobody afterwards or once it was used to log out.\<close>

theorem login_session:
  assumes "schema_ok (svc_db s)" "Login E H now raw csrf login pw code s = (Inr tok, s')"
  shows "\<exists>u. UserByLogin login (svc_db s) = Inr u \<and> CheckPassword H (usr_PassHash u) pw \<and>
    (has_totp u \<longrightarrow> clean_code code \<in> totpCode H (secret_of E (usr_ID u) s) ` totp_window now) \<and>
    (\<forall>t. case svc_Session E t tok s' of
        Inr (u', sess) \<Rightarrow> t \<le> from_unix (unix (now + SessionTTL)) \<and> usr_ID u' = usr_ID u \<and> usr_Login u' = login
      | Inl e \<Rightarrow> from_unix (unix (now + SessionTTL)) < t \<and> e = StoreErr ErrNotFound) \<and>
    (\<forall>t t'. svc_Session E t tok (snd (Logout E t' tok s')) = Inl (StoreErr ErrNotFound))"
proof -
  from assms(2) obtain u s1 r where u: "UserByLogin login (svc_db s) = Inr u" "CheckPassword H (usr_PassHash u) pw"
    and s1: "if has_totp u then checkSecondFactor E H now (usr_ID u) code s = (Inr r, s1) else s1 = s"
    and n: "newSession E now raw csrf u ''user.login'' s1 = (Inr tok, s')"
    by (auto simp: Login_def split: sum.splits if_splits prod.splits)
  have m: "u \<in> set (db_users (svc_db s))" "usr_Login u = login"
    using u(1) by (auto simp: UserByLogin_def dest!: find_row_Inr)
  have "UserByID (usr_ID u) (svc_db s) = Inr u"
    unfolding UserByID_def by (rule find_row_unique) (use assms(1) m in \<open>auto simp: schema_ok_def\<close>)
  with s1 second_factor_users obtain u' where u': "UserByID (usr_ID u) (svc_db s1) = Inr u'" "usr_ID u' = usr_ID u" "usr_Login u' = login"
    using m(2) by (metis (full_types))
  have "has_totp u \<longrightarrow> clean_code code \<in> totpCode H (secret_of E (usr_ID u) s) ` totp_window now"
    using s1 second_factor_passes(2,5) [of E H now "usr_ID u" code s r s1] by auto
  then show ?thesis
    using u u'(2,3) session_lookup [OF n u'(1)] by auto
qed

section \<open>The login limiter\<close>

text \<open>Login attempts as the panel handles them: address, time, and whether the login succeeds if it is
  tried at all. \<open>failures\<close> are the times of the attempts of one address that were let through and failed.\<close>

type_synonym attempt = "string \<times> time \<times> bool"

fun failures :: "string \<Rightarrow> attempt list \<Rightarrow> limiter \<Rightarrow> time list" where
  "failures a [] l = []"
| "failures a ((b, now, good) # as) l =
     (case limiter_allowed b now l of (ok, l') \<Rightarrow>
        if ok \<and> \<not> good then (if b = a then [now] else []) @ failures a as (limiter_failed b now l')
        else failures a as l')"

definition recent :: "time \<Rightarrow> time list \<Rightarrow> time list" where
  "recent now ts = filter (\<lambda>t. now - t < 10 * minute) ts"

definition ten_per_window :: "time list \<Rightarrow> bool" where
  "ten_per_window ts \<longleftrightarrow> (\<forall>t0. length (filter (\<lambda>t. t0 \<le> t \<and> t < t0 + 10 * minute) ts) \<le> 10)"

lemma limiter_get_simps [simp]:
  "limiter_get (AList.update a ts l) b = (if b = a then ts else limiter_get l b)"
  "limiter_get (AList.delete a l) b = (if b = a then [] else limiter_get l b)"
  by (simp_all add: limiter_get_def update_conv' delete_conv')

lemma limiter_allowed_recent:
  "fst (limiter_allowed b now l) \<longleftrightarrow> length (recent now (limiter_get l b)) < 10"
  "limiter_get (snd (limiter_allowed b now l)) a = (if a = b then recent now (limiter_get l b) else limiter_get l a)"
proof -
  have "time_sub now t < 10 * minute \<longleftrightarrow> now - t < 10 * minute" for t
    by (rule time_sub_less_iff) (simp_all add: minute_def second_def max_duration_def min_duration_def)
  then show "fst (limiter_allowed b now l) \<longleftrightarrow> length (recent now (limiter_get l b)) < 10"
    "limiter_get (snd (limiter_allowed b now l)) a = (if a = b then recent now (limiter_get l b) else limiter_get l a)"
    by (auto simp: limiter_allowed_def recent_def Let_def)
qed

lemma recent_recent: "now \<le> now' \<Longrightarrow> recent now' (recent now ts) = recent now' ts"
  unfolding recent_def filter_filter by (rule filter_cong) auto

lemma ten_per_window_snoc:
  assumes "ten_per_window ts" "length (recent now ts) < 10"
  shows "ten_per_window (ts @ [now])"
  unfolding ten_per_window_def
proof
  fix t0
  let ?w = "\<lambda>t. t0 \<le> t \<and> t < t0 + 10 * minute"
  show "length (filter ?w (ts @ [now])) \<le> 10"
  proof (cases "?w now")
    case True
    then have "filter ?w ts = filter ?w (recent now ts)"
      unfolding recent_def filter_filter by (intro filter_cong) auto
    then have "length (filter ?w ts) \<le> length (recent now ts)"
      using length_filter_le by metis
    then show ?thesis using assms(2) True by simp
  next
    case False
    then show ?thesis using assms(1) by (auto simp: ten_per_window_def)
  qed
qed

lemma failures_window:
  assumes "ten_per_window past" "sorted (map (\<lambda>(b, t, g). t) as)"
    "\<And>now. \<forall>(b, t, g) \<in> set as. t0 \<le> t \<Longrightarrow> t0 \<le> now \<Longrightarrow> recent now (limiter_get l a) = recent now past"
    "\<forall>(b, t, g) \<in> set as. t0 \<le> t"
  shows "ten_per_window (past @ failures a as l)"
  using assms
proof (induction as arbitrary: past l t0)
  case (Cons x as)
  obtain b now good where x: "x = (b, now, good)" by (cases x)
  obtain ok l' where al: "limiter_allowed b now l = (ok, l')" by (cases "limiter_allowed b now l")
  have ok: "ok \<longleftrightarrow> length (recent now (limiter_get l b)) < 10"
    and l': "limiter_get l' a = (if a = b then recent now (limiter_get l b) else limiter_get l a)"
    using limiter_allowed_recent [of b now l] al by auto
  have t0: "t0 \<le> now" using Cons.prems(4) x by auto
  have same: "recent n (limiter_get l a) = recent n past" if "t0 \<le> n" for n
    using Cons.prems(3) [OF Cons.prems(4) that] .
  have srt: "sorted (map (\<lambda>(b, t, g). t) as)" "\<forall>(b, t, g) \<in> set as. now \<le> t"
    using Cons.prems(2) x by auto
  have l'past: "recent n (limiter_get l' a) = recent n past" if "now \<le> n" for n
    using that t0 same [of n] by (auto simp: l' recent_recent)
  show ?case
  proof (cases "ok \<and> \<not> good \<and> b = a")
    case True
    let ?l = "limiter_failed b now l'"
    have "ten_per_window (past @ [now])"
      by (rule ten_per_window_snoc [OF Cons.prems(1)]) (use True ok same [OF t0] in auto)
    moreover have "recent n (limiter_get ?l a) = recent n (past @ [now])" if "now \<le> n" for n
      using that True l'past [of n] by (simp add: limiter_failed_def recent_def)
    ultimately have "ten_per_window ((past @ [now]) @ failures a as ?l)"
      using Cons.IH [of "past @ [now]" now ?l] srt by blast
    then show ?thesis using True x al by simp
  next
    case False
    define l'' where "l'' = (if ok \<and> \<not> good then limiter_failed b now l' else l')"
    have "recent n (limiter_get l'' a) = recent n past" if "now \<le> n" for n
      using that False l'past [of n] by (auto simp: l''_def limiter_failed_def)
    then have "ten_per_window (past @ failures a as l'')"
      using Cons.IH [of past now l''] srt Cons.prems(1) by blast
    then show ?thesis using False x al by (auto simp: l''_def)
  qed
qed simp

text \<open>Password guessing is slowed down: whatever attempts arrive from whatever addresses, at most ten
  failed logins of one address are let through in any ten minutes.\<close>

theorem login_limiter_bound:
  assumes "sorted (map (\<lambda>(b, t, g). t) as)"
  shows "length (filter (\<lambda>t. t0 \<le> t \<and> t < t0 + 10 * minute) (failures a as [])) \<le> 10"
proof (cases as)
  case (Cons x as')
  obtain b now g where x: "x = (b, now, g)" by (cases x)
  have "ten_per_window ([] @ failures a as [])"
    by (rule failures_window [OF _ assms, of _ now])
      (use assms Cons x in \<open>auto simp: ten_per_window_def recent_def limiter_get_def\<close>)
  then show ?thesis by (simp add: ten_per_window_def)
qed simp

section \<open>Witnesses\<close>

definition sample_hashes :: hashes where
  "sample_hashes = \<lparr>argon_IDKey = (\<lambda>p s t m th n. take n (p @ replicate n 7)),
     hmac_sha1 = (\<lambda>k m. m @ [0, 0, 0, 0, 0, 0, 0, 0, 0, 0, 0, 3])\<rparr>"

definition sample_env :: env where
  "sample_env = \<lparr>env_kek = None, env_unicode = plain_tables, env_sha256 = (\<lambda>b. b), env_blake2s = (\<lambda>b. b),
     env_signer = sample_signer\<rparr>"

definition sample_user :: user where
  "sample_user = \<lparr>usr_ID = 1, usr_Login = ''root'', usr_PassHash = HashPassword sample_hashes [1, 2] ''correct horse'',
     usr_IsAdmin = True, usr_Created = 0, usr_totp_secret = [], usr_totp_step = 0, usr_oidc_email = []\<rparr>"

definition sample_service :: service where
  "sample_service = NewService (empty_db\<lparr>db_users := [sample_user]\<rparr>)"

lemma sample_argon: "length (argon_IDKey sample_hashes p s t m th n) = n"
  by (simp add: sample_hashes_def)

theorem password_check_exact_witness:
  "CheckPassword sample_hashes (HashPassword sample_hashes [1, 2] ''correct horse'') ''correct horse'' \<and>
   \<not> CheckPassword sample_hashes (HashPassword sample_hashes [1, 2] ''correct horse'') ''battery''"
proof -
  have "bytes_of ''correct horse'' \<noteq> bytes_of ''battery''" by (simp add: bytes_of_def)
  then have "take 32 (bytes_of ''correct horse'' @ replicate 32 7) \<noteq> take 32 (bytes_of ''battery'' @ replicate 32 7)"
    by code_simp
  then show ?thesis
    using password_check_exact [OF sample_argon, of "[1, 2]" "''correct horse''"]
    by (simp add: sample_hashes_def argonKeyLen_def)
qed

theorem login_session_witness:
  "\<exists>s'. Login sample_env sample_hashes 0 [1] [2] ''root'' ''correct horse'' [] sample_service = (Inr (b64url_encode [1]), s') \<and>
     (\<exists>u sess. svc_Session sample_env second (b64url_encode [1]) s' = Inr (u, sess) \<and> usr_Login u = ''root'')"
proof -
  have pw: "CheckPassword sample_hashes (usr_PassHash sample_user) ''correct horse''"
    by (simp add: sample_user_def CheckPassword_HashPassword [OF refl] sample_argon)
  have ok: "schema_ok (svc_db sample_service)"
    by (simp add: sample_service_def NewService_def schema_ok_def members_ok_def empty_db_def)
  obtain s' where l: "Login sample_env sample_hashes 0 [1] [2] ''root'' ''correct horse'' [] sample_service = (Inr (b64url_encode [1]), s')"
    using pw by (auto simp: Login_def sample_service_def NewService_def UserByLogin_def find_row_def empty_db_def
        sample_user_def has_totp_def newSession_def svc_tx_def CreateSession_def bindE_def db_err_def audited_def Let_def)
  from login_session [OF ok l] have "case svc_Session sample_env second (b64url_encode [1]) s' of
        Inr (u', sess) \<Rightarrow> usr_Login u' = ''root'' | Inl e \<Rightarrow> from_unix (unix SessionTTL) < second"
    by (auto split: sum.splits)
  then show ?thesis
    using l by (auto simp: from_unix_def unix_def SessionTTL_def second_def unix_epoch_def split: sum.splits)
qed

theorem login_limiter_bound_witness:
  "length (filter (\<lambda>t. 0 \<le> t \<and> t < 10 * minute) (failures ''a'' [(''a'', 1, False), (''b'', 2, False), (''a'', 3, False)] [])) \<le> 10 \<and>
   failures ''a'' [(''a'', 1, False), (''b'', 2, False), (''a'', 3, False)] [] = [1, 3]"
proof
  show "length (filter (\<lambda>t. 0 \<le> t \<and> t < 10 * minute) (failures ''a'' [(''a'', 1, False), (''b'', 2, False), (''a'', 3, False)] [])) \<le> 10"
    using login_limiter_bound [of "[(''a'', 1, False), (''b'', 2, False), (''a'', 3, False)]" 0 "''a''"] by simp
  show "failures ''a'' [(''a'', 1, False), (''b'', 2, False), (''a'', 3, False)] [] = [1, 3]"
    by code_simp
qed

end
