(* ===== verification/Machines.thy ===== *)
theory Machines
  imports Main
begin

text \<open>
  Components as machines: a step function on a state, driven by a list of events. \<open>machine\<close> is the
  contract of an invariant, \<open>budget_machine\<close> that of a resource that steps use up; what holds of
  one step is carried to all runs once, here.
\<close>

definition run :: "('e \<Rightarrow> 's \<Rightarrow> 's) \<Rightarrow> 'e list \<Rightarrow> 's \<Rightarrow> 's" where
  "run step es s = fold step es s"

lemma run_simps [simp]: "run step [] s = s" "run step (e # es) s = run step es (step e s)"
  "run step (es @ es') s = run step es' (run step es s)"
  by (simp_all add: run_def)

locale machine =
  fixes step :: "'e \<Rightarrow> 's \<Rightarrow> 's"
    and ok :: "'e \<Rightarrow> bool"
    and inv' :: "'s \<Rightarrow> bool"
  assumes step_inv: "inv' s \<Longrightarrow> ok e \<Longrightarrow> inv' (step e s)"
begin

lemma run_inv: "inv' s \<Longrightarrow> \<forall>e \<in> set es. ok e \<Longrightarrow> inv' (run step es s)"
  by (induction es arbitrary: s) (simp_all add: step_inv)

end

text \<open>The total of what the steps of a run cost.\<close>

fun spent :: "('e \<Rightarrow> 's \<Rightarrow> 's) \<Rightarrow> ('e \<Rightarrow> 's \<Rightarrow> nat) \<Rightarrow> 'e list \<Rightarrow> 's \<Rightarrow> nat" where
  "spent step cost [] s = 0"
| "spent step cost (e # es) s = cost e s + spent step cost es (step e s)"

locale budget_machine = machine +
  fixes cost :: "'e \<Rightarrow> 's \<Rightarrow> nat"
    and budget :: "'s \<Rightarrow> nat"
  assumes step_cost: "inv' s \<Longrightarrow> ok e \<Longrightarrow> cost e s + budget (step e s) \<le> budget s"
begin

lemma run_spent: "inv' s \<Longrightarrow> \<forall>e \<in> set es. ok e \<Longrightarrow> spent step cost es s + budget (run step es s) \<le> budget s"
proof (induction es arbitrary: s)
  case (Cons e es)
  have "spent step cost es (step e s) + budget (run step es (step e s)) \<le> budget (step e s)"
    using Cons step_inv by simp
  moreover have "cost e s + budget (step e s) \<le> budget s" using Cons.prems step_cost by simp
  ultimately show ?case by simp
qed simp

end

text \<open>A machine that simulates an abstract one: every step of the concrete machine is, seen through
  the abstraction, a step of the specification or none.\<close>

locale simulation = machine +
  fixes abs :: "'s \<Rightarrow> 'a"
    and label :: "'e \<Rightarrow> 's \<Rightarrow> 'l"
    and spec :: "'a \<Rightarrow> 'l \<Rightarrow> 'a \<Rightarrow> bool"
  assumes step_refines: "inv' s \<Longrightarrow> ok e \<Longrightarrow> spec (abs s) (label e s) (abs (step e s))"
begin

lemma run_refines:
  assumes "\<And>a l a'. P a \<Longrightarrow> good l \<Longrightarrow> spec a l a' \<Longrightarrow> P a'"
  shows "inv' s \<Longrightarrow> \<forall>e \<in> set es. ok e \<and> (\<forall>t. good (label e t)) \<Longrightarrow> P (abs s) \<Longrightarrow> P (abs (run step es s))"
proof (induction es arbitrary: s)
  case (Cons e es)
  have "P (abs (step e s))"
    using Cons.prems by (intro assms [OF _ _ step_refines]) auto
  then show ?case using Cons.IH [of "step e s"] Cons.prems step_inv by simp
qed simp

end

end
