(* ===== verification/Controller_Run.thy ===== *)
theory Controller_Run
  imports Controller_Inv Accounts Machines
begin

text \<open>
  The controller as a machine: an event per operation of the service, by panel users, by nodes,
  by the command line in another process (\<open>Outside\<close>, which changes the database behind the
  service's back) and by the ticker that notices such changes. The invariant of the database and
  the one of the hub hold in every run.
\<close>

section \<open>Account operations keep the database invariant\<close>

text \<open>Statements on users and sessions leave the other tables alone.\<close>

definition same_tables :: "db \<Rightarrow> db \<Rightarrow> bool" where
  "same_tables d d' \<longleftrightarrow> db_version d' = db_version d \<and> db_rooms d' = db_rooms d \<and> db_members d' = db_members d \<and>
     db_nodes d' = db_nodes d \<and> db_invites d' = db_invites d"

lemma same_tables_inv: "db_inv E d \<Longrightarrow> schema_ok d' \<Longrightarrow> same_tables d d' \<Longrightarrow> db_inv E d'"
  by (simp add: db_inv_def same_tables_def)

lemma same_tables_refl [simp]: "same_tables d d"
  by (simp add: same_tables_def)

lemma user_stmts_tables [simp]:
  "same_tables d (SetPassword i h d)" "same_tables d (SetTOTP K nn i sec d)" "same_tables d (snd (UseTOTPStep i step d))"
  "same_tables d (DeleteSession now hh d)" "same_tables d' (Audit t x y z w d) = same_tables d' d"
  by (simp_all add: same_tables_def SetPassword_def SetTOTP_def upd_user_def UseTOTPStep_def DeleteSession_def Audit_def)

lemma user_stmts_tables_Inr:
  "SetOIDCEmail i e d = Inr d' \<Longrightarrow> same_tables d d'" "CreateUser now l h a d = Inr (k, d') \<Longrightarrow> same_tables d d'"
  "DeleteUser i d = Inr d' \<Longrightarrow> same_tables d d'" "CreateSession hh i c x d = Inr d' \<Longrightarrow> same_tables d d'"
  by (auto simp: same_tables_def SetOIDCEmail_def upd_user_def CreateUser_def DeleteUser_def CreateSession_def Let_def
      split: if_splits)

lemma svc_tx_cases:
  obtains e where "f (svc_db s) = Inl e" "svc_tx f s = (Inl e, s)"
  | x d where "f (svc_db s) = Inr (x, d)" "svc_tx f s = (Inr x, s\<lparr>svc_db := d\<rparr>)"
  by (cases "f (svc_db s)") (auto simp: svc_tx_def)

lemma svc_tx_db_inv:
  assumes "db_inv E (svc_db s)" "\<And>x d. f (svc_db s) = Inr (x, d) \<Longrightarrow> db_inv E d"
  shows "db_inv E (svc_db (snd (svc_tx f s)))"
  by (rule svc_tx_cases [of f s]) (use assms in auto)

lemma schema_ok_UseTOTPStep: "schema_ok (snd (UseTOTPStep i step d)) = schema_ok d"
  by (rule schema_ok_cong) (simp_all add: UseTOTPStep_def schema_keys_def map_upd_key del: map_map)

lemma schema_ok_SetOIDCEmail: "SetOIDCEmail i e d = Inr d' \<Longrightarrow> schema_ok d' = schema_ok d"
  by (auto simp: SetOIDCEmail_def schema_ok_upd_user split: if_splits)

lemma db_inv_user_stmts [go_inv]:
  assumes "db_inv E d"
  shows "db_inv E (SetPassword i h d)" "db_inv E (SetTOTP K nn i sec d)" "db_inv E (snd (UseTOTPStep i step d))"
    "db_inv E (DeleteSession now hh d)" "SetOIDCEmail i e d = Inr d' \<Longrightarrow> db_inv E d'"
    "CreateUser now l h a d = Inr (k, d') \<Longrightarrow> db_inv E d'" "DeleteUser i d = Inr d' \<Longrightarrow> db_inv E d'"
    "CreateSession hh i c x d = Inr d' \<Longrightarrow> db_inv E d'"
  using db_inv_schema [OF assms]
  by (auto intro!: same_tables_inv [OF assms] simp: schema_ok_misc_stmts schema_ok_UseTOTPStep schema_ok_SetOIDCEmail
      schema_ok_DeleteSession user_stmts_tables_Inr intro: schema_ok_CreateUser schema_ok_DeleteUser schema_ok_CreateSession)

lemma checkSecondFactor_inv:
  assumes "db_inv E' (svc_db s)"
  shows "db_inv E' (svc_db (snd (checkSecondFactor E H now uid code s)))"
  unfolding checkSecondFactor_def
  by (rule svc_tx_db_inv [OF assms])
    (use db_inv_user_stmts(3) [OF assms] in \<open>auto simp: Let_def split: if_splits prod.splits\<close>, metis snd_conv)

lemma newSession_inv:
  assumes "db_inv E' (svc_db s)"
  shows "db_inv E' (svc_db (snd (newSession E now raw csrf u act s)))"
  unfolding newSession_def Let_def
  by (rule svc_tx_db_inv [OF assms]) (use db_inv_user_stmts(8) [OF assms] in \<open>auto simp: db_inv_Audit\<close>)

lemma account_inv:
  assumes "db_inv E' (svc_db s)"
  shows "db_inv E' (svc_db (snd (Login E H now raw csrf login pw code s)))"
    "db_inv E' (svc_db (snd (LoginOIDC E now raw csrf email s)))"
    "db_inv E' (svc_db (snd (BindOIDCEmail E now login email s)))"
    "db_inv E' (svc_db (snd (Logout E now token s)))"
    "db_inv E' (svc_db (snd (svc_CreateUser E H now salt actor login pw admin s)))"
    "db_inv E' (svc_db (snd (svc_DeleteUser E now u i s)))"
    "db_inv E' (svc_db (snd (ChangePassword H now salt u old new s)))"
    "db_inv E' (svc_db (snd (svc_SetPassword H now salt login pw s)))"
    "db_inv E' (svc_db (snd (EnableTOTP E H now nonce u secret code s)))"
    "db_inv E' (svc_db (snd (DisableTOTP E H now u pw s)))"
    "db_inv E' (svc_db (snd (ResetTOTP E now login s)))"
proof -
  show "db_inv E' (svc_db (snd (Login E H now raw csrf login pw code s)))"
  proof (cases "UserByLogin login (svc_db s)")
    case (Inr u)
    obtain r s1 where c: "checkSecondFactor E H now (usr_ID u) code s = (r, s1)" by fastforce
    then have "db_inv E' (svc_db s1)" using checkSecondFactor_inv [OF assms, of E H now "usr_ID u" code] by simp
    then show ?thesis using assms Inr c by (cases r) (simp_all add: Login_def newSession_inv)
  qed (simp add: Login_def assms)
  show "db_inv E' (svc_db (snd (LoginOIDC E now raw csrf email s)))"
    using assms by (auto simp: LoginOIDC_def newSession_inv split: sum.split)
  show "db_inv E' (svc_db (snd (BindOIDCEmail E now login email s)))"
    unfolding BindOIDCEmail_def Let_def using assms db_inv_user_stmts(5) [OF assms]
    by (auto simp: db_inv_Audit intro!: svc_tx_db_inv)
  show "db_inv E' (svc_db (snd (Logout E now token s)))"
    unfolding Logout_def using assms by (auto simp: db_inv_user_stmts(1-4) intro!: svc_tx_db_inv)
  show "db_inv E' (svc_db (snd (svc_CreateUser E H now salt actor login pw admin s)))"
    unfolding svc_CreateUser_def using assms db_inv_user_stmts(6) [OF assms]
    by (auto simp: db_inv_Audit intro!: svc_tx_db_inv split: sum.splits)
  show "db_inv E' (svc_db (snd (svc_DeleteUser E now u i s)))"
    unfolding svc_DeleteUser_def using assms db_inv_user_stmts(7) [OF assms]
    by (auto simp: db_inv_Audit intro!: change_db_inv split: if_splits)
  show "db_inv E' (svc_db (snd (ChangePassword H now salt u old new s)))"
    "db_inv E' (svc_db (snd (svc_SetPassword H now salt login pw s)))"
    unfolding ChangePassword_def svc_SetPassword_def using assms
    by (auto simp: db_inv_Audit db_inv_user_stmts(1-4) intro!: svc_tx_db_inv split: sum.splits)
  show "db_inv E' (svc_db (snd (EnableTOTP E H now nonce u secret code s)))"
    "db_inv E' (svc_db (snd (DisableTOTP E H now u pw s)))" "db_inv E' (svc_db (snd (ResetTOTP E now login s)))"
    unfolding EnableTOTP_def DisableTOTP_def ResetTOTP_def Let_def using assms
    by (auto simp: db_inv_Audit db_inv_user_stmts(1-4) intro!: svc_tx_db_inv)
qed

section \<open>Events\<close>

datatype svc_event =
    CreateRoomE time user string string string room_draw
  | UpdateRoomE time user string string string string
  | SetRoomDNSE time user string string
  | SetRoomDHTE time user string bool
  | SetRoomACLE time user string string
  | DeleteRoomE time user string
  | CreateInviteE time user string string int duration bool string bytes
  | RevokeInviteE time user string int
  | SetMemberExitE time user string string string
  | MemberActionE time user string string member_action
  | UpdateMemberE time user string string string string string
  | JoinE time bytes join_request addr
  | LeaveE time bytes string
  | PollE time bytes nat int endpoints string addr
  | RelayKeyE bytes bytes
  | VLESSSecretsE bytes bytes bytes bytes bytes bytes
  | LoginE time bytes bytes string string string
  | LoginOIDCE time bytes bytes string
  | BindOIDCEmailE time string string
  | LogoutE time string
  | CreateUserE time bytes "user option" string string bool
  | DeleteUserE time user int
  | ChangePasswordE time bytes user string string
  | SetPasswordE time bytes string string
  | EnableTOTPE time bytes user bytes string
  | DisableTOTPE time user string
  | ResetTOTPE time string
  | QuotasE int int
  | Tick
  | Outside svc_event

fun svc_step :: "env \<Rightarrow> hashes \<Rightarrow> svc_event \<Rightarrow> service \<Rightarrow> service" where
  "svc_step E H (CreateRoomE now u name subnet policy w) s = snd (CreateRoom E now u name subnet policy w s)"
| "svc_step E H (UpdateRoomE now u i name policy bc) s = snd (UpdateRoom E now u i name policy bc s)"
| "svc_step E H (SetRoomDNSE now u i servers) s = snd (SetRoomDNS E now u i servers s)"
| "svc_step E H (SetRoomDHTE now u i on) s = snd (SetRoomDHT E now u i on s)"
| "svc_step E H (SetRoomACLE now u i txt) s = snd (SetRoomACL E now u i txt s)"
| "svc_step E H (DeleteRoomE now u i) s = snd (DeleteRoom E now u i s)"
| "svc_step E H (CreateInviteE now u url i uses ttl aa note raw) s = snd (CreateInvite E now u url i uses ttl aa note raw s)"
| "svc_step E H (RevokeInviteE now u i k) s = snd (RevokeInvite E now u i k s)"
| "svc_step E H (SetMemberExitE now u i n x) s = snd (SetMemberExit E now u i n x s)"
| "svc_step E H (MemberActionE now u i n act) s = snd (MemberAction E now u i n act s)"
| "svc_step E H (UpdateMemberE now u i n name ip tags) s = snd (UpdateMember E now u i n name ip tags s)"
| "svc_step E H (JoinE now key req remote) s = snd (Join E now key req remote s)"
| "svc_step E H (LeaveE now key i) s = snd (Leave E now key i s)"
| "svc_step E H (PollE now key p since ep ver remote) s = snd (poll_begin E now key p since ep ver remote s)"
| "svc_step E H (RelayKeyE nonce drawn) s = snd (RelayKey E nonce drawn s)"
| "svc_step E H (VLESSSecretsE n1 n2 n3 f1 f2 f3) s = snd (VLESSSecrets E n1 n2 n3 f1 f2 f3 s)"
| "svc_step E H (LoginE now raw csrf login pw code) s = snd (Login E H now raw csrf login pw code s)"
| "svc_step E H (LoginOIDCE now raw csrf email) s = snd (LoginOIDC E now raw csrf email s)"
| "svc_step E H (BindOIDCEmailE now login email) s = snd (BindOIDCEmail E now login email s)"
| "svc_step E H (LogoutE now token) s = snd (Logout E now token s)"
| "svc_step E H (CreateUserE now salt actor login pw admin) s = snd (svc_CreateUser E H now salt actor login pw admin s)"
| "svc_step E H (DeleteUserE now u i) s = snd (svc_DeleteUser E now u i s)"
| "svc_step E H (ChangePasswordE now salt u old new) s = snd (ChangePassword H now salt u old new s)"
| "svc_step E H (SetPasswordE now salt login pw) s = snd (svc_SetPassword H now salt login pw s)"
| "svc_step E H (EnableTOTPE now nonce u secret code) s = snd (EnableTOTP E H now nonce u secret code s)"
| "svc_step E H (DisableTOTPE now u pw) s = snd (DisableTOTP E H now u pw s)"
| "svc_step E H (ResetTOTPE now login) s = snd (ResetTOTP E now login s)"
| "svc_step E H (QuotasE r m) s = SetQuotas r m s"
| "svc_step E H Tick s = watch_tick s"
| "svc_step E H (Outside e) s = s\<lparr>svc_db := svc_db (svc_step E H e (NewService (svc_db s)))\<rparr>"

text \<open>What the random number generator delivers: room secrets of 32 bytes and nonces of the size the
  cipher takes.\<close>

fun draws_fit :: "env \<Rightarrow> svc_event \<Rightarrow> bool" where
  "draws_fit E (CreateRoomE now u name subnet policy w) \<longleftrightarrow> nonce_ok E (rd_nonce1 w) \<and> length (rd_secret w) = 32"
| "draws_fit E (Outside e) \<longleftrightarrow> draws_fit E e"
| "draws_fit E _ \<longleftrightarrow> True"

lemma svc_step_inv:
  assumes "env_ok E" "draws_fit E e" "db_inv E (svc_db s)"
  shows "db_inv E (svc_db (svc_step E H e s))"
  using assms
proof (induction e arbitrary: s)
  case (Outside e)
  then show ?case using Outside.IH [of "NewService (svc_db s)"] by (simp add: NewService_def)
qed (simp_all add: operation_inv account_inv SetQuotas_def watch_tick_def)

section \<open>The hub\<close>

text \<open>The hub never runs ahead of the database, pollers wait only on the version the hub knows, and
  with \<open>b\<close> the hub knows the database's version, which is at least \<open>lo\<close>.\<close>

definition hub_good :: "bool \<Rightarrow> int \<Rightarrow> service \<Rightarrow> bool" where
  "hub_good b lo s \<longleftrightarrow> lo \<le> db_version (svc_db s) \<and> hub_version (svc_hub s) \<le> db_version (svc_db s) \<and>
     (b \<longrightarrow> hub_version (svc_hub s) = db_version (svc_db s)) \<and>
     (\<forall>(p, since) \<in> set (hub_waiting (svc_hub s)). since = hub_version (svc_hub s))"

lemma change_hub:
  assumes "hub_good b lo s" "\<And>x d. f (svc_db s) = Inr (x, d) \<Longrightarrow> db_version d = db_version (svc_db s)"
  shows "hub_good b lo (snd (change f s))"
proof (rule change_cases [of f s])
  fix x d assume f: "f (svc_db s) = Inr (x, d)" and c: "change f s = (Inr x, s\<lparr>svc_db := d\<lparr>db_version := db_version d + 1\<rparr>,
      svc_hub := hub_set (db_version d + 1) (svc_hub s)\<rparr>)"
  show ?thesis using assms(1) assms(2) [OF f] by (simp add: c hub_good_def hub_set_def)
qed (use assms(1) in simp)

lemma svc_tx_hub:
  assumes "hub_good b lo s" "\<And>x d. f (svc_db s) = Inr (x, d) \<Longrightarrow> db_version d = db_version (svc_db s)"
  shows "hub_good b lo (snd (svc_tx f s))"
proof (rule svc_tx_cases [of f s])
  fix x d assume f: "f (svc_db s) = Inr (x, d)" and c: "svc_tx f s = (Inr x, s\<lparr>svc_db := d\<rparr>)"
  show ?thesis using assms(1) assms(2) [OF f] by (simp add: c hub_good_def)
qed (use assms(1) in simp)

text \<open>No statement but \<^verbatim>\<open>BumpVersion\<close> writes the version.\<close>

lemma version_stmts [simp]:
  "db_version (tx_UpdateRoom i n p b d) = db_version d" "db_version (tx_SetRoomDHT i on d) = db_version d"
  "db_version (tx_SetRoomACL i acl d) = db_version d" "db_version (tx_SetRoomDNS i dns d) = db_version d"
  "db_version (BumpRoom i d) = db_version d" "db_version (tx_DeleteRoom i d) = db_version d"
  "db_version (DeleteMember i n d) = db_version d" "db_version (tx_RevokeInvite i k d) = db_version d"
  "db_version (Audit t a1 a2 a3 a4 d) = db_version d" "db_version (SetSetting K nn k' v d) = db_version d"
  by (simp_all add: tx_UpdateRoom_def tx_SetRoomDHT_def tx_SetRoomACL_def tx_SetRoomDNS_def BumpRoom_def upd_room_def
      tx_DeleteRoom_def DeleteMember_def tx_RevokeInvite_def Audit_def SetSetting_def)

lemma version_Inr:
  "tx_CreateRoom K t n1 n2 r d = Inr d' \<Longrightarrow> db_version d' = db_version d"
  "tx_CreateInvite t v d = Inr d' \<Longrightarrow> db_version d' = db_version d"
  "UseInvite t i h d = Inr (w, d') \<Longrightarrow> db_version d' = db_version d"
  "UpsertNode t n d = Inr d' \<Longrightarrow> db_version d' = db_version d"
  "UpdateNodeEndpoints t j rc d = Inr (c, d') \<Longrightarrow> db_version d' = db_version d"
  "AddMember t m d = Inr d' \<Longrightarrow> db_version d' = db_version d"
  "tx_UpdateMember m d = Inr d' \<Longrightarrow> db_version d' = db_version d"
  by (auto simp: tx_CreateRoom_def tx_CreateInvite_def UseInvite_def UpsertNode_def UpdateNodeEndpoints_def AddMember_def
      tx_UpdateMember_def split: if_splits sum.splits)

lemma same_tables_version: "same_tables d d' \<Longrightarrow> db_version d' = db_version d"
  by (simp add: same_tables_def)

lemma user_version [simp]:
  "db_version (SetPassword i h d) = db_version d" "db_version (SetTOTP K nn i sec d) = db_version d"
  "db_version (snd (UseTOTPStep i step d)) = db_version d" "db_version (DeleteSession now hh d) = db_version d"
  by (simp_all add: same_tables_version [OF user_stmts_tables(1)] same_tables_version [OF user_stmts_tables(2)]
      same_tables_version [OF user_stmts_tables(3)] same_tables_version [OF user_stmts_tables(4)])

lemma apply_action_version: "apply_action E i n act v d = Inr d' \<Longrightarrow> db_version d' = db_version d"
  by (cases act) (auto simp: apply_action_def Let_def dest!: version_Inr split: if_splits)

lemma join_member_version: "join_member E now mx n req r d = Inr (x, d') \<Longrightarrow> db_version d' = db_version d"
  by (erule join_member_Inr) (auto dest!: version_Inr)

lemma room_ops_hub:
  assumes "hub_good b lo s"
  shows "hub_good b lo (snd (CreateRoom E now u name subnet policy w s))"
    "hub_good b lo (snd (UpdateRoom E now u i name policy bc s))" "hub_good b lo (snd (SetRoomDNS E now u i servers s))"
    "hub_good b lo (snd (SetRoomDHT E now u i on s))" "hub_good b lo (snd (SetRoomACL E now u i txt s))"
    "hub_good b lo (snd (DeleteRoom E now u i s))" "hub_good b lo (snd (RevokeInvite E now u i k s))"
    "hub_good b lo (snd (CreateInvite E now u url i uses ttl aa note raw s))"
    "hub_good b lo (snd (SetMemberExit E now u i n x s))" "hub_good b lo (snd (MemberAction E now u i n act s))"
  using assms
  unfolding CreateRoom_def UpdateRoom_def SetRoomDNS_def SetRoomDHT_def SetRoomACL_def DeleteRoom_def RevokeInvite_def
    CreateInvite_def SetMemberExit_def MemberAction_def room_change_def
  by (auto simp: Let_def dest!: version_Inr apply_action_version intro!: change_hub split: sum.splits)

lemma UpdateMember_hub:
  assumes "hub_good b lo s"
  shows "hub_good b lo (snd (UpdateMember E now u i n name ip tags s))"
  using assms unfolding UpdateMember_def Let_def
  by (cases "parse_addr (trim_space ip)") (auto dest!: version_Inr intro!: change_hub split: sum.splits if_splits)

lemma Join_hub:
  assumes "hub_good b lo s"
  shows "hub_good b lo (snd (Join E now key req remote s))"
proof -
  have "db_version d = db_version (svc_db s)"
    if "UpsertNode t nd (svc_db s) = Inr d1" "UpdateNodeEndpoints t j rc d1 = Inr (c, d2)"
      "(case Member i n d2 of Inr v \<Rightarrow> if P v then Inl Forbidden else Inr (g v, d2)
        | Inl e \<Rightarrow> if e \<noteq> ErrNotFound then Inl (StoreErr e) else join_member E now mx n req r d2) = Inr (x, d)"
    for t nd d1 j rc c d2 i n P g mx r x d
    using that by (cases "Member i n d2") (auto dest!: version_Inr join_member_version split: if_splits)
  then show ?thesis
    using assms unfolding Join_def
    by (cases "RoomByID (env_kek E) (jr_RoomID req) (svc_db s)") (fastforce intro!: change_hub)+
qed

lemma Leave_hub: "hub_good b lo s \<Longrightarrow> hub_good b lo (snd (Leave E now key i s))"
  unfolding Leave_def by (auto intro!: change_hub split: if_splits)

lemma poll_begin_hub:
  assumes "hub_good b lo s"
  shows "hub_good b lo (snd (poll_begin E now key p since ep ver remote s))"
proof -
  have "hub_good b lo (s\<lparr>svc_db := d1, svc_paths := ps\<rparr>)" "hub_good b lo (s\<lparr>svc_db := d1, svc_paths := ps, svc_hub := hub_wait p since (svc_hub s)\<rparr>)"
    if "UpdateNodeEndpoints t j rc (svc_db s) = Inr (c, d1)" for t j rc c d1 ps
    using that assms by (auto simp: hub_good_def hub_wait_def dest!: version_Inr)
  then show ?thesis
    using assms unfolding poll_begin_def
    by (auto simp: Let_def intro!: change_hub split: sum.splits prod.splits)
qed

lemma load_secret_version: "load_secret K nonce k n fresh d = Inr (v, d') \<Longrightarrow> db_version d' = db_version d"
  by (auto simp: load_secret_def split: sum.splits if_splits)

lemma secrets_hub:
  assumes "hub_good b lo s"
  shows "hub_good b lo (snd (RelayKey E nonce drawn s))" "hub_good b lo (snd (VLESSSecrets E n1 n2 n3 f1 f2 f3 s))"
proof -
  show "hub_good b lo (snd (RelayKey E nonce drawn s))"
    using assms by (auto simp: RelayKey_def hub_good_def split: sum.split dest!: load_secret_version)
  show "hub_good b lo (snd (VLESSSecrets E n1 n2 n3 f1 f2 f3 s))"
    using assms by (auto simp: VLESSSecrets_def hub_good_def split: sum.split dest!: load_secret_version)
qed

lemma checkSecondFactor_hub: "hub_good b lo s \<Longrightarrow> hub_good b lo (snd (checkSecondFactor E H now uid code s))"
  unfolding checkSecondFactor_def Let_def
  by (auto simp: UseTOTPStep_def intro!: svc_tx_hub split: if_splits)

lemma newSession_hub: "hub_good b lo s \<Longrightarrow> hub_good b lo (snd (newSession E now raw csrf u act s))"
  unfolding newSession_def Let_def
  by (auto intro!: svc_tx_hub dest!: user_stmts_tables_Inr same_tables_version)

lemma Login_hub: "hub_good b lo s \<Longrightarrow> hub_good b lo (snd (Login E H now raw csrf login pw code s))"
proof (cases "UserByLogin login (svc_db s)")
  case (Inr u)
  assume g: "hub_good b lo s"
  obtain r s1 where c: "checkSecondFactor E H now (usr_ID u) code s = (r, s1)" by fastforce
  then have "hub_good b lo s1" using checkSecondFactor_hub [OF g, of E H now "usr_ID u" code] by simp
  then show ?thesis using g Inr c by (cases r) (simp_all add: Login_def newSession_hub)
qed (simp add: Login_def)

lemma account_hub:
  assumes "hub_good b lo s"
  shows "hub_good b lo (snd (LoginOIDC E now raw csrf email s))" "hub_good b lo (snd (BindOIDCEmail E now login email s))"
    "hub_good b lo (snd (Logout E now token s))" "hub_good b lo (snd (svc_CreateUser E H now salt actor login pw admin s))"
    "hub_good b lo (snd (svc_DeleteUser E now u i s))" "hub_good b lo (snd (ChangePassword H now salt u old new s))"
    "hub_good b lo (snd (svc_SetPassword H now salt login pw s))" "hub_good b lo (snd (EnableTOTP E H now nonce u secret code s))"
    "hub_good b lo (snd (DisableTOTP E H now u pw s))" "hub_good b lo (snd (ResetTOTP E now login s))"
  using assms
  unfolding LoginOIDC_def BindOIDCEmail_def Logout_def svc_CreateUser_def svc_DeleteUser_def ChangePassword_def
    svc_SetPassword_def EnableTOTP_def DisableTOTP_def ResetTOTP_def Let_def
  by (auto simp: newSession_hub intro!: svc_tx_hub change_hub
      dest!: user_stmts_tables_Inr same_tables_version split: sum.splits if_splits)

lemmas operation_hub = room_ops_hub UpdateMember_hub Join_hub Leave_hub poll_begin_hub secrets_hub Login_hub account_hub

fun inside :: "svc_event \<Rightarrow> bool" where
  "inside (Outside e) = False"
| "inside _ = True"

lemma svc_step_hub:
  assumes "hub_good b lo s" "b \<longrightarrow> inside e"
  shows "hub_good b lo (svc_step E H e s)"
  using assms
proof (induction e arbitrary: s b lo)
  case (Outside e)
  have "hub_good False (db_version (svc_db s)) (NewService (svc_db s))" by (simp add: hub_good_def NewService_def newHub_def)
  from Outside.IH [OF this] have "db_version (svc_db s) \<le> db_version (svc_db (svc_step E H e (NewService (svc_db s))))"
    by (simp add: hub_good_def)
  then show ?case using Outside.prems by (auto simp: hub_good_def)
qed (simp_all add: operation_hub, auto simp: SetQuotas_def watch_tick_def hub_good_def hub_set_def)

section \<open>Runs\<close>

abbreviation svc_run :: "env \<Rightarrow> hashes \<Rightarrow> svc_event list \<Rightarrow> service \<Rightarrow> service" where
  "svc_run E H \<equiv> run (svc_step E H)"

interpretation svc_data: machine "svc_step E H" "\<lambda>e. env_ok E \<and> draws_fit E e" "\<lambda>s. db_inv E (svc_db s)"
  by unfold_locales (simp add: svc_step_inv)

interpretation svc_hub_any: machine "svc_step E H" "\<lambda>_. True" "hub_good False lo"
  by unfold_locales (simp add: svc_step_hub)

interpretation svc_hub_sync: machine "svc_step E H" inside "hub_good True lo"
  by unfold_locales (simp add: svc_step_hub)


text \<open>C9: No wake-up is lost. In every run a poller that still waits asked for changes since the
  version that the hub knows; if nobody changed the database from outside, that is the version
  of the database, so the poller has seen everything. After a tick of the ticker the same holds
  whatever other processes did.\<close>

theorem hub_no_lost_wakeup:
  fixes E H es d
  assumes s: "s = svc_run E H es (NewService d)" and w: "(p, since) \<in> set (hub_waiting (svc_hub s))"
  shows "since = hub_version (svc_hub s) \<and> since \<le> db_version (svc_db s) \<and>
    (list_all inside es \<longrightarrow> since = db_version (svc_db s)) \<and>
    ((p, since) \<in> set (hub_waiting (svc_hub (svc_step E H Tick s))) \<longrightarrow> since = db_version (svc_db s))"
proof -
  have n: "hub_good b (db_version d) (NewService d)" for b by (simp add: hub_good_def NewService_def newHub_def)
  have f: "hub_good False (db_version d) s" unfolding s by (rule svc_hub_any.run_inv) (use n in auto)
  moreover have "hub_good True (db_version d) s" if "list_all inside es"
    unfolding s by (rule svc_hub_sync.run_inv) (use n that in \<open>auto simp: list_all_iff\<close>)
  ultimately show ?thesis
    using w by (auto simp: hub_good_def watch_tick_def hub_set_def split: if_splits)
qed

section \<open>Witnesses\<close>

text \<open>A database with one of everything, with the member in a given status.\<close>

definition home_room :: room where
  "home_room = \<lparr>rm_ID = ''0102'', rm_Name = ''home'', rm_Subnet = \<lparr>pfx_addr = V4 0x0A640100, pfx_bits = 24\<rparr>,
     rm_Secret = replicate 32 7, rm_SignKey = [5], rm_OwnerID = 1, rm_JoinPolicy = ''auto'', rm_Broadcast = ''on'', rm_DNS = [],
     rm_ACL = [], rm_DHT = False, rm_Version = 2, rm_CreatedAt = 0\<rparr>"

definition sample_node :: node where
  "sample_node = \<lparr>nd_ID = ''aq'', nd_EdKey = [4], nd_BoxKey = [2], nd_Name = ''laptop'', nd_reach = empty_reach, nd_LastSeen = 0,
     nd_CreatedAt = 0\<rparr>"

definition sample_member :: "status \<Rightarrow> member" where
  "sample_member st = \<lparr>mb_RoomID = ''0102'', mb_NodeID = ''aq'', mb_Name = ''laptop'', mb_WGKey = [1], mb_IP = V4 0x0A640101,
     mb_Tags = [], mb_Status = st, mb_CreatedAt = 0, mb_Routes = [], mb_Exit = False, mb_UseExit = []\<rparr>"

definition sample_invite :: invite where
  "sample_invite = \<lparr>inv_ID = 1, inv_RoomID = ''0102'', inv_TokenHash = [65, 119], inv_UsesLeft = 1, inv_Expires = 60,
     inv_AutoApprove = False, inv_Note = [], inv_CreatedBy = 1, inv_CreatedAt = 0\<rparr>"

definition sample_db :: "status \<Rightarrow> db" where
  "sample_db st = empty_db\<lparr>db_users := [sample_user], db_rooms := [home_room], db_nodes := [sample_node],
     db_members := [sample_member st], db_invites := [sample_invite]\<rparr>"

definition sample_endpoints :: endpoints where
  "sample_endpoints = \<lparr>ep_UDPPort = 0, ep_Locals = [], ep_Reflexive = [], ep_NAT = [], ep_PortMap = \<lparr>ap_addr = NoAddr, ap_port = 0\<rparr>,
     ep_DiscoKey = [], ep_Relay = [], ep_Paths = (0, 0), ep_Routes = [], ep_Exit = False, ep_ExitDNS = False\<rparr>"

definition sample_join :: join_request where
  "sample_join = \<lparr>jr_RoomID = ''0102'', jr_Token = b64url_encode [3], jr_Name = ''laptop'', jr_WGKey = [1], jr_BoxKey = [2],
     jr_Endpoints = sample_endpoints, jr_ClientVersion = ''1''\<rparr>"

definition sample_events :: "svc_event list" where
  "sample_events = [CreateUserE 0 [1, 2] None ''root'' ''correct horse'' True,
     CreateRoomE 0 sample_user ''home'' ''10.100.1.0/24'' ''auto'' \<lparr>rd_secret = replicate 32 7, rd_signKey = [5], rd_subnets = [],
       rd_nonce1 = [], rd_nonce2 = []\<rparr>,
     CreateInviteE 0 sample_user ''https://c'' ''0102'' 1 minute False [] [3], JoinE 0 [4] sample_join (V4 1)]"

lemma home_room_ok: "room_ok sample_env home_room"
proof -
  have "RoomID (sg_hkdf sample_signer) (replicate 32 7) = ''0102''" by code_simp
  moreover have "v4_net (rm_Subnet home_room)" by code_simp
  ultimately show ?thesis by (simp add: room_ok_def home_room_def sample_env_def tx_open_def)
qed

lemma sample_member_ok: "member_ok (rm_Subnet home_room) (sample_member st)"
proof -
  have "usableHost (rm_Subnet home_room) (V4 0x0A640101)" by code_simp
  then show ?thesis by (simp add: member_ok_def sample_member_def)
qed

lemma sample_db_inv: "db_inv sample_env (sample_db st)"
  using home_room_ok sample_member_ok [of st]
  by (simp add: db_inv_def sample_db_def schema_ok_def members_ok_def empty_db_def)
    (simp add: sample_user_def home_room_def sample_node_def sample_member_def sample_invite_def empty_reach_def)

lemma sample_env_ok: "env_ok sample_env"
  by (simp add: env_ok_def sample_env_def)

lemma sample_draws: "\<forall>e \<in> set sample_events. draws_fit sample_env e"
  by (simp add: sample_events_def nonce_ok_def sample_env_def)

lemma sample_node_id: "node_id sample_env [4] = ''aq''"
  by code_simp


theorem hub_no_lost_wakeup_witness:
  "hub_waiting (svc_hub (svc_run sample_env sample_hashes [PollE 0 [4] 7 1 sample_endpoints [] NoAddr] (NewService (sample_db StatusActive)))) = [(7, 1)] \<and>
   db_version (svc_db (svc_run sample_env sample_hashes [PollE 0 [4] 7 1 sample_endpoints [] NoAddr] (NewService (sample_db StatusActive)))) = 1"
proof -
  let ?s = "svc_run sample_env sample_hashes [PollE 0 [4] 7 1 sample_endpoints [] NoAddr] (NewService (sample_db StatusActive))"
  have w: "hub_waiting (svc_hub ?s) = [(7, 1)]"
    by (simp add: poll_begin_def sample_node_id sample_db_def NodeByID_def find_row_def NewService_def newHub_def hub_wait_def
        UpdateNodeEndpoints_def Let_def) (simp add: sample_node_def reach_of_def empty_reach_def sample_endpoints_def cleanLocals_def empty_db_def ap_valid_def knownNAT_def zero_key_def)
  then have "(7, 1) \<in> set (hub_waiting (svc_hub ?s))" by simp
  from hub_no_lost_wakeup [OF refl this] w show ?thesis by simp
qed

end
