(* ===== verification/Membership.thy ===== *)
theory Membership
  imports Controller_Run
begin

text \<open>
  What the controller promises about membership, as an abstract machine: who is a member of
  which room with which status, and the ways it changes. Every operation of the service is a
  step of that machine (\<open>membership_refines\<close>), so what the abstract steps keep, the controller keeps.
\<close>

section \<open>The specification\<close>

type_synonym membership = "string \<times> string \<Rightarrow> status option"

datatype member_label =
    Nothing
  | Joined string string status
  | Departed string string
  | Decided string string status
  | Kicked string string
  | RoomGone string

inductive member_step :: "membership \<Rightarrow> member_label \<Rightarrow> membership \<Rightarrow> bool" where
  stays: "member_step M Nothing M"
| joins: "M (i, n) = None \<Longrightarrow> st \<noteq> StatusBanned \<Longrightarrow> member_step M (Joined i n st) (M((i, n) \<mapsto> st))"
| departs: "M (i, n) \<noteq> None \<Longrightarrow> M (i, n) \<noteq> Some StatusBanned \<Longrightarrow> member_step M (Departed i n) (M((i, n) := None))"
| decided: "M (i, n) \<noteq> None \<Longrightarrow> member_step M (Decided i n st) (M((i, n) \<mapsto> st))"
| kicked: "M (i, n) \<noteq> None \<Longrightarrow> member_step M (Kicked i n) (M((i, n) := None))"
| gone: "member_step M (RoomGone i) (\<lambda>(r, n). if r = i then None else M (r, n))"

inductive_simps member_step_simps:
  "member_step M Nothing M'" "member_step M (Joined i n st) M'" "member_step M (Departed i n) M'"
  "member_step M (Decided i n st) M'" "member_step M (Kicked i n) M'" "member_step M (RoomGone i) M'"

definition abs_members :: "db \<Rightarrow> membership" where
  "abs_members d = map_of (map (\<lambda>m. ((mb_RoomID m, mb_NodeID m), mb_Status m)) (db_members d))"

section \<open>What the operations do to members and invites\<close>

definition mi :: "db \<Rightarrow> member list \<times> invite list" where
  "mi d = (db_members d, db_invites d)"

lemma mi_frame [simp]: "mi (d\<lparr>db_version := v\<rparr>) = mi d" "mi (d\<lparr>db_settings := st\<rparr>) = mi d" "mi (d\<lparr>db_audit := au\<rparr>) = mi d"
  by (simp_all add: mi_def)

lemma change_mi:
  assumes "\<And>x d. f (svc_db s) = Inr (x, d) \<Longrightarrow> mi d = mi (svc_db s)"
  shows "mi (svc_db (snd (change f s))) = mi (svc_db s)"
proof (rule change_cases [of f s])
  fix x d assume f: "f (svc_db s) = Inr (x, d)" and c: "change f s = (Inr x, s\<lparr>svc_db := d\<lparr>db_version := db_version d + 1\<rparr>,
      svc_hub := hub_set (db_version d + 1) (svc_hub s)\<rparr>)"
  show ?thesis using assms [OF f] by (simp add: c)
qed simp

lemma svc_tx_mi:
  assumes "\<And>x d. f (svc_db s) = Inr (x, d) \<Longrightarrow> mi d = mi (svc_db s)"
  shows "mi (svc_db (snd (svc_tx f s))) = mi (svc_db s)"
proof (rule svc_tx_cases [of f s])
  fix x d assume f: "f (svc_db s) = Inr (x, d)" and c: "svc_tx f s = (Inr x, s\<lparr>svc_db := d\<rparr>)"
  show ?thesis using assms [OF f] by (simp add: c)
qed simp

lemma mi_stmts [simp]:
  "mi (tx_UpdateRoom i n p b d) = mi d" "mi (tx_SetRoomDHT i on d) = mi d" "mi (tx_SetRoomACL i acl d) = mi d"
  "mi (tx_SetRoomDNS i dns d) = mi d" "mi (BumpRoom i d) = mi d" "mi (Audit t a1 a2 a3 a4 d) = mi d"
  "mi (SetSetting K nn k' v d) = mi d" "mi (SetPassword j h d) = mi d" "mi (SetTOTP K nn j sec d) = mi d"
  "mi (snd (UseTOTPStep j step d)) = mi d" "mi (DeleteSession now hh d) = mi d"
  by (simp_all add: mi_def tx_UpdateRoom_def tx_SetRoomDHT_def tx_SetRoomACL_def tx_SetRoomDNS_def BumpRoom_def upd_room_def
      Audit_def SetSetting_def SetPassword_def SetTOTP_def upd_user_def UseTOTPStep_def DeleteSession_def)

lemma mi_Inr:
  "tx_CreateRoom K t n1 n2 r d = Inr d' \<Longrightarrow> mi d' = mi d" "UpsertNode t n d = Inr d' \<Longrightarrow> mi d' = mi d"
  "UpdateNodeEndpoints t j rc d = Inr (c, d') \<Longrightarrow> mi d' = mi d"
  "SetOIDCEmail ui em d = Inr d' \<Longrightarrow> mi d' = mi d" "CreateUser now l h a d = Inr (k, d') \<Longrightarrow> mi d' = mi d"
  "DeleteUser ui d = Inr d' \<Longrightarrow> mi d' = mi d" "CreateSession hh ui c' x d = Inr d' \<Longrightarrow> mi d' = mi d"
  by (auto simp: mi_def tx_CreateRoom_def UpsertNode_def UpdateNodeEndpoints_def SetOIDCEmail_def upd_user_def CreateUser_def
      DeleteUser_def CreateSession_def Let_def split: if_splits sum.splits)

lemma rooms_mi:
  "mi (svc_db (snd (CreateRoom E now u name subnet policy w s))) = mi (svc_db s)"
  "mi (svc_db (snd (UpdateRoom E now u i name policy bc s))) = mi (svc_db s)"
  "mi (svc_db (snd (SetRoomDNS E now u i servers s))) = mi (svc_db s)"
  "mi (svc_db (snd (SetRoomDHT E now u i on s))) = mi (svc_db s)"
  "mi (svc_db (snd (SetRoomACL E now u i txt s))) = mi (svc_db s)"
  unfolding CreateRoom_def UpdateRoom_def SetRoomDNS_def SetRoomDHT_def SetRoomACL_def room_change_def
  by (auto simp: Let_def dest!: mi_Inr intro!: change_mi split: sum.split)

lemma poll_begin_mi: "mi (svc_db (snd (poll_begin E now key p since ep ver remote s))) = mi (svc_db s)"
proof -
  have "mi (svc_db (snd (change (\<lambda>d. Inr (x, d)) s'))) = mi (svc_db s')" for x :: bytes and s'
    by (rule change_mi) auto
  then show ?thesis
    unfolding poll_begin_def by (auto simp: Let_def dest!: mi_Inr split: sum.split prod.split)
qed

lemma load_secret_mi: "load_secret K nonce k n fresh d = Inr (v, d') \<Longrightarrow> mi d' = mi d"
  by (auto simp: load_secret_def split: sum.splits if_splits)

lemma secrets_mi:
  "mi (svc_db (snd (RelayKey E nonce drawn s))) = mi (svc_db s)"
  "mi (svc_db (snd (VLESSSecrets E n1 n2 n3 f1 f2 f3 s))) = mi (svc_db s)"
  by (auto simp: RelayKey_def VLESSSecrets_def split: sum.split dest!: load_secret_mi)

lemma checkSecondFactor_mi: "mi (svc_db (snd (checkSecondFactor E H now uid code s))) = mi (svc_db s)"
  unfolding checkSecondFactor_def Let_def
  by (rule svc_tx_mi) (auto simp: UseTOTPStep_def mi_def split: if_splits)

lemma newSession_mi: "mi (svc_db (snd (newSession E now raw csrf u act s))) = mi (svc_db s)"
  unfolding newSession_def Let_def by (rule svc_tx_mi) (auto dest!: mi_Inr)

lemma Login_mi: "mi (svc_db (snd (Login E H now raw csrf login pw code s))) = mi (svc_db s)"
proof (cases "UserByLogin login (svc_db s)")
  case (Inr u)
  obtain r s1 where c: "checkSecondFactor E H now (usr_ID u) code s = (r, s1)" by fastforce
  then have "mi (svc_db s1) = mi (svc_db s)" using checkSecondFactor_mi [of E H now "usr_ID u" code s] by simp
  then show ?thesis using Inr c by (cases r) (simp_all add: Login_def newSession_mi)
qed (simp add: Login_def)

lemma account_mi:
  "mi (svc_db (snd (LoginOIDC E now raw csrf email s))) = mi (svc_db s)"
  "mi (svc_db (snd (BindOIDCEmail E now login email s))) = mi (svc_db s)"
  "mi (svc_db (snd (Logout E now token s))) = mi (svc_db s)"
  "mi (svc_db (snd (svc_CreateUser E H now salt actor login pw admin s))) = mi (svc_db s)"
  "mi (svc_db (snd (svc_DeleteUser E now u i s))) = mi (svc_db s)"
  "mi (svc_db (snd (ChangePassword H now salt u old new s))) = mi (svc_db s)"
  "mi (svc_db (snd (svc_SetPassword H now salt login pw s))) = mi (svc_db s)"
  "mi (svc_db (snd (EnableTOTP E H now nonce u secret code s))) = mi (svc_db s)"
  "mi (svc_db (snd (DisableTOTP E H now u pw s))) = mi (svc_db s)"
  "mi (svc_db (snd (ResetTOTP E now login s))) = mi (svc_db s)"
  unfolding LoginOIDC_def BindOIDCEmail_def Logout_def svc_CreateUser_def svc_DeleteUser_def ChangePassword_def
    svc_SetPassword_def EnableTOTP_def DisableTOTP_def ResetTOTP_def Let_def
  by (auto simp: newSession_mi intro!: svc_tx_mi change_mi dest!: mi_Inr split: sum.splits if_splits)

lemmas quiet_mi = rooms_mi poll_begin_mi secrets_mi Login_mi account_mi

section \<open>Statements, seen through the abstraction\<close>

lemma abs_members_mi: "mi d' = mi d \<Longrightarrow> abs_members d' = abs_members d"
  by (simp add: mi_def abs_members_def)

lemma abs_members_Audit [simp]: "abs_members (Audit t a1 a2 a3 a4 d) = abs_members d"
  "abs_members (BumpRoom i d) = abs_members d" "abs_members (d\<lparr>db_version := v\<rparr>) = abs_members d"
  by (rule abs_members_mi, simp)+

lemma abs_DeleteMember: "abs_members (DeleteMember i n d) = (abs_members d)((i, n) := None)"
proof -
  have "map_of (map (\<lambda>m. ((mb_RoomID m, mb_NodeID m), mb_Status m)) (filter (\<lambda>m. \<not> (mb_RoomID m = i \<and> mb_NodeID m = n)) ms)) =
      (map_of (map (\<lambda>m. ((mb_RoomID m, mb_NodeID m), mb_Status m)) ms))((i, n) := None)" for ms
    by (induction ms) auto
  then show ?thesis by (simp add: abs_members_def DeleteMember_def)
qed

lemma abs_DeleteRoom: "abs_members (tx_DeleteRoom i d) = (\<lambda>(r, n). if r = i then None else abs_members d (r, n))"
proof -
  have "map_of (map (\<lambda>m. ((mb_RoomID m, mb_NodeID m), mb_Status m)) (filter (\<lambda>m. mb_RoomID m \<noteq> i) ms)) =
      (\<lambda>(r, n). if r = i then None else map_of (map (\<lambda>m. ((mb_RoomID m, mb_NodeID m), mb_Status m)) ms) (r, n))" for ms
    by (induction ms) auto
  then show ?thesis unfolding abs_members_def by (simp add: tx_DeleteRoom_def)
qed

lemma abs_UpdateMember:
  assumes "tx_UpdateMember m d = Inr d'" "abs_members d (mb_RoomID m, mb_NodeID m) \<noteq> None"
  shows "abs_members d' = (abs_members d)((mb_RoomID m, mb_NodeID m) \<mapsto> mb_Status m)"
proof -
  let ?a = "\<lambda>m. ((mb_RoomID m, mb_NodeID m), mb_Status m)" and ?f = "\<lambda>o'. if same_key m o' then set_columns m o' else o'"
  have "map_of (map ?a (map ?f ms)) k = (if k = (mb_RoomID m, mb_NodeID m) then
      (case map_of (map ?a ms) k of None \<Rightarrow> None | Some _ \<Rightarrow> Some (mb_Status m)) else map_of (map ?a ms) k)" for ms k
    by (induction ms) (auto simp: same_key_def set_columns_def)
  moreover have "d' = d\<lparr>db_members := map ?f (db_members d)\<rparr>"
    using assms(1) by (auto simp: tx_UpdateMember_def split: if_splits)
  ultimately show ?thesis using assms(2) by (auto simp: abs_members_def fun_eq_iff simp del: map_map)
qed

lemma abs_AddMember:
  assumes "AddMember t m d = Inr d'"
  shows "abs_members d' = (abs_members d)((mb_RoomID m, mb_NodeID m) \<mapsto> mb_Status m)"
    "abs_members d (mb_RoomID m, mb_NodeID m) = None"
proof -
  have n: "\<forall>x \<in> set (db_members d). (mb_RoomID x, mb_NodeID x) \<noteq> (mb_RoomID m, mb_NodeID m)"
    using assms by (auto simp: AddMember_def split: if_splits)
  show none: "abs_members d (mb_RoomID m, mb_NodeID m) = None"
    unfolding abs_members_def map_of_eq_None_iff using n by auto
  have "d' = d\<lparr>db_members := db_members d @ [m\<lparr>mb_CreatedAt := t, mb_Routes := [], mb_Exit := False, mb_UseExit := []\<rparr>]\<rparr>"
    using assms by (auto simp: AddMember_def split: if_splits)
  then show "abs_members d' = (abs_members d)((mb_RoomID m, mb_NodeID m) \<mapsto> mb_Status m)"
    using none by (auto simp: abs_members_def fun_eq_iff map_add_def split: option.splits)
qed

lemma abs_Member_Inr:
  assumes "Member i n d = Inr v"
  shows "abs_members d (i, n) = Some (mb_Status (mv v))"
proof -
  have "map_of (map (\<lambda>m. ((mb_RoomID m, mb_NodeID m), mb_Status m)) ms) (i, n) = Some (mb_Status m)"
    if "find_row (\<lambda>m. mb_RoomID m = i \<and> mb_NodeID m = n) ms = Inr m" for ms m
    using that by (induction ms) (auto simp: find_row_def split: if_splits)
  then show ?thesis
    using assms by (auto simp: Member_def view_of_def abs_members_def split: sum.splits option.splits)
qed

lemma abs_Member_Inl:
  assumes "schema_ok d" "Member i n d = Inl e"
  shows "abs_members d (i, n) = None"
proof (rule ccontr)
  assume "abs_members d (i, n) \<noteq> None"
  then have "(i, n) \<in> (\<lambda>m. (mb_RoomID m, mb_NodeID m)) ` set (db_members d)"
    unfolding abs_members_def map_of_eq_None_iff by (auto simp: image_iff)
  then have ex: "\<exists>m \<in> set (db_members d). mb_RoomID m = i \<and> mb_NodeID m = n" by auto
  then obtain m where m: "find_row (\<lambda>m. mb_RoomID m = i \<and> mb_NodeID m = n) (db_members d) = Inr m"
    using find_row_Inl by (metis (mono_tags, lifting) sum.exhaust)
  have "n \<in> nd_ID ` set (db_nodes d)" using ex assms(1) by (auto simp: schema_ok_def)
  then have "List.find (\<lambda>x. nd_ID x = n) (db_nodes d) \<noteq> None" by (auto simp: find_None_iff)
  then show False
    using assms(2) m find_row_Inr [OF m] by (auto simp: Member_def view_of_def split: option.splits)
qed

section \<open>The simulation\<close>

text \<open>The step of the specification that an event is. Only operations that succeed are steps at all.\<close>

definition succeeded :: "(svc_error + 'a) \<times> service \<Rightarrow> bool" where
  "succeeded r = (case fst r of Inr _ \<Rightarrow> True | Inl _ \<Rightarrow> False)"

definition action_label :: "string \<Rightarrow> string \<Rightarrow> member_action \<Rightarrow> member_label" where
  "action_label i n act = (case act of
     ActApprove \<Rightarrow> Decided i n StatusActive | ActUnban \<Rightarrow> Decided i n StatusActive
   | ActBan \<Rightarrow> Decided i n StatusBanned | ActKick \<Rightarrow> Kicked i n | _ \<Rightarrow> Nothing)"

fun member_label_of :: "env \<Rightarrow> svc_event \<Rightarrow> service \<Rightarrow> member_label" where
  "member_label_of E (DeleteRoomE now u i) s = (if succeeded (DeleteRoom E now u i s) then RoomGone i else Nothing)"
| "member_label_of E (MemberActionE now u i n act) s =
     (if succeeded (MemberAction E now u i n act s) then action_label i n act else Nothing)"
| "member_label_of E (JoinE now key req remote) s =
     (case fst (Join E now key req remote s) of
        Inl _ \<Rightarrow> Nothing
      | Inr resp \<Rightarrow> if abs_members (svc_db s) (jr_RoomID req, node_id E key) \<noteq> None then Nothing
          else Joined (jr_RoomID req) (node_id E key) (jresp_Status resp))"
| "member_label_of E (LeaveE now key i) s =
     (if succeeded (Leave E now key i s) \<and> abs_members (svc_db s) (i, node_id E key) \<noteq> Some StatusBanned
      then Departed i (node_id E key) else Nothing)"
| "member_label_of E (Outside e) s = member_label_of E e (NewService (svc_db s))"
| "member_label_of E _ s = Nothing"

text \<open>A successful transaction, seen through the abstraction.\<close>

lemma change_abs:
  assumes "succeeded (change f s)" "\<And>x d. f (svc_db s) = Inr (x, d) \<Longrightarrow> abs_members d = M"
  shows "abs_members (svc_db (snd (change f s))) = M"
  by (rule change_cases [of f s]) (use assms in \<open>auto simp: succeeded_def\<close>)

lemma succeeded_changeE:
  assumes "succeeded (change f s)"
  obtains x d where "f (svc_db s) = Inr (x, d)" "fst (change f s) = Inr x"
    "svc_db (snd (change f s)) = d\<lparr>db_version := db_version d + 1\<rparr>"
  using assms by (rule_tac change_cases [of f s]) (auto simp: succeeded_def)

lemma succeeded_change: "succeeded (change f s) \<longleftrightarrow> (\<exists>x d. f (svc_db s) = Inr (x, d))"
  by (rule change_cases [of f s]) (auto simp: succeeded_def)

lemma change_fails_abs: "\<not> succeeded (change f s) \<Longrightarrow> snd (change f s) = s"
  by (rule change_cases [of f s]) (auto simp: succeeded_def)

lemma DeleteRoom_abs:
  "abs_members (svc_db (snd (DeleteRoom E now u i s))) =
     (if succeeded (DeleteRoom E now u i s) then (\<lambda>(r, n). if r = i then None else abs_members (svc_db s) (r, n))
      else abs_members (svc_db s))"
proof (cases "succeeded (DeleteRoom E now u i s)")
  case True
  then show ?thesis unfolding DeleteRoom_def if_P [OF True [unfolded DeleteRoom_def]]
    by (rule change_abs) (auto simp: abs_DeleteRoom)
qed (simp add: DeleteRoom_def change_fails_abs)

lemma SetMemberExit_abs: "abs_members (svc_db (snd (SetMemberExit E now u i n x s))) = abs_members (svc_db s)"
proof (cases "succeeded (SetMemberExit E now u i n x s)")
  case True
  have "abs_members d1 = abs_members (svc_db s)"
    if v: "Member i n (svc_db s) = Inr v" "tx_UpdateMember ((mv v)\<lparr>mb_UseExit := x\<rparr>) (svc_db s) = Inr d1" for v d1
    using abs_UpdateMember [OF v(2)] abs_Member_Inr [OF v(1)] Member_Inr [OF v(1)] by (auto simp: fun_eq_iff)
  with True show ?thesis unfolding SetMemberExit_def by (intro change_abs) auto
qed (simp add: SetMemberExit_def change_fails_abs)

lemma UpdateMember_abs: "abs_members (svc_db (snd (UpdateMember E now u i n name ip tags s))) = abs_members (svc_db s)"
proof -
  have "abs_members d1 = abs_members (svc_db s)"
    if v: "tx_UpdateMember m (svc_db s) = Inr d1" "Member i n (svc_db s) = Inr v"
      "mb_RoomID m = mb_RoomID (mv v)" "mb_NodeID m = mb_NodeID (mv v)" "mb_Status m = mb_Status (mv v)" for v m d1
    using abs_UpdateMember [OF v(1)] abs_Member_Inr [OF v(2)] Member_Inr [OF v(2)] v(3-5) by (auto simp: fun_eq_iff)
  note upd = this
  have "abs_members (svc_db (snd (change f s))) = abs_members (svc_db s)"
    if "\<And>x d. f (svc_db s) = Inr (x, d) \<Longrightarrow> abs_members d = abs_members (svc_db s)" for f :: "db \<Rightarrow> svc_error + unit \<times> db"
    using that change_abs [of f s] change_fails_abs [of f s] by (cases "succeeded (change f s)") auto
  note chg = this
  show ?thesis
    unfolding UpdateMember_def Let_def
    by (cases "parse_addr (trim_space ip)") (auto intro!: chg split: sum.splits if_splits, (erule upd, assumption, simp, simp, simp)+)
qed

lemma apply_action_abs:
  assumes v: "Member i n d = Inr v" and a: "apply_action E i n act v d = Inr d1"
  shows "abs_members d1 = (case action_label i n act of Decided _ _ st \<Rightarrow> (abs_members d)((i, n) \<mapsto> st)
    | Kicked _ _ \<Rightarrow> (abs_members d)((i, n) := None) | _ \<Rightarrow> abs_members d)"
proof -
  have upd: "abs_members d1 = (abs_members d)((i, n) \<mapsto> mb_Status m)"
    if "tx_UpdateMember m d = Inr d1" "mb_RoomID m = mb_RoomID (mv v)" "mb_NodeID m = mb_NodeID (mv v)" for m
    using abs_UpdateMember [OF that(1)] abs_Member_Inr [OF v] Member_Inr [OF v] that(2,3) by simp
  have same: "(abs_members d)((i, n) \<mapsto> mb_Status (mv v)) = abs_members d"
    using abs_Member_Inr [OF v] by (auto simp: fun_eq_iff)
  show ?thesis
    using a same by (cases act) (auto simp: apply_action_def action_label_def Let_def abs_DeleteMember dest!: upd split: if_splits)
qed

lemma MemberAction_abs:
  "abs_members (svc_db (snd (MemberAction E now u i n act s))) =
     (if succeeded (MemberAction E now u i n act s) then
        (case action_label i n act of Decided _ _ st \<Rightarrow> (abs_members (svc_db s))((i, n) \<mapsto> st)
         | Kicked _ _ \<Rightarrow> (abs_members (svc_db s))((i, n) := None) | _ \<Rightarrow> abs_members (svc_db s))
      else abs_members (svc_db s))"
proof (cases "succeeded (MemberAction E now u i n act s)")
  case True
  then show ?thesis unfolding MemberAction_def if_P [OF True [unfolded MemberAction_def]]
    by (rule change_abs) (auto simp: apply_action_abs)
qed (simp add: MemberAction_def change_fails_abs)

lemma MemberAction_member:
  "succeeded (MemberAction E now u i n act s) \<Longrightarrow> abs_members (svc_db s) (i, n) \<noteq> None"
  unfolding MemberAction_def
  by (auto simp: succeeded_change dest!: abs_Member_Inr)

lemma Leave_abs:
  "abs_members (svc_db (snd (Leave E now key i s))) =
     (if succeeded (Leave E now key i s) \<and> abs_members (svc_db s) (i, node_id E key) \<noteq> Some StatusBanned
      then (abs_members (svc_db s))((i, node_id E key) := None) else abs_members (svc_db s))"
proof (cases "succeeded (Leave E now key i s)")
  case True
  from True show ?thesis
    unfolding Leave_def
  proof (rule succeeded_changeE, goal_cases)
    case (1 x d)
    then obtain v where v: "Member i (node_id E key) (svc_db s) = Inr v" by auto
    with 1(1) have "abs_members d = (if mb_Status (mv v) = StatusBanned then abs_members (svc_db s)
        else (abs_members (svc_db s))((i, node_id E key) := None))"
      by (auto simp: abs_DeleteMember split: if_splits)
    then show ?case using 1(3) abs_Member_Inr [OF v] True by (simp add: Leave_def)
  qed
qed (simp add: Leave_def change_fails_abs)

lemma Leave_member: "succeeded (Leave E now key i s) \<Longrightarrow> abs_members (svc_db s) (i, node_id E key) \<noteq> None"
  unfolding Leave_def
  by (auto simp: succeeded_change dest!: abs_Member_Inr)

section \<open>Joining\<close>

definition use_invite :: "invite \<Rightarrow> invite list \<Rightarrow> invite list" where
  "use_invite v vs = (if 0 < inv_UsesLeft v
     then map (\<lambda>w. if inv_ID w = inv_ID v then w\<lparr>inv_UsesLeft := inv_UsesLeft w - 1\<rparr> else w) vs else vs)"

lemma UseInvite_Inr:
  assumes "UseInvite now i h d = Inr (v, d')"
  shows "v \<in> set (db_invites d)" "inv_RoomID v = i" "inv_TokenHash v = h" "live_invite now v"
    "db_invites d' = use_invite v (db_invites d)" "db_members d' = db_members d"
proof -
  have *: "find_row (\<lambda>v. inv_RoomID v = i \<and> inv_TokenHash v = h \<and> live_invite now v) (db_invites d) = Inr v"
    using assms by (auto simp: UseInvite_def split: sum.splits)
  then show "v \<in> set (db_invites d)" "inv_RoomID v = i" "inv_TokenHash v = h" "live_invite now v"
    using find_row_Inr [OF *] by auto
  show "db_invites d' = use_invite v (db_invites d)" "db_members d' = db_members d"
    using assms * by (auto simp: UseInvite_def use_invite_def)
qed

lemma Join_body:
  assumes "fst (Join E now key req remote s) = Inr resp"
  obtains r d1 c d2 d where "RoomByID (env_kek E) (jr_RoomID req) (svc_db s) = Inr r"
    "UpsertNode (unix now) (join_node E key req remote) (svc_db s) = Inr d1"
    "UpdateNodeEndpoints (unix now) (node_id E key) (reach_of (jr_Endpoints req) remote (jr_ClientVersion req)) d1 = Inr (c, d2)"
    "(case Member (rm_ID r) (node_id E key) d2 of
        Inr v \<Rightarrow> if mb_Status (mv v) = StatusBanned then Inl Forbidden
          else Inr (\<lparr>jresp_Status = mb_Status (mv v), jresp_RoomName = rm_Name r\<rparr>, d2)
      | Inl e \<Rightarrow> if e \<noteq> ErrNotFound then Inl (StoreErr e)
          else join_member E now (svc_maxMembers s) (node_id E key) req r d2) = Inr (resp, d)"
    "mi (svc_db (snd (Join E now key req remote s))) = mi d"
proof -
  from assms have nz: "\<not> (zero_key (jr_WGKey req) \<or> zero_key (jr_BoxKey req))" by (auto simp: Join_def split: if_splits)
  let ?f = "\<lambda>d. case RoomByID (env_kek E) (jr_RoomID req) d of
          Inl _ \<Rightarrow> Inl Forbidden
        | Inr r \<Rightarrow>
            bindE (db_err (UpsertNode (unix now) (join_node E key req remote) d)) (\<lambda>d1.
            bindE (db_err (UpdateNodeEndpoints (unix now) (node_id E key)
                (reach_of (jr_Endpoints req) remote (jr_ClientVersion req)) d1)) (\<lambda>(_, d2).
            case Member (rm_ID r) (node_id E key) d2 of
              Inr v \<Rightarrow> if mb_Status (mv v) = StatusBanned then Inl Forbidden
                else Inr (\<lparr>jresp_Status = mb_Status (mv v), jresp_RoomName = rm_Name r\<rparr>, d2)
            | Inl e \<Rightarrow> if e \<noteq> ErrNotFound then Inl (StoreErr e)
                else join_member E now (svc_maxMembers s) (node_id E key) req r d2))"
  have J: "Join E now key req remote s = change ?f s" using nz by (simp add: Join_def)
  with assms have "succeeded (change ?f s)" by (simp add: succeeded_def)
  then obtain x d where f: "?f (svc_db s) = Inr (x, d)" and x: "fst (change ?f s) = Inr x"
    and db: "svc_db (snd (change ?f s)) = d\<lparr>db_version := db_version d + 1\<rparr>" by (rule succeeded_changeE)
  have xr: "x = resp" using x assms J by simp
  obtain r where r: "RoomByID (env_kek E) (jr_RoomID req) (svc_db s) = Inr r"
    using f by (cases "RoomByID (env_kek E) (jr_RoomID req) (svc_db s)") auto
  from f r show ?thesis using that [OF r] db J xr by auto
qed

text \<open>A join that succeeds either finds a member that is not banned and changes nothing, or it adds one and
  uses a live invite of the room.\<close>

lemma Join_success:
  assumes inv: "db_inv E (svc_db s)" and j: "fst (Join E now key req remote s) = Inr resp"
  defines "M \<equiv> abs_members (svc_db s)" and "k \<equiv> (jr_RoomID req, node_id E key)" and "d' \<equiv> svc_db (snd (Join E now key req remote s))"
  shows "(M k = Some (jresp_Status resp) \<and> jresp_Status resp \<noteq> StatusBanned \<and> mi d' = mi (svc_db s)) \<or>
    (M k = None \<and> jresp_Status resp \<noteq> StatusBanned \<and> abs_members d' = M(k \<mapsto> jresp_Status resp) \<and>
     (\<exists>iv \<in> set (db_invites (svc_db s)). inv_RoomID iv = jr_RoomID req \<and> inv_TokenHash iv = hashToken E (jr_Token req) \<and>
        live_invite (unix now) iv \<and> db_invites d' = use_invite iv (db_invites (svc_db s))))"
  using j
proof (rule Join_body)
  fix r d1 c d2 d
  assume r: "RoomByID (env_kek E) (jr_RoomID req) (svc_db s) = Inr r"
    and d1: "UpsertNode (unix now) (join_node E key req remote) (svc_db s) = Inr d1"
    and d2: "UpdateNodeEndpoints (unix now) (node_id E key) (reach_of (jr_Endpoints req) remote (jr_ClientVersion req)) d1 = Inr (c, d2)"
    and b: "(case Member (rm_ID r) (node_id E key) d2 of
        Inr v \<Rightarrow> if mb_Status (mv v) = StatusBanned then Inl Forbidden
          else Inr (\<lparr>jresp_Status = mb_Status (mv v), jresp_RoomName = rm_Name r\<rparr>, d2)
      | Inl e \<Rightarrow> if e \<noteq> ErrNotFound then Inl (StoreErr e)
          else join_member E now (svc_maxMembers s) (node_id E key) req r d2) = Inr (resp, d)"
    and m: "mi (svc_db (snd (Join E now key req remote s))) = mi d"
  have ri: "rm_ID r = jr_RoomID req" using RoomByID_subnet(1) [OF inv r] .
  have "mi d2 = mi (svc_db s)" using mi_Inr(2) [OF d1] mi_Inr(3) [OF d2] by simp
  then have same: "abs_members d2 = M" "db_invites d2 = db_invites (svc_db s)" "mi d2 = mi (svc_db s)"
    by (simp_all add: M_def mi_def abs_members_def)
  have "schema_ok d2"
    using db_inv_schema [OF inv] schema_ok_UpsertNode [OF _ d1] schema_ok_UpdateNodeEndpoints [OF d2] by simp
  show ?thesis
  proof (cases "Member (rm_ID r) (node_id E key) d2")
    case (Inr v)
    then show ?thesis
      using b same m abs_Member_Inr [OF Inr] ri by (auto simp: d'_def k_def split: if_splits)
  next
    case (Inl e)
    then have jm: "join_member E now (svc_maxMembers s) (node_id E key) req r d2 = Inr (resp, d)" using b by (auto split: if_splits)
    have none: "M k = None" using abs_Member_Inl [OF \<open>schema_ok d2\<close> Inl] same ri by (simp add: k_def)
    from jm show ?thesis
    proof (rule join_member_Inr)
      fix iv d3 ip d4
      assume u: "UseInvite (unix now) (rm_ID r) (hashToken E (jr_Token req)) d2 = Inr (iv, d3)"
        and am: "AddMember (unix now) (join_row r (node_id E key) req ip (join_status iv r)) d3 = Inr d4"
        and rs: "resp = \<lparr>jresp_Status = join_status iv r, jresp_RoomName = rm_Name r\<rparr>"
        and d: "d = Audit (unix now) (''node:'' @ node_id E key) ''member.join'' (rm_ID r) [] (BumpRoom (rm_ID r) d4)"
      have "abs_members d4 = M(k \<mapsto> join_status iv r)"
        using abs_AddMember(1) [OF am] UseInvite_Inr(6) [OF u] same(1) ri by (simp add: abs_members_def join_row_def k_def)
      moreover have "db_invites d4 = db_invites d3" using am by (auto simp: AddMember_def split: if_splits)
      moreover have "mi d = mi d4" unfolding d by simp
      ultimately have "abs_members d' = M(k \<mapsto> join_status iv r)" "db_invites d' = use_invite iv (db_invites (svc_db s))"
        using m UseInvite_Inr(5) [OF u] same(2) by (auto simp: d'_def mi_def abs_members_def)
      moreover have "join_status iv r \<noteq> StatusBanned" by (simp add: join_status_def)
      ultimately show ?thesis
        using none rs UseInvite_Inr(1-4) [OF u] same(2) ri by auto
    qed
  qed
qed

lemma Join_fails: "fst (Join E now key req remote s) = Inl e \<Longrightarrow> snd (Join E now key req remote s) = s"
  unfolding Join_def by (auto split: if_splits intro: change_fails)

lemma invites_abs:
  "abs_members (svc_db (snd (CreateInvite E now u url i uses ttl aa note raw s))) = abs_members (svc_db s)"
  "abs_members (svc_db (snd (RevokeInvite E now u i k s))) = abs_members (svc_db s)"
proof -
  have chg: "abs_members (svc_db (snd (change f s))) = abs_members (svc_db s)"
    if "\<And>x d. f (svc_db s) = Inr (x, d) \<Longrightarrow> db_members d = db_members (svc_db s)" for f :: "db \<Rightarrow> svc_error + 'a \<times> db"
    using that by (rule_tac change_cases [of f s]) (auto simp: abs_members_def)
  show "abs_members (svc_db (snd (CreateInvite E now u url i uses ttl aa note raw s))) = abs_members (svc_db s)"
    unfolding CreateInvite_def Let_def
    by (auto intro!: chg simp: tx_CreateInvite_def Audit_def split: if_splits)
  show "abs_members (svc_db (snd (RevokeInvite E now u i k s))) = abs_members (svc_db s)"
    unfolding RevokeInvite_def by (rule chg) (auto simp: tx_RevokeInvite_def Audit_def)
qed

lemmas quiet_abs = quiet_mi [THEN abs_members_mi]

lemma membership_step:
  "db_inv E (svc_db s) \<Longrightarrow>
   member_step (abs_members (svc_db s)) (member_label_of E e s) (abs_members (svc_db (svc_step E H e s)))"
proof (induction e arbitrary: s)
  case (Outside e)
  then show ?case using Outside.IH [of "NewService (svc_db s)"] by (simp add: NewService_def)
next
  case (JoinE now key req remote)
  show ?case
  proof (cases "fst (Join E now key req remote s)")
    case (Inl e)
    then show ?thesis by (simp add: Join_fails member_step_simps)
  next
    case (Inr resp)
    then show ?thesis
      using Join_success [OF JoinE Inr] by (auto simp: member_step_simps dest: abs_members_mi)
  qed
next
  case (MemberActionE now u i n act)
  show ?case
    using MemberAction_member [of E now u i n act s]
    by (auto simp: MemberAction_abs action_label_def member_step_simps split: member_action.split)
next
  case (LeaveE now key i)
  show ?case using Leave_member [of E now key i s] by (auto simp: Leave_abs member_step_simps)
qed (simp_all add: member_step_simps DeleteRoom_abs SetMemberExit_abs UpdateMember_abs invites_abs
    quiet_abs SetQuotas_def watch_tick_def)

interpretation svc_members: simulation "svc_step E H" "\<lambda>e. env_ok E \<and> draws_fit E e" "\<lambda>s. db_inv E (svc_db s)"
  "\<lambda>s. abs_members (svc_db s)" "member_label_of E" member_step
  by unfold_locales (simp add: membership_step)


section \<open>Bans\<close>

fun lifts_ban :: "string \<Rightarrow> string \<Rightarrow> svc_event \<Rightarrow> bool" where
  "lifts_ban i n (MemberActionE now u i' n' act) \<longleftrightarrow> i' = i \<and> n' = n \<and> act \<in> {ActApprove, ActUnban, ActKick}"
| "lifts_ban i n (DeleteRoomE now u i') \<longleftrightarrow> i' = i"
| "lifts_ban i n (Outside e) \<longleftrightarrow> lifts_ban i n e"
| "lifts_ban i n _ \<longleftrightarrow> False"

definition keeps_ban :: "string \<Rightarrow> string \<Rightarrow> member_label \<Rightarrow> bool" where
  "keeps_ban i n l \<longleftrightarrow> (\<forall>st. l = Decided i n st \<longrightarrow> st = StatusBanned) \<and> l \<noteq> Kicked i n \<and> l \<noteq> RoomGone i"

lemma keeps_ban_label: "\<not> lifts_ban i n e \<Longrightarrow> keeps_ban i n (member_label_of E e s)"
  by (induction e arbitrary: s)
    (auto simp: keeps_ban_def action_label_def split: member_action.split sum.split)

lemma ban_step: "M (i, n) = Some StatusBanned \<Longrightarrow> keeps_ban i n l \<Longrightarrow> member_step M l M' \<Longrightarrow> M' (i, n) = Some StatusBanned"
  by (auto simp: keeps_ban_def elim!: member_step.cases split: if_splits)

lemma banned_run:
  assumes "env_ok E" "db_inv E (svc_db s)" "\<forall>e \<in> set es. draws_fit E e \<and> \<not> lifts_ban i n e"
    "abs_members (svc_db s) (i, n) = Some StatusBanned"
  shows "abs_members (svc_db (svc_run E H es s)) (i, n) = Some StatusBanned"
  by (rule svc_members.run_refines [where good = "keeps_ban i n" and P = "\<lambda>M. M (i, n) = Some StatusBanned"])
    (use assms keeps_ban_label in \<open>auto intro: ban_step\<close>)

lemma banned_no_join:
  assumes "db_inv E (svc_db s)" "abs_members (svc_db s) (jr_RoomID req, node_id E key) = Some StatusBanned"
  shows "\<exists>e. Join E now key req remote s = (Inl e, s)"
proof (cases "fst (Join E now key req remote s)")
  case (Inl e)
  then show ?thesis using Join_fails [OF Inl] by (metis prod.collapse)
next
  case (Inr resp)
  then show ?thesis using Join_success [OF assms(1) Inr] assms(2) by auto
qed

lemma map_rooms_active:
  assumes "map_rooms E now n d (v # vs) (rooms, peers) = Inr res" "active v"
  obtains r rules peers1 where "RoomByID (env_kek E) (mb_RoomID (mv v)) d = Inr r" "acl_Parse (env_unicode E) (rm_ACL r) = Inr rules"
    "add_peers now n d (ListMembers (mb_RoomID (mv v)) d) peers = Inr peers1"
    "map_rooms E now n d vs (rooms @ [\<lparr>rs_RoomID = mb_RoomID (mv v), rs_Status = mb_Status (mv v),
        rs_Config = Some (SignRoomConfig (env_signer E) (rm_SignKey r) (room_config_of now r rules (ListMembers (mb_RoomID (mv v)) d))),
        rs_UseExit = mb_UseExit (mv v)\<rparr>], peers1) = Inr res"
proof -
  obtain r where r: "RoomByID (env_kek E) (mb_RoomID (mv v)) d = Inr r"
    using assms by (auto simp: Let_def)
  obtain rules where "acl_Parse (env_unicode E) (rm_ACL r) = Inr rules"
    using assms r by (cases "acl_Parse (env_unicode E) (rm_ACL r)") (auto simp: Let_def)
  with r assms that show ?thesis by (auto simp: Let_def)
qed

text \<open>Where an entry of the map comes from.\<close>

definition map_entry :: "env \<Rightarrow> time \<Rightarrow> db \<Rightarrow> member_view \<Rightarrow> room_state \<Rightarrow> bool" where
  "map_entry E now d v st \<longleftrightarrow> rs_RoomID st = mb_RoomID (mv v) \<and> rs_Status st = mb_Status (mv v) \<and>
     (if active v then \<exists>r rules. RoomByID (env_kek E) (mb_RoomID (mv v)) d = Inr r \<and> acl_Parse (env_unicode E) (rm_ACL r) = Inr rules \<and>
          rs_Config st = Some (SignRoomConfig (env_signer E) (rm_SignKey r) (room_config_of now r rules (ListMembers (mb_RoomID (mv v)) d)))
      else rs_Config st = None)"

lemma map_rooms_entries:
  "map_rooms E now n d vs (rooms, peers) = Inr (rooms', peers') \<Longrightarrow> st \<in> set rooms' \<Longrightarrow>
   st \<in> set rooms \<or> (\<exists>v \<in> set vs. map_entry E now d v st)"
proof (induction vs arbitrary: rooms peers)
  case (Cons v vs)
  show ?case
  proof (cases "active v")
    case False
    then have "map_rooms E now n d vs (rooms @ [\<lparr>rs_RoomID = mb_RoomID (mv v), rs_Status = mb_Status (mv v), rs_Config = None,
        rs_UseExit = []\<rparr>], peers) = Inr (rooms', peers')"
      using Cons.prems(1) by (simp add: Let_def)
    from Cons.IH [OF this Cons.prems(2)] False show ?thesis by (auto simp: map_entry_def)
  next
    case True
    show ?thesis
      using Cons.prems(1) True
    proof (rule map_rooms_active)
      fix r rules peers1
      assume r: "RoomByID (env_kek E) (mb_RoomID (mv v)) d = Inr r" "acl_Parse (env_unicode E) (rm_ACL r) = Inr rules"
        and m: "map_rooms E now n d vs (rooms @ [\<lparr>rs_RoomID = mb_RoomID (mv v),
          rs_Status = mb_Status (mv v), rs_Config = Some (SignRoomConfig (env_signer E) (rm_SignKey r)
            (room_config_of now r rules (ListMembers (mb_RoomID (mv v)) d))), rs_UseExit = mb_UseExit (mv v)\<rparr>], peers1) = Inr (rooms', peers')"
      show ?thesis using Cons.IH [OF m Cons.prems(2)] r True by (auto simp: map_entry_def)
    qed
  qed
qed simp

lemma netMap_entries:
  assumes "netMap E now n d = Inr nm" "st \<in> set (nm_Rooms nm)"
  shows "\<exists>v \<in> set (Memberships n d). map_entry E now d v st"
  using assms by (auto simp: netMap_def dest!: map_rooms_entries)

lemma Memberships_in: "v \<in> set (Memberships n d) \<Longrightarrow> mv v \<in> set (db_members d) \<and> mb_NodeID (mv v) = n"
  by (auto simp: Memberships_def queryMembers_def List.map_filter_def view_of_def split: option.splits)

lemma abs_members_in:
  assumes "schema_ok d" "m \<in> set (db_members d)"
  shows "abs_members d (mb_RoomID m, mb_NodeID m) = Some (mb_Status m)"
proof -
  have "distinct (map fst (map (\<lambda>m. ((mb_RoomID m, mb_NodeID m), mb_Status m)) (db_members d)))"
    using assms(1) by (simp add: schema_ok_def members_ok_def o_def)
  then show ?thesis using assms(2) unfolding abs_members_def by (intro map_of_is_SomeI) auto
qed

text \<open>C4: A ban holds until it is lifted. Once a member is banned, whatever happens short of an approval, an
  unban or a kick of that member or the end of the room, the member stays banned: it cannot join
  again with any invite, leaving does not clear the ban, and the network map gives it no
  configuration of the room.\<close>

theorem ban_holds:
  assumes E: "env_ok E" and inv: "db_inv E (svc_db s)" and ban: "abs_members (svc_db s) (i, node_id E key) = Some StatusBanned"
    and es: "\<forall>e \<in> set es. draws_fit E e \<and> \<not> lifts_ban i (node_id E key) e" and s': "s' = svc_run E H es s"
  shows "abs_members (svc_db s') (i, node_id E key) = Some StatusBanned \<and>
    (\<forall>now req remote. jr_RoomID req = i \<longrightarrow> (\<exists>e. Join E now key req remote s' = (Inl e, s'))) \<and>
    (\<forall>now. abs_members (svc_db (snd (Leave E now key i s'))) (i, node_id E key) = Some StatusBanned) \<and>
    (\<forall>now nm st. netMap E now (node_id E key) (svc_db s') = Inr nm \<and> st \<in> set (nm_Rooms nm) \<and> rs_RoomID st = i \<longrightarrow>
       rs_Config st = None \<and> rs_Status st = StatusBanned)"
proof -
  have b: "abs_members (svc_db s') (i, node_id E key) = Some StatusBanned"
    unfolding s' by (rule banned_run [OF E inv es ban])
  have i': "db_inv E (svc_db s')" unfolding s' by (rule svc_data.run_inv) (use E inv es in auto)
  have "rs_Config st = None \<and> rs_Status st = StatusBanned"
    if nm: "netMap E now (node_id E key) (svc_db s') = Inr nm" "st \<in> set (nm_Rooms nm)" "rs_RoomID st = i" for now nm st
  proof -
    from nm obtain v where v: "v \<in> set (Memberships (node_id E key) (svc_db s'))" "mb_RoomID (mv v) = i"
      "rs_Status st = mb_Status (mv v)" "rs_Config st \<noteq> None \<longrightarrow> active v"
      using netMap_entries [OF nm(1,2)] by (auto simp: map_entry_def split: if_splits)
    have "abs_members (svc_db s') (mb_RoomID (mv v), mb_NodeID (mv v)) = Some (mb_Status (mv v))"
      using Memberships_in [OF v(1)] abs_members_in [OF db_inv_schema [OF i']] by blast
    then have "mb_Status (mv v) = StatusBanned" using b v(2) Memberships_in [OF v(1)] by simp
    then show ?thesis using v(3,4) by (auto simp: active_def)
  qed
  then show ?thesis using b banned_no_join [OF i'] by (auto simp: Leave_abs)
qed

section \<open>Witnesses\<close>


theorem ban_holds_witness:
  "abs_members (svc_db (svc_run sample_env sample_hashes [LeaveE 0 [4] ''0102'', Tick] (NewService (sample_db StatusBanned)))) (''0102'', ''aq'') =
     Some StatusBanned \<and>
   (\<exists>e. Join sample_env 0 [4] sample_join (V4 1) (svc_run sample_env sample_hashes [LeaveE 0 [4] ''0102'', Tick] (NewService (sample_db StatusBanned))) =
     (Inl e, svc_run sample_env sample_hashes [LeaveE 0 [4] ''0102'', Tick] (NewService (sample_db StatusBanned))))"
proof -
  have inv: "db_inv sample_env (svc_db (NewService (sample_db StatusBanned)))" by (simp add: NewService_def sample_db_inv)
  have ban: "abs_members (svc_db (NewService (sample_db StatusBanned))) (''0102'', node_id sample_env [4]) = Some StatusBanned"
    by (simp add: abs_members_def NewService_def sample_db_def sample_member_def sample_node_id)
  have es: "\<forall>e \<in> set [LeaveE 0 [4] ''0102'', Tick]. draws_fit sample_env e \<and> \<not> lifts_ban ''0102'' (node_id sample_env [4]) e" by simp
  have "jr_RoomID sample_join = ''0102''" by (simp add: sample_join_def)
  then show ?thesis
    using ban_holds [OF sample_env_ok inv ban es refl, of sample_hashes] unfolding sample_node_id by blast
qed

end
