(* ===== verification/Invite_Budget.thy ===== *)
theory Invite_Budget
  imports Membership
begin

text \<open>
  Invites as a budget: an invite that was created for a number of uses admits at most that many
  nodes, however its joins are interleaved with everything else the controller does.
\<close>

section \<open>Uses left\<close>

text \<open>The uses left of the invites with a token digest, and that none of them is unlimited.\<close>

definition uses :: "bytes \<Rightarrow> invite list \<Rightarrow> nat" where
  "uses h vs = sum_list (map (\<lambda>v. if inv_TokenHash v = h then nat (inv_UsesLeft v) else 0) vs)"

definition limited :: "bytes \<Rightarrow> invite list \<Rightarrow> bool" where
  "limited h vs \<longleftrightarrow> (\<forall>v \<in> set vs. inv_TokenHash v = h \<longrightarrow> 0 \<le> inv_UsesLeft v)"

text \<open>What an operation other than joining may do to the invites.\<close>

definition shrinks :: "bytes \<Rightarrow> invite list \<Rightarrow> invite list \<Rightarrow> bool" where
  "shrinks h vs vs' \<longleftrightarrow> uses h vs' \<le> uses h vs \<and> (limited h vs \<longrightarrow> limited h vs')"

lemma shrinks_refl [simp]: "shrinks h vs vs"
  by (simp add: shrinks_def)

lemma shrinksD: "shrinks h vs vs' \<Longrightarrow> limited h vs \<Longrightarrow> uses h vs' \<le> uses h vs \<and> limited h vs'"
  by (simp add: shrinks_def)

lemma uses_map_le: "(\<And>v. inv_TokenHash (f v) = inv_TokenHash v \<and> inv_UsesLeft (f v) \<le> inv_UsesLeft v) \<Longrightarrow> uses h (map f vs) \<le> uses h vs"
  unfolding uses_def map_map by (rule sum_list_mono) (simp add: nat_mono)

lemma shrinks_filter: "shrinks h vs (filter P vs)"
proof -
  have "uses h (filter P vs) \<le> uses h vs" by (induction vs) (auto simp: uses_def)
  then show ?thesis by (simp add: shrinks_def limited_def)
qed

lemma shrinks_revoke:
  assumes "\<forall>v \<in> set vs. -1 \<le> inv_UsesLeft v"
  shows "shrinks h vs (map (\<lambda>v. if P v then v\<lparr>inv_UsesLeft := 0\<rparr> else v) vs)"
proof -
  have "uses h (map (\<lambda>v. if P v then v\<lparr>inv_UsesLeft := 0\<rparr> else v) vs) \<le> uses h vs" by (induction vs) (auto simp: uses_def)
  then show ?thesis by (auto simp: shrinks_def limited_def)
qed

lemma shrinks_other: "inv_TokenHash v \<noteq> h \<Longrightarrow> shrinks h vs (vs @ [v])"
  by (auto simp: shrinks_def limited_def uses_def)

text \<open>A use takes one from the invite that is used.\<close>

lemma use_invite_uses:
  assumes "distinct (map inv_ID vs)" "v \<in> set vs" "inv_UsesLeft v \<noteq> 0" "limited h vs"
  shows "uses h (use_invite v vs) + (if inv_TokenHash v = h then 1 else 0) \<le> uses h vs \<and> limited h (use_invite v vs)"
proof (cases "0 < inv_UsesLeft v")
  case True
  let ?f = "\<lambda>w. if inv_ID w = inv_ID v then w\<lparr>inv_UsesLeft := inv_UsesLeft w - 1\<rparr> else w"
  have le: "uses h (map ?f ws) \<le> uses h ws" for ws by (rule uses_map_le) simp
  have "uses h (map ?f ws) + (if inv_TokenHash v = h then 1 else 0) \<le> uses h ws" if "v \<in> set ws" for ws
    using that
  proof (induction ws)
    case (Cons w ws)
    show ?case
    proof (cases "w = v")
      case True
      then show ?thesis using le [of ws] \<open>0 < inv_UsesLeft v\<close> by (auto simp: uses_def)
    next
      case False
      then show ?thesis using Cons by (auto simp: uses_def)
    qed
  qed simp
  moreover have "w = v" if "w \<in> set vs" "inv_ID w = inv_ID v" for w
    using that assms(1,2) by (auto simp: distinct_map dest: inj_onD)
  then have "inv_UsesLeft w = inv_UsesLeft v" if "w \<in> set vs" "inv_ID w = inv_ID v" for w using that by blast
  then have "limited h (map ?f vs)" using assms(4) True by (auto simp: limited_def)
  ultimately show ?thesis using True assms(2) by (simp add: use_invite_def)
next
  case False
  then show ?thesis using assms by (auto simp: use_invite_def limited_def)
qed

section \<open>Operations\<close>

lemma change_invites:
  assumes "\<And>x d. f (svc_db s) = Inr (x, d) \<Longrightarrow> shrinks h (db_invites (svc_db s)) (db_invites d)"
  shows "shrinks h (db_invites (svc_db s)) (db_invites (svc_db (snd (change f s))))"
  by (rule change_cases [of f s]) (use assms in auto)

lemma invites_stmts [simp]:
  "db_invites (BumpRoom i d) = db_invites d" "db_invites (Audit t a1 a2 a3 a4 d) = db_invites d"
  "db_invites (DeleteMember i n d) = db_invites d"
  by (simp_all add: BumpRoom_def upd_room_def Audit_def DeleteMember_def)

lemma invites_UpdateMember: "tx_UpdateMember m d = Inr d' \<Longrightarrow> db_invites d' = db_invites d"
  by (auto simp: tx_UpdateMember_def split: if_splits)

lemma invites_apply_action: "apply_action E i n act v d = Inr d' \<Longrightarrow> db_invites d' = db_invites d"
  by (cases act) (auto simp: apply_action_def Let_def dest!: invites_UpdateMember split: if_splits)

lemma member_ops_invites:
  "shrinks h (db_invites (svc_db s)) (db_invites (svc_db (snd (SetMemberExit E now u i n x s))))"
  "shrinks h (db_invites (svc_db s)) (db_invites (svc_db (snd (MemberAction E now u i n act s))))"
  "shrinks h (db_invites (svc_db s)) (db_invites (svc_db (snd (Leave E now key i s))))"
  unfolding SetMemberExit_def MemberAction_def Leave_def
  by (auto intro!: change_invites dest!: invites_UpdateMember invites_apply_action split: if_splits)

lemma UpdateMember_invites:
  "shrinks h (db_invites (svc_db s)) (db_invites (svc_db (snd (UpdateMember E now u i n name ip tags s))))"
  unfolding UpdateMember_def Let_def
  by (cases "parse_addr (trim_space ip)") (auto intro!: change_invites dest!: invites_UpdateMember split: sum.splits if_splits)

lemma room_ops_invites:
  assumes "db_inv E (svc_db s)"
  shows "shrinks h (db_invites (svc_db s)) (db_invites (svc_db (snd (DeleteRoom E now u i s))))"
    "shrinks h (db_invites (svc_db s)) (db_invites (svc_db (snd (RevokeInvite E now u i k s))))"
    "hashToken E (b64url_encode raw) \<noteq> h \<Longrightarrow>
      shrinks h (db_invites (svc_db s)) (db_invites (svc_db (snd (CreateInvite E now u url i us ttl aa note raw s))))"
  using assms
  unfolding DeleteRoom_def RevokeInvite_def CreateInvite_def Let_def
  by (auto intro!: change_invites simp: tx_DeleteRoom_def tx_RevokeInvite_def tx_CreateInvite_def db_inv_def shrinks_filter
      shrinks_revoke shrinks_other split: if_splits)

lemma mi_invites: "mi d' = mi d \<Longrightarrow> shrinks h (db_invites d) (db_invites d')"
  by (simp add: mi_def)

section \<open>Admissions\<close>

text \<open>Whether an event makes a node a member with the token of the digest.\<close>

fun admits :: "env \<Rightarrow> bytes \<Rightarrow> svc_event \<Rightarrow> service \<Rightarrow> nat" where
  "admits E h (JoinE now key req remote) s =
     (if member_label_of E (JoinE now key req remote) s \<noteq> Nothing \<and> hashToken E (jr_Token req) = h then 1 else 0)"
| "admits E h (Outside e) s = admits E h e (NewService (svc_db s))"
| "admits E h _ s = 0"

text \<open>Whether an event makes a new invite with that digest.\<close>

fun issues :: "env \<Rightarrow> bytes \<Rightarrow> svc_event \<Rightarrow> bool" where
  "issues E h (CreateInviteE now u url i us ttl aa note raw) \<longleftrightarrow> hashToken E (b64url_encode raw) = h"
| "issues E h (Outside e) \<longleftrightarrow> issues E h e"
| "issues E h _ \<longleftrightarrow> False"

lemma Join_uses:
  fixes H now key req remote
  assumes inv: "db_inv E (svc_db s)" and lim: "limited h (db_invites (svc_db s))"
  defines "vs' \<equiv> db_invites (svc_db (svc_step E H (JoinE now key req remote) s))"
  shows "admits E h (JoinE now key req remote) s + uses h vs' \<le> uses h (db_invites (svc_db s)) \<and> limited h vs'"
proof (cases "fst (Join E now key req remote s)")
  case (Inl e)
  then show ?thesis using lim by (simp add: vs'_def Join_fails)
next
  case (Inr resp)
  from Join_success [OF inv Inr] consider
      "abs_members (svc_db s) (jr_RoomID req, node_id E key) \<noteq> None" "mi (svc_db (snd (Join E now key req remote s))) = mi (svc_db s)"
    | iv where "iv \<in> set (db_invites (svc_db s))" "inv_TokenHash iv = hashToken E (jr_Token req)" "live_invite (unix now) iv"
        "vs' = use_invite iv (db_invites (svc_db s))"
    by (auto simp: vs'_def)
  then show ?thesis
  proof cases
    case 1
    then show ?thesis using Inr mi_invites [OF 1(2), of h] lim by (simp add: vs'_def shrinks_def)
  next
    case 2
    have "distinct (map inv_ID (db_invites (svc_db s)))" using db_inv_schema [OF inv] by (simp add: schema_ok_def)
    from use_invite_uses [OF this 2(1) _ lim] show ?thesis
      using 2(2-4) by (auto simp: live_invite_def split: if_splits)
  qed
qed

lemma step_uses:
  fixes H
  assumes "db_inv E (svc_db s)" "limited h (db_invites (svc_db s))" "\<not> issues E h e"
  defines "vs' \<equiv> \<lambda>e s. db_invites (svc_db (svc_step E H e s))"
  shows "admits E h e s + uses h (vs' e s) \<le> uses h (db_invites (svc_db s)) \<and> limited h (vs' e s)"
  using assms(1-3)
proof (induction e arbitrary: s)
  case (JoinE now key req remote)
  show ?case unfolding vs'_def by (rule Join_uses [OF JoinE.prems(1,2)])
next
  case (Outside e)
  then show ?case using Outside.IH [of "NewService (svc_db s)"] by (simp add: NewService_def vs'_def)
qed (simp_all add: vs'_def SetQuotas_def watch_tick_def,
    (rule shrinksD, simp add: member_ops_invites UpdateMember_invites room_ops_invites quiet_mi [THEN mi_invites], assumption)+)

interpretation svc_invites: budget_machine "svc_step E H" "\<lambda>e. env_ok E \<and> draws_fit E e \<and> \<not> issues E h e"
  "\<lambda>s. db_inv E (svc_db s) \<and> limited h (db_invites (svc_db s))" "admits E h" "\<lambda>s. uses h (db_invites (svc_db s))"
  by unfold_locales (simp_all add: svc_step_inv step_uses)

text \<open>C5: An invite admits no more nodes than it has uses left. Take any state in which the invites with some
  token are limited, and any sequence of operations that does not issue that token again: the number of
  nodes that become members with the token, together with the uses left at the end, is at most
  the number of uses at the start; a revoked or used-up invite admits nobody.\<close>

theorem invite_uses_bounded:
  assumes "env_ok E" "db_inv E (svc_db s)" "limited h (db_invites (svc_db s))"
    "\<forall>e \<in> set es. draws_fit E e \<and> \<not> issues E h e"
  shows "spent (svc_step E H) (admits E h) es s + uses h (db_invites (svc_db (svc_run E H es s))) \<le> uses h (db_invites (svc_db s))"
  by (rule svc_invites.run_spent) (use assms in auto)

theorem invite_uses_bounded_witness:
  "spent (svc_step sample_env sample_hashes) (admits sample_env [65, 119]) [JoinE 0 [8] sample_join (V4 1), JoinE 0 [9] sample_join (V4 2)]
     (NewService (sample_db StatusActive)) \<le> 1"
proof -
  let ?s = "NewService (sample_db StatusActive)" and ?es = "[JoinE 0 [8] sample_join (V4 1), JoinE 0 [9] sample_join (V4 2)]"
  have "db_inv sample_env (svc_db ?s)" by (simp add: NewService_def sample_db_inv)
  moreover have inv: "db_invites (svc_db ?s) = [sample_invite]" by (simp add: NewService_def sample_db_def)
  moreover have "limited [65, 119] [sample_invite]" "uses [65, 119] [sample_invite] = 1"
    by (simp_all add: limited_def uses_def sample_invite_def)
  moreover have "\<forall>e \<in> set ?es. draws_fit sample_env e \<and> \<not> issues sample_env [65, 119] e" by simp
  ultimately show ?thesis
    using invite_uses_bounded [OF sample_env_ok, of ?s "[65, 119]" ?es sample_hashes] by simp
qed

end
