(* ===== verification/Room_Isolation.thy ===== *)
theory Room_Isolation
  imports Membership
begin

text \<open>
  Rooms are apart: who does not manage a room changes nothing in it, and no operation on a room
  touches another one.
\<close>

section \<open>What belongs to a room\<close>

definition room_slice :: "string \<Rightarrow> db \<Rightarrow> room list \<times> member list \<times> invite list" where
  "room_slice j d = (filter (\<lambda>r. rm_ID r = j) (db_rooms d), filter (\<lambda>m. mb_RoomID m = j) (db_members d),
     filter (\<lambda>v. inv_RoomID v = j) (db_invites d))"

lemma filter_map_other:
  "(\<And>x. x \<in> set xs \<Longrightarrow> P (f x) = P x \<and> (P x \<longrightarrow> f x = x)) \<Longrightarrow> filter P (map f xs) = filter P xs"
  by (induction xs) auto

lemma slice_frame [simp]: "room_slice j (d\<lparr>db_version := v\<rparr>) = room_slice j d" "room_slice j (Audit t a1 a2 a3 a4 d) = room_slice j d"
  by (simp_all add: room_slice_def Audit_def)

lemma slice_room_stmts [simp]:
  assumes "j \<noteq> i"
  shows "room_slice j (tx_UpdateRoom i n p b d) = room_slice j d" "room_slice j (tx_SetRoomDHT i on d) = room_slice j d"
    "room_slice j (tx_SetRoomACL i acl d) = room_slice j d" "room_slice j (tx_SetRoomDNS i dns d) = room_slice j d"
    "room_slice j (BumpRoom i d) = room_slice j d" "room_slice j (tx_DeleteRoom i d) = room_slice j d"
    "room_slice j (DeleteMember i n' d) = room_slice j d" "room_slice j (tx_RevokeInvite i k d) = room_slice j d"
  using assms
  unfolding room_slice_def tx_UpdateRoom_def tx_SetRoomDHT_def tx_SetRoomACL_def tx_SetRoomDNS_def BumpRoom_def upd_room_def
    tx_DeleteRoom_def DeleteMember_def tx_RevokeInvite_def
  by (auto intro!: filter_map_other filter_cong)

lemma slice_Inr:
  "tx_CreateInvite t v d = Inr d' \<Longrightarrow> j \<noteq> inv_RoomID v \<Longrightarrow> room_slice j d' = room_slice j d"
  "tx_UpdateMember m d = Inr d' \<Longrightarrow> j \<noteq> mb_RoomID m \<Longrightarrow> room_slice j d' = room_slice j d"
  "AddMember t m d = Inr d' \<Longrightarrow> j \<noteq> mb_RoomID m \<Longrightarrow> room_slice j d' = room_slice j d"
  "UpsertNode t n d = Inr d' \<Longrightarrow> room_slice j d' = room_slice j d"
  "UpdateNodeEndpoints t k rc d = Inr (c, d') \<Longrightarrow> room_slice j d' = room_slice j d"
  by (auto simp: room_slice_def tx_CreateInvite_def tx_UpdateMember_def AddMember_def UpsertNode_def UpdateNodeEndpoints_def
      same_key_def set_columns_def intro!: filter_map_other split: if_splits sum.splits)

lemma slice_UseInvite:
  assumes "schema_ok d" "UseInvite t i h d = Inr (v, d')" "j \<noteq> i"
  shows "room_slice j d' = room_slice j d"
proof -
  have "inj_on inv_ID (set (db_invites d))" using assms(1) by (simp add: schema_ok_def distinct_map)
  then have same: "inv_ID w = inv_ID v \<Longrightarrow> w = v" if "w \<in> set (db_invites d)" for w
    using that UseInvite_Inr(1) [OF assms(2)] by (auto dest: inj_onD)
  then have "inv_RoomID w \<noteq> j" if "w \<in> set (db_invites d)" "inv_ID w = inv_ID v" for w
    using that assms(3) UseInvite_Inr(2) [OF assms(2)] by blast
  then have "filter (\<lambda>v. inv_RoomID v = j) (use_invite v (db_invites d)) = filter (\<lambda>v. inv_RoomID v = j) (db_invites d)"
    by (auto simp: use_invite_def intro!: filter_map_other) blast
  then show ?thesis
    using UseInvite_Inr(5) [OF assms(2)] UseInvite_frame [OF assms(2)] by (simp add: room_slice_def)
qed

section \<open>Operations\<close>

lemma change_slice:
  assumes "\<And>x d. f (svc_db s) = Inr (x, d) \<Longrightarrow> room_slice j d = room_slice j (svc_db s)"
  shows "room_slice j (svc_db (snd (change f s))) = room_slice j (svc_db s)"
  by (rule change_cases [of f s]) (use assms in auto)

lemma Member_room: "Member i n d = Inr v \<Longrightarrow> j \<noteq> i \<Longrightarrow> j \<noteq> mb_RoomID (mv v)"
  by (simp add: Member_Inr(2))

lemma apply_action_slice:
  assumes "Member i n d = Inr v" "apply_action E i n act v d = Inr d1" "j \<noteq> i"
  shows "room_slice j d1 = room_slice j d"
  using assms(2,3) Member_room [OF assms(1,3)]
  by (cases act) (auto simp: apply_action_def Let_def dest!: slice_Inr(2) [where j = j] split: if_splits)

lemma settings_slice:
  assumes "j \<noteq> i"
  shows "room_slice j (svc_db (snd (UpdateRoom E now u i name policy bc s))) = room_slice j (svc_db s)"
    "room_slice j (svc_db (snd (SetRoomDNS E now u i servers s))) = room_slice j (svc_db s)"
    "room_slice j (svc_db (snd (SetRoomDHT E now u i on s))) = room_slice j (svc_db s)"
    "room_slice j (svc_db (snd (SetRoomACL E now u i txt s))) = room_slice j (svc_db s)"
    "room_slice j (svc_db (snd (DeleteRoom E now u i s))) = room_slice j (svc_db s)"
    "room_slice j (svc_db (snd (RevokeInvite E now u i k s))) = room_slice j (svc_db s)"
    "room_slice j (svc_db (snd (CreateInvite E now u url i us ttl aa note raw s))) = room_slice j (svc_db s)"
  using assms
  unfolding UpdateRoom_def SetRoomDNS_def SetRoomDHT_def SetRoomACL_def DeleteRoom_def RevokeInvite_def CreateInvite_def room_change_def
  by (auto simp: Let_def intro!: change_slice dest!: slice_Inr(1) [where j = j] split: sum.splits)

lemma members_slice:
  assumes "j \<noteq> i"
  shows "room_slice j (svc_db (snd (SetMemberExit E now u i n x s))) = room_slice j (svc_db s)"
    "room_slice j (svc_db (snd (MemberAction E now u i n act s))) = room_slice j (svc_db s)"
    "room_slice j (svc_db (snd (Leave E now key i s))) = room_slice j (svc_db s)"
proof -
  have upd: "room_slice j d1 = room_slice j d" if "Member i n d = Inr v" "tx_UpdateMember ((mv v)\<lparr>mb_UseExit := x\<rparr>) d = Inr d1" for v d d1
    using slice_Inr(2) [OF that(2)] Member_room [OF that(1) assms] by simp
  show "room_slice j (svc_db (snd (SetMemberExit E now u i n x s))) = room_slice j (svc_db s)"
    unfolding SetMemberExit_def using assms by (auto intro!: change_slice simp: upd)
  show "room_slice j (svc_db (snd (MemberAction E now u i n act s))) = room_slice j (svc_db s)"
    "room_slice j (svc_db (snd (Leave E now key i s))) = room_slice j (svc_db s)"
    unfolding MemberAction_def Leave_def using assms by (auto intro!: change_slice simp: apply_action_slice split: if_splits)
qed

lemma UpdateMember_slice:
  assumes "j \<noteq> i"
  shows "room_slice j (svc_db (snd (UpdateMember E now u i n name ip tags s))) = room_slice j (svc_db s)"
proof -
  have upd: "room_slice j d1 = room_slice j d"
    if "tx_UpdateMember m d = Inr d1" "Member i n d = Inr v" "mb_RoomID m = mb_RoomID (mv v)" for m v d d1
    using slice_Inr(2) [OF that(1)] Member_room [OF that(2) assms] that(3) by simp
  show ?thesis
    unfolding UpdateMember_def Let_def using assms
    by (cases "parse_addr (trim_space ip)") (auto intro!: change_slice split: sum.splits if_splits, (erule upd, assumption, simp)+)
qed

lemma join_member_slice:
  assumes "schema_ok d" "join_member E now mx n req r d = Inr (x, d')" "j \<noteq> rm_ID r"
  shows "room_slice j d' = room_slice j d"
proof (rule join_member_Inr [OF assms(2)])
  fix iv d1 ip d2
  assume u: "UseInvite (unix now) (rm_ID r) (hashToken E (jr_Token req)) d = Inr (iv, d1)"
    and m: "AddMember (unix now) (join_row r n req ip (join_status iv r)) d1 = Inr d2"
    and d': "d' = Audit (unix now) (''node:'' @ n) ''member.join'' (rm_ID r) [] (BumpRoom (rm_ID r) d2)"
  show ?thesis
    using slice_UseInvite [OF assms(1) u assms(3)] slice_Inr(3) [OF m] assms(3) by (simp add: d' join_row_def)
qed

lemma Join_slice:
  assumes inv: "db_inv E (svc_db s)" and j: "j \<noteq> jr_RoomID req"
  shows "room_slice j (svc_db (snd (Join E now key req remote s))) = room_slice j (svc_db s)"
proof -
  have "room_slice j d = room_slice j (svc_db s)"
    if r: "RoomByID (env_kek E) (jr_RoomID req) (svc_db s) = Inr r"
      and d1: "UpsertNode t nd (svc_db s) = Inr d1" and d2: "UpdateNodeEndpoints t k rc d1 = Inr (c, d2)"
      and b: "(case Member (rm_ID r) n d2 of Inr v \<Rightarrow> if P v then Inl Forbidden else Inr (g v, d2)
        | Inl e \<Rightarrow> if e \<noteq> ErrNotFound then Inl (StoreErr e) else join_member E now mx n req r d2) = Inr (x, d)"
    for t nd d1 k rc c d2 n P g mx r x d
  proof -
    have "schema_ok d2"
      using db_inv_schema [OF inv] schema_ok_UpsertNode [OF _ d1] schema_ok_UpdateNodeEndpoints [OF d2] by simp
    moreover have "j \<noteq> rm_ID r" using RoomByID_subnet(1) [OF inv r] j by simp
    ultimately have "room_slice j d = room_slice j d2"
      using b by (cases "Member (rm_ID r) n d2") (auto dest: join_member_slice split: if_splits)
    then show ?thesis using slice_Inr(4) [OF d1] slice_Inr(5) [OF d2] by simp
  qed
  then show ?thesis
    unfolding Join_def
    by (cases "RoomByID (env_kek E) (jr_RoomID req) (svc_db s)") (fastforce intro!: change_slice)+
qed

section \<open>Rights\<close>

lemma change_refused: "f (svc_db s) = Inl e \<Longrightarrow> change f s = (Inl e, s)"
  by (simp add: change_def)

lemma bindE_Inl [simp]: "bindE (Inl e) f = Inl e"
  by (simp add: bindE_def)

lemma roomFor_refused: "\<not> (\<exists>r. RoomByID (env_kek E) i d = Inr r \<and> canManage u r) \<Longrightarrow> \<exists>e. roomFor E u i d = Inl e"
  by (cases "roomFor E u i d") (auto simp: roomFor_Inr)

lemma stranger_refused:
  assumes "roomFor E u i (svc_db s) = Inl e"
  shows "snd (UpdateRoom E now u i name policy bc s) = s" "snd (SetRoomDNS E now u i servers s) = s"
    "snd (SetRoomDHT E now u i on s) = s" "snd (SetRoomACL E now u i txt s) = s" "snd (DeleteRoom E now u i s) = s"
    "snd (CreateInvite E now u url i us ttl aa note raw s) = s" "snd (RevokeInvite E now u i k s) = s"
    "snd (SetMemberExit E now u i n x s) = s" "snd (MemberAction E now u i n act s) = s"
    "snd (UpdateMember E now u i n name ip tags s) = s"
  using assms
  by (simp_all add: UpdateRoom_def SetRoomDNS_def SetRoomDHT_def SetRoomACL_def DeleteRoom_def CreateInvite_def RevokeInvite_def
      SetMemberExit_def MemberAction_def UpdateMember_def room_change_def Let_def change_def split: sum.split)

text \<open>The room an event is about, and the user who acts on it.\<close>

fun room_of :: "svc_event \<Rightarrow> string option" where
  "room_of (UpdateRoomE now u i name policy bc) = Some i"
| "room_of (SetRoomDNSE now u i servers) = Some i"
| "room_of (SetRoomDHTE now u i on) = Some i"
| "room_of (SetRoomACLE now u i txt) = Some i"
| "room_of (DeleteRoomE now u i) = Some i"
| "room_of (CreateInviteE now u url i us ttl aa note raw) = Some i"
| "room_of (RevokeInviteE now u i k) = Some i"
| "room_of (SetMemberExitE now u i n x) = Some i"
| "room_of (MemberActionE now u i n act) = Some i"
| "room_of (UpdateMemberE now u i n name ip tags) = Some i"
| "room_of (JoinE now key req remote) = Some (jr_RoomID req)"
| "room_of (LeaveE now key i) = Some i"
| "room_of (Outside e) = room_of e"
| "room_of _ = None"

fun manager_of :: "svc_event \<Rightarrow> user option" where
  "manager_of (UpdateRoomE now u i name policy bc) = Some u"
| "manager_of (SetRoomDNSE now u i servers) = Some u"
| "manager_of (SetRoomDHTE now u i on) = Some u"
| "manager_of (SetRoomACLE now u i txt) = Some u"
| "manager_of (DeleteRoomE now u i) = Some u"
| "manager_of (CreateInviteE now u url i us ttl aa note raw) = Some u"
| "manager_of (RevokeInviteE now u i k) = Some u"
| "manager_of (SetMemberExitE now u i n x) = Some u"
| "manager_of (MemberActionE now u i n act) = Some u"
| "manager_of (UpdateMemberE now u i n name ip tags) = Some u"
| "manager_of (Outside e) = manager_of e"
| "manager_of _ = None"

lemma stranger_step:
  assumes "room_of e = Some i" "manager_of e = Some u" "roomFor E u i (svc_db s) = Inl err"
  shows "svc_step E H e s = s"
  using assms
proof (induction e arbitrary: s)
  case (Outside e)
  then show ?case using Outside.IH [of "NewService (svc_db s)"] by (simp add: NewService_def)
qed (simp_all add: stranger_refused)

lemma isolated_step:
  assumes "db_inv E (svc_db s)" "room_of e = Some i" "j \<noteq> i"
  shows "room_slice j (svc_db (svc_step E H e s)) = room_slice j (svc_db s)"
  using assms
proof (induction e arbitrary: s)
  case (Outside e)
  then show ?case using Outside.IH [of "NewService (svc_db s)"] by (simp add: NewService_def)
qed (auto simp: settings_slice members_slice UpdateMember_slice Join_slice)

text \<open>C6: A room is changed only by those entitled to, and alone. In every reachable state an operation on a
  room by a user who neither owns it nor is an administrator, or on a room that does not exist,
  leaves the whole state of the controller as it was; and whatever is done to a room by its managers or
  by nodes that join and leave, the settings, members and invites of every other room stay the same.\<close>

theorem room_isolation:
  assumes "env_ok E" "\<forall>x \<in> set es. draws_fit E x" "s = svc_run E H es (NewService empty_db)" "room_of e = Some i"
  shows "(\<forall>u. manager_of e = Some u \<and> \<not> (\<exists>r. RoomByID (env_kek E) i (svc_db s) = Inr r \<and> (usr_IsAdmin u \<or> rm_OwnerID r = usr_ID u)) \<longrightarrow>
      svc_step E H e s = s) \<and>
    (\<forall>j. j \<noteq> i \<longrightarrow> room_slice j (svc_db (svc_step E H e s)) = room_slice j (svc_db s))"
proof -
  have "db_inv E (svc_db s)" unfolding assms(3)
    by (rule svc_data.run_inv) (use assms(1,2) db_inv_empty in \<open>auto simp: NewService_def\<close>)
  then show ?thesis
    using isolated_step [OF _ assms(4)] stranger_step [OF assms(4)] roomFor_refused [of E i "svc_db s"]
    by (auto simp: canManage_def) metis
qed

theorem room_isolation_witness:
  "svc_step sample_env sample_hashes (DeleteRoomE 0 sample_user ''0102'') (NewService empty_db) = NewService empty_db \<and>
   room_slice ''zz'' (svc_db (svc_step sample_env sample_hashes (DeleteRoomE 0 sample_user ''0102'') (NewService empty_db))) =
     room_slice ''zz'' (svc_db (NewService empty_db))"
proof -
  have "\<nexists>r. RoomByID (env_kek sample_env) ''0102'' (svc_db (NewService empty_db)) = Inr r"
    by (simp add: RoomByID_def find_row_def NewService_def empty_db_def)
  then show ?thesis
    using room_isolation [OF sample_env_ok, of "[]" "NewService empty_db" sample_hashes "DeleteRoomE 0 sample_user ''0102''" "''0102''"]
    by simp
qed

end
