(* ===== verification/Node_Names.thy ===== *)
theory Node_Names
  imports Go_Runes
begin

text \<open>
  Names a node gives to its rooms: DNS labels (\<^verbatim>\<open>dnsfwd.Label\<close> of \<^verbatim>\<open>internal/dnsfwd/zone.go\<close>) and names of network
  interfaces (\<^verbatim>\<open>slug\<close> and \<^verbatim>\<open>ifnameLocked\<close> of \<^verbatim>\<open>internal/node/node.go\<close>). Strings are UTF-8 bytes, so a Cyrillic rune is a
  string of two characters.
\<close>

section \<open>Labels\<close>

definition translit_table :: "(string \<times> string) list" where
  "translit_table =
    [([CHR 0xD0, CHR 0xB0], ''a''), ([CHR 0xD0, CHR 0xB1], ''b''), ([CHR 0xD0, CHR 0xB2], ''v''), ([CHR 0xD0, CHR 0xB3], ''g''),
     ([CHR 0xD0, CHR 0xB4], ''d''), ([CHR 0xD0, CHR 0xB5], ''e''), ([CHR 0xD1, CHR 0x91], ''e''), ([CHR 0xD0, CHR 0xB6], ''zh''),
     ([CHR 0xD0, CHR 0xB7], ''z''), ([CHR 0xD0, CHR 0xB8], ''i''), ([CHR 0xD0, CHR 0xB9], ''y''), ([CHR 0xD0, CHR 0xBA], ''k''),
     ([CHR 0xD0, CHR 0xBB], ''l''), ([CHR 0xD0, CHR 0xBC], ''m''), ([CHR 0xD0, CHR 0xBD], ''n''), ([CHR 0xD0, CHR 0xBE], ''o''),
     ([CHR 0xD0, CHR 0xBF], ''p''), ([CHR 0xD1, CHR 0x80], ''r''), ([CHR 0xD1, CHR 0x81], ''s''), ([CHR 0xD1, CHR 0x82], ''t''),
     ([CHR 0xD1, CHR 0x83], ''u''), ([CHR 0xD1, CHR 0x84], ''f''), ([CHR 0xD1, CHR 0x85], ''h''), ([CHR 0xD1, CHR 0x86], ''c''),
     ([CHR 0xD1, CHR 0x87], ''ch''), ([CHR 0xD1, CHR 0x88], ''sh''), ([CHR 0xD1, CHR 0x89], ''sch''), ([CHR 0xD1, CHR 0x8B], ''y''),
     ([CHR 0xD1, CHR 0x8D], ''e''), ([CHR 0xD1, CHR 0x8E], ''yu''), ([CHR 0xD1, CHR 0x8F], ''ya'')]"

definition lower_alnum :: "char \<Rightarrow> bool" where
  "lower_alnum c = (let n = (of_char c :: nat) in 97 \<le> n \<and> n \<le> 122 \<or> 48 \<le> n \<and> n \<le> 57)"

text \<open>One turn of the loop: the text so far and whether it ends in a hyphen that stands for other runes.\<close>

definition label_rune :: "string \<Rightarrow> string \<times> bool \<Rightarrow> string \<times> bool" where
  "label_rune r = (\<lambda>(s, dash).
     if length r = 1 \<and> lower_alnum (hd r) then (s @ r, False)
     else case map_of translit_table r of
       Some t \<Rightarrow> (s @ t, False)
     | None \<Rightarrow> if s \<noteq> [] \<and> \<not> dash then (s @ ''-'', True) else (s, dash))"

definition label_text :: "unicode \<Rightarrow> string \<Rightarrow> string" where
  "label_text u name = fst (fold label_rune (runes (to_lower u name)) ([], False))"

definition trim_char :: "char \<Rightarrow> string \<Rightarrow> string" where
  "trim_char c s = trim_right_char c (dropWhile ((=) c) s)"

definition Label :: "unicode \<Rightarrow> string \<Rightarrow> string" where
  "Label u name = trim_char (CHR ''-'') (take 63 (label_text u name))"

definition slug :: "unicode \<Rightarrow> string \<Rightarrow> string" where
  "slug u name = trim_char (CHR ''-'') (take 11 (label_text u name))"

section \<open>Interface names\<close>

function ifname_loop :: "string list \<Rightarrow> string \<Rightarrow> nat \<Rightarrow> string" where
  "ifname_loop taken p i = (let c = p @ dec i in if c \<in> set taken then ifname_loop taken p (i + 1) else c)"
  by pat_completeness auto

text \<open>Every turn leaves one of the names in use behind.\<close>

definition names_ahead :: "string list \<Rightarrow> string \<Rightarrow> nat \<Rightarrow> string set" where
  "names_ahead taken p i = {c \<in> set taken. \<exists>j \<ge> i. c = p @ dec j}"

lemma dec_inj: "dec i = dec j \<longleftrightarrow> i = j"
  by (metis dec_val_dec)

lemma names_ahead_less:
  assumes "p @ dec i \<in> set taken"
  shows "card (names_ahead taken p (i + 1)) < card (names_ahead taken p i)"
proof (rule psubset_card_mono)
  show "finite (names_ahead taken p i)" by (simp add: names_ahead_def)
  have "p @ dec i \<in> names_ahead taken p i" "p @ dec i \<notin> names_ahead taken p (i + 1)"
    using assms by (auto simp: names_ahead_def dec_inj)
  moreover have "names_ahead taken p (i + 1) \<subseteq> names_ahead taken p i" unfolding names_ahead_def by (auto intro: exI Suc_leD)
  ultimately show "names_ahead taken p (i + 1) \<subset> names_ahead taken p i" by blast
qed

termination ifname_loop
  by (relation "measure (\<lambda>(taken, p, i). card (names_ahead taken p i))") (use names_ahead_less in auto)

declare ifname_loop.simps [simp del]

definition ifname :: "unicode \<Rightarrow> string list \<Rightarrow> string \<Rightarrow> string \<Rightarrow> string" where
  "ifname u taken roomID name =
     (let c1 = slug u name; c2 = ''r'' @ take 6 roomID in
      if c1 \<noteq> [] \<and> c1 \<notin> set taken then c1
      else if c2 \<notin> set taken then c2
      else ifname_loop taken (''r'' @ take 4 roomID) 2)"

text \<open>\<^verbatim>\<open>roomNameRe\<close> of \<^verbatim>\<open>internal/config/config.go\<close>.\<close>

definition roomNameRe :: "string \<Rightarrow> bool" where
  "roomNameRe n = (n \<noteq> [] \<and> length n \<le> 11 \<and> lower_alnum (hd n) \<and> list_all (\<lambda>c. lower_alnum c \<or> c = CHR ''-'') n)"

section \<open>Properties of labels\<close>

definition no_twin :: "string \<Rightarrow> bool" where
  "no_twin s = successively (\<lambda>a b. \<not> (a = CHR ''-'' \<and> b = CHR ''-'')) s"

text \<open>What the loop builds: letters, digits and single hyphens, none at the start.\<close>

definition label_chars :: "string \<Rightarrow> bool" where
  "label_chars s = (list_all (\<lambda>c. lower_alnum c \<or> c = CHR ''-'') s \<and> no_twin s \<and> (s \<noteq> [] \<longrightarrow> hd s \<noteq> CHR ''-''))"

definition clean_label :: "string \<Rightarrow> bool" where
  "clean_label s = (label_chars s \<and> (s \<noteq> [] \<longrightarrow> last s \<noteq> CHR ''-''))"

lemma lower_alnum_dash [simp]: "\<not> lower_alnum (CHR ''-'')"
  by code_simp

lemma translit_alnum: "map_of translit_table r = Some t \<Longrightarrow> list_all lower_alnum t"
proof -
  have "list_all (\<lambda>(_, t). list_all lower_alnum t) translit_table" by code_simp
  then show "map_of translit_table r = Some t \<Longrightarrow> list_all lower_alnum t"
    by (auto simp: list_all_iff dest!: map_of_SomeD)
qed

lemma no_twin_append: "no_twin (s @ t) \<longleftrightarrow> no_twin s \<and> no_twin t \<and> (s = [] \<or> t = [] \<or> \<not> (last s = CHR ''-'' \<and> hd t = CHR ''-''))"
  by (auto simp: no_twin_def successively_append_iff)

lemma alnum_no_twin: "list_all lower_alnum t \<Longrightarrow> no_twin t"
  by (induction t rule: induct_list012) (auto simp: no_twin_def)

lemma dash_no_twin: "no_twin ''-''"
  by (simp add: no_twin_def)

lemma label_chars_alnum:
  assumes "label_chars s" "list_all lower_alnum t"
  shows "label_chars (s @ t)"
  using assms alnum_no_twin [OF assms(2)]
  by (cases t) (auto simp: label_chars_def no_twin_append list_all_iff hd_append)

lemma label_rune_chars:
  assumes "label_chars s" "s \<noteq> [] \<longrightarrow> (dash \<longleftrightarrow> last s = CHR ''-'')" "label_rune r (s, dash) = (s', dash')"
  shows "label_chars s' \<and> (s' \<noteq> [] \<longrightarrow> (dash' \<longleftrightarrow> last s' = CHR ''-''))"
proof (cases "length r = 1 \<and> lower_alnum (hd r)")
  case True
  then obtain c where c: "r = [c]" "lower_alnum c" by (cases r) auto
  then show ?thesis using assms label_chars_alnum [OF assms(1), of r] by (auto simp: label_rune_def)
next
  case False
  show ?thesis
  proof (cases "map_of translit_table r")
    case (Some t)
    then have t: "list_all lower_alnum t" by (rule translit_alnum)
    have "t \<noteq> []" using Some by (auto simp: translit_table_def split: if_splits)
    then have "last t \<noteq> CHR ''-''" using t last_in_set by (fastforce simp: list_all_iff)
    then show ?thesis using False Some assms label_chars_alnum [OF assms(1) t] \<open>t \<noteq> []\<close> by (auto simp: label_rune_def)
  next
    case None
    then show ?thesis
      using False assms no_twin_append [of s "''-''"] dash_no_twin by (auto simp: label_rune_def label_chars_def split: if_splits)
  qed
qed

lemma label_text_chars: "label_chars (label_text u name)"
proof -
  have "label_chars (fst (fold label_rune rs (s, dash)))"
    if "label_chars s" "s \<noteq> [] \<longrightarrow> (dash \<longleftrightarrow> last s = CHR ''-'')" for rs s dash
    using that
  proof (induction rs arbitrary: s dash)
    case (Cons r rs)
    obtain s' dash' where "label_rune r (s, dash) = (s', dash')" by fastforce
    with label_rune_chars [OF Cons.prems this] Cons.IH show ?case by simp
  qed simp
  then show ?thesis unfolding label_text_def by (auto simp: label_chars_def no_twin_def)
qed

lemma trim_right_parts: "\<exists>k. s = trim_right_char c s @ replicate k c" "trim_right_char c s \<noteq> [] \<Longrightarrow> last (trim_right_char c s) \<noteq> c"
proof -
  show "\<exists>k. s = trim_right_char c s @ replicate k c"
    unfolding trim_right_char_def
    by (intro exI [of _ "length (takeWhile (\<lambda>d. d = c) (rev s))"])
      (metis (mono_tags, lifting) rev_append rev_rev_ident rev_replicate replicate_length_same set_takeWhileD takeWhile_dropWhile_id)
  show "trim_right_char c s \<noteq> [] \<Longrightarrow> last (trim_right_char c s) \<noteq> c"
    unfolding trim_right_char_def by (metis (mono_tags) hd_dropWhile last_rev rev_is_Nil_conv)
qed

lemma clean_cut: "label_chars s \<Longrightarrow> clean_label (trim_char (CHR ''-'') (take n s)) \<and> length (trim_char (CHR ''-'') (take n s)) \<le> n"
proof -
  assume s: "label_chars s"
  have "label_chars (take n s @ drop n s)" using s by simp
  then have t: "label_chars (take n s)"
    by (auto simp: label_chars_def no_twin_append list_all_iff hd_append simp del: append_take_drop_id split: if_splits)
  have d: "dropWhile ((=) (CHR ''-'')) (take n s) = take n s"
    using t by (cases "take n s") (auto simp: label_chars_def)
  obtain k where k: "take n s = trim_right_char (CHR ''-'') (take n s) @ replicate k (CHR ''-'')"
    using trim_right_parts(1) by blast
  let ?t = "trim_right_char (CHR ''-'') (take n s)"
  have "label_chars (?t @ replicate k (CHR ''-''))" using t k by simp
  then have "label_chars ?t" by (auto simp: label_chars_def no_twin_append list_all_iff hd_append split: if_splits)
  moreover have "length ?t \<le> n" using arg_cong [OF k, of length] by simp
  ultimately show ?thesis
    using trim_right_parts(2) [of "CHR ''-''" "take n s"] by (auto simp: trim_char_def d clean_label_def)
qed

text \<open>A clean label stays as it is.\<close>

lemma lower_alnum_ascii: "lower_alnum c \<Longrightarrow> (of_char c :: nat) < 128 \<and> ascii_lower c = c"
  by (auto simp: lower_alnum_def ascii_lower_def Let_def)

lemma runes_ascii: "list_all (\<lambda>c. (of_char c :: nat) < 128) s \<Longrightarrow> runes s = map (\<lambda>c. [c]) s"
proof (induction s)
  case (Cons c s)
  then have "rune_len (c # s) = 1" by (simp add: rune_len_def Let_def)
  then show ?case using Cons by (subst runes.simps) simp
qed (simp add: runes.simps)

lemma translit_dash: "map_of translit_table ''-'' = None"
  by code_simp

lemma label_loop_id:
  "label_chars (p @ s) \<Longrightarrow> p \<noteq> [] \<longrightarrow> (dash \<longleftrightarrow> last p = CHR ''-'') \<Longrightarrow>
   fst (fold label_rune (map (\<lambda>c. [c]) s) (p, dash)) = p @ s"
proof (induction s arbitrary: p dash)
  case (Cons c s)
  have a: "lower_alnum c \<or> c = CHR ''-''" using Cons.prems(1) by (auto simp: label_chars_def)
  show ?case
  proof (cases "lower_alnum c")
    case True
    then have "c \<noteq> CHR ''-''" by auto
    then show ?thesis using True Cons.IH [of "p @ [c]" False] Cons.prems(1) by (simp add: label_rune_def)
  next
    case False
    then have c: "c = CHR ''-''" using a by simp
    then have "p \<noteq> []" "\<not> dash" using Cons.prems by (auto simp: label_chars_def no_twin_append)
    then show ?thesis using c Cons.IH [of "p @ [c]" True] Cons.prems(1) by (simp add: label_rune_def translit_dash)
  qed
qed simp

lemma label_text_id:
  assumes "label_chars s"
  shows "label_text u s = s"
proof -
  have c: "(of_char c :: nat) < 128 \<and> ascii_lower c = c" if "c \<in> set s" for c
  proof -
    have "lower_alnum c \<or> c = CHR ''-''" using assms that by (simp add: label_chars_def list_all_iff)
    moreover have "(of_char (CHR ''-'') :: nat) < 128 \<and> ascii_lower (CHR ''-'') = CHR ''-''" by code_simp
    ultimately show ?thesis using lower_alnum_ascii [of c] by auto
  qed
  then have as: "list_all (\<lambda>c. (of_char c :: nat) < 128) s" and low: "map ascii_lower s = s"
    by (auto simp: list_all_iff map_idI)
  then have "to_lower u s = s" by (simp add: to_lower_def is_ascii_def)
  then show ?thesis using label_loop_id [of "[]" s False] assms by (simp add: label_text_def runes_ascii [OF as])
qed

lemma trim_clean: "clean_label s \<Longrightarrow> trim_char (CHR ''-'') s = s"
proof -
  assume s: "clean_label s"
  then have "dropWhile ((=) (CHR ''-'')) s = s" by (cases s) (auto simp: clean_label_def label_chars_def)
  moreover obtain k where k: "s = trim_right_char (CHR ''-'') s @ replicate k (CHR ''-'')" using trim_right_parts(1) by blast
  have "k = 0"
  proof (rule ccontr)
    assume "k \<noteq> 0"
    then have "last s = CHR ''-''" by (subst k) simp
    moreover have "s \<noteq> []" using k \<open>k \<noteq> 0\<close> by auto
    ultimately show False using s by (simp add: clean_label_def)
  qed
  ultimately show ?thesis using k by (simp add: trim_char_def)
qed

text \<open>A DNS label made from any name, in any script, is a valid one: at most 63 lower case letters, digits and
  single hyphens, with no hyphen at either end; and making a label of a label changes nothing.
  Interface names are the same with at most 11 characters.\<close>

theorem Label_clean:
  "clean_label (Label u name) \<and> length (Label u name) \<le> 63 \<and> Label u (Label u name) = Label u name \<and>
   clean_label (slug u name) \<and> length (slug u name) \<le> 11 \<and> slug u (slug u name) = slug u name"
proof -
  have L: "clean_label (Label u name)" "length (Label u name) \<le> 63" and S: "clean_label (slug u name)" "length (slug u name) \<le> 11"
    using clean_cut [OF label_text_chars [of u name]] by (auto simp: Label_def slug_def)
  have "Label u (Label u name) = trim_char (CHR ''-'') (take 63 (Label u name))"
    using L(1) by (simp only: Label_def [of u "Label u name"] clean_label_def label_text_id)
  moreover have "slug u (slug u name) = trim_char (CHR ''-'') (take 11 (slug u name))"
    using S(1) by (simp only: slug_def [of u "slug u name"] clean_label_def label_text_id)
  ultimately show ?thesis using L S by (simp add: trim_clean)
qed

section \<open>Properties of interface names\<close>

lemma ifname_loop_fresh: "ifname_loop taken p i \<notin> set taken \<and> (\<exists>j \<ge> i. ifname_loop taken p i = p @ dec j \<and> j \<le> i + card (names_ahead taken p i))"
proof (induction taken p i rule: ifname_loop.induct)
  case (1 taken p i)
  show ?case
  proof (cases "p @ dec i \<in> set taken")
    case True
    then have e: "ifname_loop taken p i = ifname_loop taken p (i + 1)" by (subst ifname_loop.simps) simp
    from 1 [OF refl True] obtain j where "j \<ge> i + 1" "ifname_loop taken p (i + 1) = p @ dec j" "j \<le> i + 1 + card (names_ahead taken p (i + 1))"
      "ifname_loop taken p (i + 1) \<notin> set taken" by auto
    then show ?thesis using e names_ahead_less [OF True] by (intro conjI exI [of _ j]) auto
  next
    case False
    then show ?thesis by (subst (1 2) ifname_loop.simps) auto
  qed
qed

lemma dec_length: "n < 10 ^ k \<Longrightarrow> 0 < k \<Longrightarrow> length (dec n) \<le> k"
proof (induction n arbitrary: k rule: dec.induct)
  case (1 n)
  show ?case
  proof (cases "n < 10")
    case True
    then show ?thesis using 1(3) by (simp add: dec.simps)
  next
    case False
    then obtain k' where k: "k = Suc k'" "0 < k'" using 1(2,3) by (cases k; cases "k - 1") auto
    then have "length (dec (n div 10)) \<le> k'" using 1(1) [of k'] 1(2) False by (simp add: div_less_iff_less_mult mult.commute)
    then show ?thesis using False k by (subst dec.simps) simp
  qed
qed

lemma digit_alnum: "is_digit c \<Longrightarrow> lower_alnum c"
  by (simp add: is_digit_def lower_alnum_def Let_def)

text \<open>Every room gets an interface name of its own that the configuration check accepts: whatever the names of
  the rooms and of the interfaces in use, the loop ends, the name is not in use, and it has 1 to 11
  characters that may stand in an interface name.\<close>

theorem ifname_fresh:
  assumes "list_all lower_alnum roomID" "length taken < 900000"
  shows "ifname u taken roomID name \<notin> set taken \<and> roomNameRe (ifname u taken roomID name)"
proof -
  have r: "lower_alnum (CHR ''r'')" by code_simp
  have tk: "list_all lower_alnum (take k roomID)" for k using assms(1) by (auto simp: list_all_iff dest: in_set_takeD)
  have s: "roomNameRe (slug u name)" if "slug u name \<noteq> []"
    using that clean_cut [OF label_text_chars [of u name], of 11]
    by (auto simp: slug_def [symmetric] roomNameRe_def clean_label_def label_chars_def list_all_iff)
  have c2: "roomNameRe (''r'' @ take 6 roomID)" using tk [of 6] r by (auto simp: roomNameRe_def list_all_iff)
  let ?p = "''r'' @ take 4 roomID"
  obtain j where j: "ifname_loop taken ?p 2 \<notin> set taken" "ifname_loop taken ?p 2 = ?p @ dec j" "j \<le> 2 + card (names_ahead taken ?p 2)"
    using ifname_loop_fresh [of taken ?p 2] by auto
  have "card (names_ahead taken ?p 2) \<le> card (set taken)" by (rule card_mono) (auto simp: names_ahead_def)
  then have "j < 10 ^ 6" using j(3) card_length [of taken] assms(2) by simp
  then have "length (dec j) \<le> 6" by (rule dec_length) simp
  moreover have "list_all lower_alnum (dec j)" using dec_digits [of j] digit_alnum by (auto simp: list_all_iff)
  ultimately have "roomNameRe (?p @ dec j)" using tk [of 4] r by (auto simp: roomNameRe_def list_all_iff)
  then show ?thesis using s c2 j(1,2) by (auto simp: ifname_def Let_def)
qed

theorem ifname_fresh_witness:
  "ifname plain_tables [''home''] ''0a1b2c3d4e'' ''Home!'' = ''r0a1b2c'' \<and> roomNameRe ''r0a1b2c'' \<and> ''r0a1b2c'' \<notin> {''home''}"
proof -
  have e: "ifname plain_tables [''home''] ''0a1b2c3d4e'' ''Home!'' = ''r0a1b2c''" by code_simp
  have "list_all lower_alnum ''0a1b2c3d4e''" by code_simp
  from ifname_fresh [OF this, of "[''home'']" plain_tables "''Home!''"] e show ?thesis by simp
qed

end
