(* ===== verification/Node_Config.thy ===== *)
theory Node_Config
  imports Node_Names Obfs Acl Pki Complex_Main
begin

text \<open>
  \<^verbatim>\<open>internal/config/config.go\<close>: the configuration of a node and of a room, with \<^verbatim>\<open>Validate\<close> and \<^verbatim>\<open>ValidateRoom\<close>. Reading YAML is the
  library's work and not modelled. Maps that are only looked up are association lists; the rate
  limits are rational numbers (a NaN, which compares as not negative, is not modelled).
\<close>

section \<open>Data\<close>

definition DefaultListenPort :: int where "DefaultListenPort = 4790"
definition MinMTU :: int where "MinMTU = 1280"
definition MaxMTU :: int where "MaxMTU = 1500 - 32 - uint MaxTransportPadding - int TagLen - 48"
definition DefaultMTU :: int where "DefaultMTU = MaxMTU"

record obfuscation =
  ob_Jc :: "int option"
  ob_Jmin :: "int option"
  ob_Jmax :: "int option"
  ob_I :: "string list"
  ob_ContentPadding :: "string option"

record peer_config =
  pc_Name :: string
  pc_PublicKey :: bytes
  pc_Endpoint :: string
  pc_AllowedIPs :: "prefix list"
  pc_Keepalive :: int

record rcfg =
  rc_Name :: string
  rc_Secret :: bytes
  rc_Address :: prefix
  rc_MTU :: int
  rc_Broadcast :: string
  rc_Obfuscation :: "obfuscation option"
  rc_Peers :: "peer_config list"
  rc_Routes :: "prefix list"
  rc_Routing :: "prefix list"
  rc_Exit :: bool
  rc_ExitNode :: bool
  rc_ExitDNS :: addr
  rc_RoomDNS :: "addr list"
  rc_ZoneName :: string
  rc_ZoneRecords :: "(string \<times> addr) list"
  rc_DHT :: bool
  rc_Policy :: "acl_policy option"
  rc_PeerNodes :: "(bytes \<times> string) list"
  rc_ExitPeer :: string
  rc_ExitPeers :: "string list"

record node_config =
  nc_ListenPort :: "int option"
  nc_Userspace :: bool
  nc_PortMap :: "bool option"
  nc_RelayTransport :: string
  nc_UpdateChannel :: string
  nc_PublicSTUN :: "string list"
  nc_AdvertiseRoutes :: "prefix list"
  nc_AdvertiseExit :: bool
  nc_KillSwitch :: bool
  nc_KillSwitchAllowLAN :: bool
  nc_DNS :: "addr list"
  nc_ExitDNSUpstreams :: "addr list"
  nc_ExitNAT :: string
  nc_ExitRateLimit :: rat
  nc_ExitRateLimitTotal :: rat
  nc_Rooms :: "rcfg list"

datatype config_error = PortRange | BadUpdateChannel | BadExitNAT | KernelNATOnly | NegativeRate | ManyDNS | BadDNSAddr
  | BadAdvertised | BadRelayTransport | DupName | DupSecret | SubnetOverlap
  | BadRoomName | NoSecret | BadObfuscation | NoAddress | BadRoomBroadcast | BadMTU | PeerNoKey | PeerDupKey | PeerNoIPs | PeerKeepaliveRange

section \<open>Accessors\<close>

definition ClientParams :: "rcfg \<Rightarrow> client_params" where
  "ClientParams r = (case rc_Obfuscation r of
     None \<Rightarrow> DefaultClientParams
   | Some ob \<Rightarrow> DefaultClientParams
       \<lparr>Jc := (case ob_Jc ob of None \<Rightarrow> Jc DefaultClientParams | Some v \<Rightarrow> v),
        Jmin := (case ob_Jmin ob of None \<Rightarrow> Jmin DefaultClientParams | Some v \<Rightarrow> v),
        Jmax := (case ob_Jmax ob of None \<Rightarrow> Jmax DefaultClientParams | Some v \<Rightarrow> v),
        ContentPadding := (case ob_ContentPadding ob of None \<Rightarrow> ContentPadding DefaultClientParams | Some v \<Rightarrow> v),
        cp_I := ob_I ob\<rparr>)"

definition UpdateChannelName :: "node_config \<Rightarrow> string" where
  "UpdateChannelName c = (if nc_UpdateChannel c = [] then ''stable'' else nc_UpdateChannel c)"

definition DefaultPublicSTUN :: "string list" where
  "DefaultPublicSTUN = [''stun.l.google.com:19302'', ''stun.cloudflare.com:3478'']"

definition PublicSTUNServers :: "node_config \<Rightarrow> string list" where
  "PublicSTUNServers c = (if nc_PublicSTUN c = [] then DefaultPublicSTUN
     else if nc_PublicSTUN c = [''off''] then [] else nc_PublicSTUN c)"

definition PortMapEnabled :: "node_config \<Rightarrow> bool" where
  "PortMapEnabled c = (nc_PortMap c = None \<or> nc_PortMap c = Some True)"

definition config_Port :: "node_config \<Rightarrow> int" where
  "config_Port c = (case nc_ListenPort c of None \<Rightarrow> DefaultListenPort | Some p \<Rightarrow> p)"

text \<open>The operating system is an argument.\<close>

definition UserspaceExit :: "string \<Rightarrow> node_config \<Rightarrow> bool" where
  "UserspaceExit os c = (nc_ExitNAT c = ''userspace'' \<or> (nc_ExitNAT c = [] \<or> nc_ExitNAT c = ''auto'') \<and> os \<noteq> ''linux'')"

section \<open>Validation\<close>

fun check_peers :: "bytes list \<Rightarrow> peer_config list \<Rightarrow> config_error option" where
  "check_peers keys [] = None"
| "check_peers keys (p # ps) =
     (if list_all (\<lambda>b. b = 0) (pc_PublicKey p) then Some PeerNoKey
      else if pc_PublicKey p \<in> set keys then Some PeerDupKey
      else if pc_AllowedIPs p = [] then Some PeerNoIPs
      else if pc_Keepalive p < 0 \<or> 65535 < pc_Keepalive p then Some PeerKeepaliveRange
      else check_peers (pc_PublicKey p # keys) ps)"

definition ValidateRoom :: "rcfg \<Rightarrow> config_error + rcfg" where
  "ValidateRoom r =
     (if \<not> roomNameRe (rc_Name r) then Inl BadRoomName
      else if list_all (\<lambda>b. b = 0) (rc_Secret r) then Inl NoSecret
      else let cp = ClientParams r in
        if Jc cp < 0 \<or> 128 < Jc cp \<or> Jmin cp < 0 \<or> Jmax cp < Jmin cp \<or> 1280 < Jmax cp then Inl BadObfuscation
        else if \<not> pfx_valid (rc_Address r) then Inl NoAddress
        else if rc_Broadcast r \<notin> {[], ''on'', ''off'', ''mdns''} then Inl BadRoomBroadcast
        else let r' = (if rc_MTU r = 0 then r\<lparr>rc_MTU := DefaultMTU\<rparr> else r) in
          if rc_MTU r' < MinMTU \<or> MaxMTU < rc_MTU r' then Inl BadMTU
          else case check_peers [] (rc_Peers r') of Some e \<Rightarrow> Inl e | None \<Rightarrow> Inr r')"

text \<open>The loop over the rooms: names, secrets and subnets seen so far.\<close>

fun check_rooms :: "string list \<Rightarrow> bytes list \<Rightarrow> prefix list \<Rightarrow> rcfg list \<Rightarrow> config_error + rcfg list" where
  "check_rooms names secrets prefixes [] = Inr []"
| "check_rooms names secrets prefixes (r # rs) =
     (case ValidateRoom r of
        Inl e \<Rightarrow> Inl e
      | Inr r' \<Rightarrow>
          if rc_Name r' \<in> set names then Inl DupName
          else if rc_Secret r' \<in> set secrets then Inl DupSecret
          else if list_ex (\<lambda>p. overlaps p (masked (rc_Address r'))) prefixes then Inl SubnetOverlap
          else case check_rooms (rc_Name r' # names) (rc_Secret r' # secrets) (prefixes @ [masked (rc_Address r')]) rs of
            Inl e \<Rightarrow> Inl e
          | Inr rs' \<Rightarrow> Inr (r' # rs'))"

definition dns_server :: "addr \<Rightarrow> bool" where
  "dns_server a = (\<not> (a = NoAddr \<or> is_unspecified a \<or> is_multicast a \<or> has_zone a))"

definition advertised_ok :: "prefix \<Rightarrow> bool" where
  "advertised_ok p = (\<not> (\<not> pfx_valid p \<or> p \<noteq> masked p \<or> \<not> is4 (pfx_addr p) \<or> pfx_bits p < 8))"

definition Validate :: "string \<Rightarrow> node_config \<Rightarrow> config_error + node_config" where
  "Validate os c =
     (if config_Port c < 0 \<or> 65535 < config_Port c then Inl PortRange
      else if nc_UpdateChannel c \<notin> {[], ''stable'', ''beta'', ''off''} then Inl BadUpdateChannel
      else if nc_ExitNAT c \<notin> {[], ''auto'', ''kernel'', ''userspace''} then Inl BadExitNAT
      else if nc_ExitNAT c = ''kernel'' \<and> os \<noteq> ''linux'' then Inl KernelNATOnly
      else if nc_ExitRateLimit c < 0 \<or> nc_ExitRateLimitTotal c < 0 then Inl NegativeRate
      else if 3 < length (nc_DNS c) then Inl ManyDNS
      else if \<not> list_all dns_server (nc_DNS c @ nc_ExitDNSUpstreams c) then Inl BadDNSAddr
      else if \<not> list_all advertised_ok (nc_AdvertiseRoutes c) then Inl BadAdvertised
      else if nc_RelayTransport c \<notin> {[], ''auto'', ''udp'', ''vless''} then Inl BadRelayTransport
      else case check_rooms [] [] [] (nc_Rooms c) of Inl e \<Rightarrow> Inl e | Inr rs \<Rightarrow> Inr (c\<lparr>nc_Rooms := rs\<rparr>))"

section \<open>What the checks accept\<close>

lemma if_Inl: "(if b then Inl e else x) = Inr y \<longleftrightarrow> \<not> b \<and> x = Inr y"
  by simp

definition fill_mtu :: "rcfg \<Rightarrow> rcfg" where
  "fill_mtu r = (if rc_MTU r = 0 then r\<lparr>rc_MTU := DefaultMTU\<rparr> else r)"

definition peers_fine :: "peer_config list \<Rightarrow> bool" where
  "peers_fine ps \<longleftrightarrow> distinct (map pc_PublicKey ps) \<and>
     (\<forall>p \<in> set ps. (\<exists>b \<in> set (pc_PublicKey p). b \<noteq> 0) \<and> pc_AllowedIPs p \<noteq> [] \<and> 0 \<le> pc_Keepalive p \<and> pc_Keepalive p \<le> 65535)"

definition room_fine :: "rcfg \<Rightarrow> bool" where
  "room_fine r \<longleftrightarrow> roomNameRe (rc_Name r) \<and> (\<exists>b \<in> set (rc_Secret r). b \<noteq> 0) \<and>
     0 \<le> Jc (ClientParams r) \<and> Jc (ClientParams r) \<le> 128 \<and> 0 \<le> Jmin (ClientParams r) \<and> Jmin (ClientParams r) \<le> Jmax (ClientParams r) \<and>
     Jmax (ClientParams r) \<le> 1280 \<and> pfx_valid (rc_Address r) \<and> rc_Broadcast r \<in> {[], ''on'', ''off'', ''mdns''} \<and>
     (rc_MTU r = 0 \<or> MinMTU \<le> rc_MTU r \<and> rc_MTU r \<le> MaxMTU) \<and> peers_fine (rc_Peers r)"

definition rooms_fine :: "rcfg list \<Rightarrow> bool" where
  "rooms_fine rs \<longleftrightarrow> (\<forall>r \<in> set rs. room_fine r) \<and> distinct (map rc_Name rs) \<and> distinct (map rc_Secret rs) \<and>
     sorted_wrt (\<lambda>p q. \<not> overlaps p q) (map (\<lambda>r. masked (rc_Address r)) rs)"

lemma check_peers_None:
  "check_peers keys ps = None \<longleftrightarrow> peers_fine ps \<and> set (map pc_PublicKey ps) \<inter> set keys = {}"
  by (induction ps arbitrary: keys) (auto simp: peers_fine_def list_all_iff)

lemma ValidateRoom_iff: "ValidateRoom r = Inr r' \<longleftrightarrow> room_fine r \<and> r' = fill_mtu r"
proof -
  have mtu: "MinMTU \<le> DefaultMTU" "DefaultMTU \<le> MaxMTU" by (simp_all add: MinMTU_def DefaultMTU_def MaxMTU_def MaxTransportPadding_def TagLen_def)
  have peers: "rc_Peers (fill_mtu r) = rc_Peers r" "rc_MTU (fill_mtu r) = (if rc_MTU r = 0 then DefaultMTU else rc_MTU r)"
    by (simp_all add: fill_mtu_def)
  have "ValidateRoom r = Inr r' \<longleftrightarrow> roomNameRe (rc_Name r) \<and> \<not> list_all (\<lambda>b. b = 0) (rc_Secret r) \<and>
      \<not> (Jc (ClientParams r) < 0 \<or> 128 < Jc (ClientParams r) \<or> Jmin (ClientParams r) < 0 \<or> Jmax (ClientParams r) < Jmin (ClientParams r) \<or>
        1280 < Jmax (ClientParams r)) \<and> pfx_valid (rc_Address r) \<and> rc_Broadcast r \<in> {[], ''on'', ''off'', ''mdns''} \<and>
      \<not> (rc_MTU (fill_mtu r) < MinMTU \<or> MaxMTU < rc_MTU (fill_mtu r)) \<and> check_peers [] (rc_Peers (fill_mtu r)) = None \<and> r' = fill_mtu r"
    unfolding ValidateRoom_def Let_def fill_mtu_def [symmetric] by (simp split: option.split) blast
  then show ?thesis
    using mtu unfolding peers check_peers_None room_fine_def by (auto simp: list_all_iff not_less)
qed

lemma fill_mtu_simps [simp]: "rc_Name (fill_mtu r) = rc_Name r" "rc_Secret (fill_mtu r) = rc_Secret r" "rc_Address (fill_mtu r) = rc_Address r"
  by (simp_all add: fill_mtu_def)

lemma check_rooms_iff:
  "check_rooms names secrets prefixes rs = Inr rs' \<longleftrightarrow> rs' = map fill_mtu rs \<and> rooms_fine rs \<and>
     set (map rc_Name rs) \<inter> set names = {} \<and> set (map rc_Secret rs) \<inter> set secrets = {} \<and>
     (\<forall>p \<in> set prefixes. \<forall>r \<in> set rs. \<not> overlaps p (masked (rc_Address r)))"
proof (induction rs arbitrary: names secrets prefixes rs')
  case (Cons r rs)
  show ?case
  proof (cases "room_fine r")
    case True
    then have "ValidateRoom r = Inr (fill_mtu r)" by (simp add: ValidateRoom_iff)
    then have "check_rooms names secrets prefixes (r # rs) = Inr rs' \<longleftrightarrow>
        rc_Name r \<notin> set names \<and> rc_Secret r \<notin> set secrets \<and> (\<forall>p \<in> set prefixes. \<not> overlaps p (masked (rc_Address r))) \<and>
        (\<exists>rs1. check_rooms (rc_Name r # names) (rc_Secret r # secrets) (prefixes @ [masked (rc_Address r)]) rs = Inr rs1 \<and>
          rs' = fill_mtu r # rs1)"
      by (auto simp: list_ex_iff split: sum.split)
    then show ?thesis using True unfolding Cons.IH by (auto simp: rooms_fine_def)
  next
    case False
    then have "\<exists>e. ValidateRoom r = Inl e" using ValidateRoom_iff [of r] by (cases "ValidateRoom r") auto
    then show ?thesis using False by (auto simp: rooms_fine_def)
  qed
qed (auto simp: rooms_fine_def)

text \<open>C40: The configuration check accepts exactly the configurations that a node can run: the port, the
  channels and the addresses are in range, every room is valid on its own, and no two rooms
  share a name, a secret or an address; it changes nothing but the missing MTUs.\<close>

theorem Validate_exact:
  "Validate os c = Inr c' \<longleftrightarrow>
     0 \<le> config_Port c \<and> config_Port c \<le> 65535 \<and> nc_UpdateChannel c \<in> {[], ''stable'', ''beta'', ''off''} \<and>
     nc_ExitNAT c \<in> {[], ''auto'', ''kernel'', ''userspace''} \<and> (nc_ExitNAT c = ''kernel'' \<longrightarrow> os = ''linux'') \<and>
     0 \<le> nc_ExitRateLimit c \<and> 0 \<le> nc_ExitRateLimitTotal c \<and> length (nc_DNS c) \<le> 3 \<and>
     list_all dns_server (nc_DNS c @ nc_ExitDNSUpstreams c) \<and> list_all advertised_ok (nc_AdvertiseRoutes c) \<and>
     nc_RelayTransport c \<in> {[], ''auto'', ''udp'', ''vless''} \<and> rooms_fine (nc_Rooms c) \<and>
     c' = c\<lparr>nc_Rooms := map fill_mtu (nc_Rooms c)\<rparr>"
proof -
  have "(case check_rooms [] [] [] (nc_Rooms c) of Inl e \<Rightarrow> Inl e | Inr rs \<Rightarrow> Inr (c\<lparr>nc_Rooms := rs\<rparr>)) = Inr c' \<longleftrightarrow>
      rooms_fine (nc_Rooms c) \<and> c' = c\<lparr>nc_Rooms := map fill_mtu (nc_Rooms c)\<rparr>"
  proof (cases "check_rooms [] [] [] (nc_Rooms c)")
    case (Inl e)
    then show ?thesis using check_rooms_iff [of "[]" "[]" "[]" "nc_Rooms c" "map fill_mtu (nc_Rooms c)"] by simp
  next
    case (Inr rs)
    then show ?thesis using check_rooms_iff [of "[]" "[]" "[]" "nc_Rooms c" rs] by auto
  qed
  then show ?thesis
    unfolding Validate_def if_Inl by (simp only: de_Morgan_disj de_Morgan_conj not_less not_not imp_conv_disj conj_assoc)
qed

definition sample_node_config :: node_config where
  "sample_node_config = \<lparr>nc_ListenPort = None, nc_Userspace = False, nc_PortMap = None, nc_RelayTransport = [], nc_UpdateChannel = [],
     nc_PublicSTUN = [], nc_AdvertiseRoutes = [], nc_AdvertiseExit = False, nc_KillSwitch = False, nc_KillSwitchAllowLAN = False,
     nc_DNS = [], nc_ExitDNSUpstreams = [], nc_ExitNAT = [], nc_ExitRateLimit = 0, nc_ExitRateLimitTotal = 0, nc_Rooms = []\<rparr>"

theorem Validate_exact_witness: "Validate ''windows'' sample_node_config = Inr sample_node_config"
  using Validate_exact [of "''windows''" sample_node_config sample_node_config]
  by (simp add: sample_node_config_def config_Port_def DefaultListenPort_def rooms_fine_def)

end
