(* ===== verification/Node_State.thy ===== *)
theory Node_State
  imports Controller "HOL-Library.AList"
begin

text \<open>
  \<^verbatim>\<open>internal/node/state.go\<close> and the data of \<^verbatim>\<open>internal/node/local.go\<close>: what a node keeps on disk. Controllers with the room keys
  pinned at them, rooms without a controller, the choices of this machine. The file and its JSON
  form are not modelled. Maps are association lists.
\<close>

section \<open>Data\<close>

record local_invite =
  li_TokenHash :: bytes
  li_UsesLeft :: int
  li_Expires :: time

record local_link =
  ll_RoomID :: string
  ll_RoomKey :: string
  ll_Secret :: bytes
  ll_Subnet :: prefix
  ll_Token :: string
  ll_Owner :: string
  ll_OwnerDisco :: bytes
  ll_OwnerWG :: bytes
  ll_OwnerIP :: addr
  ll_Endpoints :: "addrport list"

record local_join =
  lj_Invite :: local_link
  lj_Name :: string
  lj_IP :: addr

record local_room =
  lr_RoomID :: string
  lr_Name :: string
  lr_RoomKey :: string
  lr_SignKey :: bytes
  lr_Config :: "signed option"
  lr_Invites :: "local_invite list"
  lr_Join :: "local_join option"
  lr_Peers :: "(string \<times> api_peer) list"

record controller_state =
  cs_URL :: string
  cs_Rooms :: "(string \<times> string) list"

record exit_choice =
  ec_Off :: bool
  ec_Room :: string
  ec_Member :: string
  ec_KillSwitch :: bool
  ec_AllowLAN :: bool

record dns_choice =
  dc_Servers :: "addr list"
  dc_Off :: bool

record off_room =
  off_ID :: string
  off_Name :: string

record state =
  st_Controllers :: "controller_state list"
  st_Exit :: "exit_choice option"
  st_DNS :: "dns_choice option"
  st_Local :: "local_room list"
  st_Off :: "off_room list"

definition empty_state :: state where
  "empty_state = \<lparr>st_Controllers = [], st_Exit = None, st_DNS = None, st_Local = [], st_Off = []\<rparr>"

section \<open>Operations\<close>

definition IsOff :: "string \<Rightarrow> state \<Rightarrow> bool" where
  "IsOff roomID s = list_ex (\<lambda>x. off_ID x = roomID) (st_Off s)"

definition SetOff :: "string \<Rightarrow> string \<Rightarrow> bool \<Rightarrow> state \<Rightarrow> state" where
  "SetOff roomID name off s = (let keep = filter (\<lambda>x. off_ID x \<noteq> roomID) (st_Off s) in
     s\<lparr>st_Off := if off then keep @ [\<lparr>off_ID = roomID, off_Name = name\<rparr>] else keep\<rparr>)"

definition normURL :: "string \<Rightarrow> string" where
  "normURL u = trim_right_char (CHR ''/'') u"

fun pin_in :: "string \<Rightarrow> string \<Rightarrow> string \<Rightarrow> controller_state list \<Rightarrow> controller_state list" where
  "pin_in url roomID key [] = [\<lparr>cs_URL = url, cs_Rooms = [(roomID, key)]\<rparr>]"
| "pin_in url roomID key (c # cs) =
     (if cs_URL c = url then c\<lparr>cs_Rooms := AList.update roomID key (cs_Rooms c)\<rparr> # cs else c # pin_in url roomID key cs)"

definition Pin :: "string \<Rightarrow> string \<Rightarrow> string \<Rightarrow> state \<Rightarrow> state" where
  "Pin controller roomID key s = s\<lparr>st_Controllers := pin_in (normURL controller) roomID key (st_Controllers s)\<rparr>"

fun unpin_in :: "string \<Rightarrow> controller_state list \<Rightarrow> (string \<times> controller_state list) option" where
  "unpin_in roomID [] = None"
| "unpin_in roomID (c # cs) =
     (if map_of (cs_Rooms c) roomID \<noteq> None then
        let rest = AList.delete roomID (cs_Rooms c)
        in Some (cs_URL c, if rest = [] then cs else c\<lparr>cs_Rooms := rest\<rparr> # cs)
      else case unpin_in roomID cs of None \<Rightarrow> None | Some (u, cs') \<Rightarrow> Some (u, c # cs'))"

definition Unpin :: "string \<Rightarrow> state \<Rightarrow> (string \<times> bool) \<times> state" where
  "Unpin roomID s = (case unpin_in roomID (st_Controllers s) of
     None \<Rightarrow> (([], False), s)
   | Some (u, cs) \<Rightarrow> ((u, True), s\<lparr>st_Controllers := cs\<rparr>))"

definition localPrefix :: string where "localPrefix = ''local:''"

definition localRoomKey :: "string \<Rightarrow> string \<Rightarrow> state \<Rightarrow> string option" where
  "localRoomKey url roomID s =
     (if \<not> has_prefix url localPrefix \<or> drop (length localPrefix) url \<noteq> roomID then None
      else map_option lr_RoomKey (List.find (\<lambda>lr. lr_RoomID lr = roomID) (st_Local s)))"

definition state_RoomKey :: "string \<Rightarrow> string \<Rightarrow> state \<Rightarrow> string option" where
  "state_RoomKey controller roomID s = (case localRoomKey controller roomID s of
     Some k \<Rightarrow> Some k
   | None \<Rightarrow> (case List.find (\<lambda>c. cs_URL c = normURL controller) (st_Controllers s) of
       None \<Rightarrow> None
     | Some c \<Rightarrow> map_of (cs_Rooms c) roomID))"

datatype ref_error = ManyRooms | NoLocalRoom

definition LocalRoomByRef :: "unicode \<Rightarrow> string \<Rightarrow> state \<Rightarrow> ref_error + local_room" where
  "LocalRoomByRef u ref s =
     (case filter (\<lambda>lr. lr_RoomID lr = ref \<or> equal_fold u (lr_Name lr) ref) (st_Local s) of
        [] \<Rightarrow> Inl NoLocalRoom
      | [lr] \<Rightarrow> Inr lr
      | _ \<Rightarrow> Inl ManyRooms)"

section \<open>Properties\<close>

lemma trim_right_idem: "trim_right_char c (trim_right_char c s) = trim_right_char c s"
  by (simp add: trim_right_char_def dropWhile_idem)

lemma normURL_idem [simp]: "normURL (normURL u) = normURL u"
  by (simp add: normURL_def trim_right_idem)

lemma find_pin_in:
  "(case List.find (\<lambda>c. cs_URL c = u) (pin_in url r k cs) of None \<Rightarrow> None | Some c \<Rightarrow> map_of (cs_Rooms c) r') =
   (if u = url \<and> r' = r then Some k
    else case List.find (\<lambda>c. cs_URL c = u) cs of None \<Rightarrow> None | Some c \<Rightarrow> map_of (cs_Rooms c) r')"
  by (induction cs) (auto simp: update_conv')

text \<open>No two entries for a controller: what \<^verbatim>\<open>Pin\<close> and \<^verbatim>\<open>Unpin\<close> keep.\<close>

definition urls_ok :: "state \<Rightarrow> bool" where
  "urls_ok s \<longleftrightarrow> distinct (map cs_URL (st_Controllers s)) \<and> (\<forall>c \<in> set (st_Controllers s). cs_Rooms c \<noteq> [])"

lemma pin_in_urls: "cs_URL ` set (pin_in url r k cs) = insert url (cs_URL ` set cs)"
  by (induction cs) auto

lemma urls_ok_Pin: "urls_ok s \<Longrightarrow> urls_ok (Pin c r k s)"
proof -
  have "distinct (map cs_URL cs) \<Longrightarrow> distinct (map cs_URL (pin_in url r k cs))" for url cs
    by (induction cs) (auto simp: pin_in_urls)
  moreover have "(\<forall>c \<in> set cs. cs_Rooms c \<noteq> []) \<Longrightarrow> \<forall>c \<in> set (pin_in url r k cs). cs_Rooms c \<noteq> []" for url cs
    by (induction cs) (auto simp: update_nonempty)
  ultimately show "urls_ok s \<Longrightarrow> urls_ok (Pin c r k s)" unfolding urls_ok_def Pin_def by fastforce
qed

lemma unpin_in_Some:
  assumes "distinct (map cs_URL cs)" "unpin_in r cs = Some (u, cs')"
  shows "u \<in> cs_URL ` set cs \<and> distinct (map cs_URL cs') \<and> cs_URL ` set cs' \<subseteq> cs_URL ` set cs \<and>
    ((\<forall>c \<in> set cs. cs_Rooms c \<noteq> []) \<longrightarrow> (\<forall>c \<in> set cs'. cs_Rooms c \<noteq> [])) \<and>
    (\<forall>u' r'. (case List.find (\<lambda>c. cs_URL c = u') cs' of None \<Rightarrow> None | Some c \<Rightarrow> map_of (cs_Rooms c) r') =
       (if u' = u \<and> r' = r then None
        else case List.find (\<lambda>c. cs_URL c = u') cs of None \<Rightarrow> None | Some c \<Rightarrow> map_of (cs_Rooms c) r'))"
  using assms
proof (induction cs arbitrary: cs')
  case (Cons c cs)
  show ?case
  proof (cases "map_of (cs_Rooms c) r")
    case None
    then obtain cs1 where cs1: "unpin_in r cs = Some (u, cs1)" "cs' = c # cs1"
      using Cons.prems(2) by (auto split: option.splits)
    from Cons.IH [OF _ cs1(1)] Cons.prems(1) show ?thesis using None cs1(2) by auto
  next
    case (Some k)
    let ?rest = "AList.delete r (cs_Rooms c)"
    have u: "u = cs_URL c" and cs': "cs' = (if ?rest = [] then cs else c\<lparr>cs_Rooms := ?rest\<rparr> # cs)"
      using Some Cons.prems(2) by (auto simp: Let_def)
    have nf: "List.find (\<lambda>c'. cs_URL c' = cs_URL c) cs = None"
      using Cons.prems(1) by (auto simp: find_None_iff) (metis image_eqI)
    have del: "map_of ?rest r' = (if r' = r then None else map_of (cs_Rooms c) r')" for r' by (simp add: delete_conv')
    have "map_of (cs_Rooms c) r' = None" if "?rest = []" "r' \<noteq> r" for r' using del [of r'] that by simp
    then show ?thesis using u cs' nf del Cons.prems(1) by auto
  qed
qed simp

text \<open>The pinned keys of a node behave as a map from controllers and rooms to keys: \<^verbatim>\<open>Pin\<close> sets exactly one entry, whatever slashes
  the address of the controller ends with; \<^verbatim>\<open>Unpin\<close> reports a controller that has the room and removes
  exactly that entry, or reports that there is none and changes nothing; no controller without
  rooms and no second entry for a controller is left behind.\<close>

theorem pins_are_a_map:
  assumes ok: "urls_ok s"
  defines "key \<equiv> \<lambda>c r s. case List.find (\<lambda>x. cs_URL x = normURL c) (st_Controllers s) of None \<Rightarrow> None | Some x \<Rightarrow> map_of (cs_Rooms x) r"
  shows "urls_ok (Pin c r k s) \<and> key c' r' (Pin c r k s) = (if normURL c' = normURL c \<and> r' = r then Some k else key c' r' s) \<and>
    urls_ok (snd (Unpin r s)) \<and>
    (case Unpin r s of
       ((u, True), s') \<Rightarrow> (\<exists>x \<in> set (st_Controllers s). cs_URL x = u) \<and>
         key c' r' s' = (if normURL c' = u \<and> r' = r then None else key c' r' s)
     | ((u, False), s') \<Rightarrow> s' = s \<and> key c' r s = None)"
proof -
  have "key c' r' (Pin c r k s) = (if normURL c' = normURL c \<and> r' = r then Some k else key c' r' s)"
    unfolding key_def Pin_def by (simp add: find_pin_in)
  moreover have "urls_ok (snd (Unpin r s)) \<and> (case Unpin r s of
       ((u, True), s') \<Rightarrow> (\<exists>x \<in> set (st_Controllers s). cs_URL x = u) \<and>
         key c' r' s' = (if normURL c' = u \<and> r' = r then None else key c' r' s)
     | ((u, False), s') \<Rightarrow> s' = s \<and> key c' r s = None)"
  proof (cases "unpin_in r (st_Controllers s)")
    case None
    have "unpin_in r cs = None \<Longrightarrow> c \<in> set cs \<Longrightarrow> map_of (cs_Rooms c) r = None" for c cs
      by (induction cs) (auto simp: Let_def split: if_splits option.splits)
    with None have "key c' r s = None"
      unfolding key_def by (auto split: option.split dest!: find_SomeD)
    then show ?thesis using ok None by (simp add: Unpin_def)
  next
    case (Some x)
    then obtain u cs' where x: "unpin_in r (st_Controllers s) = Some (u, cs')" by (cases x) auto
    from unpin_in_Some [OF _ x] ok show ?thesis
      unfolding key_def by (auto simp: Unpin_def x urls_ok_def)
  qed
  ultimately show ?thesis using urls_ok_Pin [OF ok] by blast
qed

theorem pins_are_a_map_witness:
  "st_Controllers (snd (Unpin ''r1'' (Pin ''https://c//'' ''r1'' ''k'' empty_state))) = [] \<and>
   st_Controllers (Pin ''https://c//'' ''r1'' ''k'' empty_state) = [\<lparr>cs_URL = ''https://c'', cs_Rooms = [(''r1'', ''k'')]\<rparr>] \<and>
   urls_ok (Pin ''https://c//'' ''r1'' ''k'' empty_state)"
proof -
  have "urls_ok empty_state" by (simp add: urls_ok_def empty_state_def)
  note ok = pins_are_a_map [OF this, of "''https://c//''" "''r1''" "''k''"]
  have p: "st_Controllers (Pin ''https://c//'' ''r1'' ''k'' empty_state) = [\<lparr>cs_URL = ''https://c'', cs_Rooms = [(''r1'', ''k'')]\<rparr>]"
    by code_simp
  moreover have "st_Controllers (snd (Unpin ''r1'' (Pin ''https://c//'' ''r1'' ''k'' empty_state))) = []"
    unfolding Unpin_def p by simp
  ultimately show ?thesis using ok by blast
qed

end
