(* ===== verification/Magicsock.thy ===== *)
theory Magicsock
  imports Disco Stun Machines "HOL-Library.AList"
begin

text \<open>
  \<^verbatim>\<open>internal/magicsock\<close>: one UDP socket for all rooms. A datagram goes to the STUN client, to the relay client, to the
  room whose tag it carries, or to disco. The socket is an event machine; what it hands to
  callbacks is its output. Room queues are lists with the capacity of the channel. The block
  cipher of the tags is a parameter.
\<close>

section \<open>Relay endpoints\<close>

definition relayPrefix :: prefix where
  "relayPrefix = \<lparr>pfx_addr = V6 0xfd7a7a7072ff00000000000000000000 [], pfx_bits = 48\<rparr>"

definition RelayEndpoint :: "bytes \<Rightarrow> addrport" where
  "RelayEndpoint node = \<lparr>ap_addr = V6 (be128 (take 6 (put128 0xfd7a7a7072ff00000000000000000000) @ node)) [], ap_port = 1\<rparr>"

definition RelayNode :: "addrport \<Rightarrow> bytes option" where
  "RelayNode ap = (if \<not> contains relayPrefix (ap_addr ap) then None else Some (drop 6 (as16 (ap_addr ap))))"

definition IsRelay :: "addrport \<Rightarrow> bool" where
  "IsRelay ap = contains relayPrefix (ap_addr ap)"

section \<open>The socket\<close>

definition maxPacket :: nat where "maxPacket = 65535"
definition queueLen :: nat where "queueLen = 1024"
definition batchSize :: nat where "batchSize = 64"

text \<open>The bind of a room: its tag key and, while it is open, the packets waiting.\<close>

record room_bind =
  rb_key :: bytes
  rb_queue :: "(bytes \<times> addrport) list option"

record stun_wait =
  sw_server :: addrport
  sw_reply :: "addrport option"

record msock =
  ms_port :: u16
  ms_rooms :: "room_bind list"
  ms_stun :: "(txid \<times> stun_wait) list"
  ms_disco :: "bytes option"
  ms_relay :: "addrport option"
  ms_dropDirect :: bool
  ms_dropRelayUDP :: bool
  ms_closed :: bool

datatype msock_out = ToDisco bytes addrport | ToRelayClient bytes

datatype msock_error = AlreadyBound | AlreadyOpen | SockClosed | NoRelay | PacketTooLarge | WriteFailed

definition ms_Listen :: "u16 \<Rightarrow> msock" where
  "ms_Listen p = \<lparr>ms_port = p, ms_rooms = [], ms_stun = [], ms_disco = None, ms_relay = None,
     ms_dropDirect = False, ms_dropRelayUDP = False, ms_closed = False\<rparr>"

definition ms_Bind :: "bytes \<Rightarrow> msock \<Rightarrow> msock_error + msock" where
  "ms_Bind key c = (if list_ex (\<lambda>b. rb_key b = key) (ms_rooms c) then Inl AlreadyBound
     else Inr (c\<lparr>ms_rooms := ms_rooms c @ [\<lparr>rb_key = key, rb_queue = None\<rparr>]\<rparr>))"

definition ms_Unbind :: "bytes \<Rightarrow> msock \<Rightarrow> msock" where
  "ms_Unbind key c = c\<lparr>ms_rooms := filter (\<lambda>b. rb_key b \<noteq> key) (ms_rooms c)\<rparr>"

definition upd_bind :: "bytes \<Rightarrow> (room_bind \<Rightarrow> room_bind) \<Rightarrow> msock \<Rightarrow> msock" where
  "upd_bind key f c = c\<lparr>ms_rooms := map (\<lambda>b. if rb_key b = key then f b else b) (ms_rooms c)\<rparr>"

definition bind_Open :: "bytes \<Rightarrow> msock \<Rightarrow> msock_error + u16 \<times> msock" where
  "bind_Open key c =
     (if list_ex (\<lambda>b. rb_key b = key \<and> rb_queue b \<noteq> None) (ms_rooms c) then Inl AlreadyOpen
      else if ms_closed c then Inl SockClosed
      else Inr (ms_port c, upd_bind key (\<lambda>b. b\<lparr>rb_queue := Some []\<rparr>) c))"

definition bind_Close :: "bytes \<Rightarrow> msock \<Rightarrow> msock" where
  "bind_Close key c = upd_bind key (\<lambda>b. b\<lparr>rb_queue := None\<rparr>) c"

definition ms_Close :: "msock \<Rightarrow> msock" where
  "ms_Close c = c\<lparr>ms_closed := True, ms_rooms := map (\<lambda>b. b\<lparr>rb_queue := None\<rparr>) (ms_rooms c)\<rparr>"

definition SetRelay :: "addrport option \<Rightarrow> msock \<Rightarrow> msock" where
  "SetRelay r c = c\<lparr>ms_relay := r\<rparr>"

definition SetDisco :: "bytes \<Rightarrow> msock \<Rightarrow> msock" where
  "SetDisco key c = c\<lparr>ms_disco := Some key\<rparr>"

section \<open>Receiving\<close>

definition deliver :: "bytes \<Rightarrow> addrport \<Rightarrow> room_bind \<Rightarrow> room_bind" where
  "deliver payload from' b = (case rb_queue b of
     None \<Rightarrow> b
   | Some q \<Rightarrow> if length q < queueLen then b\<lparr>rb_queue := Some (q @ [(payload, from')])\<rparr> else b)"

text \<open>The loop over the rooms: the first whose tag the packet carries takes it.\<close>

fun dispatch_rooms :: "(bytes \<Rightarrow> bytes \<Rightarrow> bytes) \<Rightarrow> bytes \<Rightarrow> addrport \<Rightarrow> room_bind list \<Rightarrow> room_bind list option" where
  "dispatch_rooms enc pkt from' [] = None"
| "dispatch_rooms enc pkt from' (b # bs) =
     (if Tagger_Match enc (rb_key b) pkt then Some (deliver (drop TagLen pkt) from' b # bs)
      else map_option ((#) b) (dispatch_rooms enc pkt from' bs))"

definition dispatch :: "(bytes \<Rightarrow> bytes \<Rightarrow> bytes) \<Rightarrow> bytes \<Rightarrow> addrport \<Rightarrow> msock \<Rightarrow> msock_out list \<times> msock" where
  "dispatch enc pkt from' c = (case dispatch_rooms enc pkt from' (ms_rooms c) of
     Some bs \<Rightarrow> ([], c\<lparr>ms_rooms := bs\<rparr>)
   | None \<Rightarrow> (case ms_disco c of
       Some k \<Rightarrow> if Tagger_Match enc k pkt then ([ToDisco pkt from'], c) else ([], c)
     | None \<Rightarrow> ([], c)))"

text \<open>A channel of one element takes the first answer.\<close>

definition handleSTUN :: "bytes \<Rightarrow> addrport \<Rightarrow> msock \<Rightarrow> msock" where
  "handleSTUN pkt from' c = (case stun_ParseResponse pkt of
     Inl _ \<Rightarrow> c
   | Inr (i, mapped) \<Rightarrow> (case map_of (ms_stun c) i of
       None \<Rightarrow> c
     | Some w \<Rightarrow> if sw_server w \<noteq> from' \<or> sw_reply w \<noteq> None then c
         else c\<lparr>ms_stun := AList.update i (w\<lparr>sw_reply := Some mapped\<rparr>) (ms_stun c)\<rparr>))"

definition unmap_ap :: "addrport \<Rightarrow> addrport" where
  "unmap_ap ap = ap\<lparr>ap_addr := unmap (ap_addr ap)\<rparr>"

text \<open>One turn of \<^verbatim>\<open>readLoop\<close>.\<close>

definition ms_read :: "(bytes \<Rightarrow> bytes \<Rightarrow> bytes) \<Rightarrow> bytes \<Rightarrow> addrport \<Rightarrow> msock \<Rightarrow> msock_out list \<times> msock" where
  "ms_read enc pkt addr c = (let from' = unmap_ap addr in
     if stun_Is pkt then ([], handleSTUN pkt from' c)
     else if ms_relay c = Some from' then (if ms_dropRelayUDP c then [] else [ToRelayClient pkt], c)
     else if ms_dropDirect c then ([], c)
     else dispatch enc pkt from' c)"

text \<open>A packet that came through the relay.\<close>

definition ms_Receive :: "(bytes \<Rightarrow> bytes \<Rightarrow> bytes) \<Rightarrow> bytes \<Rightarrow> bytes \<Rightarrow> msock \<Rightarrow> msock_out list \<times> msock" where
  "ms_Receive enc pkt node c = dispatch enc pkt (RelayEndpoint node) c"

text \<open>What the receive function of a bind returns at once: as many packets as fit, in order.\<close>

definition bind_recv :: "bytes \<Rightarrow> nat \<Rightarrow> msock \<Rightarrow> (bytes \<times> addrport) list \<times> msock" where
  "bind_recv key n c = (case List.find (\<lambda>b. rb_key b = key) (ms_rooms c) of
     Some b \<Rightarrow> (case rb_queue b of
       Some q \<Rightarrow> (take n q, upd_bind key (\<lambda>b. b\<lparr>rb_queue := Some (drop n q)\<rparr>) c)
     | None \<Rightarrow> ([], c))
   | None \<Rightarrow> ([], c))"

section \<open>Sending\<close>

datatype sent = Direct bytes addrport | ViaRelay bytes bytes

text \<open>What the socket or the relay client answers is an argument: whether it took the packet.\<close>

definition WriteDirect :: "bool \<Rightarrow> bytes \<Rightarrow> addrport \<Rightarrow> msock_error + sent" where
  "WriteDirect took b to = (if took then Inr (Direct b to) else Inl WriteFailed)"

definition ms_write :: "bool \<Rightarrow> bytes \<Rightarrow> addrport \<Rightarrow> msock \<Rightarrow> msock_error + sent" where
  "ms_write took b to c = (case RelayNode to of
     Some node \<Rightarrow> (case ms_relay c of
       None \<Rightarrow> Inl NoRelay
     | Some _ \<Rightarrow> if took then Inr (ViaRelay node b) else Inl WriteFailed)
   | None \<Rightarrow> WriteDirect took b to)"

text \<open>\<^verbatim>\<open>Send\<close>: packets with the nonces of their tags and the fate of each write; the loop stops at
  the first that fails.\<close>

fun send_loop :: "(bytes \<Rightarrow> bytes \<Rightarrow> bytes) \<Rightarrow> bytes \<Rightarrow> (bytes \<times> bool \<times> bytes) list \<Rightarrow> addrport \<Rightarrow> msock
    \<Rightarrow> sent list \<times> msock_error option" where
  "send_loop enc key [] to c = ([], None)"
| "send_loop enc key ((nonce, took, pkt) # ps) to c =
     (if maxPacket < length pkt + TagLen then ([], Some PacketTooLarge)
      else case ms_write took (Tagger_Put enc key nonce @ pkt) to c of
        Inl e \<Rightarrow> ([], Some e)
      | Inr x \<Rightarrow> (case send_loop enc key ps to c of (xs, e) \<Rightarrow> (x # xs, e)))"

definition bind_Send :: "(bytes \<Rightarrow> bytes \<Rightarrow> bytes) \<Rightarrow> bytes \<Rightarrow> (bytes \<times> bool \<times> bytes) list \<Rightarrow> addrport \<Rightarrow> msock
    \<Rightarrow> sent list \<times> msock_error option" where
  "bind_Send enc key ps to c =
     (if \<not> list_ex (\<lambda>b. rb_key b = key \<and> rb_queue b \<noteq> None) (ms_rooms c) then ([], Some SockClosed)
      else send_loop enc key ps to c)"

section \<open>STUN requests\<close>

definition stun_begin :: "txid \<Rightarrow> addrport \<Rightarrow> msock \<Rightarrow> (bytes \<times> addrport) \<times> msock" where
  "stun_begin i server c = (let srv = unmap_ap server in
     ((stun_Request i, srv), c\<lparr>ms_stun := AList.update i \<lparr>sw_server = srv, sw_reply = None\<rparr> (ms_stun c)\<rparr>))"

definition stun_end :: "txid \<Rightarrow> msock \<Rightarrow> addrport option \<times> msock" where
  "stun_end i c = (case map_of (ms_stun c) i of None \<Rightarrow> None | Some w \<Rightarrow> sw_reply w, c\<lparr>ms_stun := AList.delete i (ms_stun c)\<rparr>)"

section \<open>Relay endpoints carry node identifiers\<close>

lemma be_val_append: "be_val (a @ b) = be_val a * 256 ^ length b + be_val b"
proof (induction b rule: rev_induct)
  case (snoc x b)
  then show ?case by (simp add: be_val_snoc algebra_simps flip: append_assoc)
qed (simp add: be_val_def)

lemma be_val_bound: "0 \<le> be_val b \<and> be_val b < 256 ^ length b"
proof (induction b rule: rev_induct)
  case (snoc x b)
  have "0 \<le> uint x" "uint x < 256" using uint_lt2p [of x] by simp_all
  moreover have "(be_val b + 1) * 256 \<le> 256 ^ length b * 256" using snoc by (intro mult_right_mono) auto
  ultimately show ?case using snoc by (simp add: be_val_snoc)
qed (simp add: be_val_def)

lemma uint_be128: "length b = 16 \<Longrightarrow> uint (be128 b) = be_val b"
  using be_val_bound [of b] by (simp add: be128_def unsigned_of_int take_bit_int_eq_self)

lemma put128_be128: "length b = 16 \<Longrightarrow> put128 (be128 b) = b"
  using be_digits_val [of b] by (simp add: put128_def uint_be128)

lemma drop_bit_zero_mask: "drop_bit n (x :: 'a::len word) = 0 \<Longrightarrow> x AND NOT (mask n) = 0"
  by (metis and.assoc and_zero_eq bit.conj_cancel_right bits_ident add_0 push_bit_of_0 take_bit_eq_mask)

lemma RelayNode_RelayEndpoint:
  assumes "length node = 10"
  shows "RelayNode (RelayEndpoint node) = Some node \<and> IsRelay (RelayEndpoint node)"
proof -
  define v :: "128 word" where "v = 0xfd7a7a7072ff00000000000000000000"
  define w where "w = be128 (take 6 (put128 v) @ node)"
  have l: "length (take 6 (put128 v) @ node) = 16" using assms by simp
  have pre: "be_val (take 6 (put128 v)) = 0xfd7a7a7072ff" unfolding v_def by code_simp
  have "uint w = 0xfd7a7a7072ff * 256 ^ 10 + be_val node"
    unfolding w_def uint_be128 [OF l] by (simp add: be_val_append pre assms)
  moreover have "(a * 256 ^ 10 + r) div 256 ^ 10 = a" if "0 \<le> r" "r < 256 ^ 10" for a r :: int
    using that by (intro int_div_pos_eq [where r = r]) auto
  ultimately have "uint w div 256 ^ 10 = 0xfd7a7a7072ff" using be_val_bound [of node] assms by metis
  moreover have "(256 :: int) ^ 10 = 2 ^ 80" by simp
  ultimately have "uint w div 2 ^ 80 = 0xfd7a7a7072ff" by metis
  then have "uint (drop_bit 80 w) = uint (drop_bit 80 v)" by (simp add: v_def drop_bit_eq_div uint_div_distrib)
  then have "drop_bit 80 w = drop_bit 80 v" by (simp only: word_uint_eq_iff)
  then have "drop_bit 80 (w XOR v) = 0" by (simp add: drop_bit_xor)
  then have "(w XOR v) AND NOT (mask 80) = 0" by (rule drop_bit_zero_mask)
  then have "(w XOR v) AND net_mask 48 = 0" by (simp add: net_mask_def)
  then have "contains relayPrefix (V6 w [])"
    by (simp add: contains_def relayPrefix_def pfx_valid_def has_zone_def v_def)
  moreover have "put128 w = take 6 (put128 v) @ node" unfolding w_def by (rule put128_be128 [OF l])
  ultimately show ?thesis by (simp add: RelayNode_def IsRelay_def RelayEndpoint_def as16_def flip: v_def w_def)
qed

section \<open>The socket as a machine\<close>

datatype ms_event = EvBind bytes | EvUnbind bytes | EvOpen bytes | EvCloseBind bytes | EvRead bytes addrport
  | EvReceive bytes bytes | EvRecv bytes nat | EvStunBegin txid addrport | EvStunEnd txid
  | EvSetRelay "addrport option" | EvSetDisco bytes | EvDropDirect bool | EvDropRelayUDP bool | EvClose

fun ms_step :: "(bytes \<Rightarrow> bytes \<Rightarrow> bytes) \<Rightarrow> ms_event \<Rightarrow> msock \<Rightarrow> msock" where
  "ms_step enc (EvBind k) c = (case ms_Bind k c of Inl _ \<Rightarrow> c | Inr c' \<Rightarrow> c')"
| "ms_step enc (EvUnbind k) c = ms_Unbind k c"
| "ms_step enc (EvOpen k) c = (case bind_Open k c of Inl _ \<Rightarrow> c | Inr (_, c') \<Rightarrow> c')"
| "ms_step enc (EvCloseBind k) c = bind_Close k c"
| "ms_step enc (EvRead pkt a) c = snd (ms_read enc pkt a c)"
| "ms_step enc (EvReceive pkt node) c = snd (ms_Receive enc pkt node c)"
| "ms_step enc (EvRecv k n) c = snd (bind_recv k n c)"
| "ms_step enc (EvStunBegin i srv) c = snd (stun_begin i srv c)"
| "ms_step enc (EvStunEnd i) c = snd (stun_end i c)"
| "ms_step enc (EvSetRelay r) c = SetRelay r c"
| "ms_step enc (EvSetDisco k) c = SetDisco k c"
| "ms_step enc (EvDropDirect v) c = c\<lparr>ms_dropDirect := v\<rparr>"
| "ms_step enc (EvDropRelayUDP v) c = c\<lparr>ms_dropRelayUDP := v\<rparr>"
| "ms_step enc EvClose c = ms_Close c"

text \<open>Where a packet may come from: it was read from the wire, or came through the relay.\<close>

definition arrived :: "ms_event set \<Rightarrow> bytes \<Rightarrow> addrport \<Rightarrow> bool" where
  "arrived E pkt from' \<longleftrightarrow> (\<exists>a. EvRead pkt a \<in> E \<and> from' = unmap_ap a \<and> \<not> stun_Is pkt) \<or>
     (\<exists>node. EvReceive pkt node \<in> E \<and> from' = RelayEndpoint node)"

definition bind_ok :: "(bytes \<Rightarrow> bytes \<Rightarrow> bytes) \<Rightarrow> ms_event set \<Rightarrow> room_bind \<Rightarrow> bool" where
  "bind_ok enc E b \<longleftrightarrow> (case rb_queue b of None \<Rightarrow> True | Some q \<Rightarrow> length q \<le> queueLen \<and>
     (\<forall>x \<in> set q. \<exists>pkt. fst x = drop TagLen pkt \<and> Tagger_Match enc (rb_key b) pkt \<and> arrived E pkt (snd x)))"

definition wait_ok :: "ms_event set \<Rightarrow> txid \<times> stun_wait \<Rightarrow> bool" where
  "wait_ok E x \<longleftrightarrow> (\<forall>m. sw_reply (snd x) = Some m \<longrightarrow>
     (\<exists>pkt a. EvRead pkt a \<in> E \<and> unmap_ap a = sw_server (snd x) \<and> stun_ParseResponse pkt = Inr (fst x, m)))"

definition ms_inv :: "(bytes \<Rightarrow> bytes \<Rightarrow> bytes) \<Rightarrow> ms_event set \<Rightarrow> msock \<Rightarrow> bool" where
  "ms_inv enc E c \<longleftrightarrow> distinct (map rb_key (ms_rooms c)) \<and> list_all (bind_ok enc E) (ms_rooms c) \<and>
     distinct (map fst (ms_stun c)) \<and> list_all (wait_ok E) (ms_stun c) \<and>
     (ms_closed c \<longrightarrow> list_all (\<lambda>b. rb_queue b = None) (ms_rooms c))"

lemma deliver_simps [simp]: "rb_key (deliver p f b) = rb_key b" "(rb_queue (deliver p f b) = None) = (rb_queue b = None)"
  by (auto simp: deliver_def split: option.splits)

lemma dispatch_rooms_keys: "dispatch_rooms enc pkt f bs = Some bs' \<Longrightarrow> map rb_key bs' = map rb_key bs \<and>
    map (\<lambda>b. rb_queue b = None) bs' = map (\<lambda>b. rb_queue b = None) bs"
  by (induction bs arbitrary: bs') (auto split: if_splits)

lemma deliver_ok:
  assumes "bind_ok enc E b" "Tagger_Match enc (rb_key b) pkt" "arrived E pkt f"
  shows "bind_ok enc E (deliver (drop TagLen pkt) f b)"
  using assms by (auto simp: bind_ok_def deliver_def split: option.splits)

lemma dispatch_rooms_ok:
  "dispatch_rooms enc pkt f bs = Some bs' \<Longrightarrow> list_all (bind_ok enc E) bs \<Longrightarrow> arrived E pkt f \<Longrightarrow> list_all (bind_ok enc E) bs'"
  by (induction bs arbitrary: bs') (auto split: if_splits intro: deliver_ok)

lemma list_all_map_eq: "map f xs = map f ys \<Longrightarrow> list_all f xs = list_all f ys"
  by (metis list.map_id list.pred_map comp_id list.pred_set set_map list_all_length length_map nth_map)

lemma arrived_mono_bind: "bind_ok enc E (b\<lparr>rb_queue := None\<rparr>)"
  by (simp add: bind_ok_def)

lemma dispatch_inv:
  assumes "ms_inv enc E c" "arrived E pkt f"
  shows "ms_inv enc E (snd (dispatch enc pkt f c))"
proof (cases "dispatch_rooms enc pkt f (ms_rooms c)")
  case (Some bs)
  have k: "map rb_key bs = map rb_key (ms_rooms c)"
    "map (\<lambda>b. rb_queue b = None) bs = map (\<lambda>b. rb_queue b = None) (ms_rooms c)"
    using dispatch_rooms_keys [OF Some] by simp_all
  show ?thesis
    using assms k dispatch_rooms_ok [OF Some, of E] list_all_map_eq [OF k(2)]
    by (auto simp: ms_inv_def dispatch_def Some)
next
  case None
  then show ?thesis using assms by (auto simp: dispatch_def split: option.splits)
qed

lemma map_of_In: "map_of xs i = Some w \<Longrightarrow> list_all P xs \<Longrightarrow> P (i, w)"
  by (auto dest: map_of_SomeD simp: list_all_iff)

lemma list_all_update: "list_all P xs \<Longrightarrow> P (i, w) \<Longrightarrow> list_all P (AList.update i w xs)"
  by (induction xs) auto

lemma list_all_delete: "list_all P xs \<Longrightarrow> list_all P (AList.delete i xs)"
  by (simp add: AList.delete_eq list_all_iff)

lemma handleSTUN_inv:
  assumes "ms_inv enc E c" "EvRead pkt a \<in> E"
  shows "ms_inv enc E (handleSTUN pkt (unmap_ap a) c)"
proof -
  have "wait_ok E (i, w\<lparr>sw_reply := Some m\<rparr>)"
    if "stun_ParseResponse pkt = Inr (i, m)" "sw_server w = unmap_ap a" for i w m
    using assms that by (auto simp: wait_ok_def)
  then show ?thesis
    using assms by (auto simp: ms_inv_def handleSTUN_def split: sum.splits option.splits
        intro!: list_all_update distinct_update)
qed

lemma upd_bind_inv:
  assumes "ms_inv enc E c" "\<And>b. rb_key (f b) = rb_key b"
    "\<And>b. b \<in> set (ms_rooms c) \<Longrightarrow> rb_key b = k \<Longrightarrow> bind_ok enc E (f b)"
    "\<And>b. b \<in> set (ms_rooms c) \<Longrightarrow> ms_closed c \<Longrightarrow> rb_key b = k \<Longrightarrow> rb_queue (f b) = None"
  shows "ms_inv enc E (upd_bind k f c)"
proof -
  have "rb_key \<circ> (\<lambda>b. if rb_key b = k then f b else b) = rb_key" using assms(2) by auto
  then show ?thesis using assms by (auto simp: ms_inv_def upd_bind_def list_all_iff)
qed

lemma find_key:
  assumes "distinct (map rb_key bs)" "List.find (\<lambda>b. rb_key b = k) bs = Some b"
  shows "b \<in> set bs" "rb_key b = k" "\<And>b'. b' \<in> set bs \<Longrightarrow> rb_key b' = k \<Longrightarrow> b' = b"
proof -
  show "b \<in> set bs" "rb_key b = k" using assms(2) by (auto simp: find_Some_iff)
  then show "b' = b" if "b' \<in> set bs" "rb_key b' = k" for b'
    using assms(1) that by (auto simp: distinct_map inj_on_def)
qed

lemma bind_recv_inv:
  assumes "ms_inv enc E c"
  shows "ms_inv enc E (snd (bind_recv k n c))"
proof (cases "List.find (\<lambda>b. rb_key b = k) (ms_rooms c)")
  case (Some b)
  have "distinct (map rb_key (ms_rooms c))" using assms by (simp add: ms_inv_def)
  note b = find_key [OF this Some]
  show ?thesis
  proof (cases "rb_queue b")
    case (Some q)
    have "bind_ok enc E b" using assms b(1) by (simp add: ms_inv_def list_all_iff)
    then have "bind_ok enc E (b\<lparr>rb_queue := Some (drop n q)\<rparr>)"
      using Some by (auto simp: bind_ok_def dest: in_set_dropD)
    moreover have "\<not> ms_closed c" using assms b(1) Some by (auto simp: ms_inv_def list_all_iff)
    ultimately have "ms_inv enc E (upd_bind k (\<lambda>b. b\<lparr>rb_queue := Some (drop n q)\<rparr>) c)"
      using b(3) by (intro upd_bind_inv [OF assms]) auto
    then show ?thesis using Some \<open>List.find _ _ = Some b\<close> by (simp add: bind_recv_def)
  qed (use assms Some in \<open>simp add: bind_recv_def\<close>)
qed (use assms in \<open>simp add: bind_recv_def\<close>)

lemma ms_step_inv: "ms_inv enc E c \<Longrightarrow> e \<in> E \<Longrightarrow> ms_inv enc E (ms_step enc e c)"
proof (induction enc e c rule: ms_step.induct)
  case (1 enc k c)
  then show ?case
    by (auto simp: ms_inv_def ms_Bind_def bind_ok_def list_ex_iff)
next
  case (2 enc k c)
  then show ?case
    by (auto simp: ms_inv_def ms_Unbind_def list_all_iff distinct_map_filter)
next
  case (3 enc k c)
  then show ?case
    by (auto simp: bind_Open_def bind_ok_def intro!: upd_bind_inv)
next
  case (4 enc k c)
  then show ?case
    by (auto simp: bind_Close_def bind_ok_def intro!: upd_bind_inv)
next
  case (5 enc pkt a c)
  show ?case
  proof (cases "stun_Is pkt")
    case True
    then show ?thesis using handleSTUN_inv 5 by (simp add: ms_read_def)
  next
    case False
    then have "arrived E pkt (unmap_ap a)" using 5 by (auto simp: arrived_def)
    then show ?thesis using False dispatch_inv 5 by (simp add: ms_read_def Let_def)
  qed
next
  case (6 enc pkt node c)
  then have "arrived E pkt (RelayEndpoint node)" by (auto simp: arrived_def)
  then show ?case using dispatch_inv 6 by (simp add: ms_Receive_def)
next
  case (7 enc k n c)
  then show ?case using bind_recv_inv by simp
next
  case (8 enc i srv c)
  then show ?case
    by (auto simp: ms_inv_def stun_begin_def Let_def wait_ok_def intro!: list_all_update distinct_update)
next
  case (9 enc i c)
  then show ?case
    by (auto simp: ms_inv_def stun_end_def list_all_delete distinct_delete)
next
  case (14 enc c)
  then show ?case
    by (auto simp: ms_inv_def ms_Close_def list_all_iff bind_ok_def comp_def)
qed (simp_all add: ms_inv_def SetRelay_def SetDisco_def)

interpretation ms: machine "ms_step enc" "\<lambda>e. e \<in> E" "ms_inv enc E" for enc E
  by unfold_locales (rule ms_step_inv)

lemma Listen_inv: "ms_inv enc E (ms_Listen p)"
  by (simp add: ms_inv_def ms_Listen_def)

section \<open>What a room receives\<close>

text \<open>C28: Whatever happens to the socket, a room's queue holds at most 1024 packets, each of which
  arrived in a datagram carrying that room's tag, from the wire and not a STUN message or through the relay, and
  is queued with the address it came from; and a STUN request is answered only by a response with
  its transaction identifier from the server that was asked.\<close>

theorem socket_sound:
  "(\<forall>b \<in> set (ms_rooms (run (ms_step enc) es (ms_Listen p))). \<forall>q. rb_queue b = Some q \<longrightarrow> length q \<le> 1024 \<and>
     (\<forall>(payload, from') \<in> set q. \<exists>pkt. payload = drop 8 pkt \<and> Tagger_Match enc (rb_key b) pkt \<and>
        ((\<exists>a. EvRead pkt a \<in> set es \<and> from' = unmap_ap a \<and> \<not> stun_Is pkt) \<or>
         (\<exists>node. EvReceive pkt node \<in> set es \<and> from' = RelayEndpoint node)))) \<and>
   (\<forall>(i, w) \<in> set (ms_stun (run (ms_step enc) es (ms_Listen p))). \<forall>m. sw_reply w = Some m \<longrightarrow>
     (\<exists>pkt a. EvRead pkt a \<in> set es \<and> unmap_ap a = sw_server w \<and> stun_ParseResponse pkt = Inr (i, m)))"
proof -
  have inv: "ms_inv enc (set es) (run (ms_step enc) es (ms_Listen p))"
    by (intro ms.run_inv Listen_inv) simp
  then have "bind_ok enc (set es) b" if "b \<in> set (ms_rooms (run (ms_step enc) es (ms_Listen p)))" for b
    using that by (simp add: ms_inv_def list_all_iff)
  moreover have "wait_ok (set es) x" if "x \<in> set (ms_stun (run (ms_step enc) es (ms_Listen p)))" for x
    using inv that by (simp add: ms_inv_def list_all_iff)
  ultimately show ?thesis
    by (fastforce simp: bind_ok_def wait_ok_def arrived_def queueLen_def TagLen_def)
qed

definition sample_key :: bytes where "sample_key = replicate 16 3"

definition sample_from :: addrport where
  "sample_from = \<lparr>ap_addr = V4 0x0A000002, ap_port = 41641\<rparr>"

definition sample_datagram :: bytes where
  "sample_datagram = [1, 2, 3, 4, 2, 1, 0, 7, 42]"

definition sample_ms_events :: "ms_event list" where
  "sample_ms_events = [EvBind sample_key, EvOpen sample_key, EvRead sample_datagram sample_from]"

lemma sample_ms_run:
  "ms_rooms (run (ms_step sample_enc) sample_ms_events (ms_Listen 7)) =
     [\<lparr>rb_key = sample_key, rb_queue = Some [([42], sample_from)]\<rparr>]"
  by code_simp

theorem socket_sound_witness:
  "\<exists>pkt. [42] = drop 8 pkt \<and> Tagger_Match sample_enc sample_key pkt \<and>
     ((\<exists>a. EvRead pkt a \<in> set sample_ms_events \<and> sample_from = unmap_ap a \<and> \<not> stun_Is pkt) \<or>
      (\<exists>node. EvReceive pkt node \<in> set sample_ms_events \<and> sample_from = RelayEndpoint node))"
  using socket_sound [of sample_enc sample_ms_events 7] by (simp add: sample_ms_run)

section \<open>From one socket to another\<close>

lemma dispatch_rooms_hit:
  assumes "Tagger_Match enc (rb_key b) pkt" "\<forall>b' \<in> set xs. \<not> Tagger_Match enc (rb_key b') pkt"
  shows "dispatch_rooms enc pkt f (xs @ b # ys) = Some (xs @ deliver (drop TagLen pkt) f b # ys)"
  using assms by (induction xs) auto

lemma Tagger_Put_matches:
  assumes "\<forall>blk. length (enc key blk) = 16" "length nonce = 4"
  shows "Tagger_Match enc key (Tagger_Put enc key nonce @ rest)" "length (Tagger_Put enc key nonce) = TagLen"
  using assms by (simp_all add: Tagger_Match_def Tagger_Put_def Tagger_mac_def TagLen_def nonceLen_def bslice_def)

text \<open>A packet a room sends to another node arrives there unchanged: the datagram that \<^verbatim>\<open>Send\<close>
  writes, read by a socket where the room is open and has space, is appended to the queue of
  that room with the sender's address, and nothing else changes. The conditions are those the code
  has: the datagram does not read as a STUN message, does not come from the relay's address and no
  room bound before takes its tag for its own.\<close>

theorem socket_delivers:
  assumes enc: "\<forall>blk. length (enc key blk) = 16" and nonce: "length nonce = 4"
    and sent: "bind_Send enc key [(nonce, True, pkt)] to c = ([Direct d to], None)"
    and rooms: "ms_rooms c' = xs @ b # ys" "rb_key b = key" "rb_queue b = Some q" "length q < 1024"
    and plain: "\<not> stun_Is d" "ms_relay c' \<noteq> Some (unmap_ap a)" "\<not> ms_dropDirect c'"
    and first: "\<forall>b' \<in> set xs. \<not> Tagger_Match enc (rb_key b') d"
  shows "ms_read enc d a c' =
    ([], c'\<lparr>ms_rooms := xs @ b\<lparr>rb_queue := Some (q @ [(pkt, unmap_ap a)])\<rparr> # ys\<rparr>)"
proof -
  have d: "d = Tagger_Put enc key nonce @ pkt"
    using sent by (auto simp: bind_Send_def ms_write_def WriteDirect_def split: if_splits option.splits)
  have "dispatch_rooms enc d (unmap_ap a) (xs @ b # ys) = Some (xs @ deliver (drop TagLen d) (unmap_ap a) b # ys)"
    using first rooms(2) Tagger_Put_matches(1) [of enc key nonce, OF enc nonce] by (intro dispatch_rooms_hit) (simp_all add: d)
  moreover have "drop TagLen d = pkt" using Tagger_Put_matches(2) [of enc key nonce, OF enc nonce] by (simp add: d)
  ultimately show ?thesis
    using rooms plain by (simp add: ms_read_def dispatch_def deliver_def queueLen_def)
qed

definition sample_socket :: msock where
  "sample_socket = (ms_Listen 7)\<lparr>ms_rooms := [\<lparr>rb_key = sample_key, rb_queue = Some []\<rparr>]\<rparr>"

theorem socket_delivers_witness:
  "ms_read sample_enc sample_datagram sample_from sample_socket =
    ([], sample_socket\<lparr>ms_rooms := [\<lparr>rb_key = sample_key, rb_queue = Some [([42], unmap_ap sample_from)]\<rparr>]\<rparr>)"
proof -
  have enc: "\<forall>blk. length (sample_enc sample_key blk) = 16" by (simp add: sample_enc_def sample_key_def)
  have "Tagger_Put sample_enc sample_key [1, 2, 3, 4] @ [42] = sample_datagram" "RelayNode sample_from = None" by code_simp+
  then have s: "bind_Send sample_enc sample_key [([1, 2, 3, 4], True, [42])] sample_from sample_socket =
      ([Direct sample_datagram sample_from], None)"
    by (simp add: bind_Send_def sample_socket_def maxPacket_def TagLen_def ms_write_def WriteDirect_def)
  have r: "ms_rooms sample_socket = [] @ \<lparr>rb_key = sample_key, rb_queue = Some []\<rparr> # []"
    by (simp add: sample_socket_def)
  have p: "\<not> stun_Is sample_datagram" "ms_relay sample_socket \<noteq> Some (unmap_ap sample_from)"
    "\<not> ms_dropDirect sample_socket"
    by (simp_all add: sample_datagram_def stun_Is_def stun_headerLen_def sample_socket_def ms_Listen_def)
  show ?thesis
    using socket_delivers [OF enc _ s r _ _ _ p] by simp
qed

text \<open>The tag is drawn at random, so that a datagram with a room's tag can read as a STUN message: when
  the cipher's first bytes are the magic cookie and the nonce has its first two bits clear and
  a small third and fourth byte. Such a datagram is lost, whatever room it is for.\<close>

lemma tag_may_look_like_stun:
  assumes "\<forall>blk. length (enc key blk) = 16" "length nonce = 4" "12 \<le> length pkt"
    and "nonce ! 0 AND 0xC0 = 0" "nonce ! 2 = 0" "nonce ! 3 = 0"
    and "take 4 (enc key (nonce @ replicate 12 0)) = put32 magicCookie"
  shows "stun_Is (Tagger_Put enc key nonce @ pkt) \<and>
    ms_rooms (snd (ms_read enc (Tagger_Put enc key nonce @ pkt) a c)) = ms_rooms c"
proof -
  obtain n0 n1 n2 n3 where n: "nonce = [n0, n1, n2, n3]"
    using assms(2) by (auto simp: length_Suc_conv numeral_eq_Suc)
  have "Tagger_Put enc key nonce = nonce @ put32 magicCookie"
    using assms by (simp add: Tagger_Put_def Tagger_mac_def TagLen_def nonceLen_def n)
  moreover have "put32 magicCookie = [0x21, 0x12, 0xA4, 0x42]" by code_simp
  moreover have "be32 0x21 0x12 0xA4 0x42 = magicCookie" "unat (be16 0 0) = 0" by code_simp+
  ultimately have s: "stun_Is (Tagger_Put enc key nonce @ pkt)"
    using assms by (simp add: n stun_Is_def stun_headerLen_def)
  then show ?thesis
    by (auto simp: ms_read_def handleSTUN_def split: sum.splits option.splits)
qed

end
