(* ===== verification/Disco_Mgr.thy ===== *)
theory Disco_Mgr
  imports Magicsock Controller
begin

text \<open>
  \<^verbatim>\<open>internal/node/disco.go\<close>: how a node finds a path to each peer. Peers are objects that the maps
  by node identifier and by key share, so that they stand in a heap and the maps hold indices of
  it. Loops over a Go map run over an association list in some order. Cryptography and the random
  draws of a ping are parameters; times are nanoseconds.
\<close>

definition discoRecheck :: duration where "discoRecheck = 20 * second"
definition discoStale :: duration where "discoStale = 60 * second"
definition discoSearch :: duration where "discoSearch = 2 * second"
definition discoPingTTL :: duration where "discoPingTTL = 5 * second"
definition discoEagerDirect :: duration where "discoEagerDirect = minute"
definition maxCandidates :: nat where "maxCandidates = 12"
definition maxPendingPings :: nat where "maxPendingPings = 64"

record disco_path =
  pa_addr :: addrport
  pa_rtt :: duration
  pa_at :: time

definition no_path :: disco_path where
  "no_path = \<lparr>pa_addr = \<lparr>ap_addr = NoAddr, ap_port = 0\<rparr>, pa_rtt = 0, pa_at = 0\<rparr>"

definition path_valid :: "disco_path \<Rightarrow> bool" where
  "path_valid p = ap_valid (pa_addr p)"

record sent_ping =
  sp_to :: addrport
  sp_at :: time

text \<open>\<^verbatim>\<open>lastPing\<close> starts as the zero time: \<open>None\<close>.\<close>

record disco_peer =
  dp_nodeID :: string
  dp_key :: bytes
  dp_candidates :: "addrport list"
  dp_learned :: "addrport list"
  dp_hints :: "addrport list"
  dp_gossip :: "addrport list"
  dp_best :: disco_path
  dp_lastPing :: "time option"
  dp_since :: time
  dp_sent :: "(bytes \<times> sent_ping) list"

record disco_mgr =
  dm_heap :: "disco_peer list"
  dm_peers :: "(string \<times> nat) list"
  dm_byKey :: "(bytes \<times> nat) list"
  dm_byCtrl :: "(string \<times> string list) list"

definition newDiscoMgr :: disco_mgr where
  "newDiscoMgr = \<lparr>dm_heap = [], dm_peers = [], dm_byKey = [], dm_byCtrl = []\<rparr>"

record disco_env =
  de_nacl :: nacl
  de_enc :: "bytes \<Rightarrow> bytes \<Rightarrow> bytes"
  de_sha256 :: "bytes \<Rightarrow> bytes"
  de_unicode :: unicode
  de_priv :: bytes

definition de_pub :: "disco_env \<Rightarrow> bytes" where
  "de_pub E = box_pub (de_nacl E) (de_priv E)"

text \<open>The random draws of one sealed message: transaction, box nonce, ephemeral key, tag nonce.\<close>

record seal_draw =
  sd_tx :: bytes
  sd_nonce :: bytes
  sd_rnd :: bytes
  sd_tag :: bytes

definition mgr_seal :: "disco_env \<Rightarrow> seal_draw \<Rightarrow> disco_msg \<Rightarrow> bytes \<Rightarrow> bytes" where
  "mgr_seal E w m to = disco_Seal (de_nacl E) (de_enc E) (de_sha256 E) m (de_priv E) (de_pub E) to
     (sd_nonce w) (sd_rnd w) (sd_tag w)"

definition ping_msg :: "bytes \<Rightarrow> disco_msg" where
  "ping_msg tx = \<lparr>msg_Type = TypePing, msg_Tx = tx, msg_Src = None, msg_Data = []\<rparr>"

definition pong_msg :: "bytes \<Rightarrow> addrport \<Rightarrow> disco_msg" where
  "pong_msg tx from' = \<lparr>msg_Type = TypePong, msg_Tx = tx, msg_Src = Some from', msg_Data = []\<rparr>"

section \<open>What controllers and others tell\<close>

definition add_candidate :: "addrport \<Rightarrow> addrport list \<Rightarrow> addrport list" where
  "add_candidate a out =
     (if ap_valid a \<and> ap_port a \<noteq> 0 \<and> a \<notin> set out \<and> length out < maxCandidates then out @ [a] else out)"

definition candidates :: "api_peer \<Rightarrow> addrport list" where
  "candidates p = fold add_candidate
     (pe_Locals p @ (case pe_PortMap p of Some a \<Rightarrow> [a] | None \<Rightarrow> []) @ pe_Reflexive p @
      (if pe_PublicIP p \<noteq> NoAddr then [\<lparr>ap_addr = pe_PublicIP p, ap_port = pe_UDPPort p\<rparr>] else [])) []"

definition new_disco_peer :: "string \<Rightarrow> bytes \<Rightarrow> time \<Rightarrow> disco_peer" where
  "new_disco_peer i k now = \<lparr>dp_nodeID = i, dp_key = k, dp_candidates = [], dp_learned = [], dp_hints = [],
     dp_gossip = [], dp_best = no_path, dp_lastPing = None, dp_since = now, dp_sent = []\<rparr>"

definition heap_upd :: "nat \<Rightarrow> (disco_peer \<Rightarrow> disco_peer) \<Rightarrow> disco_mgr \<Rightarrow> disco_mgr" where
  "heap_upd i f d = d\<lparr>dm_heap := (dm_heap d)[i := f (dm_heap d ! i)]\<rparr>"

text \<open>The object a peer gets: the one it has, or a new one when it is new or has another key.\<close>

definition peer_object :: "time \<Rightarrow> string \<Rightarrow> bytes \<Rightarrow> disco_mgr \<Rightarrow> nat \<times> disco_mgr" where
  "peer_object now i key d =
     (let fresh = (\<lambda>bk. (length (dm_heap d), d\<lparr>dm_heap := dm_heap d @ [new_disco_peer i key now],
          dm_peers := AList.update i (length (dm_heap d)) (dm_peers d),
          dm_byKey := AList.update key (length (dm_heap d)) bk\<rparr>))
      in case map_of (dm_peers d) i of
           None \<Rightarrow> fresh (dm_byKey d)
         | Some j \<Rightarrow> if dp_key (dm_heap d ! j) = key then (j, d)
             else fresh (AList.delete (dp_key (dm_heap d ! j)) (dm_byKey d)))"

definition relay_candidate :: "unicode \<Rightarrow> string \<Rightarrow> string \<Rightarrow> api_peer \<Rightarrow> addrport list" where
  "relay_candidate u ourRelay i p =
     (if ourRelay \<noteq> [] \<and> pe_Relay p = ourRelay
      then case NodeIDBytes u i of Inr raw \<Rightarrow> [RelayEndpoint raw] | Inl _ \<Rightarrow> []
      else [])"

definition set_peer :: "unicode \<Rightarrow> string \<Rightarrow> time \<Rightarrow> string \<times> api_peer \<Rightarrow> disco_mgr \<Rightarrow> disco_mgr" where
  "set_peer u ourRelay now x d = (case x of (i, p) \<Rightarrow>
     (case peer_object now i (pe_DiscoKey p) d of (j, d') \<Rightarrow>
        heap_upd j (\<lambda>dp. dp\<lparr>dp_candidates := candidates p @ relay_candidate u ourRelay i p\<rparr>) d'))"

definition wanted_peers :: "(string \<times> api_peer) list \<Rightarrow> string list \<Rightarrow> (string \<times> api_peer) list" where
  "wanted_peers peers act = filter (\<lambda>(i, p). i \<in> set act \<and> pe_DiscoKey p \<noteq> replicate 32 0) peers"

definition forget_peers :: "disco_mgr \<Rightarrow> disco_mgr" where
  "forget_peers d =
     (let still = concat (map snd (dm_byCtrl d));
          gone = filter (\<lambda>(i, _). i \<notin> set still) (dm_peers d)
      in d\<lparr>dm_peers := filter (\<lambda>(i, _). i \<in> set still) (dm_peers d),
           dm_byKey := fold (\<lambda>(_, j). AList.delete (dp_key (dm_heap d ! j))) gone (dm_byKey d)\<rparr>)"

definition setPeers :: "unicode \<Rightarrow> string \<Rightarrow> time \<Rightarrow> string \<Rightarrow> (string \<times> api_peer) list \<Rightarrow> string list \<Rightarrow> disco_mgr \<Rightarrow> disco_mgr" where
  "setPeers u ourRelay now ctrl peers act d =
     (let w = wanted_peers peers act; d' = fold (set_peer u ourRelay now) w d
      in forget_peers (d'\<lparr>dm_byCtrl := AList.update ctrl (map fst w) (dm_byCtrl d')\<rparr>))"

definition hint_list :: "addrport list \<Rightarrow> addrport list \<Rightarrow> addrport list" where
  "hint_list cand addrs = take maxCandidates (filter (\<lambda>a. a \<notin> set cand) addrs)"

definition addHints :: "string list \<Rightarrow> addrport list \<Rightarrow> disco_mgr \<Rightarrow> disco_mgr" where
  "addHints ids addrs d = fold (\<lambda>i d. case map_of (dm_peers d) i of
       Some j \<Rightarrow> heap_upd j (\<lambda>dp. dp\<lparr>dp_hints := hint_list (dp_candidates dp) addrs\<rparr>) d
     | None \<Rightarrow> d) ids d"

definition addGossipHints :: "string \<Rightarrow> addrport list \<Rightarrow> disco_mgr \<Rightarrow> disco_mgr" where
  "addGossipHints i addrs d = (case map_of (dm_peers d) i of
       Some j \<Rightarrow> heap_upd j (\<lambda>dp. dp\<lparr>dp_gossip := hint_list (dp_candidates dp) addrs\<rparr>) d
     | None \<Rightarrow> d)"

text \<open>The path that is in use, or the fallback; the source gives the address as text.\<close>

definition mgr_endpoint :: "time \<Rightarrow> string \<Rightarrow> 'a \<Rightarrow> disco_mgr \<Rightarrow> 'a + addrport" where
  "mgr_endpoint now i fallback d = (case map_of (dm_peers d) i of
     Some j \<Rightarrow> let b = dp_best (dm_heap d ! j) in
       if path_valid b \<and> now - pa_at b < discoStale then Inr (pa_addr b) else Inl fallback
   | None \<Rightarrow> Inl fallback)"

definition mgr_stats :: "time \<Rightarrow> disco_mgr \<Rightarrow> nat \<times> nat" where
  "mgr_stats now d =
     (let live = filter (\<lambda>b. path_valid b \<and> now - pa_at b < discoStale) (map (\<lambda>(_, j). dp_best (dm_heap d ! j)) (dm_peers d))
      in (length (filter (\<lambda>b. \<not> IsRelay (pa_addr b)) live), length (filter (\<lambda>b. IsRelay (pa_addr b)) live)))"

section \<open>Pings\<close>

type_synonym outgoing = "bytes \<times> addrport"

text \<open>The loop over the targets; the draws are numbered from \<open>n\<close>.\<close>

fun pingsLocked :: "disco_env \<Rightarrow> (nat \<Rightarrow> seal_draw) \<Rightarrow> time \<Rightarrow> addrport list \<Rightarrow> nat \<Rightarrow> disco_peer \<Rightarrow> outgoing list \<times> nat \<times> disco_peer" where
  "pingsLocked E w now [] n dp = ([], n, dp)"
| "pingsLocked E w now (to # ts) n dp =
     (if maxPendingPings \<le> length (dp_sent dp) then ([], n, dp)
      else let pkt = mgr_seal E (w n) (ping_msg (sd_tx (w n))) (dp_key dp) in
        case pingsLocked E w now ts (Suc n)
            (dp\<lparr>dp_sent := AList.update (sd_tx (w n)) \<lparr>sp_to = to, sp_at = now\<rparr> (dp_sent dp)\<rparr>) of
          (out, n', dp') \<Rightarrow> ((pkt, to) # out, n', dp'))"

definition expire_pings :: "time \<Rightarrow> disco_peer \<Rightarrow> disco_peer" where
  "expire_pings now dp = dp\<lparr>dp_sent := filter (\<lambda>(_, s). now - sp_at s \<le> discoPingTTL) (dp_sent dp)\<rparr>"

definition path_lost :: "time \<Rightarrow> disco_peer \<Rightarrow> bool" where
  "path_lost now dp \<longleftrightarrow> path_valid (dp_best dp) \<and> discoStale \<le> now - pa_at (dp_best dp)"

definition ping_plan :: "time \<Rightarrow> disco_peer \<Rightarrow> duration \<times> addrport list" where
  "ping_plan now dp =
     (let b = dp_best dp; targets = dp_candidates dp @ dp_learned dp @ dp_hints dp @ dp_gossip dp in
      if path_valid b \<and> IsRelay (pa_addr b)
      then (if discoEagerDirect \<le> now - dp_since dp then discoRecheck else discoSearch, targets)
      else if path_valid b then (discoRecheck, [pa_addr b])
      else (discoSearch, targets))"

definition ping_due :: "time \<Rightarrow> disco_peer \<Rightarrow> bool" where
  "ping_due now dp = (case dp_lastPing dp of None \<Rightarrow> True | Some t \<Rightarrow> fst (ping_plan now dp) \<le> now - t)"

definition tick_peer :: "disco_env \<Rightarrow> (nat \<Rightarrow> seal_draw) \<Rightarrow> time \<Rightarrow> nat \<Rightarrow> disco_peer \<Rightarrow> outgoing list \<times> nat \<times> disco_peer" where
  "tick_peer E w now n dp0 =
     (let dp1 = expire_pings now dp0;
          dp = (if path_lost now dp1 then dp1\<lparr>dp_best := no_path\<rparr> else dp1)
      in if ping_due now dp then pingsLocked E w now (snd (ping_plan now dp)) n (dp\<lparr>dp_lastPing := Some now\<rparr>)
         else ([], n, dp))"

fun tick_loop :: "disco_env \<Rightarrow> (nat \<Rightarrow> seal_draw) \<Rightarrow> time \<Rightarrow> nat list \<Rightarrow> nat \<Rightarrow> disco_mgr \<Rightarrow> outgoing list \<times> disco_mgr" where
  "tick_loop E w now [] n d = ([], d)"
| "tick_loop E w now (j # js) n d =
     (case tick_peer E w now n (dm_heap d ! j) of (out, n', dp) \<Rightarrow>
        (case tick_loop E w now js n' (heap_upd j (\<lambda>_. dp) d) of (out', d') \<Rightarrow> (out @ out', d')))"

datatype disco_out = SendTo bytes addrport | HandleJoin bytes bytes addrport | HandleJoinReply bytes bytes | PathsChanged

definition sends :: "outgoing list \<Rightarrow> disco_out list" where
  "sends out = map (\<lambda>(p, to). SendTo p to) out"

definition tick :: "disco_env \<Rightarrow> (nat \<Rightarrow> seal_draw) \<Rightarrow> time \<Rightarrow> disco_mgr \<Rightarrow> disco_out list \<times> disco_mgr" where
  "tick E w now d =
     (let lost = list_ex (\<lambda>(_, j). path_lost now (dm_heap d ! j)) (dm_peers d)
      in case tick_loop E w now (map snd (dm_peers d)) 0 d of
           (out, d') \<Rightarrow> (sends out @ (if lost then [PathsChanged] else []), d'))"

section \<open>Packets\<close>

definition isLAN :: "prefix list \<Rightarrow> addrport \<Rightarrow> bool" where
  "isLAN lan a = list_ex (\<lambda>p. contains p (ap_addr a) \<and> \<not> is_loopback (ap_addr a)) lan"

definition better :: "prefix list \<Rightarrow> disco_path \<Rightarrow> disco_path \<Rightarrow> time \<Rightarrow> bool" where
  "better lan p cur now =
     (if \<not> path_valid cur \<or> discoStale \<le> now - pa_at cur then True
      else if pa_addr p = pa_addr cur then False
      else if IsRelay (pa_addr p) \<noteq> IsRelay (pa_addr cur) then IsRelay (pa_addr cur)
      else if isLAN lan (pa_addr p) \<noteq> isLAN lan (pa_addr cur) then isLAN lan (pa_addr p)
      else pa_rtt p * 10 < pa_rtt cur * 7)"

definition learn_from :: "addrport \<Rightarrow> disco_peer \<Rightarrow> disco_peer" where
  "learn_from from' dp =
     (if from' \<notin> set (dp_candidates dp) \<and> from' \<notin> set (dp_learned dp) \<and> length (dp_learned dp) < maxCandidates
      then dp\<lparr>dp_learned := dp_learned dp @ [from']\<rparr> else dp)"

definition handle_ping :: "disco_env \<Rightarrow> (nat \<Rightarrow> seal_draw) \<Rightarrow> time \<Rightarrow> bytes \<Rightarrow> addrport \<Rightarrow> disco_peer \<Rightarrow> outgoing list \<times> disco_peer" where
  "handle_ping E w now tx from' dp0 =
     (let pong = (mgr_seal E (w 0) (pong_msg tx from') (dp_key dp0), from'); dp = learn_from from' dp0
      in if path_valid (dp_best dp) then ([pong], dp)
         else case pingsLocked E w now [from'] 1 dp of (out, _, dp') \<Rightarrow> (pong # out, dp'))"

text \<open>A pong counts only for a ping that was sent to the address it came from.\<close>

definition handle_pong :: "prefix list \<Rightarrow> time \<Rightarrow> bytes \<Rightarrow> addrport \<Rightarrow> disco_peer \<Rightarrow> bool \<times> disco_peer" where
  "handle_pong lan now tx from' dp0 = (case map_of (dp_sent dp0) tx of
     None \<Rightarrow> (False, dp0)
   | Some s \<Rightarrow>
       if sp_to s \<noteq> from' then (False, dp0)
       else
         let dp = dp0\<lparr>dp_sent := AList.delete tx (dp_sent dp0)\<rparr>;
             path = \<lparr>pa_addr = from', pa_rtt = now - sp_at s, pa_at = now\<rparr>
         in if better lan path (dp_best dp) now
            then (pa_addr path \<noteq> pa_addr (dp_best dp), dp\<lparr>dp_best := path\<rparr>)
            else if pa_addr path = pa_addr (dp_best dp)
            then (False, dp\<lparr>dp_best := (dp_best dp)\<lparr>pa_at := now, pa_rtt := pa_rtt path\<rparr>\<rparr>)
            else (False, dp))"

definition disco_handle :: "disco_env \<Rightarrow> prefix list \<Rightarrow> (nat \<Rightarrow> seal_draw) \<Rightarrow> time \<Rightarrow> bytes \<Rightarrow> addrport \<Rightarrow> disco_mgr \<Rightarrow> disco_out list \<times> disco_mgr" where
  "disco_handle E lan w now pkt from' d = (case disco_Open (de_nacl E) pkt (de_priv E) (de_pub E) of
     Inl _ \<Rightarrow> ([], d)
   | Inr (sender, m) \<Rightarrow>
       if msg_Type m = TypeJoin then ([HandleJoin sender (msg_Data m) from'], d)
       else if msg_Type m = TypeJoinReply then ([HandleJoinReply sender (msg_Data m)], d)
       else case map_of (dm_byKey d) sender of
         None \<Rightarrow> ([], d)
       | Some j \<Rightarrow>
           if msg_Type m = TypePing
           then case handle_ping E w now (msg_Tx m) from' (dm_heap d ! j) of
             (out, dp) \<Rightarrow> (sends out, heap_upd j (\<lambda>_. dp) d)
           else if msg_Type m = TypePong
           then case handle_pong lan now (msg_Tx m) from' (dm_heap d ! j) of
             (changed, dp) \<Rightarrow> (if changed then [PathsChanged] else [], heap_upd j (\<lambda>_. dp) d)
           else ([], d))"

section \<open>The manager as a machine\<close>

datatype dm_event = MSetPeers string time string "(string \<times> api_peer) list" "string list"
  | MHints "string list" "addrport list" | MGossip string "addrport list"
  | MTick "nat \<Rightarrow> seal_draw" time | MPacket "prefix list" "nat \<Rightarrow> seal_draw" time bytes addrport

definition sent_of :: "disco_out list \<Rightarrow> outgoing list" where
  "sent_of os = concat (map (\<lambda>x. case x of SendTo p to \<Rightarrow> [(p, to)] | _ \<Rightarrow> []) os)"

text \<open>The state with everything sent so far.\<close>

fun dm_step :: "disco_env \<Rightarrow> dm_event \<Rightarrow> disco_mgr \<times> outgoing list \<Rightarrow> disco_mgr \<times> outgoing list" where
  "dm_step E (MSetPeers r now ctrl ps act) (d, L) = (setPeers (de_unicode E) r now ctrl ps act d, L)"
| "dm_step E (MHints ids as) (d, L) = (addHints ids as d, L)"
| "dm_step E (MGossip i as) (d, L) = (addGossipHints i as d, L)"
| "dm_step E (MTick w now) (d, L) = (case tick E w now d of (os, d') \<Rightarrow> (d', L @ sent_of os))"
| "dm_step E (MPacket lan w now pkt from') (d, L) =
     (case disco_handle E lan w now pkt from' d of (os, d') \<Rightarrow> (d', L @ sent_of os))"

definition pinged :: "disco_env \<Rightarrow> outgoing set \<Rightarrow> bytes \<Rightarrow> bytes \<Rightarrow> addrport \<Rightarrow> bool" where
  "pinged E L key tx to \<longleftrightarrow> (\<exists>w. (mgr_seal E w (ping_msg tx) key, to) \<in> L)"

definition ponged :: "disco_env \<Rightarrow> dm_event set \<Rightarrow> bytes \<Rightarrow> bytes \<Rightarrow> addrport \<Rightarrow> bool" where
  "ponged E V key tx from' \<longleftrightarrow> (\<exists>lan w now pkt m. MPacket lan w now pkt from' \<in> V \<and>
     disco_Open (de_nacl E) pkt (de_priv E) (de_pub E) = Inr (key, m) \<and> msg_Type m = TypePong \<and> msg_Tx m = tx)"

definition peer_bounds :: "disco_peer \<Rightarrow> bool" where
  "peer_bounds dp \<longleftrightarrow> length (dp_sent dp) \<le> maxPendingPings \<and> length (dp_learned dp) \<le> maxCandidates \<and>
     length (dp_candidates dp) \<le> Suc maxCandidates \<and> length (dp_hints dp) \<le> maxCandidates \<and> length (dp_gossip dp) \<le> maxCandidates"

definition peer_ok :: "disco_env \<Rightarrow> outgoing set \<Rightarrow> dm_event set \<Rightarrow> disco_peer \<Rightarrow> bool" where
  "peer_ok E L V dp \<longleftrightarrow> peer_bounds dp \<and>
     (\<forall>(tx, s) \<in> set (dp_sent dp). pinged E L (dp_key dp) tx (sp_to s)) \<and>
     (path_valid (dp_best dp) \<longrightarrow> (\<exists>tx. pinged E L (dp_key dp) tx (pa_addr (dp_best dp)) \<and>
        ponged E V (dp_key dp) tx (pa_addr (dp_best dp))))"

definition keys_ok :: "disco_mgr \<Rightarrow> bool" where
  "keys_ok d \<longleftrightarrow> (\<forall>(k, j) \<in> set (dm_byKey d). j < length (dm_heap d) \<and> dp_key (dm_heap d ! j) = k) \<and>
     (\<forall>(i, j) \<in> set (dm_peers d). j < length (dm_heap d) \<and> dp_nodeID (dm_heap d ! j) = i) \<and>
     distinct (map fst (dm_peers d)) \<and> distinct (map fst (dm_byKey d))"

definition dm_inv :: "disco_env \<Rightarrow> dm_event set \<Rightarrow> disco_mgr \<times> outgoing list \<Rightarrow> bool" where
  "dm_inv E V x \<longleftrightarrow> keys_ok (fst x) \<and> (\<forall>dp \<in> set (dm_heap (fst x)). peer_ok E (set (snd x)) V dp)"

lemma pinged_mono: "pinged E L k tx to \<Longrightarrow> L \<subseteq> L' \<Longrightarrow> pinged E L' k tx to"
  by (auto simp: pinged_def)

lemma peer_ok_mono:
  assumes "peer_ok E L V dp" "L \<subseteq> L'"
  shows "peer_ok E L' V dp"
proof -
  have "pinged E L k tx to \<Longrightarrow> pinged E L' k tx to" for k tx to by (rule pinged_mono [OF _ assms(2)])
  then show ?thesis using assms(1) unfolding peer_ok_def by blast
qed

lemma sent_of_sends [simp]: "sent_of (sends out) = out"
  by (induction out) (auto simp: sent_of_def sends_def)

lemma sent_of_simps [simp]: "sent_of [] = []" "sent_of (a @ b) = sent_of a @ sent_of b"
  "sent_of (SendTo p to # os) = (p, to) # sent_of os" "sent_of (PathsChanged # os) = sent_of os"
  "sent_of (HandleJoin k m f # os) = sent_of os" "sent_of (HandleJoinReply k m # os) = sent_of os"
  by (simp_all add: sent_of_def)

lemma nth_update: "xs[j := v] ! i = (if i = j \<and> j < length xs then v else xs ! i)"
  by (metis nth_list_update_eq nth_list_update_neq list_update_beyond not_less)

text \<open>An update of one object keeps the maps when it keeps name and key.\<close>

lemma heap_upd_keys_ok:
  assumes "keys_ok d" "dp_key (f (dm_heap d ! j)) = dp_key (dm_heap d ! j)" "dp_nodeID (f (dm_heap d ! j)) = dp_nodeID (dm_heap d ! j)"
  shows "keys_ok (heap_upd j f d)"
proof -
  have "dp_key ((dm_heap d)[j := f (dm_heap d ! j)] ! i) = dp_key (dm_heap d ! i)"
    "dp_nodeID ((dm_heap d)[j := f (dm_heap d ! j)] ! i) = dp_nodeID (dm_heap d ! i)" for i
    using assms(2,3) by (simp_all add: nth_update)
  then show ?thesis using assms(1) by (simp add: keys_ok_def heap_upd_def)
qed

lemma heap_upd_peers:
  assumes "\<forall>dp \<in> set (dm_heap d). P dp" "j < length (dm_heap d) \<Longrightarrow> P (f (dm_heap d ! j))"
  shows "\<forall>dp \<in> set (dm_heap (heap_upd j f d)). P dp"
proof (cases "j < length (dm_heap d)")
  case True
  then show ?thesis using assms set_update_subset_insert by (fastforce simp: heap_upd_def)
next
  case False
  then show ?thesis using assms(1) by (simp add: heap_upd_def list_update_beyond)
qed

text \<open>What holds of every object and of the maps is kept by an update of one object that keeps
  its name, its key and the property.\<close>

lemma heap_upd_inv:
  assumes "keys_ok d" "\<forall>dp \<in> set (dm_heap d). peer_ok E L V dp"
    and "\<And>dp. peer_ok E L V dp \<Longrightarrow> peer_ok E L V (f dp) \<and> dp_key (f dp) = dp_key dp \<and> dp_nodeID (f dp) = dp_nodeID dp"
    and "j < length (dm_heap d)"
  shows "keys_ok (heap_upd j f d) \<and> (\<forall>dp \<in> set (dm_heap (heap_upd j f d)). peer_ok E L V dp)"
proof -
  have "peer_ok E L V (dm_heap d ! j)" using assms(2,4) by simp
  then show ?thesis using assms(3) by (intro conjI heap_upd_keys_ok [OF assms(1)] heap_upd_peers [OF assms(2)]) auto
qed

lemma keys_okD:
  assumes "keys_ok d"
  shows "map_of (dm_peers d) i = Some j \<Longrightarrow> j < length (dm_heap d) \<and> dp_nodeID (dm_heap d ! j) = i"
    and "map_of (dm_byKey d) k = Some j' \<Longrightarrow> j' < length (dm_heap d) \<and> dp_key (dm_heap d ! j') = k"
  using assms by (auto simp: keys_ok_def dest!: map_of_SomeD)

section \<open>Each operation keeps the invariant\<close>

lemma length_candidates: "length (candidates p) \<le> maxCandidates"
proof -
  have "length out \<le> maxCandidates \<Longrightarrow> length (fold add_candidate xs out) \<le> maxCandidates" for xs out
    by (induction xs arbitrary: out) (simp_all add: add_candidate_def)
  then show ?thesis by (simp add: candidates_def)
qed

lemma length_relay_candidate: "length (relay_candidate u r i p) \<le> 1"
  by (simp add: relay_candidate_def split: sum.splits)

lemma new_peer_ok: "peer_ok E L V (new_disco_peer i k now)"
  by (simp add: peer_ok_def peer_bounds_def new_disco_peer_def path_valid_def no_path_def ap_valid_def)

definition mgr_ok :: "disco_env \<Rightarrow> outgoing set \<Rightarrow> dm_event set \<Rightarrow> disco_mgr \<Rightarrow> bool" where
  "mgr_ok E L V d \<longleftrightarrow> keys_ok d \<and> (\<forall>dp \<in> set (dm_heap d). peer_ok E L V dp)"

lemma mgr_ok_mono: "mgr_ok E L V d \<Longrightarrow> L \<subseteq> L' \<Longrightarrow> mgr_ok E L' V d"
  by (auto simp: mgr_ok_def intro: peer_ok_mono)

lemma in_update: "(a, b) \<in> set (AList.update k v xs) \<Longrightarrow> (a, b) = (k, v) \<or> (a, b) \<in> set xs"
  by (induction xs) (auto split: if_splits)

lemma in_delete: "x \<in> set (AList.delete k xs) \<Longrightarrow> x \<in> set xs"
  by (simp add: AList.delete_eq)

lemma map_ok_update:
  assumes "\<forall>(k, j) \<in> set xs. j < length h \<and> g (h ! j) = k" "g v = key"
  shows "\<forall>(k, j) \<in> set (AList.update key (length h) xs). j < length (h @ [v]) \<and> g ((h @ [v]) ! j) = k"
proof (intro ballI, clarify)
  fix k j assume "(k, j) \<in> set (AList.update key (length h) xs)"
  then consider "k = key" "j = length h" | "(k, j) \<in> set xs" using in_update by fastforce
  then show "j < length (h @ [v]) \<and> g ((h @ [v]) ! j) = k"
    using assms by cases (auto simp: nth_append)
qed

lemma fresh_peer_ok:
  assumes "mgr_ok E L V d" "set bk \<subseteq> set (dm_byKey d)" "distinct (map fst bk)"
  shows "mgr_ok E L V (d\<lparr>dm_heap := dm_heap d @ [new_disco_peer i key now],
     dm_peers := AList.update i (length (dm_heap d)) (dm_peers d),
     dm_byKey := AList.update key (length (dm_heap d)) bk\<rparr>)"
proof -
  have m: "\<forall>(k, j) \<in> set bk. j < length (dm_heap d) \<and> dp_key (dm_heap d ! j) = k"
    "\<forall>(i, j) \<in> set (dm_peers d). j < length (dm_heap d) \<and> dp_nodeID (dm_heap d ! j) = i"
    using assms by (auto simp: mgr_ok_def keys_ok_def)
  have "dp_key (new_disco_peer i key now) = key" "dp_nodeID (new_disco_peer i key now) = i"
    by (simp_all add: new_disco_peer_def)
  note map_ok_update [OF m(1) this(1)] map_ok_update [OF m(2) this(2)]
  then show ?thesis
    using assms by (simp add: mgr_ok_def keys_ok_def new_peer_ok distinct_update)
qed

lemma peer_object_cases:
  assumes "mgr_ok E L V d" "peer_object now i key d = (j, d')"
  obtains (old) "d' = d" "map_of (dm_peers d) i = Some j" "dp_key (dm_heap d ! j) = key"
  | (new) bk where "j = length (dm_heap d)" "set bk \<subseteq> set (dm_byKey d)" "distinct (map fst bk)"
      "d' = d\<lparr>dm_heap := dm_heap d @ [new_disco_peer i key now],
         dm_peers := AList.update i (length (dm_heap d)) (dm_peers d),
         dm_byKey := AList.update key (length (dm_heap d)) bk\<rparr>"
proof (cases "map_of (dm_peers d) i")
  case None
  then show thesis
    using assms by (intro new [of "dm_byKey d"]) (auto simp: peer_object_def Let_def mgr_ok_def keys_ok_def)
next
  case (Some j0)
  show thesis
  proof (cases "dp_key (dm_heap d ! j0) = key")
    case True
    then show thesis using Some assms(2) by (intro old) (auto simp: peer_object_def Let_def)
  next
    case False
    then show thesis
      using Some assms by (intro new [of "AList.delete (dp_key (dm_heap d ! j0)) (dm_byKey d)"])
        (auto simp: peer_object_def Let_def mgr_ok_def keys_ok_def distinct_delete dest: in_delete)
  qed
qed

lemma peer_object_ok:
  assumes "mgr_ok E L V d" "peer_object now i key d = (j, d')"
  shows "mgr_ok E L V d' \<and> j < length (dm_heap d') \<and> dp_key (dm_heap d' ! j) = key \<and> map_of (dm_peers d') i = Some j"
  using assms
proof (cases rule: peer_object_cases)
  case old
  then show ?thesis using assms(1) keys_okD(1) by (simp add: mgr_ok_def)
next
  case (new bk)
  then show ?thesis
    using fresh_peer_ok [OF assms(1) new(2,3)] by (simp add: new_disco_peer_def update_conv')
qed

lemma heap_upd_ok:
  assumes "mgr_ok E L V d" "j < length (dm_heap d)"
    and "\<And>dp. peer_ok E L V dp \<Longrightarrow> peer_ok E L V (f dp) \<and> dp_key (f dp) = dp_key dp \<and> dp_nodeID (f dp) = dp_nodeID dp"
  shows "mgr_ok E L V (heap_upd j f d)"
  using assms heap_upd_inv [of d E L V f j] by (simp add: mgr_ok_def)

lemma set_peer_ok: "mgr_ok E L V d \<Longrightarrow> mgr_ok E L V (set_peer u r now x d)"
proof -
  assume d: "mgr_ok E L V d"
  obtain i p where x: "x = (i, p)" by (cases x)
  obtain j d' where o: "peer_object now i (pe_DiscoKey p) d = (j, d')" by (cases "peer_object now i (pe_DiscoKey p) d")
  have "length (candidates p @ relay_candidate u r i p) \<le> Suc maxCandidates"
    using length_candidates [of p] length_relay_candidate [of u r i p] by simp
  then show ?thesis
    using peer_object_ok [OF d o] unfolding set_peer_def x o prod.case
    by (intro heap_upd_ok) (auto simp: peer_ok_def peer_bounds_def)
qed

lemma fold_delete: "fold (\<lambda>x. AList.delete (g x)) xs bk = filter (\<lambda>y. fst y \<notin> g ` set xs) bk"
  by (induction xs arbitrary: bk) (simp_all add: AList.delete_eq case_prod_unfold, metis)

lemma forget_peers_eq:
  "forget_peers d = (let still = set (concat (map snd (dm_byCtrl d))) in
     d\<lparr>dm_peers := filter (\<lambda>x. fst x \<in> still) (dm_peers d),
       dm_byKey := filter (\<lambda>y. fst y \<notin> (\<lambda>x. dp_key (dm_heap d ! snd x)) ` {x \<in> set (dm_peers d). fst x \<notin> still}) (dm_byKey d)\<rparr>)"
  by (simp add: forget_peers_def case_prod_unfold fold_delete Let_def)

lemma forget_peers_ok: "mgr_ok E L V d \<Longrightarrow> mgr_ok E L V (forget_peers d)"
  by (auto simp: mgr_ok_def keys_ok_def forget_peers_eq Let_def distinct_map_filter)

lemma setPeers_ok:
  assumes "mgr_ok E L V d"
  shows "mgr_ok E L V (setPeers u r now ctrl ps act d)"
proof -
  have "mgr_ok E L V (fold (set_peer u r now) xs d)" for xs
    using assms by (induction xs arbitrary: d) (simp_all add: set_peer_ok)
  then have "mgr_ok E L V ((fold (set_peer u r now) xs d)\<lparr>dm_byCtrl := c\<rparr>)" for xs c
    by (simp add: mgr_ok_def keys_ok_def)
  then show ?thesis unfolding setPeers_def Let_def by (rule forget_peers_ok)
qed

lemma length_hint_list: "length (hint_list c as) \<le> maxCandidates"
  by (simp add: hint_list_def)

lemma peers_upd_ok:
  assumes "mgr_ok E L V d" "map_of (dm_peers d) i = Some j"
    and "\<And>dp. peer_ok E L V dp \<Longrightarrow> peer_ok E L V (f dp) \<and> dp_key (f dp) = dp_key dp \<and> dp_nodeID (f dp) = dp_nodeID dp"
  shows "mgr_ok E L V (heap_upd j f d)"
proof -
  have "keys_ok d" using assms(1) by (simp add: mgr_ok_def)
  then show ?thesis using keys_okD(1) [OF _ assms(2)] by (intro heap_upd_ok [OF assms(1) _ assms(3)]) simp_all
qed

lemma addHints_ok: "mgr_ok E L V d \<Longrightarrow> mgr_ok E L V (addHints ids as d)"
proof (induction ids arbitrary: d)
  case (Cons i ids)
  have "mgr_ok E L V (case map_of (dm_peers d) i of
       Some j \<Rightarrow> heap_upd j (\<lambda>dp. dp\<lparr>dp_hints := hint_list (dp_candidates dp) as\<rparr>) d | None \<Rightarrow> d)"
    using Cons.prems length_hint_list
    by (cases "map_of (dm_peers d) i") (auto intro!: peers_upd_ok simp: peer_ok_def peer_bounds_def)
  then show ?case using Cons.IH by (simp add: addHints_def)
qed (simp add: addHints_def)

lemma addGossipHints_ok: "mgr_ok E L V d \<Longrightarrow> mgr_ok E L V (addGossipHints i as d)"
  using length_hint_list
  by (cases "map_of (dm_peers d) i") (auto intro!: peers_upd_ok simp: addGossipHints_def peer_ok_def peer_bounds_def)

lemma length_AList_update_le: "length (AList.update k v xs) \<le> Suc (length xs)"
  by (induction xs) auto

text \<open>The pings that go out are the ones that are pending.\<close>

lemma pings_ok:
  assumes "pingsLocked E w now ts n dp = (out, n', dp')" "peer_ok E L V dp" "set out \<subseteq> L"
  shows "peer_ok E L V dp' \<and> dp_key dp' = dp_key dp \<and> dp_nodeID dp' = dp_nodeID dp"
  using assms
proof (induction E w now ts n dp arbitrary: out n' dp' rule: pingsLocked.induct)
  case (2 E w now to ts n dp)
  show ?case
  proof (cases "maxPendingPings \<le> length (dp_sent dp)")
    case False
    define dp1 where "dp1 = dp\<lparr>dp_sent := AList.update (sd_tx (w n)) \<lparr>sp_to = to, sp_at = now\<rparr> (dp_sent dp)\<rparr>"
    obtain out1 where o: "out = (mgr_seal E (w n) (ping_msg (sd_tx (w n))) (dp_key dp), to) # out1"
      "pingsLocked E w now ts (Suc n) dp1 = (out1, n', dp')"
      using 2(2) False by (auto simp: Let_def dp1_def split: prod.splits)
    have "pinged E L (dp_key dp) (sd_tx (w n)) to" using 2(4) o(1) by (auto simp: pinged_def)
    moreover have "length (dp_sent dp1) \<le> maxPendingPings"
      using False length_AList_update_le [of "sd_tx (w n)" "\<lparr>sp_to = to, sp_at = now\<rparr>" "dp_sent dp"] by (simp add: dp1_def)
    ultimately have "peer_ok E L V dp1"
      using 2(3) by (auto simp: peer_ok_def peer_bounds_def dp1_def dest!: in_update)
    then have "peer_ok E L V dp' \<and> dp_key dp' = dp_key dp1 \<and> dp_nodeID dp' = dp_nodeID dp1"
      using 2(1) [OF False refl, folded dp1_def, OF o(2)] 2(4) o(1) by simp
    then show ?thesis by (simp add: dp1_def)
  qed (use 2 in simp)
qed simp

lemma peer_ok_weaken:
  assumes "peer_ok E L V dp" "set (dp_sent dp') \<subseteq> set (dp_sent dp)" "length (dp_sent dp') \<le> length (dp_sent dp)"
    "dp_key dp' = dp_key dp" "dp_candidates dp' = dp_candidates dp" "dp_learned dp' = dp_learned dp" "dp_hints dp' = dp_hints dp"
    "dp_gossip dp' = dp_gossip dp" "dp_best dp' = dp_best dp \<or> \<not> path_valid (dp_best dp')"
  shows "peer_ok E L V dp'"
  using assms by (auto simp: peer_ok_def peer_bounds_def)

lemma tick_peer_ok:
  assumes "tick_peer E w now n dp = (out, n', dp')" "peer_ok E L V dp" "set out \<subseteq> L"
  shows "peer_ok E L V dp' \<and> dp_key dp' = dp_key dp \<and> dp_nodeID dp' = dp_nodeID dp"
proof -
  define dp1 where "dp1 = expire_pings now dp"
  define dp2 where "dp2 = (if path_lost now dp1 then dp1\<lparr>dp_best := no_path\<rparr> else dp1)"
  have "peer_ok E L V dp2"
    by (rule peer_ok_weaken [OF assms(2)])
      (auto simp: dp2_def dp1_def expire_pings_def no_path_def path_valid_def ap_valid_def)
  then have "peer_ok E L V (dp2\<lparr>dp_lastPing := Some now\<rparr>)" by (rule peer_ok_weaken) simp_all
  moreover have "dp_key dp2 = dp_key dp" "dp_nodeID dp2 = dp_nodeID dp"
    by (simp_all add: dp2_def dp1_def expire_pings_def)
  ultimately show ?thesis
    using assms(1,3) \<open>peer_ok E L V dp2\<close> pings_ok [of E w now _ n "dp2\<lparr>dp_lastPing := Some now\<rparr>" out n' dp' L V]
    by (auto simp: tick_peer_def Let_def simp flip: dp1_def dp2_def split: if_splits)
qed

lemma heap_const_ok:
  assumes "mgr_ok E L V d" "peer_ok E L V dp" "dp_key dp = dp_key (dm_heap d ! j)" "dp_nodeID dp = dp_nodeID (dm_heap d ! j)"
  shows "mgr_ok E L V (heap_upd j (\<lambda>_. dp) d)"
  using assms unfolding mgr_ok_def by (intro conjI heap_upd_keys_ok heap_upd_peers) simp_all

lemma tick_loop_ok:
  assumes "tick_loop E w now js n d = (out, d')" "mgr_ok E L V d" "set out \<subseteq> L" "\<forall>j \<in> set js. j < length (dm_heap d)"
  shows "mgr_ok E L V d'"
  using assms
proof (induction E w now js n d arbitrary: out d' rule: tick_loop.induct)
  case (2 E w now j js n d)
  obtain o1 n1 dp where t: "tick_peer E w now n (dm_heap d ! j) = (o1, n1, dp)" by (metis prod_cases3)
  obtain o2 where l: "tick_loop E w now js n1 (heap_upd j (\<lambda>_. dp) d) = (o2, d')" and o: "out = o1 @ o2"
    using 2(2) t by (auto split: prod.splits)
  have "peer_ok E L V (dm_heap d ! j)" using 2(3,5) by (simp add: mgr_ok_def)
  then have "peer_ok E L V dp \<and> dp_key dp = dp_key (dm_heap d ! j) \<and> dp_nodeID dp = dp_nodeID (dm_heap d ! j)"
    using tick_peer_ok [OF t] 2(4) o by simp
  then have "mgr_ok E L V (heap_upd j (\<lambda>_. dp) d)"
    using 2(3) by (intro heap_const_ok) simp_all
  then show ?case using 2(1) [OF t [symmetric] refl l] 2(4,5) o by (simp add: heap_upd_def)
qed simp

lemma tick_ok:
  assumes "tick E w now d = (os, d')" "mgr_ok E L V d"
  shows "mgr_ok E (L \<union> set (sent_of os)) V d'"
proof -
  obtain out where t: "tick_loop E w now (map snd (dm_peers d)) 0 d = (out, d')" and s: "sent_of os = out"
    using assms(1) by (auto simp: tick_def Let_def split: prod.splits)
  have "mgr_ok E (L \<union> set out) V d" using assms(2) by (rule mgr_ok_mono) simp
  moreover have "\<forall>j \<in> set (map snd (dm_peers d)). j < length (dm_heap d)"
    using assms(2) by (auto simp: mgr_ok_def keys_ok_def)
  ultimately show ?thesis using tick_loop_ok [OF t] s by simp
qed

lemma handle_ping_ok:
  assumes "handle_ping E w now tx from' dp = (out, dp')" "peer_ok E L V dp" "set out \<subseteq> L"
  shows "peer_ok E L V dp' \<and> dp_key dp' = dp_key dp \<and> dp_nodeID dp' = dp_nodeID dp"
proof -
  have l: "peer_ok E L V (learn_from from' dp)" "dp_key (learn_from from' dp) = dp_key dp"
    "dp_nodeID (learn_from from' dp) = dp_nodeID dp"
    using assms(2) by (auto simp: learn_from_def peer_ok_def peer_bounds_def)
  show ?thesis
  proof (cases "path_valid (dp_best (learn_from from' dp))")
    case False
    obtain o1 n1 where "pingsLocked E w now [from'] 1 (learn_from from' dp) = (o1, n1, dp')" "set o1 \<subseteq> L"
      using assms(1,3) False
      by (cases "pingsLocked E w now [from'] 1 (learn_from from' dp)") (auto simp: handle_ping_def Let_def simp del: pingsLocked.simps)
    from pings_ok [OF this(1) l(1) this(2)] show ?thesis using l by simp
  qed (use assms(1) l in \<open>simp add: handle_ping_def Let_def\<close>)
qed

lemma handle_pong_ok:
  assumes "handle_pong lan now tx from' dp = (ch, dp')" "peer_ok E L V dp" "ponged E V (dp_key dp) tx from'"
  shows "peer_ok E L V dp' \<and> dp_key dp' = dp_key dp \<and> dp_nodeID dp' = dp_nodeID dp"
proof (cases "map_of (dp_sent dp) tx")
  case (Some s)
  have p: "pinged E L (dp_key dp) tx (sp_to s)" using assms(2) map_of_SomeD [OF Some] by (auto simp: peer_ok_def)
  define dp1 where "dp1 = dp\<lparr>dp_sent := AList.delete tx (dp_sent dp)\<rparr>"
  have "peer_ok E L V dp1"
    by (rule peer_ok_weaken [OF assms(2)]) (auto simp: dp1_def dest: in_delete intro: length_delete_le)
  moreover have "peer_ok E L V (dp1\<lparr>dp_best := b\<rparr>)" if "pa_addr b = from'" "sp_to s = from'" for b
    using calculation p assms(3) that by (auto simp: peer_ok_def peer_bounds_def dp1_def)
  ultimately show ?thesis
    using assms(1,2) Some by (auto simp: handle_pong_def Let_def simp flip: dp1_def split: if_splits) (auto simp: dp1_def)
qed (use assms in \<open>simp add: handle_pong_def\<close>)

lemma disco_handle_ok:
  assumes h: "disco_handle E lan w now pkt from' d = (os, d')" and ok: "mgr_ok E L V d"
    and V: "MPacket lan w now pkt from' \<in> V"
  shows "mgr_ok E (L \<union> set (sent_of os)) V d'"
proof (cases "disco_Open (de_nacl E) pkt (de_priv E) (de_pub E)")
  case (Inr x)
  obtain sender m where x: "x = (sender, m)" by (cases x)
  let ?L = "L \<union> set (sent_of os)"
  have okL: "mgr_ok E ?L V d" using ok by (rule mgr_ok_mono) simp
  show ?thesis
  proof (cases "map_of (dm_byKey d) sender")
    case (Some j)
    have j: "j < length (dm_heap d)" "dp_key (dm_heap d ! j) = sender"
      using keys_okD(2) [OF _ Some] ok by (simp_all add: mgr_ok_def)
    then have p: "peer_ok E ?L V (dm_heap d ! j)" using okL by (simp add: mgr_ok_def)
    consider "msg_Type m = TypeJoin \<or> msg_Type m = TypeJoinReply \<or> msg_Type m \<noteq> TypePing \<and> msg_Type m \<noteq> TypePong"
      | (ping) "msg_Type m = TypePing" | (pong) "msg_Type m = TypePong" by blast
    then show ?thesis
    proof cases
      case 1
      then have "d' = d" using h by (simp add: disco_handle_def Inr x Some split: if_splits)
      then show ?thesis using okL by simp
    next
      case ping
      obtain out dp where p': "handle_ping E w now (msg_Tx m) from' (dm_heap d ! j) = (out, dp)" by fastforce
      have "os = sends out" "d' = heap_upd j (\<lambda>_. dp) d"
        using h p' by (simp_all add: disco_handle_def Inr x Some ping disco_type_neq)
      then show ?thesis using handle_ping_ok [OF p' p] heap_const_ok [OF okL] by simp
    next
      case pong
      obtain ch dp where p': "handle_pong lan now (msg_Tx m) from' (dm_heap d ! j) = (ch, dp)" by fastforce
      have "d' = heap_upd j (\<lambda>_. dp) d"
        using h p' by (simp add: disco_handle_def Inr x Some pong disco_consts)
      moreover have "ponged E V (dp_key (dm_heap d ! j)) (msg_Tx m) from'"
        using V Inr x j(2) pong unfolding ponged_def by blast
      ultimately show ?thesis using handle_pong_ok [OF p' p] heap_const_ok [OF okL] by simp
    qed
  qed (use h okL in \<open>auto simp: disco_handle_def Inr x split: if_splits\<close>)
qed (use h ok in \<open>auto simp: disco_handle_def\<close>)

lemma dm_step_inv: "dm_inv E V x \<Longrightarrow> e \<in> V \<Longrightarrow> dm_inv E V (dm_step E e x)"
proof -
  assume "dm_inv E V x" "e \<in> V"
  moreover obtain d L where x: "x = (d, L)" by (cases x)
  moreover have "dm_inv E V (d, L) \<longleftrightarrow> mgr_ok E (set L) V d" for d L by (simp add: dm_inv_def mgr_ok_def)
  ultimately show ?thesis
    using tick_ok [of E _ _ d _ _ "set L" V] disco_handle_ok [of E _ _ _ _ _ d _ _ "set L" V]
    by (cases e) (auto simp: setPeers_ok addHints_ok addGossipHints_ok split: prod.splits)
qed

interpretation dm: machine "dm_step E" "\<lambda>e. e \<in> V" "dm_inv E V" for E V
  by unfold_locales (rule dm_step_inv)

lemma newDiscoMgr_inv: "dm_inv E V (newDiscoMgr, [])"
  by (simp add: dm_inv_def keys_ok_def newDiscoMgr_def)

section \<open>Properties\<close>

text \<open>C26: Whatever controllers, gossip, the DHT and the network feed the manager, a path to a peer is used only when a pong
  arrived from that very address, authenticated with the key of the peer and carrying the
  transaction of a ping this node had sent to that address for that key; and what it keeps per
  peer stays bounded: 64 pending pings, 12 learned addresses, 12 hints, 12 from gossip, 13 candidates.\<close>

theorem path_authentic:
  assumes "run (dm_step E) es (newDiscoMgr, []) = (d, L)"
  shows "\<forall>dp \<in> set (dm_heap d).
    length (dp_sent dp) \<le> 64 \<and> length (dp_learned dp) \<le> 12 \<and> length (dp_hints dp) \<le> 12 \<and>
    length (dp_gossip dp) \<le> 12 \<and> length (dp_candidates dp) \<le> 13 \<and>
    (path_valid (dp_best dp) \<longrightarrow> (\<exists>tx v lan w now pkt m.
       (mgr_seal E v (ping_msg tx) (dp_key dp), pa_addr (dp_best dp)) \<in> set L \<and>
       MPacket lan w now pkt (pa_addr (dp_best dp)) \<in> set es \<and>
       disco_Open (de_nacl E) pkt (de_priv E) (de_pub E) = Inr (dp_key dp, m) \<and>
       msg_Type m = TypePong \<and> msg_Tx m = tx))"
proof
  fix dp assume "dp \<in> set (dm_heap d)"
  moreover have "dm_inv E (set es) (d, L)"
    unfolding assms [symmetric] by (intro dm.run_inv newDiscoMgr_inv) simp
  ultimately have "peer_ok E (set L) (set es) dp" by (simp add: dm_inv_def)
  then show "length (dp_sent dp) \<le> 64 \<and> length (dp_learned dp) \<le> 12 \<and> length (dp_hints dp) \<le> 12 \<and>
    length (dp_gossip dp) \<le> 12 \<and> length (dp_candidates dp) \<le> 13 \<and>
    (path_valid (dp_best dp) \<longrightarrow> (\<exists>tx v lan w now pkt m.
       (mgr_seal E v (ping_msg tx) (dp_key dp), pa_addr (dp_best dp)) \<in> set L \<and>
       MPacket lan w now pkt (pa_addr (dp_best dp)) \<in> set es \<and>
       disco_Open (de_nacl E) pkt (de_priv E) (de_pub E) = Inr (dp_key dp, m) \<and>
       msg_Type m = TypePong \<and> msg_Tx m = tx))"
    by (simp add: peer_ok_def peer_bounds_def maxPendingPings_def maxCandidates_def pinged_def ponged_def)
qed

text \<open>A path switch is decided once: no two paths are better than each other, and the relay never takes over from
  a direct path that is still fresh.\<close>

lemma better_asym:
  assumes "path_valid p" "path_valid q" "now - pa_at p < discoStale" "now - pa_at q < discoStale"
    and "0 \<le> pa_rtt p" "0 \<le> pa_rtt q"
  shows "\<not> (better lan p q now \<and> better lan q p now)"
  using assms by (auto simp: better_def split: if_splits)

lemma better_direct:
  "better lan p q now \<Longrightarrow> path_valid q \<Longrightarrow> now - pa_at q < discoStale \<Longrightarrow> \<not> IsRelay (pa_addr q) \<Longrightarrow> \<not> IsRelay (pa_addr p)"
  by (auto simp: better_def split: if_splits)

text \<open>A relayed path never replaces a direct one that is fresh: when a pong comes in for a peer whose
  path is direct and was confirmed within the last minute, the path stays direct; and two
  fresh paths are never each better than the other, so that pongs that keep coming in do not make the
  choice flap.\<close>

theorem direct_path_kept:
  assumes "path_valid (dp_best dp)" "now - pa_at (dp_best dp) < discoStale" "\<not> IsRelay (pa_addr (dp_best dp))"
  shows "\<not> IsRelay (pa_addr (dp_best (snd (handle_pong lan now tx from' dp)))) \<and>
    (\<forall>p q. path_valid p \<and> path_valid q \<and> now - pa_at p < discoStale \<and> now - pa_at q < discoStale \<and>
       0 \<le> pa_rtt p \<and> 0 \<le> pa_rtt q \<longrightarrow> \<not> (better lan p q now \<and> better lan q p now))"
proof -
  have "\<not> IsRelay (pa_addr (dp_best (snd (handle_pong lan now tx from' dp))))"
    using assms better_direct [of lan "\<lparr>pa_addr = from', pa_rtt = r, pa_at = now\<rparr>" "dp_best dp" now for r]
    by (auto simp: handle_pong_def Let_def split: option.splits)
  then show ?thesis using better_asym by blast
qed

definition sample_path :: disco_path where
  "sample_path = \<lparr>pa_addr = sample_from, pa_rtt = 1000000, pa_at = 0\<rparr>"

definition sample_peer :: disco_peer where
  "sample_peer = (new_disco_peer ''n'' (replicate 32 6) 0)\<lparr>dp_best := sample_path,
     dp_sent := [([1], \<lparr>sp_to = RelayEndpoint (replicate 10 0), sp_at = 0\<rparr>)]\<rparr>"

theorem direct_path_kept_witness:
  "\<not> IsRelay (pa_addr (dp_best (snd (handle_pong [] 5 [1] (RelayEndpoint (replicate 10 0)) sample_peer))))"
proof -
  have "path_valid (dp_best sample_peer)" "5 - pa_at (dp_best sample_peer) < discoStale"
    by (simp_all add: sample_peer_def sample_path_def path_valid_def ap_valid_def sample_from_def discoStale_def second_def)
  moreover have "\<not> IsRelay (pa_addr (dp_best sample_peer))" by code_simp
  ultimately show ?thesis using direct_path_kept [of sample_peer 5 "[]" "[1]" "RelayEndpoint (replicate 10 0)"] by blast
qed

section \<open>Two nodes find each other\<close>

lemma open_seal:
  assumes "nacl_ok (de_nacl E)" "\<forall>k blk. length (de_enc E k blk) = 16" "msg_ok m" "length (sd_nonce v) = 24" "length (sd_tag v) = 4"
  shows "disco_Open (de_nacl E) (mgr_seal E v m (box_pub (de_nacl E) b)) b (box_pub (de_nacl E) b) = Inr (de_pub E, msg_kept m)"
proof -
  have "disco_sealed_ok (de_nacl E) m (sd_nonce v) (sd_tag v)"
    using assms by (simp add: disco_sealed_ok_def nonceLen_def)
  from disco_open_seal [OF this assms(2) refl] show ?thesis by (simp add: mgr_seal_def de_pub_def)
qed

definition same_world :: "disco_env \<Rightarrow> disco_env \<Rightarrow> bool" where
  "same_world A B \<longleftrightarrow> de_nacl B = de_nacl A \<and> de_enc B = de_enc A \<and> de_sha256 B = de_sha256 A \<and>
     nacl_ok (de_nacl A) \<and> (\<forall>k blk. length (de_enc A k blk) = 16)"

definition draw_ok :: "seal_draw \<Rightarrow> bool" where
  "draw_ok v \<longleftrightarrow> length (sd_tx v) = 12 \<and> length (sd_nonce v) = 24 \<and> length (sd_tag v) = 4"

lemma ping_pong_ok: "length tx = 12 \<Longrightarrow> msg_ok (ping_msg tx)" "length tx = 12 \<Longrightarrow> msg_ok (pong_msg tx f)"
  by (simp_all add: msg_ok_def ping_msg_def pong_msg_def disco_consts)

text \<open>C27: Two members reach each other: when node A has a ping pending at address \<open>a\<close> for node B and B
  knows A's key, B answers the ping at the address it came from, and that answer, arriving at A from \<open>a\<close>, gives A
  the path \<open>a\<close> to B with the measured round trip, if it had no path; A then tells its tunnels. A stranger gets no answer
  and changes nothing.\<close>

theorem disco_finds_path:
  assumes W: "same_world A B" and v: "draw_ok v" "draw_ok (w 0)"
    and B: "map_of (dm_byKey dB) (de_pub A) = Some j" "keys_ok dB"
    and K: "map_of (dm_byKey dA) (de_pub B) = Some i" "keys_ok dA"
    and S: "map_of (dp_sent (dm_heap dA ! i)) (sd_tx v) = Some \<lparr>sp_to = a, sp_at = since\<rparr>"
    and none: "\<not> path_valid (dp_best (dm_heap dA ! i))" "ap_valid a"
    and pkt: "pkt = mgr_seal A v (ping_msg (sd_tx v)) (de_pub B)"
  shows "(\<exists>pong rest. fst (disco_handle B lan w now pkt from' dB) = SendTo pong from' # rest \<and>
      (case disco_handle A lan' w' now' pong a dA of (os, dA') \<Rightarrow> os = [PathsChanged] \<and>
         dp_best (dm_heap dA' ! i) = \<lparr>pa_addr = a, pa_rtt = now' - since, pa_at = now'\<rparr>)) \<and>
    (map_of (dm_byKey dC) (de_pub A) = None \<longrightarrow> disco_handle B lan w now pkt from' dC = ([], dC))"
proof -
  let ?pong = "mgr_seal B (w 0) (pong_msg (sd_tx v) from') (de_pub A)"
  have N: "de_nacl B = de_nacl A" "nacl_ok (de_nacl A)" "\<forall>k blk. length (de_enc A k blk) = 16" "de_enc B = de_enc A"
    using W by (simp_all add: same_world_def)
  have o1: "disco_Open (de_nacl B) pkt (de_priv B) (de_pub B) = Inr (de_pub A, msg_kept (ping_msg (sd_tx v)))"
    using open_seal [of A "ping_msg (sd_tx v)" v "de_priv B"] N v by (simp add: pkt de_pub_def draw_ok_def ping_pong_ok)
  have o2: "disco_Open (de_nacl A) ?pong (de_priv A) (de_pub A) = Inr (de_pub B, msg_kept (pong_msg (sd_tx v) from'))"
    using open_seal [of B "pong_msg (sd_tx v) from'" "w 0" "de_priv A"] N v by (simp add: de_pub_def draw_ok_def ping_pong_ok)
  have k: "msg_Type (msg_kept (ping_msg t)) = TypePing" "msg_Tx (msg_kept (ping_msg t)) = t"
    "msg_Type (msg_kept (pong_msg t f)) = TypePong" "msg_Tx (msg_kept (pong_msg t f)) = t" for t f
    by (simp_all add: msg_kept_def ping_msg_def pong_msg_def disco_consts)
  have "dp_key (dm_heap dB ! j) = de_pub A" using keys_okD(2) [OF B(2,1)] by simp
  then have "\<exists>rest. fst (disco_handle B lan w now pkt from' dB) = SendTo ?pong from' # rest"
    by (simp add: disco_handle_def o1 k B(1) disco_type_neq handle_ping_def Let_def sends_def split: prod.split)
  moreover have "disco_handle A lan' w' now' ?pong a dA = ([PathsChanged], heap_upd i (\<lambda>_. (dm_heap dA ! i)\<lparr>
      dp_sent := AList.delete (sd_tx v) (dp_sent (dm_heap dA ! i)),
      dp_best := \<lparr>pa_addr = a, pa_rtt = now' - since, pa_at = now'\<rparr>\<rparr>) dA)"
    using none S by (auto simp: disco_handle_def o2 k K(1) disco_consts handle_pong_def Let_def better_def path_valid_def)
  moreover have "i < length (dm_heap dA)" using keys_okD(2) [OF K(2,1)] by simp
  moreover have "disco_handle B lan w now pkt from' dC = ([], dC)" if "map_of (dm_byKey dC) (de_pub A) = None"
    using that by (simp add: disco_handle_def o1 k disco_type_neq)
  ultimately show ?thesis by (auto simp: heap_upd_def)
qed

definition sample_disco :: "byte \<Rightarrow> disco_env" where
  "sample_disco x = \<lparr>de_nacl = sample_nacl, de_enc = sample_enc, de_sha256 = rev,
     de_unicode = plain_tables, de_priv = replicate 32 x\<rparr>"

definition sample_draw :: "nat \<Rightarrow> seal_draw" where
  "sample_draw n = \<lparr>sd_tx = replicate 11 0 @ [of_nat n], sd_nonce = replicate 24 9, sd_rnd = [], sd_tag = [1, 2, 3, 4]\<rparr>"

definition sample_api_peer :: "byte \<Rightarrow> api_peer" where
  "sample_api_peer x = \<lparr>pe_PublicIP = NoAddr, pe_UDPPort = 0, pe_Locals = [sample_from], pe_Reflexive = [],
     pe_PortMap = None, pe_NAT = [], pe_DiscoKey = replicate 32 x, pe_Relay = [], pe_Online = True\<rparr>"

definition sample_pong_pkt :: bytes where
  "sample_pong_pkt = mgr_seal (sample_disco 6) (sample_draw 7) (pong_msg (sd_tx (sample_draw 0)) sample_from) (replicate 32 5)"

definition sample_dm_events :: "dm_event list" where
  "sample_dm_events = [MSetPeers [] 0 ''c'' [(''b'', sample_api_peer 6)] [''b''], MTick sample_draw 1000,
     MPacket [] sample_draw 3000 sample_pong_pkt sample_from]"

lemma sample_dm_run:
  "map (\<lambda>dp. (dp_key dp, dp_best dp)) (dm_heap (fst (run (dm_step (sample_disco 5)) sample_dm_events (newDiscoMgr, [])))) =
     [(replicate 32 6, \<lparr>pa_addr = sample_from, pa_rtt = 2000, pa_at = 3000\<rparr>)]"
  by code_simp

theorem path_authentic_witness:
  "\<exists>tx v lan w now pkt m.
     (mgr_seal (sample_disco 5) v (ping_msg tx) (replicate 32 6), sample_from) \<in>
       set (snd (run (dm_step (sample_disco 5)) sample_dm_events (newDiscoMgr, []))) \<and>
     MPacket lan w now pkt sample_from \<in> set sample_dm_events \<and>
     disco_Open (de_nacl (sample_disco 5)) pkt (de_priv (sample_disco 5)) (de_pub (sample_disco 5)) = Inr (replicate 32 6, m) \<and>
     msg_Type m = TypePong \<and> msg_Tx m = tx"
proof -
  let ?x = "run (dm_step (sample_disco 5)) sample_dm_events (newDiscoMgr, [])"
  obtain dp where dp: "dm_heap (fst ?x) = [dp]" "dp_key dp = replicate 32 6"
    "dp_best dp = \<lparr>pa_addr = sample_from, pa_rtt = 2000, pa_at = 3000\<rparr>"
    using sample_dm_run by auto
  have "path_valid (dp_best dp)" by (simp add: dp path_valid_def ap_valid_def sample_from_def)
  moreover have "?x = (fst ?x, snd ?x)" by simp
  note path_authentic [OF this]
  ultimately show ?thesis using dp(2,3) unfolding dp(1) by fastforce
qed

definition sample_mgr :: "byte \<Rightarrow> disco_mgr" where
  "sample_mgr x = \<lparr>dm_heap = [(new_disco_peer ''p'' (replicate 32 x) 0)
       \<lparr>dp_sent := [(sd_tx (sample_draw 0), \<lparr>sp_to = sample_from, sp_at = 0\<rparr>)]\<rparr>],
     dm_peers = [(''p'', 0)], dm_byKey = [(replicate 32 x, 0)], dm_byCtrl = [(''c'', [''p''])]\<rparr>"

theorem disco_finds_path_witness:
  "\<exists>pong rest. fst (disco_handle (sample_disco 6) [] sample_draw 1
       (mgr_seal (sample_disco 5) (sample_draw 0) (ping_msg (sd_tx (sample_draw 0))) (replicate 32 6)) sample_from (sample_mgr 5))
       = SendTo pong sample_from # rest \<and>
     dp_best (dm_heap (snd (disco_handle (sample_disco 5) [] sample_draw 3 pong sample_from (sample_mgr 6))) ! 0)
       = \<lparr>pa_addr = sample_from, pa_rtt = 3, pa_at = 3\<rparr>"
proof -
  have pub: "de_pub (sample_disco x) = replicate 32 x" for x
    by (simp add: de_pub_def sample_disco_def sample_nacl_def)
  have w: "same_world (sample_disco 5) (sample_disco 6)"
    by (simp add: same_world_def sample_disco_def sample_nacl_ok sample_enc_def)
  have v: "draw_ok (sample_draw n)" for n by (simp add: draw_ok_def sample_draw_def)
  have k: "keys_ok (sample_mgr x)" "map_of (dm_byKey (sample_mgr x)) (replicate 32 x) = Some 0"
    "map_of (dp_sent (dm_heap (sample_mgr x) ! 0)) (sd_tx (sample_draw 0)) = Some \<lparr>sp_to = sample_from, sp_at = 0\<rparr>"
    "\<not> path_valid (dp_best (dm_heap (sample_mgr x) ! 0))" for x
    by (simp_all add: keys_ok_def sample_mgr_def new_disco_peer_def path_valid_def ap_valid_def no_path_def)
  have a: "ap_valid sample_from" by (simp add: ap_valid_def sample_from_def)
  note disco_finds_path [where w = sample_draw and lan = "[]" and now = 1 and from' = sample_from and lan' = "[]"
      and w' = sample_draw and now' = 3, OF w v v k(2) [of 5, folded pub] k(1) k(2) [of 6, folded pub] k(1) k(3,4) a refl, THEN conjunct1]
  then show ?thesis unfolding pub case_prod_unfold diff_zero by blast
qed

text \<open>Nothing makes two members of a room report different keys: when a member reports the key of another, the map by key holds
  one of the two objects, and when that member leaves, the key is forgotten although the other is
  still there: its pings and pongs are then ignored for as long as it stays.\<close>

lemma shared_key_silences:
  "(let one = [(''a'', sample_api_peer 6)]; both = one @ [(''m'', sample_api_peer 6)];
        say = (\<lambda>ps. setPeers plain_tables [] 0 ''c'' ps (map fst ps));
        d = say one (say both (say one newDiscoMgr))
    in map_of (dm_peers d) ''a'' = Some 0 \<and> dp_key (dm_heap d ! 0) = replicate 32 6 \<and> dm_byKey d = [])"
  by code_simp

end
