(* ===== verification/Node_Daemon.thy ===== *)
theory Node_Daemon
  imports Node_Config Node_State Disco_Mgr "HOL-Library.Multiset"
begin

text \<open>
  \<^verbatim>\<open>internal/node/node.go\<close> and \<^verbatim>\<open>gossip.go\<close>: the daemon. \<^verbatim>\<open>apply\<close> brings the rooms of a controller in line with its
  netmap, after verifying each room's configuration with the key pinned on this machine; gossip feeds it
  configurations that come from peers. Loops over Go maps run over association lists; the order
  in which wanted rooms are started is an argument. What the operating system answers (a room comes up, peers
  are set, the kill switch is set) is part of the environment; logs are not modelled.
\<close>

section \<open>Data\<close>

record running =
  rn_tagKey :: bytes
  rn_controller :: string
  rn_cfg :: rcfg
  rn_dns :: "addr list"

record daemon =
  dn_rooms :: "(string \<times> running) list"
  dn_versions :: "(string \<times> int) list"
  dn_pending :: "(string \<times> status) list"
  dn_last :: "(string \<times> netmap) list"
  dn_signed :: "(string \<times> signed) list"
  dn_members :: "(string \<times> string list) list"
  dn_admins :: "(string \<times> addr list) list"
  dn_gossip :: "(string \<times> bool) list"
  dn_killswitch :: "(string list \<times> prefix list) option"
  dn_disco :: "disco_mgr option"
  dn_sock :: msock

record node_env =
  ne_config :: node_config
  ne_me :: string
  ne_signer :: signer
  ne_unicode :: unicode
  ne_prefixes :: "prefix list"
  ne_now :: time
  ne_relay :: string
  ne_up :: "rcfg \<Rightarrow> bool"
  ne_setPeers :: "rcfg \<Rightarrow> bool"
  ne_setKillSwitch :: bool
  ne_order :: "(string \<times> rcfg) list \<Rightarrow> (string \<times> rcfg) list"

definition new_daemon :: "u16 \<Rightarrow> disco_mgr option \<Rightarrow> daemon" where
  "new_daemon port d = \<lparr>dn_rooms = [], dn_versions = [], dn_pending = [], dn_last = [], dn_signed = [], dn_members = [],
     dn_admins = [], dn_gossip = [], dn_killswitch = None, dn_disco = d, dn_sock = ms_Listen port\<rparr>"

definition version_of :: "daemon \<Rightarrow> string \<Rightarrow> int" where
  "version_of n i = (case map_of (dn_versions n) i of None \<Rightarrow> 0 | Some v \<Rightarrow> v)"

datatype daemon_error = PkiErr pki_error | OtherRoom | Rollback | RoomOverlap | BindFailed msock_error | UpFailed
  | RoomNotRunning | NoNetmap | NotInNetmap

section \<open>Starting and stopping rooms\<close>

definition startGossip :: "string \<Rightarrow> daemon \<Rightarrow> daemon" where
  "startGossip key n = (if map_of (dn_gossip n) key \<noteq> None then n else n\<lparr>dn_gossip := (key, False) # dn_gossip n\<rparr>)"

definition stopGossip :: "string \<Rightarrow> daemon \<Rightarrow> daemon" where
  "stopGossip key n = n\<lparr>dn_gossip := AList.delete key (dn_gossip n)\<rparr>"

definition kickGossip :: "string \<Rightarrow> daemon \<Rightarrow> daemon" where
  "kickGossip key n = (case map_of (dn_gossip n) key of
     None \<Rightarrow> n | Some _ \<Rightarrow> n\<lparr>dn_gossip := AList.update key True (dn_gossip n)\<rparr>)"

definition room_net :: "rcfg \<Rightarrow> prefix" where
  "room_net rc = masked (rc_Address rc)"

definition startLocked :: "node_env \<Rightarrow> string \<Rightarrow> string \<Rightarrow> rcfg \<Rightarrow> daemon \<Rightarrow> daemon_error option \<times> daemon" where
  "startLocked E key controller rc n =
     (if list_ex (\<lambda>(_, r). overlaps (room_net (rn_cfg r)) (room_net rc)) (dn_rooms n) then (Some RoomOverlap, n)
      else let tag = TagKey (Derive (sg_hkdf (ne_signer E)) (rc_Secret rc)) in
        case ms_Bind tag (dn_sock n) of
          Inl e \<Rightarrow> (Some (BindFailed e), n)
        | Inr sock \<Rightarrow>
            if \<not> ne_up E rc then (Some UpFailed, n\<lparr>dn_sock := ms_Unbind tag sock\<rparr>)
            else let n' = (if controller \<noteq> [] then startGossip key n else n) in
              (None, n'\<lparr>dn_sock := sock,
                 dn_rooms := AList.update key \<lparr>rn_tagKey = tag, rn_controller = controller, rn_cfg = rc, rn_dns = []\<rparr> (dn_rooms n')\<rparr>))"

definition stopLocked :: "string \<Rightarrow> daemon \<Rightarrow> daemon" where
  "stopLocked key n = (case map_of (dn_rooms n) key of
     None \<Rightarrow> n
   | Some r \<Rightarrow> let n' = stopGossip key n in
       n'\<lparr>dn_sock := ms_Unbind (rn_tagKey r) (dn_sock n'), dn_rooms := AList.delete key (dn_rooms n')\<rparr>)"

section \<open>Choosing\<close>

definition addrport_text :: "addrport \<Rightarrow> string" where
  "addrport_text ap = (case ap_addr ap of
     NoAddr \<Rightarrow> ''invalid AddrPort''
   | V4 w \<Rightarrow> v4_string w @ '':'' @ dec (unat (ap_port ap))
   | V6 w z \<Rightarrow> ''['' @ addr_text (V6 w z) @ '']:'' @ dec (unat (ap_port ap)))"

definition chooseEndpoint :: "api_peer \<Rightarrow> addr \<Rightarrow> prefix list \<Rightarrow> string" where
  "chooseEndpoint p myPublic myPrefixes =
     (case (if pe_PublicIP p \<noteq> NoAddr \<and> pe_PublicIP p = myPublic
            then List.find (\<lambda>l. list_ex (\<lambda>pfx. contains pfx (ap_addr l)) myPrefixes) (pe_Locals p) else None) of
        Some l \<Rightarrow> addrport_text l
      | None \<Rightarrow> (case pe_PortMap p of
          Some a \<Rightarrow> addrport_text a
        | None \<Rightarrow>
            if pe_Reflexive p \<noteq> [] then addrport_text (hd (pe_Reflexive p))
            else if pe_PublicIP p \<noteq> NoAddr \<and> pe_UDPPort p \<noteq> 0
            then addrport_text \<lparr>ap_addr = pe_PublicIP p, ap_port = pe_UDPPort p\<rparr>
            else if pe_Locals p \<noteq> [] then addrport_text (hd (pe_Locals p))
            else []))"

text \<open>The zero \<^verbatim>\<open>api.Peer\<close>, which a map gives for a key it does not have.\<close>

definition zero_peer :: api_peer where
  "zero_peer = \<lparr>pe_PublicIP = NoAddr, pe_UDPPort = 0, pe_Locals = [], pe_Reflexive = [], pe_PortMap = None, pe_NAT = [],
     pe_DiscoKey = replicate 32 0, pe_Relay = [], pe_Online = False\<rparr>"

definition peerEndpoint :: "node_env \<Rightarrow> string \<Rightarrow> string \<Rightarrow> daemon \<Rightarrow> string" where
  "peerEndpoint E i guess n = (case dn_disco n of
     None \<Rightarrow> guess
   | Some d \<Rightarrow> (case mgr_endpoint (ne_now E) i guess d of Inl g \<Rightarrow> g | Inr ap \<Rightarrow> addrport_text ap))"

definition routeConflict :: "node_env \<Rightarrow> prefix \<Rightarrow> string \<Rightarrow> prefix \<Rightarrow> daemon \<Rightarrow> bool" where
  "routeConflict E r roomID subnet n =
     (overlaps r subnet \<or>
      list_ex (\<lambda>p. \<not> is_loopback (pfx_addr p) \<and> overlaps p r) (ne_prefixes E) \<or>
      list_ex (\<lambda>(key, o'). key \<noteq> roomID \<and>
         (overlaps (room_net (rn_cfg o')) r \<or> list_ex (\<lambda>x. overlaps x r) (rc_Routes (rn_cfg o')))) (dn_rooms n))"

definition exit_candidate :: "string \<Rightarrow> string \<Rightarrow> string \<Rightarrow> room_member list \<Rightarrow> string" where
  "exit_candidate me byName byID ms =
     (case find_last (\<lambda>m. (rmem_Name m = byName \<or> rmem_NodeID m = byID) \<and> rmem_NodeID m \<noteq> me \<and> rmem_Exit m) ms of
        None \<Rightarrow> [] | Some m \<Rightarrow> rmem_NodeID m)"

definition exitPeer :: "node_env \<Rightarrow> exit_choice option \<Rightarrow> room_state \<Rightarrow> room_config \<Rightarrow> daemon \<Rightarrow> string" where
  "exitPeer E choice rs cfg n =
     (let pick = (\<lambda>byName byID.
        let i = exit_candidate (ne_me E) byName byID (cfg_Members cfg) in
        if list_ex (\<lambda>(key, o'). i \<noteq> [] \<and> key \<noteq> rs_RoomID rs \<and> rc_Exit (rn_cfg o')) (dn_rooms n) then [] else i)
      in case choice of
           Some c \<Rightarrow> if ec_Off c then [] else if ec_Room c \<noteq> rs_RoomID rs \<and> ec_Room c \<noteq> cfg_Name cfg then []
             else pick (ec_Member c) []
         | None \<Rightarrow> if rs_UseExit rs \<noteq> [] then pick [] (rs_UseExit rs) else [])"

definition TLD :: string where "TLD = ''zpt''"

definition zoneName :: "node_env \<Rightarrow> string \<Rightarrow> string \<Rightarrow> daemon \<Rightarrow> string" where
  "zoneName E key name n =
     (let l = Label (ne_unicode E) name; l' = (if l = [] then ''room'' else l); z = l' @ ''.'' @ TLD in
      if list_ex (\<lambda>(k, r). k \<noteq> key \<and> rc_ZoneName (rn_cfg r) = z) (dn_rooms n)
      then let i = (if has_prefix key ''static:'' then drop 7 key else key)
           in l' @ ''-'' @ Label (ne_unicode E) (take 6 i) @ ''.'' @ TLD
      else z)"

text \<open>The room configuration before the loop over the members, and what the loop adds.\<close>

definition zone_records :: "unicode \<Rightarrow> room_member list \<Rightarrow> (string \<times> addr) list" where
  "zone_records u ms = fold (\<lambda>m z. let l = Label u (rmem_Name m) in
     if l \<noteq> [] \<and> map_of z l = None then z @ [(l, rmem_IP m)] else z) ms []"

definition config_policy :: "room_config \<Rightarrow> acl_policy option" where
  "config_policy cfg = (if cfg_ACL cfg = [] then None
     else Some \<lparr>pol_rules = cfg_ACL cfg,
       pol_members = map (\<lambda>m. \<lparr>am_name = rmem_Name m, am_ip = rmem_IP m, am_tags = rmem_Tags m\<rparr>) (cfg_Members cfg),
       pol_subnet = cfg_Subnet cfg\<rparr>)"

definition base_room :: "node_env \<Rightarrow> room_state \<Rightarrow> room_config \<Rightarrow> daemon \<Rightarrow> rcfg" where
  "base_room E rs cfg n = \<lparr>rc_Name = cfg_Name cfg, rc_Secret = cfg_Secret cfg, rc_Address = no_prefix, rc_MTU = DefaultMTU,
     rc_Broadcast = cfg_Broadcast cfg, rc_Obfuscation = None, rc_Peers = [], rc_Routes = [], rc_Routing = [], rc_Exit = False,
     rc_ExitNode = False, rc_ExitDNS = NoAddr, rc_RoomDNS = cfg_DNS cfg, rc_ZoneName = zoneName E (rs_RoomID rs) (cfg_Name cfg) n,
     rc_ZoneRecords = zone_records (ne_unicode E) (cfg_Members cfg), rc_DHT = cfg_DHT cfg, rc_Policy = config_policy cfg,
     rc_PeerNodes = [], rc_ExitPeer = [], rc_ExitPeers = []\<rparr>"

definition PeerKeepalive :: int where "PeerKeepalive = 25"

definition member_routes :: "node_env \<Rightarrow> string \<Rightarrow> prefix \<Rightarrow> daemon \<Rightarrow> room_member \<Rightarrow> prefix list" where
  "member_routes E roomID subnet n m = filter (\<lambda>r. \<not> routeConflict E r roomID subnet n) (rmem_Routes m)"

definition member_peer :: "node_env \<Rightarrow> string \<Rightarrow> prefix \<Rightarrow> netmap \<Rightarrow> string \<Rightarrow> daemon \<Rightarrow> room_member \<Rightarrow> peer_config" where
  "member_peer E roomID subnet nm exitID n m =
     \<lparr>pc_Name = rmem_Name m, pc_PublicKey = rmem_WGKey m,
      pc_Endpoint = peerEndpoint E (rmem_NodeID m) (chooseEndpoint
        (case map_of (nm_Peers nm) (rmem_NodeID m) of None \<Rightarrow> zero_peer | Some p \<Rightarrow> p) (nm_ObservedIP nm) (ne_prefixes E)) n,
      pc_AllowedIPs = prefix_from (rmem_IP m) 32 # member_routes E roomID subnet n m @
        (if rmem_NodeID m = exitID then [\<lparr>pfx_addr = V4 0, pfx_bits = 0\<rparr>] else []),
      pc_Keepalive = PeerKeepalive\<rparr>"

definition add_member :: "node_env \<Rightarrow> room_state \<Rightarrow> netmap \<Rightarrow> room_config \<Rightarrow> string \<Rightarrow> daemon \<Rightarrow> room_member \<Rightarrow> rcfg \<times> bool \<Rightarrow> rcfg \<times> bool" where
  "add_member E rs nm cfg exitID n m x = (case x of (rc, found) \<Rightarrow>
     if rmem_NodeID m = ne_me E
     then (rc\<lparr>rc_Address := prefix_from (rmem_IP m) (pfx_bits (cfg_Subnet cfg)), rc_Routing := rmem_Routes m,
             rc_ExitNode := rmem_Exit m \<and> nc_AdvertiseExit (ne_config E)\<rparr>, True)
     else
       let exit = (rmem_NodeID m = exitID);
           rc1 = rc\<lparr>rc_Routes := rc_Routes rc @ member_routes E (rs_RoomID rs) (cfg_Subnet cfg) n m,
             rc_PeerNodes := AList.update (rmem_WGKey m) (rmem_NodeID m) (rc_PeerNodes rc),
             rc_ExitPeers := (if rmem_Exit m \<and> rmem_NodeID m \<notin> set (rc_ExitPeers rc) then rmem_NodeID m # rc_ExitPeers rc else rc_ExitPeers rc)\<rparr>;
           rc2 = (if exit then rc1\<lparr>rc_Exit := True, rc_ExitPeer := rmem_NodeID m,
             rc_ExitDNS := (if rmem_ExitDNS m then rmem_IP m else rc_ExitDNS rc1)\<rparr> else rc1)
       in (rc2\<lparr>rc_Peers := rc_Peers rc2 @ [member_peer E (rs_RoomID rs) (cfg_Subnet cfg) nm exitID n m]\<rparr>, found))"

text \<open>\<^verbatim>\<open>active[m.NodeID] = true\<close> in the same loop.\<close>

definition others :: "node_env \<Rightarrow> room_config \<Rightarrow> room_member list" where
  "others E cfg = filter (\<lambda>m. rmem_NodeID m \<noteq> ne_me E) (cfg_Members cfg)"

definition config_room :: "node_env \<Rightarrow> room_state \<Rightarrow> netmap \<Rightarrow> room_config \<Rightarrow> exit_choice option \<Rightarrow> daemon \<Rightarrow> rcfg option" where
  "config_room E rs nm cfg exit n =
     (case fold (add_member E rs nm cfg (exitPeer E exit rs cfg n) n) (cfg_Members cfg) (base_room E rs cfg n, False) of
        (rc, found) \<Rightarrow> if found then Some rc else None)"

definition accept_config :: "string \<Rightarrow> signed \<Rightarrow> room_config \<Rightarrow> daemon \<Rightarrow> daemon" where
  "accept_config roomID s cfg n =
     (let n1 = (if version_of n roomID < cfg_Version cfg \<or> map_of (dn_signed n) roomID = None
                then kickGossip roomID (n\<lparr>dn_signed := AList.update roomID s (dn_signed n)\<rparr>) else n)
      in n1\<lparr>dn_versions := AList.update roomID (cfg_Version cfg) (dn_versions n1),
            dn_members := AList.update roomID (map rmem_NodeID (cfg_Members cfg)) (dn_members n1),
            dn_admins := AList.update roomID (map rmem_IP (filter rmem_Admin (cfg_Members cfg))) (dn_admins n1)\<rparr>)"

definition check_room_config :: "node_env \<Rightarrow> string \<Rightarrow> string \<Rightarrow> signed \<Rightarrow> daemon \<Rightarrow> daemon_error + room_config" where
  "check_room_config E keyStr roomID s n =
     (case ParseRoomKey keyStr of
        Inl e \<Rightarrow> Inl (PkiErr e)
      | Inr pub \<Rightarrow> (case VerifyRoomConfig (ne_signer E) pub s of
          Inl e \<Rightarrow> Inl (PkiErr e)
        | Inr cfg \<Rightarrow>
            if cfg_RoomID cfg \<noteq> roomID then Inl OtherRoom
            else if cfg_Version cfg < version_of n roomID then Inl Rollback
            else Inr cfg))"

definition roomFromConfig :: "node_env \<Rightarrow> string \<Rightarrow> room_state \<Rightarrow> signed \<Rightarrow> netmap \<Rightarrow> exit_choice option \<Rightarrow> daemon \<Rightarrow>
    (daemon_error + rcfg option \<times> string list) \<times> daemon" where
  "roomFromConfig E keyStr rs s nm exit n =
     (case check_room_config E keyStr (rs_RoomID rs) s n of
        Inl e \<Rightarrow> (Inl e, n)
      | Inr cfg \<Rightarrow> let n' = accept_config (rs_RoomID rs) s cfg n
          in (Inr (config_room E rs nm cfg exit n', map rmem_NodeID (others E cfg)), n'))"

section \<open>Applying a netmap\<close>

text \<open>One turn of the loop over the rooms of a netmap: the rooms wanted and the peers in rooms this node
  is an active member of.\<close>

definition want :: "string \<Rightarrow> daemon \<Rightarrow> (string \<times> rcfg) list \<Rightarrow> (string \<times> rcfg) list" where
  "want i n desired = (case map_of (dn_rooms n) i of Some cur \<Rightarrow> AList.update i (rn_cfg cur) desired | None \<Rightarrow> desired)"

definition apply_room :: "node_env \<Rightarrow> state \<Rightarrow> string \<Rightarrow> netmap \<Rightarrow> room_state \<Rightarrow>
    (string \<times> rcfg) list \<times> string list \<times> daemon \<Rightarrow> (string \<times> rcfg) list \<times> string list \<times> daemon" where
  "apply_room E st url nm rs x = (case x of (desired, act, n) \<Rightarrow> let i = rs_RoomID rs in
     (case state_RoomKey url i st of
        None \<Rightarrow> (desired, act, n)
      | Some keyStr \<Rightarrow>
          if IsOff i st then (desired, act, n)
          else if rs_Status rs = StatusActive \<and> rs_Config rs = None \<and> has_prefix url localPrefix
          then (want i n desired, act, n)
          else case (rs_Status rs, rs_Config rs) of
            (StatusActive, Some s) \<Rightarrow>
              (case roomFromConfig E keyStr rs s nm (st_Exit st) (n\<lparr>dn_pending := AList.delete i (dn_pending n)\<rparr>) of
                 (Inl e, n') \<Rightarrow> (want i n' desired, act, n')
               | (Inr (None, ids), n') \<Rightarrow> (desired, ids @ act, n')
               | (Inr (Some rc, ids), n') \<Rightarrow> (AList.update i rc desired, ids @ act, n'))
          | _ \<Rightarrow> (desired, act, n\<lparr>dn_pending := AList.update i (rs_Status rs) (dn_pending n)\<rparr>)))"

definition start_new :: "node_env \<Rightarrow> string \<Rightarrow> string \<Rightarrow> rcfg \<Rightarrow> daemon \<Rightarrow> daemon" where
  "start_new E url i rc n =
     (case ValidateRoom (rc\<lparr>rc_Name := ifname (ne_unicode E) (map (\<lambda>(_, r). rc_Name (rn_cfg r)) (dn_rooms n)) i (rc_Name rc)\<rparr>) of
        Inl _ \<Rightarrow> n
      | Inr rc' \<Rightarrow> snd (startLocked E i url rc' n))"

definition update_room :: "node_env \<Rightarrow> string \<Rightarrow> string \<times> rcfg \<Rightarrow> daemon \<Rightarrow> daemon" where
  "update_room E url x n = (case x of (i, rc) \<Rightarrow>
     (case map_of (dn_rooms n) i of
        None \<Rightarrow> start_new E url i rc n
      | Some cur \<Rightarrow>
          if rc_Secret (rn_cfg cur) = rc_Secret rc \<and> rc_Address (rn_cfg cur) = rc_Address rc
          then let rc' = rc\<lparr>rc_Name := rc_Name (rn_cfg cur)\<rparr> in
            if ne_setPeers E rc' then n\<lparr>dn_rooms := AList.update i (cur\<lparr>rn_cfg := rc'\<rparr>) (dn_rooms n)\<rparr> else n
          else start_new E url i rc (stopLocked i n)))"

definition stop_unwanted :: "string \<Rightarrow> string list \<Rightarrow> daemon \<Rightarrow> daemon" where
  "stop_unwanted url wanted n = fold stopLocked
     (map fst (filter (\<lambda>(k, r). rn_controller r = url \<and> k \<notin> set wanted) (dn_rooms n))) n"

definition tell_disco :: "node_env \<Rightarrow> string \<Rightarrow> netmap \<Rightarrow> string list \<Rightarrow> daemon \<Rightarrow> daemon" where
  "tell_disco E url nm act n = (case dn_disco n of
     None \<Rightarrow> n
   | Some d \<Rightarrow> n\<lparr>dn_disco := Some (setPeers (ne_unicode E) (ne_relay E) (ne_now E) url (nm_Peers nm) act d)\<rparr>)"

text \<open>The order in which Go runs through the map of the wanted rooms: any order of it.\<close>

definition map_order :: "node_env \<Rightarrow> (string \<times> rcfg) list \<Rightarrow> (string \<times> rcfg) list" where
  "map_order E xs = (if mset (ne_order E xs) = mset xs then ne_order E xs else xs)"

section \<open>Kill switch and DNS\<close>

definition lanPrefixes :: "node_env \<Rightarrow> daemon \<Rightarrow> prefix list" where
  "lanPrefixes E n = fold (\<lambda>p out.
       if is_loopback (pfx_addr p) \<or> is_link_local_unicast (pfx_addr p) \<or> pfx_bits p = 0 then out
       else if list_ex (\<lambda>(_, r). overlaps (room_net (rn_cfg r)) p) (dn_rooms n) then out
       else if p \<in> set out then out else out @ [p]) (ne_prefixes E)
     [\<lparr>pfx_addr = V4 0xE0000000, pfx_bits = 4\<rparr>, \<lparr>pfx_addr = V4 0xFFFFFFFF, pfx_bits = 32\<rparr>,
      \<lparr>pfx_addr = V6 0xfe800000000000000000000000000000 [], pfx_bits = 10\<rparr>,
      \<lparr>pfx_addr = V6 0xff000000000000000000000000000000 [], pfx_bits = 8\<rparr>]"

definition killswitch_wanted :: "node_env \<Rightarrow> state \<Rightarrow> daemon \<Rightarrow> bool \<times> bool" where
  "killswitch_wanted E st n = (case st_Exit st of
     Some c \<Rightarrow> if ec_Off c then (False, False) else (ec_KillSwitch c, ec_AllowLAN c)
   | None \<Rightarrow> if nc_KillSwitch (ne_config E)
       then (list_ex (\<lambda>(url, nm). list_ex (\<lambda>rs. state_RoomKey url (rs_RoomID rs) st \<noteq> None \<and> rs_Status rs = StatusActive \<and>
               rs_UseExit rs \<noteq> []) (nm_Rooms nm)) (dn_last n), nc_KillSwitchAllowLAN (ne_config E))
       else (False, False))"

definition updateKillSwitch :: "node_env \<Rightarrow> state \<Rightarrow> daemon \<Rightarrow> daemon" where
  "updateKillSwitch E st n = (case killswitch_wanted E st n of (on, lan) \<Rightarrow>
     let key = (if on \<and> \<not> nc_Userspace (ne_config E)
           then Some (sort_key text_key (map (\<lambda>(_, r). rc_Name (rn_cfg r)) (dn_rooms n)), if lan then lanPrefixes E n else [])
           else None)
     in if key = dn_killswitch n \<or> \<not> ne_setKillSwitch E then n else n\<lparr>dn_killswitch := key\<rparr>)"

text \<open>The rooms in the order of their names; the loop that looks for the room with the exit goes
  through all of them and keeps what it found before.\<close>

definition rooms_by_name :: "daemon \<Rightarrow> (string \<times> running) list" where
  "rooms_by_name n = sort_key (\<lambda>(_, r). text_key (rc_Name (rn_cfg r))) (dn_rooms n)"

definition exit_dns :: "addr list \<Rightarrow> bool \<Rightarrow> string \<times> running \<Rightarrow> (string \<times> addr list) \<Rightarrow> string \<times> addr list" where
  "exit_dns own off x acc = (case x of (k, r) \<Rightarrow> let c = rn_cfg r in
     if rc_Exit c then (k, if own \<noteq> [] then own else if \<not> off \<and> rc_RoomDNS c \<noteq> [] then rc_RoomDNS c
         else if rc_ExitDNS c \<noteq> NoAddr then [rc_ExitDNS c] else snd acc)
     else acc)"

definition dns_carrier :: "addr list \<Rightarrow> bool \<Rightarrow> daemon \<Rightarrow> string \<times> addr list" where
  "dns_carrier own off n =
     (let rs = rooms_by_name n; (carrier, servers) = fold (exit_dns own off) rs ([], [])
      in if carrier \<noteq> [] then (carrier, servers)
         else case List.find (\<lambda>(_, r). own \<noteq> [] \<or> \<not> off \<and> rc_RoomDNS (rn_cfg r) \<noteq> []) rs of
           Some (k, r) \<Rightarrow> (k, if own = [] then rc_RoomDNS (rn_cfg r) else own)
         | None \<Rightarrow> ([], servers))"

definition updateDNS :: "node_env \<Rightarrow> state \<Rightarrow> daemon \<Rightarrow> daemon" where
  "updateDNS E st n =
     (let (own, off) = (case st_DNS st of Some c \<Rightarrow> (dc_Servers c, dc_Off c) | None \<Rightarrow> (nc_DNS (ne_config E), False));
          (carrier, servers) = dns_carrier own off n
      in n\<lparr>dn_rooms := map (\<lambda>(k, r). (k, r\<lparr>rn_dns := if k = carrier then servers else []\<rparr>)) (dn_rooms n)\<rparr>)"

section \<open>The whole\<close>

definition apply_netmap :: "node_env \<Rightarrow> state \<Rightarrow> string \<Rightarrow> netmap \<Rightarrow> daemon \<Rightarrow> daemon" where
  "apply_netmap E st url nm n0 =
     (case fold (apply_room E st url nm) (nm_Rooms nm) ([], [], n0\<lparr>dn_last := AList.update url nm (dn_last n0)\<rparr>) of
        (desired, act, n1) \<Rightarrow>
          let n2 = tell_disco E url nm act n1;
              n3 = stop_unwanted url (map fst desired) n2;
              n4 = fold (update_room E url) (map_order E desired) n3
          in updateDNS E st (updateKillSwitch E st n4))"

definition reapplyAll :: "node_env \<Rightarrow> state \<Rightarrow> daemon \<Rightarrow> daemon" where
  "reapplyAll E st n = fold (\<lambda>(url, nm). apply_netmap E st url nm) (dn_last n) n"

text \<open>A configuration from a peer stands in for the one the controller sent.\<close>

definition gossip_netmap :: "string \<Rightarrow> signed \<Rightarrow> netmap \<Rightarrow> netmap" where
  "gossip_netmap roomID s nm = nm\<lparr>nm_Rooms := map (\<lambda>rs. if rs_RoomID rs = roomID
     then rs\<lparr>rs_Config := Some s, rs_Status := StatusActive\<rparr> else rs) (nm_Rooms nm)\<rparr>"

definition applyGossip :: "node_env \<Rightarrow> state \<Rightarrow> string \<Rightarrow> signed \<Rightarrow> daemon \<Rightarrow> daemon_error option \<times> daemon" where
  "applyGossip E st roomID s n = (case map_of (dn_rooms n) roomID of
     None \<Rightarrow> (Some RoomNotRunning, n)
   | Some r \<Rightarrow>
       if rn_controller r = [] then (Some RoomNotRunning, n)
       else case map_of (dn_last n) (rn_controller r) of
         None \<Rightarrow> (Some NoNetmap, n)
       | Some nm \<Rightarrow>
           if \<not> list_ex (\<lambda>rs. rs_RoomID rs = roomID) (nm_Rooms nm) then (Some NotInNetmap, n)
           else (None, apply_netmap E st (rn_controller r) (gossip_netmap roomID s nm) n))"

text \<open>What \<^verbatim>\<open>gossipServe\<close> answers to \<^verbatim>\<open>GET\<close>, and whether an announced version is fetched.\<close>

definition gossip_answer :: "string \<Rightarrow> daemon \<Rightarrow> signed option" where
  "gossip_answer roomID n = map_of (dn_signed n) roomID"

definition gossip_announce :: "string \<Rightarrow> daemon \<Rightarrow> string" where
  "gossip_announce roomID n = ''zptg1 '' @ roomID @ '' '' @ dec_int (version_of n roomID)"

definition gossip_newer :: "string \<Rightarrow> string \<Rightarrow> daemon \<Rightarrow> bool" where
  "gossip_newer roomID msg n = (case str_fields msg of
     [a, b, c] \<Rightarrow> a = ''zptg1'' \<and> b = roomID \<and> (case atoi c of None \<Rightarrow> False | Some v \<Rightarrow> version_of n roomID < v)
   | _ \<Rightarrow> False)"

definition staticZone :: "unicode \<Rightarrow> rcfg \<Rightarrow> rcfg" where
  "staticZone u rc = rc\<lparr>rc_ZoneName := Label u (rc_Name rc) @ ''.'' @ TLD,
     rc_ZoneRecords := fold (\<lambda>p z. fold (\<lambda>a z. let l = Label u (pc_Name p) in
         if l \<noteq> [] \<and> pfx_bits a = 32 \<and> (case map_of z l of None \<Rightarrow> True | Some x \<Rightarrow> x = NoAddr)
         then AList.update l (pfx_addr a) z else z) (pc_AllowedIPs p) z) (rc_Peers rc) []\<rparr>"

text \<open>\<^verbatim>\<open>Start\<close>: the rooms of the configuration file; the first that fails ends it.\<close>

fun start_static :: "node_env \<Rightarrow> rcfg list \<Rightarrow> daemon \<Rightarrow> daemon_error option \<times> daemon" where
  "start_static E [] n = (None, n)"
| "start_static E (rc # rcs) n =
     (case startLocked E (''static:'' @ rc_Name rc) []
         (if Label (ne_unicode E) (rc_Name rc) \<noteq> [] then staticZone (ne_unicode E) rc else rc) n of
        (Some e, n') \<Rightarrow> (Some e, n')
      | (None, n') \<Rightarrow> start_static E rcs n')"

definition daemon_Close :: "daemon \<Rightarrow> daemon" where
  "daemon_Close n = (let n' = fold stopLocked (map fst (dn_rooms n)) n
     in n'\<lparr>dn_killswitch := None, dn_sock := ms_Close (dn_sock n')\<rparr>)"

end
