(* ===== verification/Node_Safety.thy ===== *)
theory Node_Safety
  imports Node_Daemon
begin

text \<open>
  What the daemon guarantees whatever netmaps and gossip it is fed. The locale \<open>daemon_law\<close> collects what a
  property has to satisfy of the daemon's elementary changes to hold after every \<open>apply_netmap\<close>; it is interpreted with the
  invariant of the daemon and with the lower bound of a room's version.
\<close>

lemma set_map_order [simp]: "set (map_order E xs) = set xs"
  by (simp add: map_order_def) (metis set_mset_mset)

section \<open>The law of a property\<close>

locale daemon_law =
  fixes E :: node_env and st :: state
    and P :: "daemon \<Rightarrow> bool" and D :: "string \<Rightarrow> rcfg \<Rightarrow> bool"
  assumes last: "P n \<Longrightarrow> P (n\<lparr>dn_last := l\<rparr>)"
    and pending: "P n \<Longrightarrow> P (n\<lparr>dn_pending := p\<rparr>)"
    and disco: "P n \<Longrightarrow> P (n\<lparr>dn_disco := d\<rparr>)"
    and killswitch: "P n \<Longrightarrow> P (n\<lparr>dn_killswitch := k\<rparr>)"
    and dns: "P n \<Longrightarrow> P (n\<lparr>dn_rooms := map (\<lambda>(k, r). (k, r\<lparr>rn_dns := f k\<rparr>)) (dn_rooms n)\<rparr>)"
    and accept: "P n \<Longrightarrow> state_RoomKey url i st = Some key \<Longrightarrow> check_room_config E key i s n = Inr cfg \<Longrightarrow> P (accept_config i s cfg n)"
    and room: "P n \<Longrightarrow> state_RoomKey url (rs_RoomID rs) st = Some key \<Longrightarrow> check_room_config E key (rs_RoomID rs) s n = Inr cfg \<Longrightarrow>
      config_room E rs nm cfg exit (accept_config (rs_RoomID rs) s cfg n) = Some rc \<Longrightarrow> D (rs_RoomID rs) rc"
    and kept: "P n \<Longrightarrow> map_of (dn_rooms n) i = Some r \<Longrightarrow> D i (rn_cfg r)"
    and start: "P n \<Longrightarrow> D i rc \<Longrightarrow> map_of (dn_rooms n) i = None \<Longrightarrow> ValidateRoom (rc\<lparr>rc_Name := nam\<rparr>) = Inr rc' \<Longrightarrow>
      P (snd (startLocked E i url rc' n))"
    and stop: "P n \<Longrightarrow> P (stopLocked i n)"
    and update: "P n \<Longrightarrow> D i rc \<Longrightarrow> map_of (dn_rooms n) i = Some cur \<Longrightarrow> rc_Secret (rn_cfg cur) = rc_Secret rc \<Longrightarrow>
      rc_Address (rn_cfg cur) = rc_Address rc \<Longrightarrow>
      P (n\<lparr>dn_rooms := AList.update i (cur\<lparr>rn_cfg := rc\<lparr>rc_Name := rc_Name (rn_cfg cur)\<rparr>\<rparr>) (dn_rooms n)\<rparr>)"
begin

definition wanted_ok :: "(string \<times> rcfg) list \<times> string list \<times> daemon \<Rightarrow> bool" where
  "wanted_ok x \<longleftrightarrow> (case x of (desired, act, n) \<Rightarrow> P n \<and> (\<forall>(i, rc) \<in> set desired. D i rc))"

lemma update_ok: "\<forall>(i, rc) \<in> set desired. D i rc \<Longrightarrow> D k v \<Longrightarrow> \<forall>(i, rc) \<in> set (AList.update k v desired). D i rc"
  using in_update by fastforce

lemma want_ok:
  assumes "P n" "\<forall>(i, rc) \<in> set desired. D i rc"
  shows "\<forall>(i, rc) \<in> set (want k n desired). D i rc"
proof (cases "map_of (dn_rooms n) k")
  case (Some r)
  then show ?thesis using update_ok [OF assms(2) kept [OF assms(1) Some]] by (simp add: want_def)
qed (use assms in \<open>simp add: want_def\<close>)

lemma apply_room_ok:
  assumes "wanted_ok x"
  shows "wanted_ok (apply_room E st url nm rs x)"
proof -
  obtain desired act n where x: "x = (desired, act, n)" by (cases x)
  have n: "P n" and d: "\<forall>(i, rc) \<in> set desired. D i rc" using assms by (simp_all add: x wanted_ok_def)
  let ?i = "rs_RoomID rs" and ?n = "n\<lparr>dn_pending := AList.delete (rs_RoomID rs) (dn_pending n)\<rparr>"
  show ?thesis
  proof (cases "state_RoomKey url ?i st")
    case (Some key)
    have "wanted_ok (case roomFromConfig E key rs s nm (st_Exit st) ?n of
             (Inl e, n') \<Rightarrow> (want ?i n' desired, act, n')
           | (Inr (None, ids), n') \<Rightarrow> (desired, ids @ act, n')
           | (Inr (Some rc, ids), n') \<Rightarrow> (AList.update ?i rc desired, ids @ act, n'))" for s
    proof (cases "check_room_config E key ?i s ?n")
      case (Inl e)
      then show ?thesis using want_ok [OF pending [OF n] d] pending [OF n] by (simp add: roomFromConfig_def wanted_ok_def)
    next
      case (Inr cfg)
      let ?m = "accept_config ?i s cfg ?n"
      have m: "P ?m" using accept [OF pending [OF n] Some Inr] .
      have "\<forall>(i, rc) \<in> set (AList.update ?i rc desired). D i rc" if "config_room E rs nm cfg (st_Exit st) ?m = Some rc" for rc
        using update_ok [OF d room [OF pending [OF n] Some Inr that]] .
      then show ?thesis
        using m d Inr by (simp add: roomFromConfig_def Let_def wanted_ok_def split: option.splits)
    qed
    then show ?thesis
      using want_ok [OF n d] pending [OF n] n d
      by (simp add: apply_room_def x Some Let_def wanted_ok_def split: option.splits status.splits)
  qed (use n d in \<open>simp add: apply_room_def x wanted_ok_def Let_def\<close>)
qed

lemma start_new_ok: "P n \<Longrightarrow> D i rc \<Longrightarrow> map_of (dn_rooms n) i = None \<Longrightarrow> P (start_new E url i rc n)"
  using start by (auto simp: start_new_def split: sum.splits)

lemma stopLocked_gone: "map_of (dn_rooms (stopLocked i n)) i = None"
  by (auto simp: stopLocked_def Let_def stopGossip_def delete_conv' split: option.splits)

lemma update_room_ok: "P n \<Longrightarrow> D i rc \<Longrightarrow> P (update_room E url (i, rc) n)"
  using update start_new_ok stop stopLocked_gone
  by (auto simp: update_room_def Let_def split: option.splits)

lemma stop_unwanted_ok: "P n \<Longrightarrow> P (stop_unwanted url wanted n)"
proof -
  have "P n \<Longrightarrow> P (fold stopLocked ks n)" for ks n by (induction ks arbitrary: n) (simp_all add: stop)
  then show "P n \<Longrightarrow> P (stop_unwanted url wanted n)" by (simp add: stop_unwanted_def)
qed

lemma killswitch_ok: "P n \<Longrightarrow> P (updateKillSwitch E st n)"
  using killswitch by (simp add: updateKillSwitch_def Let_def split: prod.splits)

lemma dns_ok: "P n \<Longrightarrow> P (updateDNS E st n)"
  using dns [of n] by (simp add: updateDNS_def Let_def split: prod.splits)

lemma apply_netmap_ok:
  assumes "P n"
  shows "P (apply_netmap E st url nm n)"
proof -
  have "wanted_ok x \<Longrightarrow> wanted_ok (fold (apply_room E st url nm) rs x)" for rs x
    by (induction rs arbitrary: x) (simp_all add: apply_room_ok)
  then have "wanted_ok (fold (apply_room E st url nm) (nm_Rooms nm) ([], [], n\<lparr>dn_last := AList.update url nm (dn_last n)\<rparr>))"
    using last [OF assms] by (simp add: wanted_ok_def)
  moreover obtain desired act n1 where f: "fold (apply_room E st url nm) (nm_Rooms nm) ([], [], n\<lparr>dn_last := AList.update url nm (dn_last n)\<rparr>)
      = (desired, act, n1)" by (metis prod_cases3)
  ultimately have n1: "P n1" and D: "\<forall>(i, rc) \<in> set desired. D i rc" by (simp_all add: wanted_ok_def)
  have "P (stop_unwanted url (map fst desired) (tell_disco E url nm act n1))"
    using n1 disco by (intro stop_unwanted_ok) (simp add: tell_disco_def split: option.splits)
  moreover have "P n \<Longrightarrow> \<forall>(i, rc) \<in> set xs. D i rc \<Longrightarrow> P (fold (update_room E url) xs n)" for xs n
    by (induction xs arbitrary: n) (auto simp: update_room_ok)
  moreover have "\<forall>(i, rc) \<in> set (map_order E desired). D i rc" using D by (simp add: set_map_order)
  ultimately show ?thesis by (simp add: apply_netmap_def f Let_def dns_ok killswitch_ok)
qed

lemma applyGossip_ok: "P n \<Longrightarrow> P (snd (applyGossip E st i s n))"
  by (simp add: applyGossip_def apply_netmap_ok split: option.splits)

lemma reapplyAll_ok: "P n \<Longrightarrow> P (reapplyAll E st n)"
proof -
  have "P n \<Longrightarrow> P (fold (\<lambda>(url, nm). apply_netmap E st url nm) xs n)" for xs n
    by (induction xs arbitrary: n) (auto simp: apply_netmap_ok)
  then show "P n \<Longrightarrow> P (reapplyAll E st n)" by (simp add: reapplyAll_def)
qed

end

section \<open>The invariant\<close>

text \<open>What a room may be: one of the configuration file, or one whose secret, address, peers and rules are those of a configuration
  that verifies with a key pinned for it. A peer may send from its own address, the
  networks approved for it and, if it is an approved exit, from everywhere.\<close>

definition default_route :: prefix where "default_route = \<lparr>pfx_addr = V4 0, pfx_bits = 0\<rparr>"

definition peer_of :: "room_config \<Rightarrow> room_member \<Rightarrow> peer_config \<Rightarrow> bool" where
  "peer_of cfg m p \<longleftrightarrow> pc_PublicKey p = rmem_WGKey m \<and> prefix_from (rmem_IP m) 32 \<in> set (pc_AllowedIPs p) \<and>
     (\<forall>a \<in> set (pc_AllowedIPs p). a = prefix_from (rmem_IP m) 32 \<or> a \<in> set (rmem_Routes m) \<or>
        a = default_route \<and> (rmem_NodeID m = [] \<or> (\<exists>m' \<in> set (cfg_Members cfg). rmem_NodeID m' = rmem_NodeID m \<and> rmem_Exit m')))"

definition from_config :: "string \<Rightarrow> room_config \<Rightarrow> rcfg \<Rightarrow> bool" where
  "from_config me cfg rc \<longleftrightarrow> rc_Secret rc = cfg_Secret cfg \<and> rc_Policy rc = config_policy cfg \<and>
     (\<exists>m \<in> set (cfg_Members cfg). rmem_NodeID m = me \<and> rc_Address rc = prefix_from (rmem_IP m) (pfx_bits (cfg_Subnet cfg))) \<and>
     list_all2 (peer_of cfg) (filter (\<lambda>m. rmem_NodeID m \<noteq> me) (cfg_Members cfg)) (rc_Peers rc)"

definition verified :: "signer \<Rightarrow> (string \<Rightarrow> string \<Rightarrow> bool) \<Rightarrow> string \<Rightarrow> signed \<Rightarrow> room_config \<Rightarrow> bool" where
  "verified S K i s cfg \<longleftrightarrow> cfg_RoomID cfg = i \<and>
     (\<exists>key pub. K i key \<and> ParseRoomKey key = Inr pub \<and> VerifyRoomConfig S pub s = Inr cfg)"

definition authentic :: "signer \<Rightarrow> string \<Rightarrow> (string \<Rightarrow> string \<Rightarrow> bool) \<Rightarrow> rcfg list \<Rightarrow> string \<Rightarrow> rcfg \<Rightarrow> bool" where
  "authentic S me K T i rc \<longleftrightarrow>
     (\<exists>rc0 \<in> set T. rc_Secret rc = rc_Secret rc0 \<and> rc_Address rc = rc_Address rc0 \<and> rc_Peers rc = rc_Peers rc0) \<or>
     (\<exists>s cfg. verified S K i s cfg \<and> from_config me cfg rc)"

definition nets_inv :: "signer \<Rightarrow> daemon \<Rightarrow> bool" where
  "nets_inv S n \<longleftrightarrow> distinct (map fst (dn_rooms n)) \<and>
     (\<forall>k r k' r'. (k, r) \<in> set (dn_rooms n) \<longrightarrow> (k', r') \<in> set (dn_rooms n) \<longrightarrow> k \<noteq> k' \<longrightarrow>
        \<not> overlaps (room_net (rn_cfg r)) (room_net (rn_cfg r')) \<and> rn_tagKey r \<noteq> rn_tagKey r') \<and>
     (\<forall>k r. (k, r) \<in> set (dn_rooms n) \<longrightarrow> rn_tagKey r = TagKey (Derive (sg_hkdf S) (rc_Secret (rn_cfg r)))) \<and>
     rb_key ` set (ms_rooms (dn_sock n)) = (rn_tagKey \<circ> snd) ` set (dn_rooms n)"

definition signed_inv :: "signer \<Rightarrow> (string \<Rightarrow> string \<Rightarrow> bool) \<Rightarrow> daemon \<Rightarrow> bool" where
  "signed_inv S K n \<longleftrightarrow> (\<forall>i s. map_of (dn_signed n) i = Some s \<longrightarrow> (\<exists>cfg. verified S K i s cfg \<and> cfg_Version cfg = version_of n i))"

definition daemon_inv :: "signer \<Rightarrow> string \<Rightarrow> (string \<Rightarrow> string \<Rightarrow> bool) \<Rightarrow> rcfg list \<Rightarrow> daemon \<Rightarrow> bool" where
  "daemon_inv S me K T n \<longleftrightarrow> nets_inv S n \<and> signed_inv S K n \<and> (\<forall>(i, r) \<in> set (dn_rooms n). authentic S me K T i (rn_cfg r))"

section \<open>What the room of a configuration is\<close>

lemma find_last_In: "find_last Q xs = Some x \<Longrightarrow> x \<in> set xs \<and> Q x"
  by (auto simp: find_last_def find_Some_iff) (metis length_rev nth_mem set_rev)

lemma exit_candidate_member:
  assumes "exit_candidate me a b ms \<noteq> []"
  shows "\<exists>m \<in> set ms. rmem_NodeID m = exit_candidate me a b ms \<and> rmem_Exit m"
proof -
  obtain m where m: "find_last (\<lambda>m. (rmem_Name m = a \<or> rmem_NodeID m = b) \<and> rmem_NodeID m \<noteq> me \<and> rmem_Exit m) ms = Some m"
    using assms by (auto simp: exit_candidate_def split: option.splits)
  then show ?thesis using find_last_In [OF m] by (auto simp: exit_candidate_def)
qed

lemma exitPeer_member:
  "exitPeer E c rs cfg n \<noteq> [] \<Longrightarrow> \<exists>m \<in> set (cfg_Members cfg). rmem_NodeID m = exitPeer E c rs cfg n \<and> rmem_Exit m"
  using exit_candidate_member by (auto simp: exitPeer_def Let_def split: option.splits if_splits)

lemma member_peer_of:
  assumes "exitID \<noteq> [] \<Longrightarrow> \<exists>m \<in> set (cfg_Members cfg). rmem_NodeID m = exitID \<and> rmem_Exit m"
  shows "peer_of cfg m (member_peer E i subnet nm exitID n m)"
  using assms by (auto simp: peer_of_def member_peer_def member_routes_def default_route_def)

lemma add_members:
  fixes E cfg
  defines "oth \<equiv> filter (\<lambda>m. rmem_NodeID m \<noteq> ne_me E)"
  shows "fold (add_member E rs nm cfg x n) ms (rc, b) = (rc', b') \<Longrightarrow>
    rc_Peers rc' = rc_Peers rc @ map (member_peer E (rs_RoomID rs) (cfg_Subnet cfg) nm x n) (oth ms) \<and>
    rc_Secret rc' = rc_Secret rc \<and> rc_Policy rc' = rc_Policy rc \<and> (b' \<longleftrightarrow> b \<or> ne_me E \<in> rmem_NodeID ` set ms) \<and>
    (ne_me E \<in> rmem_NodeID ` set ms \<longrightarrow> (\<exists>m \<in> set ms. rmem_NodeID m = ne_me E \<and>
       rc_Address rc' = prefix_from (rmem_IP m) (pfx_bits (cfg_Subnet cfg)))) \<and>
    (ne_me E \<notin> rmem_NodeID ` set ms \<longrightarrow> rc_Address rc' = rc_Address rc)"
proof (induction ms arbitrary: rc b)
  case (Cons m ms)
  obtain rc1 b1 where 1: "add_member E rs nm cfg x n m (rc, b) = (rc1, b1)" by fastforce
  have f: "fold (add_member E rs nm cfg x n) ms (rc1, b1) = (rc', b')" using Cons.prems 1 by simp
  note IH = Cons.IH [OF f]
  show ?case
  proof (cases "rmem_NodeID m = ne_me E")
    case True
    then have "b1 = True" "rc_Peers rc1 = rc_Peers rc" "rc_Secret rc1 = rc_Secret rc" "rc_Policy rc1 = rc_Policy rc"
      "rc_Address rc1 = prefix_from (rmem_IP m) (pfx_bits (cfg_Subnet cfg))"
      using 1 by (auto simp: add_member_def)
    then show ?thesis using IH True by (cases "ne_me E \<in> rmem_NodeID ` set ms") (simp_all add: oth_def)
  next
    case False
    then have "b1 = b" "rc_Secret rc1 = rc_Secret rc" "rc_Policy rc1 = rc_Policy rc" "rc_Address rc1 = rc_Address rc"
      "rc_Peers rc1 = rc_Peers rc @ [member_peer E (rs_RoomID rs) (cfg_Subnet cfg) nm x n m]"
      using 1 by (auto simp: add_member_def Let_def)
    then show ?thesis using IH False by (simp add: oth_def)
  qed
qed (simp add: oth_def)

lemma config_room_from:
  assumes "config_room E rs nm cfg exit n = Some rc"
  shows "from_config (ne_me E) cfg rc"
proof -
  let ?x = "exitPeer E exit rs cfg n"
  obtain b where f: "fold (add_member E rs nm cfg ?x n) (cfg_Members cfg) (base_room E rs cfg n, False) = (rc, b)" "b"
    using assms by (auto simp: config_room_def split: prod.splits if_splits)
  have "list_all2 (peer_of cfg) ms (map (member_peer E (rs_RoomID rs) (cfg_Subnet cfg) nm ?x n) ms)" for ms
    using member_peer_of [OF exitPeer_member] by (induction ms) simp_all
  then show ?thesis
    using add_members [OF f(1)] f(2) by (simp add: from_config_def base_room_def)
qed

lemma config_room_None: "config_room E rs nm cfg exit n = None \<longleftrightarrow> ne_me E \<notin> rmem_NodeID ` set (cfg_Members cfg)"
proof -
  let ?f = "fold (add_member E rs nm cfg (exitPeer E exit rs cfg n) n) (cfg_Members cfg) (base_room E rs cfg n, False)"
  obtain rc b where f: "?f = (rc, b)" by fastforce
  then show ?thesis using add_members [OF f] by (simp add: config_room_def)
qed

section \<open>Each change keeps the invariant\<close>

lemma ValidateRoom_keeps:
  "ValidateRoom rc = Inr rc' \<Longrightarrow> rc_Secret rc' = rc_Secret rc \<and> rc_Address rc' = rc_Address rc \<and> rc_Peers rc' = rc_Peers rc \<and>
     rc_Policy rc' = rc_Policy rc"
  by (auto simp: ValidateRoom_def Let_def split: if_splits option.splits)

lemma authentic_cong:
  "rc_Secret rc' = rc_Secret rc \<Longrightarrow> rc_Address rc' = rc_Address rc \<Longrightarrow> rc_Peers rc' = rc_Peers rc \<Longrightarrow> rc_Policy rc' = rc_Policy rc \<Longrightarrow>
   authentic S me K T i rc' = authentic S me K T i rc"
  by (simp add: authentic_def from_config_def)

lemma in_update_iff: "distinct (map fst xs) \<Longrightarrow> (a, b) \<in> set (AList.update k v xs) \<longleftrightarrow> (if a = k then b = v else (a, b) \<in> set xs)"
  by (induction xs) (auto split: if_splits simp: image_iff)

lemma in_delete_iff: "(a, b) \<in> set (AList.delete k xs) \<longleftrightarrow> a \<noteq> k \<and> (a, b) \<in> set xs"
  by (auto simp: AList.delete_eq)

lemma version_update: "version_of (n\<lparr>dn_versions := AList.update i v xs\<rparr>) j = (if j = i then v else version_of (n\<lparr>dn_versions := xs\<rparr>) j)"
  by (simp add: version_of_def update_conv')

lemma kickGossip_simps [simp]: "dn_rooms (kickGossip k n) = dn_rooms n" "dn_sock (kickGossip k n) = dn_sock n"
  "dn_signed (kickGossip k n) = dn_signed n" "dn_versions (kickGossip k n) = dn_versions n"
  by (auto simp: kickGossip_def split: option.splits)

lemma accept_config_simps [simp]: "dn_rooms (accept_config i s cfg n) = dn_rooms n" "dn_sock (accept_config i s cfg n) = dn_sock n"
  by (simp_all add: accept_config_def Let_def)

lemma accept_version: "version_of (accept_config i s cfg n) j = (if j = i then cfg_Version cfg else version_of n j)"
  by (simp add: accept_config_def Let_def version_of_def update_conv')

lemma check_room_config_D:
  assumes "check_room_config E key i s n = Inr cfg" "K i key"
  shows "verified (ne_signer E) K i s cfg \<and> version_of n i \<le> cfg_Version cfg"
  using assms by (auto simp: check_room_config_def verified_def not_less split: sum.splits if_splits)

lemma accept_signed_inv:
  assumes "signed_inv S K n" "verified S K i s cfg" "version_of n i \<le> cfg_Version cfg"
  shows "signed_inv S K (accept_config i s cfg n)"
proof -
  have s: "map_of (dn_signed (accept_config i s cfg n)) j =
      (if j = i \<and> (version_of n i < cfg_Version cfg \<or> map_of (dn_signed n) i = None) then Some s else map_of (dn_signed n) j)" for j
    by (simp add: accept_config_def Let_def update_conv')
  show ?thesis
    unfolding signed_inv_def
  proof (intro allI impI)
    fix j t assume t: "map_of (dn_signed (accept_config i s cfg n)) j = Some t"
    show "\<exists>cfg'. verified S K j t cfg' \<and> cfg_Version cfg' = version_of (accept_config i s cfg n) j"
    proof (cases "j = i \<and> (version_of n i < cfg_Version cfg \<or> map_of (dn_signed n) i = None)")
      case True
      then show ?thesis using t assms(2) by (auto simp: s accept_version)
    next
      case False
      then have "map_of (dn_signed n) j = Some t" using t by (simp only: s if_False)
      then obtain c where c: "verified S K j t c" "cfg_Version c = version_of n j" using assms(1) by (auto simp: signed_inv_def)
      then show ?thesis
        using False assms(3) \<open>map_of (dn_signed n) j = Some t\<close> by (cases "j = i") (auto simp: accept_version)
    qed
  qed
qed

lemma stop_rooms: "dn_rooms (stopLocked i n) = AList.delete i (dn_rooms n)"
  by (auto simp: stopLocked_def Let_def stopGossip_def delete_id map_of_eq_None_iff image_iff split: option.splits)

lemma nets_distinct: "nets_inv S n \<Longrightarrow> distinct (map fst (dn_rooms n))"
  by (simp add: nets_inv_def)

lemma nets_apart:
  "nets_inv S n \<Longrightarrow> (k, r) \<in> set (dn_rooms n) \<Longrightarrow> (k', r') \<in> set (dn_rooms n) \<Longrightarrow> k \<noteq> k' \<Longrightarrow>
     \<not> overlaps (room_net (rn_cfg r)) (room_net (rn_cfg r')) \<and> rn_tagKey r \<noteq> rn_tagKey r'"
  unfolding nets_inv_def by blast

lemma nets_tag: "nets_inv S n \<Longrightarrow> (k, r) \<in> set (dn_rooms n) \<Longrightarrow> rn_tagKey r = TagKey (Derive (sg_hkdf S) (rc_Secret (rn_cfg r)))"
  unfolding nets_inv_def by blast

lemma nets_sock: "nets_inv S n \<Longrightarrow> rb_key ` set (ms_rooms (dn_sock n)) = (rn_tagKey \<circ> snd) ` set (dn_rooms n)"
  by (simp add: nets_inv_def)

lemma nets_invI:
  assumes "distinct (map fst (dn_rooms n))"
    and "\<And>k r k' r'. (k, r) \<in> set (dn_rooms n) \<Longrightarrow> (k', r') \<in> set (dn_rooms n) \<Longrightarrow> k \<noteq> k' \<Longrightarrow>
       \<not> overlaps (room_net (rn_cfg r)) (room_net (rn_cfg r')) \<and> rn_tagKey r \<noteq> rn_tagKey r'"
    and "\<And>k r. (k, r) \<in> set (dn_rooms n) \<Longrightarrow> rn_tagKey r = TagKey (Derive (sg_hkdf S) (rc_Secret (rn_cfg r)))"
    and "rb_key ` set (ms_rooms (dn_sock n)) = (rn_tagKey \<circ> snd) ` set (dn_rooms n)"
  shows "nets_inv S n"
  using assms unfolding nets_inv_def by blast

lemma stop_nets:
  assumes "nets_inv S n"
  shows "nets_inv S (stopLocked i n)"
proof (cases "map_of (dn_rooms n) i")
  case (Some r)
  have i: "(i, r) \<in> set (dn_rooms n)" using Some by (rule map_of_SomeD)
  have u: "k = i" if "(k, x) \<in> set (dn_rooms n)" "rn_tagKey x = rn_tagKey r" for k x
    using nets_apart [OF assms that(1) i] that(2) by blast
  have v: "x = r" if "(i, x) \<in> set (dn_rooms n)" for x
    using eq_key_imp_eq_value [OF nets_distinct [OF assms] that i] .
  have "(rn_tagKey \<circ> snd) ` set (AList.delete i (dn_rooms n)) = (rn_tagKey \<circ> snd) ` set (dn_rooms n) - {rn_tagKey r}"
  proof (intro set_eqI iffI)
    fix t assume "t \<in> (rn_tagKey \<circ> snd) ` set (AList.delete i (dn_rooms n))"
    then obtain k x where "(k, x) \<in> set (dn_rooms n)" "k \<noteq> i" "t = rn_tagKey x" by (auto simp: AList.delete_eq)
    then show "t \<in> (rn_tagKey \<circ> snd) ` set (dn_rooms n) - {rn_tagKey r}" using u [of k x] by force
  next
    fix t assume "t \<in> (rn_tagKey \<circ> snd) ` set (dn_rooms n) - {rn_tagKey r}"
    then obtain k x where "(k, x) \<in> set (dn_rooms n)" "t = rn_tagKey x" "t \<noteq> rn_tagKey r" by auto
    moreover from this have "k \<noteq> i" using v [of x] by blast
    ultimately show "t \<in> (rn_tagKey \<circ> snd) ` set (AList.delete i (dn_rooms n))"
      by (intro image_eqI [of _ _ "(k, x)"]) (simp_all add: in_delete_iff)
  qed
  moreover have "rb_key ` set (ms_rooms (dn_sock (stopLocked i n))) = rb_key ` set (ms_rooms (dn_sock n)) - {rn_tagKey r}"
    using Some by (auto simp: stopLocked_def Let_def stopGossip_def ms_Unbind_def)
  ultimately have s: "rb_key ` set (ms_rooms (dn_sock (stopLocked i n))) = (rn_tagKey \<circ> snd) ` set (dn_rooms (stopLocked i n))"
    using nets_sock [OF assms] by (simp add: stop_rooms)
  show ?thesis
  proof (rule nets_invI [OF _ _ _ s])
    show "distinct (map fst (dn_rooms (stopLocked i n)))"
      using nets_distinct [OF assms] by (simp add: stop_rooms distinct_delete)
    show "rn_tagKey x = TagKey (Derive (sg_hkdf S) (rc_Secret (rn_cfg x)))" if "(k, x) \<in> set (dn_rooms (stopLocked i n))" for k x
      using that nets_tag [OF assms] unfolding stop_rooms in_delete_iff by blast
    show "\<not> overlaps (room_net (rn_cfg x)) (room_net (rn_cfg x')) \<and> rn_tagKey x \<noteq> rn_tagKey x'"
      if "(k, x) \<in> set (dn_rooms (stopLocked i n))" "(k', x') \<in> set (dn_rooms (stopLocked i n))" "k \<noteq> k'" for k x k' x'
      using that nets_apart [OF assms] unfolding stop_rooms in_delete_iff by blast
  qed
qed (use assms in \<open>simp add: stopLocked_def\<close>)

lemma startGossip_simps [simp]: "dn_rooms (startGossip k n) = dn_rooms n" "dn_sock (startGossip k n) = dn_sock n"
  "dn_signed (startGossip k n) = dn_signed n" "dn_versions (startGossip k n) = dn_versions n"
  by (simp_all add: startGossip_def)

lemma not_image_filter: "t \<notin> f ` A \<Longrightarrow> {x \<in> A. f x \<noteq> t} = A"
  by blast

text \<open>A start either leaves rooms and bound keys as they were or adds a room whose subnet and tag are free.\<close>

lemma startLocked_cases:
  obtains (failed) "dn_rooms (snd (startLocked E i url rc n)) = dn_rooms n"
      "rb_key ` set (ms_rooms (dn_sock (snd (startLocked E i url rc n)))) = rb_key ` set (ms_rooms (dn_sock n))"
  | (started) tag where "tag = TagKey (Derive (sg_hkdf (ne_signer E)) (rc_Secret rc))" "tag \<notin> rb_key ` set (ms_rooms (dn_sock n))"
      "\<forall>(k, r) \<in> set (dn_rooms n). \<not> overlaps (room_net (rn_cfg r)) (room_net rc)"
      "dn_rooms (snd (startLocked E i url rc n)) =
         AList.update i \<lparr>rn_tagKey = tag, rn_controller = url, rn_cfg = rc, rn_dns = []\<rparr> (dn_rooms n)"
      "rb_key ` set (ms_rooms (dn_sock (snd (startLocked E i url rc n)))) = insert tag (rb_key ` set (ms_rooms (dn_sock n)))"
proof -
  let ?tag = "TagKey (Derive (sg_hkdf (ne_signer E)) (rc_Secret rc))"
  consider "list_ex (\<lambda>(_, r). overlaps (room_net (rn_cfg r)) (room_net rc)) (dn_rooms n) \<or> ?tag \<in> rb_key ` set (ms_rooms (dn_sock n))"
    | "\<not> list_ex (\<lambda>(_, r). overlaps (room_net (rn_cfg r)) (room_net rc)) (dn_rooms n)" "?tag \<notin> rb_key ` set (ms_rooms (dn_sock n))" by blast
  then show thesis
  proof cases
    case 1
    then show thesis
      by (intro failed) (auto simp: startLocked_def Let_def ms_Bind_def list_ex_iff)
  next
    case 2
    then have b: "ms_Bind ?tag (dn_sock n) = Inr ((dn_sock n)\<lparr>ms_rooms := ms_rooms (dn_sock n) @ [\<lparr>rb_key = ?tag, rb_queue = None\<rparr>]\<rparr>)"
      by (force simp: ms_Bind_def list_ex_iff)
    show thesis
    proof (cases "ne_up E rc")
      case True
      have "\<forall>(k, r) \<in> set (dn_rooms n). \<not> overlaps (room_net (rn_cfg r)) (room_net rc)"
        using 2(1) by (auto simp: list_ex_iff)
      then show thesis using 2 b True by (intro started [OF refl]) (auto simp: startLocked_def Let_def)
    next
      case False
      have "{x \<in> set (ms_rooms (dn_sock n)). rb_key x \<noteq> ?tag} = set (ms_rooms (dn_sock n))"
        by (rule not_image_filter [OF 2(2)])
      then show thesis using 2 b False by (intro failed) (simp_all add: startLocked_def Let_def ms_Unbind_def)
    qed
  qed
qed

lemma update_new: "i \<notin> fst ` set xs \<Longrightarrow> AList.update i v xs = xs @ [(i, v)]"
  by (induction xs) auto

lemma start_nets:
  assumes "nets_inv S n" "map_of (dn_rooms n) i = None" "ne_signer E = S"
  shows "nets_inv S (snd (startLocked E i url rc n))"
proof (cases E i url rc n rule: startLocked_cases)
  case failed
  show ?thesis using assms(1) unfolding nets_inv_def failed .
next
  case (started tag)
  let ?n = "snd (startLocked E i url rc n)"
  let ?r = "\<lparr>rn_tagKey = tag, rn_controller = url, rn_cfg = rc, rn_dns = []\<rparr>"
  have i: "i \<notin> fst ` set (dn_rooms n)" using assms(2) by (simp add: map_of_eq_None_iff)
  have r: "dn_rooms ?n = dn_rooms n @ [(i, ?r)]" using started(4) update_new [OF i] by simp
  have t: "tag \<noteq> rn_tagKey x" if "(k, x) \<in> set (dn_rooms n)" for k x
    using started(2) that unfolding nets_sock [OF assms(1)] by force
  have o: "\<not> overlaps (room_net (rn_cfg x)) (room_net rc)" "\<not> overlaps (room_net rc) (room_net (rn_cfg x))"
    if "(k, x) \<in> set (dn_rooms n)" for k x
    using started(3) that overlaps_sym by auto
  show ?thesis
  proof (rule nets_invI)
    show "distinct (map fst (dn_rooms ?n))" using i nets_distinct [OF assms(1)] by (simp add: r)
    show "rb_key ` set (ms_rooms (dn_sock ?n)) = (rn_tagKey \<circ> snd) ` set (dn_rooms ?n)"
      using started(5) nets_sock [OF assms(1)] by (simp add: r)
    show "rn_tagKey x = TagKey (Derive (sg_hkdf S) (rc_Secret (rn_cfg x)))" if "(k, x) \<in> set (dn_rooms ?n)" for k x
      using that nets_tag [OF assms(1)] started(1) assms(3) by (auto simp: r)
    show "\<not> overlaps (room_net (rn_cfg x)) (room_net (rn_cfg x')) \<and> rn_tagKey x \<noteq> rn_tagKey x'"
      if "(k, x) \<in> set (dn_rooms ?n)" "(k', x') \<in> set (dn_rooms ?n)" "k \<noteq> k'" for k x k' x'
      using that nets_apart [OF assms(1)] t o by (auto simp: r dest: t [symmetric])
  qed
qed

text \<open>Changing the rooms pointwise, with secrets, addresses and tags as they were.\<close>

lemma nets_change:
  assumes "nets_inv S n" "map fst rs = map fst (dn_rooms n)"
    and "map (\<lambda>x. (rn_tagKey (snd x), rc_Secret (rn_cfg (snd x)), rc_Address (rn_cfg (snd x)))) rs =
      map (\<lambda>x. (rn_tagKey (snd x), rc_Secret (rn_cfg (snd x)), rc_Address (rn_cfg (snd x)))) (dn_rooms n)"
  shows "nets_inv S (n\<lparr>dn_rooms := rs\<rparr>)"
proof -
  have l: "length rs = length (dn_rooms n)" using assms(2) by (metis length_map)
  have e: "\<exists>y. (k, y) \<in> set (dn_rooms n) \<and> rn_tagKey y = rn_tagKey x \<and> rc_Secret (rn_cfg y) = rc_Secret (rn_cfg x) \<and>
      rc_Address (rn_cfg y) = rc_Address (rn_cfg x)" if kx: "(k, x) \<in> set rs" for k x
  proof -
    obtain j where j: "j < length rs" "rs ! j = (k, x)" using kx by (metis in_set_conv_nth)
    have "map fst rs ! j = map fst (dn_rooms n) ! j" using assms(2) by simp
    moreover note arg_cong [OF assms(3), of "\<lambda>ys. ys ! j"]
    ultimately show ?thesis using j l by (intro exI [of _ "snd (dn_rooms n ! j)"]) (auto simp: in_set_conv_nth intro!: exI [of _ j] prod_eqI)
  qed
  have "map (\<lambda>x. rn_tagKey (snd x)) rs = map (\<lambda>x. rn_tagKey (snd x)) (dn_rooms n)"
    using arg_cong [OF assms(3), of "map fst"] by (simp add: comp_def)
  then have t: "(rn_tagKey \<circ> snd) ` set rs = (rn_tagKey \<circ> snd) ` set (dn_rooms n)"
    by (metis (no_types, lifting) comp_def image_cong list.set_map)
  show ?thesis
  proof (rule nets_invI)
    fix k x k' x' assume a: "(k, x) \<in> set (dn_rooms (n\<lparr>dn_rooms := rs\<rparr>))" "(k', x') \<in> set (dn_rooms (n\<lparr>dn_rooms := rs\<rparr>))" "k \<noteq> k'"
    obtain y y' where y: "(k, y) \<in> set (dn_rooms n)" "(k', y') \<in> set (dn_rooms n)" "rn_tagKey y = rn_tagKey x"
      "rn_tagKey y' = rn_tagKey x'" "rc_Address (rn_cfg y) = rc_Address (rn_cfg x)" "rc_Address (rn_cfg y') = rc_Address (rn_cfg x')"
      using a e [of k x] e [of k' x'] by auto
    then show "\<not> overlaps (room_net (rn_cfg x)) (room_net (rn_cfg x')) \<and> rn_tagKey x \<noteq> rn_tagKey x'"
      using nets_apart [OF assms(1) y(1,2) a(3)] by (simp add: room_net_def)
  next
    show "rn_tagKey x = TagKey (Derive (sg_hkdf S) (rc_Secret (rn_cfg x)))" if "(k, x) \<in> set (dn_rooms (n\<lparr>dn_rooms := rs\<rparr>))" for k x
      using e [of k x] that nets_tag [OF assms(1)] by auto
  qed (use nets_distinct [OF assms(1)] nets_sock [OF assms(1)] assms(2) t in simp_all)
qed

section \<open>Runs of the daemon\<close>

text \<open>The environment of an event: the same identity and cryptography, and a
  state file that pins no other keys than those in \<open>K\<close>.\<close>

definition env_fits :: "signer \<Rightarrow> string \<Rightarrow> (string \<Rightarrow> string \<Rightarrow> bool) \<Rightarrow> node_env \<Rightarrow> state \<Rightarrow> bool" where
  "env_fits S me K E st \<longleftrightarrow> ne_signer E = S \<and> ne_me E = me \<and>
     (\<forall>url i key. state_RoomKey url i st = Some key \<longrightarrow> K i key)"

lemma update_map_fst: "map_of xs i = Some v0 \<Longrightarrow> map fst (AList.update i v xs) = map fst xs"
  by (induction xs) (auto split: if_splits)

lemma update_map_snd:
  "map_of xs i = Some v0 \<Longrightarrow> g v = g v0 \<Longrightarrow> map (\<lambda>x. g (snd x)) (AList.update i v xs) = map (\<lambda>x. g (snd x)) xs"
  by (induction xs) (auto split: if_splits)

lemma update_nets:
  assumes "nets_inv S n" "map_of (dn_rooms n) i = Some cur" "rc_Secret (rn_cfg cur) = rc_Secret rc" "rc_Address (rn_cfg cur) = rc_Address rc"
  shows "nets_inv S (n\<lparr>dn_rooms := AList.update i (cur\<lparr>rn_cfg := rc\<lparr>rc_Name := nam\<rparr>\<rparr>) (dn_rooms n)\<rparr>)"
  using assms(3,4)
  by (intro nets_change [OF assms(1)] update_map_fst [OF assms(2)]
      update_map_snd [OF assms(2), where g = "\<lambda>r. (rn_tagKey r, rc_Secret (rn_cfg r), rc_Address (rn_cfg r))"]) simp

lemma dns_nets: "nets_inv S n \<Longrightarrow> nets_inv S (n\<lparr>dn_rooms := map (\<lambda>(k, r). (k, r\<lparr>rn_dns := f k\<rparr>)) (dn_rooms n)\<rparr>)"
  by (rule nets_change) (simp_all add: case_prod_unfold)

lemma nets_inv_cong: "dn_rooms n' = dn_rooms n \<Longrightarrow> dn_sock n' = dn_sock n \<Longrightarrow> nets_inv S n' = nets_inv S n"
  by (simp only: nets_inv_def)

lemma signed_inv_cong: "dn_signed n' = dn_signed n \<Longrightarrow> dn_versions n' = dn_versions n \<Longrightarrow> signed_inv S K n' = signed_inv S K n"
  by (simp add: signed_inv_def version_of_def)

lemma start_signed: "dn_signed (snd (startLocked E i url rc n)) = dn_signed n" "dn_versions (snd (startLocked E i url rc n)) = dn_versions n"
  by (simp_all add: startLocked_def Let_def split: sum.splits)

lemma stop_signed: "dn_signed (stopLocked i n) = dn_signed n" "dn_versions (stopLocked i n) = dn_versions n"
  by (simp_all add: stopLocked_def Let_def stopGossip_def split: option.splits)

definition rooms_authentic :: "signer \<Rightarrow> string \<Rightarrow> (string \<Rightarrow> string \<Rightarrow> bool) \<Rightarrow> rcfg list \<Rightarrow> (string \<times> running) list \<Rightarrow> bool" where
  "rooms_authentic S me K T rs \<longleftrightarrow> (\<forall>i r. (i, r) \<in> set rs \<longrightarrow> authentic S me K T i (rn_cfg r))"

lemma daemon_inv_parts: "daemon_inv S me K T n \<longleftrightarrow> nets_inv S n \<and> signed_inv S K n \<and> rooms_authentic S me K T (dn_rooms n)"
  by (auto simp: daemon_inv_def rooms_authentic_def)

lemma authentic_update: "rooms_authentic S me K T rs \<Longrightarrow> authentic S me K T i (rn_cfg r) \<Longrightarrow> rooms_authentic S me K T (AList.update i r rs)"
  unfolding rooms_authentic_def using in_update by fastforce

lemma start_authentic:
  assumes "rooms_authentic S me K T (dn_rooms n)" "authentic S me K T i rc"
  shows "rooms_authentic S me K T (dn_rooms (snd (startLocked E i url rc n)))"
proof (cases E i url rc n rule: startLocked_cases)
  case failed
  then show ?thesis using assms(1) by simp
next
  case (started tag)
  then show ?thesis using authentic_update [OF assms(1)] assms(2) by simp
qed

lemma daemon_law_inv:
  assumes "env_fits S me K E st"
  shows "daemon_law E st (daemon_inv S me K T) (authentic S me K T)"
proof
  have E: "ne_signer E = S" "ne_me E = me" "\<And>url i key. state_RoomKey url i st = Some key \<Longrightarrow> K i key"
    using assms by (auto simp: env_fits_def)
  fix n
  assume inv: "daemon_inv S me K T n"
  then have N: "nets_inv S n" and G: "signed_inv S K n" and A: "rooms_authentic S me K T (dn_rooms n)"
    by (simp_all add: daemon_inv_parts)
  have same: "daemon_inv S me K T n'" if "dn_rooms n' = dn_rooms n" "dn_sock n' = dn_sock n" "dn_signed n' = dn_signed n"
    "dn_versions n' = dn_versions n" for n'
    using N G A that signed_inv_cong [of n' n] nets_inv_cong [of n' n] by (simp add: daemon_inv_parts)
  show "daemon_inv S me K T (n\<lparr>dn_last := l\<rparr>)" for l by (rule same) simp_all
  show "daemon_inv S me K T (n\<lparr>dn_pending := p\<rparr>)" for p by (rule same) simp_all
  show "daemon_inv S me K T (n\<lparr>dn_disco := d\<rparr>)" for d by (rule same) simp_all
  show "daemon_inv S me K T (n\<lparr>dn_killswitch := k\<rparr>)" for k by (rule same) simp_all
  show "daemon_inv S me K T (n\<lparr>dn_rooms := map (\<lambda>(k, r). (k, r\<lparr>rn_dns := f k\<rparr>)) (dn_rooms n)\<rparr>)" for f
    using dns_nets [OF N] signed_inv_cong [OF refl refl] G A by (auto simp: daemon_inv_parts rooms_authentic_def signed_inv_def version_of_def)
  show "daemon_inv S me K T (accept_config i s cfg n)"
    if "state_RoomKey url i st = Some key" "check_room_config E key i s n = Inr cfg" for url i key s cfg
    using check_room_config_D [of E key i s n cfg K, OF that(2) E(3) [OF that(1)]] accept_signed_inv [OF G] N A E(1)
      nets_inv_cong [of "accept_config i s cfg n" n]
    by (simp add: daemon_inv_parts)
  show "authentic S me K T (rs_RoomID rs) rc"
    if "state_RoomKey url (rs_RoomID rs) st = Some key" "check_room_config E key (rs_RoomID rs) s n = Inr cfg"
      "config_room E rs nm cfg exit (accept_config (rs_RoomID rs) s cfg n) = Some rc" for url rs key s cfg nm exit rc
    using check_room_config_D [of E key "rs_RoomID rs" s n cfg K, OF that(2) E(3) [OF that(1)]] config_room_from [OF that(3)] E(1,2)
    unfolding authentic_def by blast
  show "authentic S me K T i (rn_cfg r)" if "map_of (dn_rooms n) i = Some r" for i r
    using A map_of_SomeD [OF that] by (simp add: rooms_authentic_def)
  show "daemon_inv S me K T (snd (startLocked E i url rc' n))"
    if "authentic S me K T i rc" "map_of (dn_rooms n) i = None" "ValidateRoom (rc\<lparr>rc_Name := nam\<rparr>) = Inr rc'" for i rc nam rc' url
  proof -
    have "authentic S me K T i rc'" using ValidateRoom_keeps [OF that(3)] that(1) authentic_cong [of rc' rc] by simp
    then show ?thesis
      using start_nets [OF N that(2) E(1)] start_authentic [OF A] signed_inv_cong [OF start_signed] G by (simp add: daemon_inv_parts)
  qed
  show "daemon_inv S me K T (stopLocked i n)" for i
    using stop_nets [OF N] signed_inv_cong [OF stop_signed] G A
    by (simp add: daemon_inv_parts rooms_authentic_def stop_rooms in_delete_iff)
  show "daemon_inv S me K T (n\<lparr>dn_rooms := AList.update i (cur\<lparr>rn_cfg := rc\<lparr>rc_Name := rc_Name (rn_cfg cur)\<rparr>\<rparr>) (dn_rooms n)\<rparr>)"
    if "authentic S me K T i rc" "map_of (dn_rooms n) i = Some cur" "rc_Secret (rn_cfg cur) = rc_Secret rc"
      "rc_Address (rn_cfg cur) = rc_Address rc" for i rc cur
  proof -
    have "authentic S me K T i (rc\<lparr>rc_Name := rc_Name (rn_cfg cur)\<rparr>)"
      using that(1) by (subst authentic_cong [of _ rc]) simp_all
    then show ?thesis
      using update_nets [OF N that(2-4)] authentic_update [OF A] G by (simp add: daemon_inv_parts signed_inv_def version_of_def)
  qed
qed

text \<open>The version of a room never goes back, whatever is pinned.\<close>

interpretation version_law: daemon_law E st "\<lambda>n. v \<le> version_of n j" "\<lambda>i rc. True" for E st v j
proof
  have c: "dn_versions n' = dn_versions n \<Longrightarrow> version_of n' j = version_of n j" for n n' by (simp add: version_of_def)
  fix n assume v: "v \<le> version_of n j"
  show "v \<le> version_of (accept_config i s cfg n) j" if "check_room_config E key i s n = Inr cfg" for i key s cfg
    using that v by (auto simp: accept_version check_room_config_def split: sum.splits if_splits)
  show "v \<le> version_of (snd (startLocked E i url rc' n)) j" for i url rc' using v c [OF start_signed(2)] by simp
  show "v \<le> version_of (stopLocked i n) j" for i using v c [OF stop_signed(2)] by simp
qed (simp_all add: version_of_def)

interpretation own_law: daemon_law E st
  "daemon_inv (ne_signer E) (ne_me E) (\<lambda>i key. K i key \<or> (\<exists>url. state_RoomKey url i st = Some key)) T"
  "authentic (ne_signer E) (ne_me E) (\<lambda>i key. K i key \<or> (\<exists>url. state_RoomKey url i st = Some key)) T" for E st K T
  by (rule daemon_law_inv) (auto simp: env_fits_def)

datatype dn_event = DApply node_env state string netmap | DGossip node_env state string signed | DReapply node_env state
  | DSettings node_env state

fun ev_env :: "dn_event \<Rightarrow> node_env" where
  "ev_env (DApply E st url nm) = E" | "ev_env (DGossip E st i s) = E" | "ev_env (DReapply E st) = E" | "ev_env (DSettings E st) = E"

fun ev_state :: "dn_event \<Rightarrow> state" where
  "ev_state (DApply E st url nm) = st" | "ev_state (DGossip E st i s) = st" | "ev_state (DReapply E st) = st" | "ev_state (DSettings E st) = st"

fun dn_step :: "dn_event \<Rightarrow> daemon \<Rightarrow> daemon" where
  "dn_step (DApply E st url nm) n = apply_netmap E st url nm n"
| "dn_step (DGossip E st i s) n = snd (applyGossip E st i s n)"
| "dn_step (DReapply E st) n = reapplyAll E st n"
| "dn_step (DSettings E st) n = updateDNS E st (updateKillSwitch E st n)"

lemma dn_step_inv:
  assumes "daemon_inv S me K T n" "env_fits S me K (ev_env e) (ev_state e)"
  shows "daemon_inv S me K T (dn_step e n)"
proof -
  note law = daemon_law_inv [OF assms(2), of T]
  show ?thesis
    using assms(1) daemon_law.apply_netmap_ok [OF law] daemon_law.applyGossip_ok [OF law] daemon_law.reapplyAll_ok [OF law]
      daemon_law.dns_ok [OF law] daemon_law.killswitch_ok [OF law]
    by (cases e) simp_all
qed

interpretation dn: machine dn_step "\<lambda>e. env_fits S me K (ev_env e) (ev_state e)" "daemon_inv S me K T" for S me K T
  by unfold_locales (rule dn_step_inv)

interpretation dn_version: machine dn_step "\<lambda>e. True" "\<lambda>n. v \<le> version_of n j" for v j
proof
  show "v \<le> version_of (dn_step e n) j" if "v \<le> version_of n j" for e n
    using that version_law.apply_netmap_ok version_law.applyGossip_ok version_law.reapplyAll_ok
      version_law.dns_ok version_law.killswitch_ok by (cases e) simp_all
qed

text \<open>The rooms of the configuration file.\<close>

lemma new_daemon_inv: "daemon_inv S me K T (new_daemon p d)"
  by (simp add: daemon_inv_parts nets_inv_def signed_inv_def rooms_authentic_def new_daemon_def ms_Listen_def)

lemma start_static_inv:
  assumes "daemon_inv S me K T n" "ne_signer E = S" "set rcs \<subseteq> set T" "distinct (map rc_Name rcs)"
    "\<forall>rc \<in> set rcs. map_of (dn_rooms n) (''static:'' @ rc_Name rc) = None"
  shows "daemon_inv S me K T (snd (start_static E rcs n))"
  using assms
proof (induction E rcs n rule: start_static.induct)
  case (2 E rc rcs n)
  let ?k = "''static:'' @ rc_Name rc" and ?rc = "if Label (ne_unicode E) (rc_Name rc) \<noteq> [] then staticZone (ne_unicode E) rc else rc"
  let ?s = "startLocked E ?k [] ?rc n"
  have N: "nets_inv S n" "signed_inv S K n" "rooms_authentic S me K T (dn_rooms n)" using 2(2) by (simp_all add: daemon_inv_parts)
  have "authentic S me K T ?k ?rc" using 2(4) by (auto simp: authentic_def staticZone_def)
  then have inv: "daemon_inv S me K T (snd ?s)"
    using start_nets [OF N(1) _ 2(3)] start_authentic [OF N(3)] signed_inv_cong [OF start_signed] N(2) 2(6) by (simp add: daemon_inv_parts)
  have free: "map_of (dn_rooms (snd ?s)) (''static:'' @ rc_Name r) = None" if "r \<in> set rcs" for r
  proof (cases E ?k "[] :: string" ?rc n rule: startLocked_cases)
    case failed
    then show ?thesis using 2(6) that by simp
  next
    case (started tag)
    have "rc_Name r \<noteq> rc_Name rc" "map_of (dn_rooms n) (''static:'' @ rc_Name r) = None"
      using 2(5,6) that by (auto simp: image_iff)
    then show ?thesis unfolding started(4) by (simp add: update_conv')
  qed
  show ?case
  proof (cases ?s)
    case (Pair e n')
    then show ?thesis using inv 2(1) [OF Pair [symmetric]] free 2(3-5) by (cases e) auto
  qed
qed simp

section \<open>Runs from the start\<close>

text \<open>The keys the state files of a run pin for a room.\<close>

definition pinned_in :: "dn_event list \<Rightarrow> string \<Rightarrow> string \<Rightarrow> bool" where
  "pinned_in es i key \<longleftrightarrow> (\<exists>e \<in> set es. \<exists>url. state_RoomKey url i (ev_state e) = Some key)"

definition same_node :: "signer \<Rightarrow> string \<Rightarrow> dn_event list \<Rightarrow> bool" where
  "same_node S me es \<longleftrightarrow> (\<forall>e \<in> set es. ne_signer (ev_env e) = S \<and> ne_me (ev_env e) = me)"

lemma daemon_run_inv:
  assumes "same_node S me es" "ne_signer E0 = S" "distinct (map rc_Name rcs)"
  shows "daemon_inv S me (pinned_in es) rcs (run dn_step es (snd (start_static E0 rcs (new_daemon p d))))"
proof (rule dn.run_inv)
  show "daemon_inv S me (pinned_in es) rcs (snd (start_static E0 rcs (new_daemon p d)))"
    using assms(2,3) by (intro start_static_inv new_daemon_inv) (simp_all add: new_daemon_def)
  show "\<forall>e \<in> set es. env_fits S me (pinned_in es) (ev_env e) (ev_state e)"
    using assms(1) by (auto simp: env_fits_def same_node_def pinned_in_def)
qed

end
