(* ===== verification/Node_Guarantees.thy ===== *)
theory Node_Guarantees
  imports Node_Safety
begin

text \<open>
  What the daemon guarantees: it runs only rooms that a pinned key vouches for, it keeps rooms apart, it does not go back to an older
  configuration; a room of which this node is a member comes up with exactly the other members as peers, and a
  room it has been removed from stops.
\<close>

section \<open>The room of a configuration is valid\<close>

definition config_usable :: "string \<Rightarrow> room_config \<Rightarrow> bool" where
  "config_usable me cfg \<longleftrightarrow> (\<exists>b \<in> set (cfg_Secret cfg). b \<noteq> 0) \<and> cfg_Broadcast cfg \<in> {[], ''on'', ''off'', ''mdns''} \<and>
     pfx_bits (cfg_Subnet cfg) \<le> 32 \<and>
     (let ks = map rmem_WGKey (filter (\<lambda>m. rmem_NodeID m \<noteq> me) (cfg_Members cfg)) in
        distinct ks \<and> (\<forall>k \<in> set ks. \<exists>b \<in> set k. b \<noteq> 0))"

lemma fold_keeps:
  assumes "\<And>m x. g (f m x) = g x"
  shows "g (fold f ms x) = g x"
  using assms by (induction ms arbitrary: x) simp_all

lemma config_room_rest:
  assumes "config_room E rs nm cfg exit n = Some rc"
  shows "rc_MTU rc = DefaultMTU \<and> rc_Obfuscation rc = None \<and> rc_Broadcast rc = cfg_Broadcast cfg \<and>
    rc_Peers rc = map (member_peer E (rs_RoomID rs) (cfg_Subnet cfg) nm (exitPeer E exit rs cfg n) n)
      (filter (\<lambda>m. rmem_NodeID m \<noteq> ne_me E) (cfg_Members cfg))"
proof -
  let ?x = "exitPeer E exit rs cfg n"
  obtain b where f: "fold (add_member E rs nm cfg ?x n) (cfg_Members cfg) (base_room E rs cfg n, False) = (rc, b)"
    using assms by (auto simp: config_room_def split: prod.splits if_splits)
  have g: "(\<lambda>(r, _). (rc_MTU r, rc_Obfuscation r, rc_Broadcast r)) (add_member E rs nm cfg ?x n m y) =
      (\<lambda>(r, _). (rc_MTU r, rc_Obfuscation r, rc_Broadcast r)) y" for m y
    by (simp add: add_member_def Let_def split: prod.splits)
  have "(rc_MTU rc, rc_Obfuscation rc, rc_Broadcast rc) = (DefaultMTU, None, cfg_Broadcast cfg)"
    using fold_keeps [where g = "\<lambda>(r, _). (rc_MTU r, rc_Obfuscation r, rc_Broadcast r)" and f = "add_member E rs nm cfg ?x n"
        and ms = "cfg_Members cfg" and x = "(base_room E rs cfg n, False)", OF g]
    unfolding f by (simp add: base_room_def)
  then show ?thesis using add_members [OF f] by (simp add: base_room_def)
qed

lemma contains_addr: "contains p a \<Longrightarrow> a \<noteq> NoAddr \<and> 0 \<le> pfx_bits p"
  by (auto simp: contains_def pfx_valid_def split: addr.splits)

lemma config_room_valid:
  assumes "config_room E rs nm cfg exit n = Some rc" "config_usable (ne_me E) cfg" "config_ok S cfg" "roomNameRe nam"
  shows "ValidateRoom (rc\<lparr>rc_Name := nam\<rparr>) = Inr (rc\<lparr>rc_Name := nam\<rparr>)"
proof -
  note rest = config_room_rest [OF assms(1)] and src = config_room_from [OF assms(1)]
  obtain m where m: "m \<in> set (cfg_Members cfg)" "rc_Address rc = prefix_from (rmem_IP m) (pfx_bits (cfg_Subnet cfg))"
    using src by (auto simp: from_config_def)
  have "contains (cfg_Subnet cfg) (rmem_IP m)" using assms(3) m(1) by (simp add: config_ok_def)
  from contains_addr [OF this] have "pfx_valid (rc_Address rc)"
    using assms(2) m(2) by (cases "rmem_IP m") (auto simp: pfx_valid_def prefix_from_def config_usable_def)
  moreover have "peers_fine (rc_Peers rc)"
    using rest assms(2) by (auto simp: peers_fine_def member_peer_def config_usable_def Let_def comp_def PeerKeepalive_def)
  moreover have "ClientParams (rc\<lparr>rc_Name := nam\<rparr>) = DefaultClientParams" using rest by (simp add: ClientParams_def)
  moreover have "MinMTU \<le> DefaultMTU" "DefaultMTU \<noteq> 0"
    by (simp_all add: MinMTU_def DefaultMTU_def MaxMTU_def MaxTransportPadding_def TagLen_def)
  ultimately have "room_fine (rc\<lparr>rc_Name := nam\<rparr>)" "fill_mtu (rc\<lparr>rc_Name := nam\<rparr>) = rc\<lparr>rc_Name := nam\<rparr>"
    using rest src assms(2,4)
    by (auto simp: room_fine_def fill_mtu_def from_config_def config_usable_def DefaultClientParams_def DefaultMTU_def)
  then show ?thesis by (simp add: ValidateRoom_iff)
qed

text \<open>Two other members with the same key make the room one that cannot be started. The controller does not compare the keys
  that joining nodes send, and the signed configuration shows every member the keys of all.\<close>

lemma duplicate_key_stops_room:
  assumes "from_config me cfg rc" "\<not> distinct (map rmem_WGKey (filter (\<lambda>m. rmem_NodeID m \<noteq> me) (cfg_Members cfg)))"
  shows "ValidateRoom (rc\<lparr>rc_Name := nam\<rparr>) \<noteq> Inr rc'"
proof
  assume "ValidateRoom (rc\<lparr>rc_Name := nam\<rparr>) = Inr rc'"
  then have "distinct (map pc_PublicKey (rc_Peers rc))" by (simp add: ValidateRoom_iff room_fine_def peers_fine_def)
  moreover have "list_all2 (peer_of cfg) ms ps \<Longrightarrow> map pc_PublicKey ps = map rmem_WGKey ms" for ms ps
    by (induction rule: list_all2_induct) (simp_all add: peer_of_def)
  ultimately show False using assms by (auto simp: from_config_def)
qed

lemma hex_lower: "list_all lower_alnum (hex_string bs)"
proof -
  have "n < 16 \<Longrightarrow> lower_alnum (hex_digit n)" for n
  proof -
    have "\<forall>n \<in> set [0..<16]. lower_alnum (hex_digit n)" by code_simp
    then show "n < 16 \<Longrightarrow> lower_alnum (hex_digit n)" by (simp add: atLeast0LessThan)
  qed
  moreover have "unat b div 16 < 16" for b :: byte using unat_byte_less [of b] by (simp add: less_mult_imp_div_less)
  ultimately show ?thesis by (auto simp: hex_string_def list_all_iff)
qed

section \<open>One turn\<close>

lemma check_room_config_cong:
  "version_of n' i = version_of n i \<Longrightarrow> check_room_config E key i s n' = check_room_config E key i s n"
  by (simp only: check_room_config_def)

lemma check_config_ok: "check_room_config E key i s n = Inr cfg \<Longrightarrow> config_ok (ne_signer E) cfg \<and> cfg_RoomID cfg = i"
  by (auto simp: check_room_config_def VerifyRoomConfig_def check_config_None split: sum.splits if_splits option.splits)

lemma stop_unwanted_none: "map_of (dn_rooms n) i = None \<Longrightarrow> map_of (dn_rooms (stop_unwanted url w n)) i = None"
proof -
  have "map_of (dn_rooms n) i = None \<Longrightarrow> map_of (dn_rooms (fold stopLocked ks n)) i = None" for ks n
    by (induction ks arbitrary: n) (simp_all add: stop_rooms delete_conv')
  then show "map_of (dn_rooms n) i = None \<Longrightarrow> map_of (dn_rooms (stop_unwanted url w n)) i = None" by (simp add: stop_unwanted_def)
qed

lemma stop_unwanted_subset:
  "set (dn_rooms (stop_unwanted url w n)) \<subseteq> set (dn_rooms n)"
proof -
  have "set (dn_rooms (fold stopLocked ks n)) \<subseteq> set (dn_rooms n)" for ks
    by (induction ks arbitrary: n) (use stop_rooms in_delete in fastforce)+
  then show ?thesis by (simp add: stop_unwanted_def)
qed


lemma killswitch_rooms: "dn_rooms (updateKillSwitch E st n) = dn_rooms n"
  by (simp add: updateKillSwitch_def Let_def split: prod.splits)

lemma dns_rooms:
  "\<exists>f. dn_rooms (updateDNS E st n) = map (\<lambda>(k, r). (k, r\<lparr>rn_dns := f k\<rparr>)) (dn_rooms n)"
proof -
  obtain own off where "(case st_DNS st of Some c \<Rightarrow> (dc_Servers c, dc_Off c) | None \<Rightarrow> (nc_DNS (ne_config E), False)) = (own, off)"
    by fastforce
  moreover obtain c v where "dns_carrier own off n = (c, v)" by fastforce
  ultimately show ?thesis
    by (intro exI [of _ "\<lambda>k. if k = c then v else []"]) (simp add: updateDNS_def)
qed

lemma dns_room:
  "map_of (dn_rooms (updateDNS E st n)) i = None \<longleftrightarrow> map_of (dn_rooms n) i = None"
  "map_of (dn_rooms n) i = Some r \<Longrightarrow> \<exists>a. map_of (dn_rooms (updateDNS E st n)) i = Some (r\<lparr>rn_dns := a\<rparr>)"
proof -
  obtain f where f: "dn_rooms (updateDNS E st n) = map (\<lambda>(k, r). (k, r\<lparr>rn_dns := f k\<rparr>)) (dn_rooms n)" using dns_rooms by blast
  have m: "map_of (map (\<lambda>(k, r). (k, r\<lparr>rn_dns := f k\<rparr>)) xs) i = map_option (\<lambda>r. r\<lparr>rn_dns := f i\<rparr>) (map_of xs i)" for xs :: "(string \<times> running) list"
    by (induction xs) auto
  show "map_of (dn_rooms (updateDNS E st n)) i = None \<longleftrightarrow> map_of (dn_rooms n) i = None"
    "map_of (dn_rooms n) i = Some r \<Longrightarrow> \<exists>a. map_of (dn_rooms (updateDNS E st n)) i = Some (r\<lparr>rn_dns := a\<rparr>)"
    by (auto simp: f m)
qed

lemma stop_keys: "rb_key ` set (ms_rooms (dn_sock (stop_unwanted url w n))) \<subseteq> rb_key ` set (ms_rooms (dn_sock n))"
proof -
  have 1: "rb_key ` set (ms_rooms (dn_sock (stopLocked k n))) \<subseteq> rb_key ` set (ms_rooms (dn_sock n))" for k n
    by (auto simp: stopLocked_def Let_def stopGossip_def ms_Unbind_def split: option.splits)
  have "rb_key ` set (ms_rooms (dn_sock (fold stopLocked ks n))) \<subseteq> rb_key ` set (ms_rooms (dn_sock n))" for ks
  proof (induction ks arbitrary: n)
    case (Cons k ks)
    show ?case using order_trans [OF Cons.IH [of "stopLocked k n"] 1] by simp
  qed simp
  then show ?thesis by (simp add: stop_unwanted_def)
qed

lemma stop_unwanted_signed: "dn_signed (stop_unwanted url w n) = dn_signed n" "dn_versions (stop_unwanted url w n) = dn_versions n"
proof -
  have "dn_signed (fold stopLocked ks n) = dn_signed n \<and> dn_versions (fold stopLocked ks n) = dn_versions n" for ks
    by (induction ks arbitrary: n) (simp_all add: stop_signed)
  then show "dn_signed (stop_unwanted url w n) = dn_signed n" "dn_versions (stop_unwanted url w n) = dn_versions n"
    by (simp_all add: stop_unwanted_def)
qed

lemma settings_signed:
  "dn_signed (updateDNS E st (updateKillSwitch E st' n)) = dn_signed n" "dn_versions (updateDNS E st (updateKillSwitch E st' n)) = dn_versions n"
  by (simp_all add: updateDNS_def updateKillSwitch_def Let_def split: prod.splits)

lemma start_new_signed: "dn_signed (start_new E url i rc n) = dn_signed n" "dn_versions (start_new E url i rc n) = dn_versions n"
  by (simp_all add: start_new_def start_signed split: sum.splits)

lemma length_stop: "length (dn_rooms (stop_unwanted url w n)) \<le> length (dn_rooms n)"
proof -
  have "length (dn_rooms (fold stopLocked ks n)) \<le> length (dn_rooms n)" for ks
  proof (induction ks arbitrary: n)
    case (Cons k ks)
    show ?case
      using order_trans [OF Cons.IH [of "stopLocked k n"]] length_delete_le [of k "dn_rooms n"] by (simp add: stop_rooms)
  qed simp
  then show ?thesis by (simp add: stop_unwanted_def)
qed

lemma map_order_single [simp]: "map_order E [x] = [x]"
  by (simp add: map_order_def)

text \<open>A room starts when its subnet and its tag are free.\<close>

lemma start_new_runs:
  assumes rc: "config_room E rs nm cfg exit m = Some rc" "config_usable (ne_me E) cfg" "config_ok (ne_signer E) cfg" "cfg_RoomID cfg = i"
    and free: "\<forall>(k, r) \<in> set (dn_rooms n). \<not> overlaps (room_net (rn_cfg r)) (room_net rc)"
      "TagKey (Derive (sg_hkdf (ne_signer E)) (cfg_Secret cfg)) \<notin> rb_key ` set (ms_rooms (dn_sock n))"
      "length (dn_rooms n) < 900000" and up: "\<forall>rc. ne_up E rc"
  shows "\<exists>r. map_of (dn_rooms (start_new E url i rc n)) i = Some r \<and> rn_controller r = url \<and> from_config (ne_me E) cfg (rn_cfg r)"
proof -
  let ?nam = "ifname (ne_unicode E) (map (\<lambda>(_, r). rc_Name (rn_cfg r)) (dn_rooms n)) i (rc_Name rc)"
  let ?rc = "rc\<lparr>rc_Name := ?nam\<rparr>"
  have "i = hex_string (sg_hkdf (ne_signer E) (cfg_Secret cfg) ''room-id'' 16)"
    using rc(3,4) by (simp add: config_ok_def RoomID_def)
  then have "list_all lower_alnum i" by (simp add: hex_lower)
  then have "roomNameRe ?nam" using ifname_fresh [of i "map (\<lambda>(_, r). rc_Name (rn_cfg r)) (dn_rooms n)"] free(3) by simp
  from config_room_valid [OF rc(1-3) this] have v: "ValidateRoom ?rc = Inr ?rc" .
  have src: "from_config (ne_me E) cfg rc" by (rule config_room_from [OF rc(1)])
  then have "rc_Secret ?rc = cfg_Secret cfg" by (simp add: from_config_def)
  moreover have "\<not> list_ex (\<lambda>(_, r). overlaps (room_net (rn_cfg r)) (room_net ?rc)) (dn_rooms n)"
    using free(1) by (auto simp: list_ex_iff room_net_def)
  moreover have "\<not> list_ex (\<lambda>b. rb_key b = TagKey (Derive (sg_hkdf (ne_signer E)) (cfg_Secret cfg))) (ms_rooms (dn_sock n))"
    using free(2) unfolding list_ex_iff by (metis imageI)
  ultimately have "map_of (dn_rooms (start_new E url i rc n)) i =
      Some \<lparr>rn_tagKey = TagKey (Derive (sg_hkdf (ne_signer E)) (cfg_Secret cfg)), rn_controller = url, rn_cfg = ?rc, rn_dns = []\<rparr>"
    using v up by (simp add: start_new_def startLocked_def Let_def ms_Bind_def update_conv')
  moreover have "from_config (ne_me E) cfg ?rc" using src by (simp add: from_config_def)
  ultimately show ?thesis by simp
qed

text \<open>A netmap with one room whose configuration verifies with the pinned key, is not older than the accepted one, is usable and
  lists this node brings the room up, when its subnet and its tag are free.\<close>

lemma netmap_starts_room:
  assumes nm: "nm_Rooms nm = [rs]" "rs_Status rs = StatusActive" "rs_Config rs = Some s" "rs_RoomID rs = i"
    and pin: "state_RoomKey url i st = Some key" "\<not> IsOff i st" and chk: "check_room_config E key i s n = Inr cfg"
    and cfg: "ne_me E \<in> rmem_NodeID ` set (cfg_Members cfg)" "config_usable (ne_me E) cfg"
    and free: "map_of (dn_rooms n) i = None" "length (dn_rooms n) < 900000"
      "TagKey (Derive (sg_hkdf (ne_signer E)) (cfg_Secret cfg)) \<notin> rb_key ` set (ms_rooms (dn_sock n))"
      "\<forall>(k, r) \<in> set (dn_rooms n). \<forall>m \<in> set (cfg_Members cfg).
         \<not> overlaps (room_net (rn_cfg r)) (masked (prefix_from (rmem_IP m) (pfx_bits (cfg_Subnet cfg))))"
    and up: "\<forall>rc. ne_up E rc"
  shows "\<exists>r. map_of (dn_rooms (apply_netmap E st url nm n)) i = Some r \<and> rn_controller r = url \<and> from_config (ne_me E) cfg (rn_cfg r) \<and>
    version_of (apply_netmap E st url nm n) i = cfg_Version cfg \<and>
    (version_of n i < cfg_Version cfg \<longrightarrow> map_of (dn_signed (apply_netmap E st url nm n)) i = Some s)"
proof -
  let ?n1 = "n\<lparr>dn_last := AList.update url nm (dn_last n), dn_pending := AList.delete i (dn_pending n)\<rparr>"
  let ?n2 = "accept_config i s cfg ?n1"
  obtain rc where rc: "config_room E rs nm cfg (st_Exit st) ?n2 = Some rc"
    using cfg(1) config_room_None [of E rs nm cfg "st_Exit st" ?n2] by (cases "config_room E rs nm cfg (st_Exit st) ?n2") auto
  have chk1: "check_room_config E key i s ?n1 = Inr cfg"
    using chk check_room_config_cong [of ?n1 i n] by (simp add: version_of_def)
  obtain act where f: "fold (apply_room E st url nm) (nm_Rooms nm) ([], [], n\<lparr>dn_last := AList.update url nm (dn_last n)\<rparr>) = ([(i, rc)], act, ?n2)"
    using pin chk1 rc by (simp add: nm apply_room_def roomFromConfig_def Let_def)
  define n3 where "n3 = stop_unwanted url [i] (tell_disco E url nm act ?n2)"
  have t: "dn_rooms (tell_disco E url nm act ?n2) = dn_rooms n" "dn_sock (tell_disco E url nm act ?n2) = dn_sock n"
    by (simp_all add: tell_disco_def split: option.splits)
  have n3: "map_of (dn_rooms n3) i = None" "set (dn_rooms n3) \<subseteq> set (dn_rooms n)" "length (dn_rooms n3) < 900000"
    "rb_key ` set (ms_rooms (dn_sock n3)) \<subseteq> rb_key ` set (ms_rooms (dn_sock n))"
    using stop_unwanted_none [of "tell_disco E url nm act ?n2" i url "[i]"] stop_unwanted_subset [of url "[i]" "tell_disco E url nm act ?n2"]
      stop_keys [of url "[i]" "tell_disco E url nm act ?n2"] length_stop [of url "[i]" "tell_disco E url nm act ?n2"] free t
    by (simp_all add: n3_def)
  have ok: "config_ok (ne_signer E) cfg" "cfg_RoomID cfg = i" using check_config_ok [OF chk] by simp_all
  obtain m where "m \<in> set (cfg_Members cfg)" "rc_Address rc = prefix_from (rmem_IP m) (pfx_bits (cfg_Subnet cfg))"
    using config_room_from [OF rc] by (auto simp: from_config_def)
  then have "\<forall>(k, r) \<in> set (dn_rooms n3). \<not> overlaps (room_net (rn_cfg r)) (room_net rc)"
    using free(4) n3(2) by (fastforce simp: room_net_def)
  then obtain r where "map_of (dn_rooms (start_new E url i rc n3)) i = Some r" "rn_controller r = url" "from_config (ne_me E) cfg (rn_cfg r)"
    using start_new_runs [OF rc cfg(2) ok _ _ n3(3) up] free(3) n3(4) by blast
  moreover have a: "apply_netmap E st url nm n = updateDNS E st (updateKillSwitch E st (start_new E url i rc n3))"
    using n3(1) by (simp add: apply_netmap_def f Let_def update_room_def flip: n3_def)
  moreover have "dn_signed (apply_netmap E st url nm n) = dn_signed ?n2" "dn_versions (apply_netmap E st url nm n) = dn_versions ?n2"
    unfolding a settings_signed start_new_signed n3_def stop_unwanted_signed by (simp_all add: tell_disco_def split: option.splits)
  moreover from this(2) have "version_of (apply_netmap E st url nm n) i = cfg_Version cfg"
    using accept_version [of i s cfg ?n1 i] by (simp add: version_of_def)
  moreover have "version_of n i < cfg_Version cfg \<longrightarrow> map_of (dn_signed ?n2) i = Some s"
    by (simp add: accept_config_def Let_def update_conv' version_of_def)
  ultimately show ?thesis
    using dns_room(2) [of "updateKillSwitch E st (start_new E url i rc n3)" i r E st] by (auto simp: killswitch_rooms)
qed

section \<open>Revocation\<close>

text \<open>What a netmap says of a room that this node has no part in (any more): it is not pinned here or turned off, the membership is
  pending or banned, no configuration came with it, or the configuration is signed, not older than the accepted one, and
  does not list this node.\<close>

definition not_ours :: "node_env \<Rightarrow> state \<Rightarrow> string \<Rightarrow> daemon \<Rightarrow> room_state \<Rightarrow> bool" where
  "not_ours E st url n rs \<longleftrightarrow> (let i = rs_RoomID rs in
     state_RoomKey url i st = None \<or> IsOff i st \<or> rs_Status rs \<noteq> StatusActive \<or>
     rs_Config rs = None \<and> \<not> has_prefix url localPrefix \<or>
     (\<exists>s key cfg. rs_Config rs = Some s \<and> state_RoomKey url i st = Some key \<and> check_room_config E key i s n = Inr cfg \<and>
        ne_me E \<notin> rmem_NodeID ` set (cfg_Members cfg)))"

lemma want_keys: "fst ` set (want k n d) \<subseteq> insert k (fst ` set d)"
  by (auto simp: want_def dom_update split: option.splits)

lemma version_pending [simp]: "version_of (n\<lparr>dn_pending := p\<rparr>) i = version_of n i" "version_of (n\<lparr>dn_last := l\<rparr>) i = version_of n i"
  by (simp_all add: version_of_def)

lemma roomFromConfig_version:
  "i \<noteq> rs_RoomID rs \<Longrightarrow> version_of (snd (roomFromConfig E key rs s nm ex n)) i = version_of n i"
  by (simp add: roomFromConfig_def accept_version Let_def split: sum.splits)

lemma apply_room_other:
  assumes "apply_room E st url nm rs (d, act, m) = (d', act', m')" "rs_RoomID rs \<noteq> i"
  shows "(i \<in> fst ` set d' \<longrightarrow> i \<in> fst ` set d) \<and> version_of m' i = version_of m i"
proof -
  let ?i = "rs_RoomID rs" and ?m = "m\<lparr>dn_pending := AList.delete (rs_RoomID rs) (dn_pending m)\<rparr>"
  have w: "i \<in> fst ` set (want ?i n d) \<Longrightarrow> i \<in> fst ` set d" for n
    using want_keys [of ?i n d] assms(2) by (simp only: subset_iff insert_iff) metis
  have v: "i \<in> fst ` set (AList.update ?i rc d) \<Longrightarrow> i \<in> fst ` set d" for rc using assms(2) by (simp add: dom_update)
  show ?thesis
  proof (cases "\<exists>key s. state_RoomKey url ?i st = Some key \<and> \<not> IsOff ?i st \<and> rs_Status rs = StatusActive \<and> rs_Config rs = Some s")
    case True
    then obtain key s where k: "state_RoomKey url ?i st = Some key" "\<not> IsOff ?i st" "rs_Status rs = StatusActive" "rs_Config rs = Some s"
      by blast
    obtain x m'' where x: "roomFromConfig E key rs s nm (st_Exit st) ?m = (x, m'')" by fastforce
    then have "version_of m'' i = version_of m i"
      using roomFromConfig_version [of i rs E key s nm "st_Exit st" ?m] assms(2) by auto
    moreover have "m' = m''" "(\<exists>n. d' = want ?i n d) \<or> d' = d \<or> (\<exists>rc. d' = AList.update ?i rc d)"
      using assms(1) k x by (auto simp: apply_room_def Let_def split: sum.splits prod.splits option.splits)
    ultimately show ?thesis using w v by blast
  next
    case False
    then have "version_of m' i = version_of m i" "d' = d \<or> (\<exists>n. d' = want ?i n d)"
      using assms(1) by (auto simp: apply_room_def Let_def split: option.splits if_splits status.splits)
    then show ?thesis using w by blast
  qed
qed

lemma apply_room_not_ours:
  assumes "apply_room E st url nm rs (d, act, m) = (d', act', m')" "not_ours E st url n rs"
    and "version_of m (rs_RoomID rs) = version_of n (rs_RoomID rs)"
  shows "d' = d"
proof -
  let ?i = "rs_RoomID rs"
  let ?m = "m\<lparr>dn_pending := AList.delete ?i (dn_pending m)\<rparr>"
  have c: "check_room_config E key ?i s ?m = check_room_config E key ?i s n" for key s
    using assms(3) by (intro check_room_config_cong) simp
  show ?thesis
    using assms(1,2) by (auto simp: not_ours_def apply_room_def Let_def roomFromConfig_def c config_room_None [THEN iffD2]
        split: option.splits status.splits if_splits)
qed

lemma apply_rooms_skip:
  assumes "\<forall>rs \<in> set l. rs_RoomID rs = i \<longrightarrow> not_ours E st url n rs" "distinct (map rs_RoomID l)"
    and "fold (apply_room E st url nm) l (d, act, m) = (d', act', m')" "i \<notin> fst ` set d"
    and "i \<in> rs_RoomID ` set l \<longrightarrow> version_of m i = version_of n i"
  shows "i \<notin> fst ` set d'"
  using assms
proof (induction l arbitrary: d act m)
  case (Cons rs l)
  obtain d1 a1 m1 where 1: "apply_room E st url nm rs (d, act, m) = (d1, a1, m1)" by (metis prod_cases3)
  have f: "fold (apply_room E st url nm) l (d1, a1, m1) = (d', act', m')" using Cons.prems(3) 1 by simp
  show ?case
  proof (cases "rs_RoomID rs = i")
    case True
    then have "not_ours E st url n rs" "version_of m (rs_RoomID rs) = version_of n (rs_RoomID rs)" using Cons.prems(1,5) by auto
    from apply_room_not_ours [OF 1 this] have "d1 = d" .
    moreover have "i \<notin> rs_RoomID ` set l" using Cons.prems(2) True by auto
    ultimately show ?thesis using Cons.IH [OF _ _ f] Cons.prems(1,2,4) by auto
  next
    case False
    then show ?thesis using Cons.IH [OF _ _ f] Cons.prems(1,2,4,5) apply_room_other [OF 1 False] by auto
  qed
qed simp

lemma stop_unwanted_controller:
  assumes "(k, r) \<in> set (dn_rooms (stop_unwanted url w n))" "rn_controller r = url"
  shows "k \<in> set w"
proof (rule ccontr)
  assume k: "k \<notin> set w"
  have s: "set (dn_rooms (fold stopLocked ks m)) = {x \<in> set (dn_rooms m). fst x \<notin> set ks}" for ks m
    by (induction ks arbitrary: m) (auto simp: stop_rooms AList.delete_eq)
  have "k \<in> set (map fst (filter (\<lambda>(k, r). rn_controller r = url \<and> k \<notin> set w) (dn_rooms n)))"
    using assms k by (force simp: stop_unwanted_def s)
  then show False using assms by (simp add: stop_unwanted_def s)
qed

lemma startLocked_other: "i \<noteq> j \<Longrightarrow> map_of (dn_rooms (snd (startLocked E j url rc n))) i = map_of (dn_rooms n) i"
  by (auto simp: startLocked_def Let_def update_conv' split: sum.splits)

lemma start_new_other: "i \<noteq> j \<Longrightarrow> map_of (dn_rooms (start_new E url j rc n)) i = map_of (dn_rooms n) i"
  by (simp add: start_new_def startLocked_other split: sum.splits)

lemma update_room_other:
  assumes "i \<noteq> j"
  shows "map_of (dn_rooms (update_room E url (j, rc) n)) i = map_of (dn_rooms n) i"
  using assms by (auto simp: update_room_def Let_def start_new_other stop_rooms delete_conv' update_conv' split: option.splits)

text \<open>A room that is not this node's any more does not run under that controller after the netmap.\<close>

lemma apply_rooms_rooms:
  "fold (apply_room E st url nm) l (d, act, m) = (d', act', m') \<Longrightarrow> dn_rooms m' = dn_rooms m"
proof (induction l arbitrary: d act m)
  case (Cons rs l)
  obtain d1 a1 m1 where 1: "apply_room E st url nm rs (d, act, m) = (d1, a1, m1)" by (metis prod_cases3)
  then have "dn_rooms m1 = dn_rooms m"
    by (auto simp: apply_room_def Let_def roomFromConfig_def split: option.splits status.splits if_splits sum.splits)
  then show ?case using Cons.IH [of d1 a1 m1] Cons.prems 1 by simp
qed simp

lemma unwanted_room_stops:
  assumes "distinct (map rs_RoomID (nm_Rooms nm))" "\<forall>rs \<in> set (nm_Rooms nm). rs_RoomID rs = i \<longrightarrow> not_ours E st url n rs"
    and "map_of (dn_rooms (apply_netmap E st url nm n)) i = Some r"
  shows "rn_controller r \<noteq> url \<and> (\<exists>r0. (i, r0) \<in> set (dn_rooms n) \<and> rn_controller r0 = rn_controller r)"
proof -
  obtain d act m where f: "fold (apply_room E st url nm) (nm_Rooms nm) ([], [], n\<lparr>dn_last := AList.update url nm (dn_last n)\<rparr>) = (d, act, m)"
    by (metis prod_cases3)
  have d: "i \<notin> fst ` set d" by (rule apply_rooms_skip [OF assms(2,1) f]) simp_all
  define n3 where "n3 = stop_unwanted url (map fst d) (tell_disco E url nm act m)"
  have u: "\<forall>x \<in> set xs. fst x \<noteq> i \<Longrightarrow> map_of (dn_rooms (fold (update_room E url) xs n)) i = map_of (dn_rooms n) i" for xs n
    by (induction xs arbitrary: n) (use update_room_other in fastforce)+
  have "\<forall>x \<in> set (map_order E d). fst x \<noteq> i" using d by auto
  note u [OF this, of n3]
  moreover define n4 where "n4 = updateKillSwitch E st (fold (update_room E url) (map_order E d) n3)"
  ultimately have n4: "map_of (dn_rooms n4) i = map_of (dn_rooms n3) i" by (simp add: killswitch_rooms)
  have a: "apply_netmap E st url nm n = updateDNS E st n4" by (simp add: apply_netmap_def f Let_def n3_def n4_def)
  obtain r0 where r0: "map_of (dn_rooms n4) i = Some r0"
    using assms(3) dns_room(1) [of E st n4 i] by (cases "map_of (dn_rooms n4) i") (auto simp: a)
  have "rn_controller r = rn_controller r0" using dns_room(2) [OF r0, of E st] assms(3) by (auto simp: a)
  moreover have r3: "(i, r0) \<in> set (dn_rooms n3)" using r0 n4 by (simp add: map_of_SomeD)
  moreover have "(i, r0) \<in> set (dn_rooms n)"
    using r3 stop_unwanted_subset [of url "map fst d" "tell_disco E url nm act m"] apply_rooms_rooms [OF f]
    by (auto simp: n3_def tell_disco_def split: option.splits)
  ultimately show ?thesis using stop_unwanted_controller [of i r0 url "map fst d"] d by (auto simp: n3_def)
qed

text \<open>C16: A member that was removed stops taking part although the controller is out of reach: when a peer passes on a configuration of
  the room that verifies with the pinned key, is not older than the accepted one and does not list this
  node, the room no longer runs after it is applied.\<close>

theorem gossip_revokes:
  assumes "map_of (dn_rooms n) i = Some r" "rn_controller r = url" "url \<noteq> []" "distinct (map fst (dn_rooms n))"
    and "map_of (dn_last n) url = Some nm" "i \<in> rs_RoomID ` set (nm_Rooms nm)" "distinct (map rs_RoomID (nm_Rooms nm))"
    and "state_RoomKey url i st = Some key" "check_room_config E key i s n = Inr cfg" "ne_me E \<notin> rmem_NodeID ` set (cfg_Members cfg)"
  shows "fst (applyGossip E st i s n) = None \<and> map_of (dn_rooms (snd (applyGossip E st i s n))) i = None"
proof -
  let ?nm = "gossip_netmap i s nm"
  have ids: "map rs_RoomID (nm_Rooms ?nm) = map rs_RoomID (nm_Rooms nm)" by (simp add: gossip_netmap_def)
  have no: "\<forall>rs \<in> set (nm_Rooms ?nm). rs_RoomID rs = i \<longrightarrow> not_ours E st url n rs"
  proof (intro ballI impI)
    fix rs assume rs: "rs \<in> set (nm_Rooms ?nm)" and i: "rs_RoomID rs = i"
    from rs have "\<exists>rs0 \<in> set (nm_Rooms nm). rs = (if rs_RoomID rs0 = i then rs0\<lparr>rs_Config := Some s, rs_Status := StatusActive\<rparr> else rs0)"
      by (simp add: gossip_netmap_def image_iff) (metis (lifting) IntE mem_Collect_eq)
    then obtain rs0 where "rs = (if rs_RoomID rs0 = i then rs0\<lparr>rs_Config := Some s, rs_Status := StatusActive\<rparr> else rs0)" ..
    then have "rs_Config rs = Some s" using i by (cases "rs_RoomID rs0 = i") simp_all
    then show "not_ours E st url n rs" unfolding not_ours_def Let_def i using assms(8-10) by blast
  qed
  have "map_of (dn_rooms (apply_netmap E st url ?nm n)) i = None"
  proof (rule ccontr)
    assume "map_of (dn_rooms (apply_netmap E st url ?nm n)) i \<noteq> None"
    then obtain r' where "map_of (dn_rooms (apply_netmap E st url ?nm n)) i = Some r'" by auto
    from unwanted_room_stops [OF _ no this] assms(7) ids obtain r0 where
      "rn_controller r' \<noteq> url" "(i, r0) \<in> set (dn_rooms n)" "rn_controller r0 = rn_controller r'" by auto
    moreover from this(2) have "r0 = r" using eq_key_imp_eq_value [OF assms(4) _ map_of_SomeD [OF assms(1)]] by blast
    ultimately show False using assms(2) by simp
  qed
  moreover have "applyGossip E st i s n = (None, apply_netmap E st url ?nm n)"
    using assms(1-3,5,6) by (auto simp: applyGossip_def list_ex_iff)
  ultimately show ?thesis by simp
qed

section \<open>What holds at any time\<close>



text \<open>C14: No rollback: from any state on, whatever arrives, the accepted version of a room never decreases; and in a run from the
  start, the configuration a node passes on to its peers verifies with a key pinned for the room
  and is the one of the accepted version.\<close>

theorem no_rollback:
  assumes "same_node S me es" "ne_signer E0 = S" "distinct (map rc_Name rcs)"
    and "n = run dn_step es (snd (start_static E0 rcs (new_daemon p d)))"
  shows "version_of m i \<le> version_of (run dn_step es' m) i \<and>
    (gossip_answer i n = Some s \<longrightarrow> (\<exists>key pub cfg. pinned_in es i key \<and> ParseRoomKey key = Inr pub \<and>
       VerifyRoomConfig S pub s = Inr cfg \<and> cfg_RoomID cfg = i \<and> cfg_Version cfg = version_of n i))"
proof
  show "version_of m i \<le> version_of (run dn_step es' m) i" by (rule dn_version.run_inv) simp_all
  have "signed_inv S (pinned_in es) n" using daemon_run_inv [OF assms(1-3), of p d] assms(4) by (simp add: daemon_inv_def)
  then show "gossip_answer i n = Some s \<longrightarrow> (\<exists>key pub cfg. pinned_in es i key \<and> ParseRoomKey key = Inr pub \<and>
       VerifyRoomConfig S pub s = Inr cfg \<and> cfg_RoomID cfg = i \<and> cfg_Version cfg = version_of n i)"
    unfolding signed_inv_def gossip_answer_def verified_def by blast
qed

section \<open>Two exits\<close>

text \<open>Whether another room carries the internet traffic is asked of the running rooms only, and a netmap's rooms are all computed before
  the first of them is started: of two rooms whose admins picked an exit for this node, both carry the
  traffic after one netmap, and neither after the next.\<close>

lemma exitPeer_picked:
  assumes "rs_UseExit rs \<noteq> []" "exit_candidate (ne_me E) [] (rs_UseExit rs) (cfg_Members cfg) \<noteq> []"
  shows "exitPeer E None rs cfg n \<noteq> [] \<longleftrightarrow> (\<forall>(k, r) \<in> set (dn_rooms n). k = rs_RoomID rs \<or> \<not> rc_Exit (rn_cfg r))"
  using assms by (auto simp: exitPeer_def Let_def list_ex_iff)

lemma two_exits_flap:
  assumes "rs_UseExit rs \<noteq> []" "exit_candidate (ne_me E) [] (rs_UseExit rs) (cfg_Members cfg) \<noteq> []"
    and "rs_UseExit rs' \<noteq> []" "exit_candidate (ne_me E) [] (rs_UseExit rs') (cfg_Members cfg') \<noteq> []"
    and "rs_RoomID rs \<noteq> rs_RoomID rs'" "\<forall>(k, r) \<in> set (dn_rooms n). \<not> rc_Exit (rn_cfg r)"
    and "(rs_RoomID rs, r1) \<in> set (dn_rooms n')" "rc_Exit (rn_cfg r1)" "(rs_RoomID rs', r2) \<in> set (dn_rooms n')" "rc_Exit (rn_cfg r2)"
  shows "exitPeer E None rs cfg n \<noteq> [] \<and> exitPeer E None rs' cfg' n \<noteq> [] \<and>
    exitPeer E None rs cfg n' = [] \<and> exitPeer E None rs' cfg' n' = []"
proof -
  note p = exitPeer_picked [OF assms(1,2)] exitPeer_picked [OF assms(3,4)]
  have "\<not> (\<forall>(k, r) \<in> set (dn_rooms n'). k = rs_RoomID rs \<or> \<not> rc_Exit (rn_cfg r))"
    "\<not> (\<forall>(k, r) \<in> set (dn_rooms n'). k = rs_RoomID rs' \<or> \<not> rc_Exit (rn_cfg r))"
    using assms(5,7-10) by fastforce+
  then have "exitPeer E None rs cfg n' = []" "exitPeer E None rs' cfg' n' = []" using p [of n'] by blast+
  then show ?thesis using p [of n] assms(6) by blast
qed

section \<open>Concrete runs\<close>

text \<open>A room of nodes \<open>a\<close> (this one) and \<open>b\<close>, an approved exit; in its second version \<open>b\<close> alone is left.\<close>

definition demo_secret :: bytes where "demo_secret = replicate 32 7"

definition demo_room_id :: string where "demo_room_id = RoomID (\<lambda>s l n. take n (s @ replicate n 0)) demo_secret"

definition demo_member :: "string \<Rightarrow> byte \<Rightarrow> room_member" where
  "demo_member i x = \<lparr>rmem_NodeID = i, rmem_Name = i, rmem_WGKey = replicate 32 x, rmem_IP = V4 (0x0A640100 OR ucast x), rmem_Tags = [],
     rmem_Routes = [], rmem_Exit = (x = 2), rmem_ExitDNS = False, rmem_Admin = False\<rparr>"

definition demo_config :: "int \<Rightarrow> room_config" where
  "demo_config v = \<lparr>cfg_RoomID = demo_room_id, cfg_Name = ''home'', cfg_Subnet = \<lparr>pfx_addr = V4 0x0A640100, pfx_bits = 24\<rparr>,
     cfg_Secret = demo_secret, cfg_Version = v, cfg_IssuedAt = 0,
     cfg_Members = (if v = 1 then [demo_member ''a'' 1, demo_member ''b'' 2] else [demo_member ''b'' 2]),
     cfg_Broadcast = ''on'', cfg_DNS = [], cfg_ACL = [], cfg_DHT = False\<rparr>"

definition demo_signer :: signer where
  "demo_signer = sample_signer\<lparr>sg_hkdf := (\<lambda>s l n. take n (s @ replicate n 0)), cfg_marshal := (\<lambda>c. [word_of_int (cfg_Version c)]),
     cfg_unmarshal := (\<lambda>b. case b of [x] \<Rightarrow> Some (demo_config (uint x)) | _ \<Rightarrow> None)\<rparr>"

definition demo_env :: node_env where
  "demo_env = \<lparr>ne_config = sample_node_config, ne_me = ''a'', ne_signer = demo_signer, ne_unicode = plain_tables, ne_prefixes = [],
     ne_now = 0, ne_relay = [], ne_up = (\<lambda>_. True), ne_setPeers = (\<lambda>_. True), ne_setKillSwitch = True, ne_order = (\<lambda>xs. xs)\<rparr>"

definition demo_state :: state where
  "demo_state = Pin ''https://c'' demo_room_id (RoomKeyString (replicate 32 5)) empty_state"

definition demo_signed :: "int \<Rightarrow> signed" where
  "demo_signed v = SignRoomConfig demo_signer (replicate 32 5) (demo_config v)"

definition demo_netmap :: "int \<Rightarrow> netmap" where
  "demo_netmap v = \<lparr>nm_Version = v, nm_ObservedIP = NoAddr,
     nm_Rooms = [\<lparr>rs_RoomID = demo_room_id, rs_Status = StatusActive, rs_Config = Some (demo_signed v), rs_UseExit = []\<rparr>], nm_Peers = []\<rparr>"

definition demo_start :: daemon where
  "demo_start = snd (start_static demo_env [] (new_daemon 7 None))"

definition demo_events :: "dn_event list" where
  "demo_events = [DApply demo_env demo_state ''https://c'' (demo_netmap 1)]"

lemma demo_key: "ParseRoomKey (RoomKeyString (replicate 32 5)) = Inr (replicate 32 5)"
  by (simp add: ParseRoomKey_def RoomKeyString_def b64url_decode_encode)

lemma demo_pin: "state_RoomKey ''https://c'' demo_room_id demo_state = Some (RoomKeyString (replicate 32 5))" "\<not> IsOff demo_room_id demo_state"
  by (code_simp, simp add: demo_state_def Pin_def IsOff_def empty_state_def)

lemma demo_check_config: "check_config demo_signer (demo_config 1) = None" "check_config demo_signer (demo_config 2) = None"
  by code_simp+

lemma demo_unmarshal: "cfg_unmarshal demo_signer [1] = Some (demo_config 1)" "cfg_unmarshal demo_signer [2] = Some (demo_config 2)"
  by (simp_all add: demo_signer_def)

lemma demo_verify:
  "VerifyRoomConfig demo_signer (replicate 32 5) (demo_signed 1) = Inr (demo_config 1)"
  "VerifyRoomConfig demo_signer (replicate 32 5) (demo_signed 2) = Inr (demo_config 2)"
proof -
  have "ed_verify demo_signer (replicate 32 5) m (ed_sign demo_signer (replicate 32 5) m)" for m
    by (simp add: demo_signer_def sample_signer_def)
  moreover have "cfg_marshal demo_signer (demo_config 1) = [1]" "cfg_marshal demo_signer (demo_config 2) = [2]"
    by (simp_all add: demo_signer_def demo_config_def)
  ultimately show "VerifyRoomConfig demo_signer (replicate 32 5) (demo_signed 1) = Inr (demo_config 1)"
    "VerifyRoomConfig demo_signer (replicate 32 5) (demo_signed 2) = Inr (demo_config 2)"
    by (simp_all add: VerifyRoomConfig_def demo_signed_def SignRoomConfig_def Let_def demo_unmarshal demo_check_config)
qed

lemma demo_check:
  "version_of n demo_room_id \<le> 1 \<Longrightarrow> check_room_config demo_env (RoomKeyString (replicate 32 5)) demo_room_id (demo_signed 1) n = Inr (demo_config 1)"
  "version_of n demo_room_id \<le> 2 \<Longrightarrow> check_room_config demo_env (RoomKeyString (replicate 32 5)) demo_room_id (demo_signed 2) n = Inr (demo_config 2)"
  by (simp_all add: check_room_config_def demo_key demo_verify demo_env_def) (simp_all add: demo_config_def)

text \<open>The room of the first version comes up on a node that runs nothing.\<close>

lemma demo_runs:
  "\<exists>r. map_of (dn_rooms (run dn_step demo_events demo_start)) demo_room_id = Some r \<and> from_config ''a'' (demo_config 1) (rn_cfg r) \<and>
     version_of (run dn_step demo_events demo_start) demo_room_id = 1 \<and> gossip_answer demo_room_id (run dn_step demo_events demo_start) = Some (demo_signed 1)"
proof -
  let ?rs = "\<lparr>rs_RoomID = demo_room_id, rs_Status = StatusActive, rs_Config = Some (demo_signed 1), rs_UseExit = []\<rparr>"
  have v: "version_of (new_daemon 7 None) demo_room_id = 0" by (simp add: version_of_def new_daemon_def)
  have u: "config_usable (ne_me demo_env) (demo_config 1)"
    by (simp add: config_usable_def demo_config_def demo_secret_def demo_member_def demo_env_def)
  have m: "ne_me demo_env \<in> rmem_NodeID ` set (cfg_Members (demo_config 1))"
    by (simp add: demo_env_def demo_config_def demo_member_def)
  have n: "map_of (dn_rooms (new_daemon 7 None)) demo_room_id = None" "length (dn_rooms (new_daemon 7 None)) < 900000"
    "tag \<notin> rb_key ` set (ms_rooms (dn_sock (new_daemon 7 None)))" "\<forall>(k, r) \<in> set (dn_rooms (new_daemon 7 None)). Q r" for tag Q
    by (simp_all add: new_daemon_def ms_Listen_def)
  have up: "\<forall>rc. ne_up demo_env rc" by (simp add: demo_env_def)
  have nm: "nm_Rooms (demo_netmap 1) = [?rs]" by (simp add: demo_netmap_def)
  have "check_room_config demo_env (RoomKeyString (replicate 32 5)) demo_room_id (demo_signed 1) (new_daemon 7 None) = Inr (demo_config 1)"
    using v by (intro demo_check) simp
  note netmap_starts_room [OF nm _ _ _ demo_pin this m u n up]
  moreover have "ne_me demo_env = ''a''" "cfg_Version (demo_config 1) = 1" by (simp_all add: demo_env_def demo_config_def)
  ultimately show ?thesis by (auto simp: demo_events_def demo_start_def v gossip_answer_def)
qed

lemma demo_same: "same_node demo_signer ''a'' demo_events"
  by (simp add: same_node_def demo_events_def) (simp add: demo_env_def)


theorem no_rollback_witness:
  "\<exists>key pub cfg. pinned_in demo_events demo_room_id key \<and> ParseRoomKey key = Inr pub \<and>
     VerifyRoomConfig demo_signer pub (demo_signed 1) = Inr cfg \<and> cfg_Version cfg = 1"
proof -
  have "gossip_answer demo_room_id (run dn_step demo_events demo_start) = Some (demo_signed 1)"
    "version_of (run dn_step demo_events demo_start) demo_room_id = 1" using demo_runs by auto
  moreover have "ne_signer demo_env = demo_signer" by (simp add: demo_env_def)
  note no_rollback [OF demo_same this _ refl, of "[]" demo_start demo_room_id demo_events 7 None "demo_signed 1"]
  ultimately show ?thesis by (auto simp: demo_start_def)
qed

text \<open>Two rooms of a configuration file.\<close>

definition demo_static :: "byte \<Rightarrow> string \<Rightarrow> rcfg" where
  "demo_static x nam = \<lparr>rc_Name = nam, rc_Secret = replicate 32 x, rc_Address = \<lparr>pfx_addr = V4 (push_bit 8 (ucast x)), pfx_bits = 24\<rparr>,
     rc_MTU = 0, rc_Broadcast = [], rc_Obfuscation = None, rc_Peers = [], rc_Routes = [], rc_Routing = [], rc_Exit = False,
     rc_ExitNode = False, rc_ExitDNS = NoAddr, rc_RoomDNS = [], rc_ZoneName = [], rc_ZoneRecords = [], rc_DHT = False, rc_Policy = None,
     rc_PeerNodes = [], rc_ExitPeer = [], rc_ExitPeers = []\<rparr>"

lemma TagKey_Derive: "TagKey (Derive h s) = h s ''room-tag'' 16"
  by (simp add: Derive_def Let_def)

lemma start_free:
  assumes "\<forall>(k, r) \<in> set (dn_rooms n). \<not> overlaps (room_net (rn_cfg r)) (room_net rc)"
    and "TagKey (Derive (sg_hkdf (ne_signer E)) (rc_Secret rc)) \<notin> rb_key ` set (ms_rooms (dn_sock n))" "ne_up E rc"
  shows "\<exists>n'. startLocked E i url rc n = (None, n') \<and>
    dn_rooms n' = AList.update i \<lparr>rn_tagKey = TagKey (Derive (sg_hkdf (ne_signer E)) (rc_Secret rc)), rn_controller = url, rn_cfg = rc, rn_dns = []\<rparr> (dn_rooms n) \<and>
    map rb_key (ms_rooms (dn_sock n')) = map rb_key (ms_rooms (dn_sock n)) @ [TagKey (Derive (sg_hkdf (ne_signer E)) (rc_Secret rc))]"
proof -
  have "\<not> list_ex (\<lambda>(_, r). overlaps (room_net (rn_cfg r)) (room_net rc)) (dn_rooms n)" using assms(1) by (auto simp: list_ex_iff)
  moreover have "\<not> list_ex (\<lambda>b. rb_key b = TagKey (Derive (sg_hkdf (ne_signer E)) (rc_Secret rc))) (ms_rooms (dn_sock n))"
    using assms(2) unfolding list_ex_iff by (metis imageI)
  ultimately show ?thesis using assms(3) by (simp add: startLocked_def Let_def ms_Bind_def)
qed


text \<open>A node that runs the room in its first version and learns of the second.\<close>

definition demo_running :: daemon where
  "demo_running = (new_daemon 7 None)\<lparr>dn_rooms := [(demo_room_id, \<lparr>rn_tagKey = replicate 16 7, rn_controller = ''https://c'',
       rn_cfg = demo_static 7 ''home'', rn_dns = []\<rparr>)], dn_last := [(''https://c'', demo_netmap 1)], dn_versions := [(demo_room_id, 1)]\<rparr>"

theorem gossip_revokes_witness:
  "map_of (dn_rooms demo_running) demo_room_id \<noteq> None \<and>
   map_of (dn_rooms (snd (applyGossip demo_env demo_state demo_room_id (demo_signed 2) demo_running))) demo_room_id = None"
proof -
  have c: "check_room_config demo_env (RoomKeyString (replicate 32 5)) demo_room_id (demo_signed 2) demo_running = Inr (demo_config 2)"
    by (rule demo_check) (simp add: demo_running_def version_of_def)
  have "ne_me demo_env \<notin> rmem_NodeID ` set (cfg_Members (demo_config 2))"
    by (simp add: demo_env_def demo_config_def demo_member_def)
  note gossip_revokes [OF _ refl _ _ _ _ _ _ c this]
  moreover have "map_of (dn_rooms demo_running) demo_room_id = Some \<lparr>rn_tagKey = replicate 16 7, rn_controller = ''https://c'',
       rn_cfg = demo_static 7 ''home'', rn_dns = []\<rparr>" "distinct (map fst (dn_rooms demo_running))"
    "map_of (dn_last demo_running) ''https://c'' = Some (demo_netmap 1)"
    "demo_room_id \<in> rs_RoomID ` set (nm_Rooms (demo_netmap 1))" "distinct (map rs_RoomID (nm_Rooms (demo_netmap 1)))"
    by (simp_all add: demo_running_def demo_netmap_def)
  ultimately show ?thesis using demo_pin(1) by simp
qed

end
