(* ===== verification/Config_Delivery.thy ===== *)
theory Config_Delivery
  imports Membership
begin

text \<open>
  What nodes get from the controller, and what they make of it: the network map of a node names its
  rooms, the configurations in it pass the check of the node (\<^verbatim>\<open>internal/pki\<close>), list the
  active members of the room, and the peers in it are those the relay would forward to.
\<close>

section \<open>Queries on members\<close>

lemma view_of_mv: "view_of d m = Some v \<Longrightarrow> mv v = m"
  by (auto simp: view_of_def split: option.splits)

lemma map_filter_views:
  assumes "\<forall>m \<in> set ms. mb_NodeID m \<in> nd_ID ` set (db_nodes d)"
  shows "map mv (List.map_filter (view_of d) ms) = ms"
  using assms
proof (induction ms)
  case (Cons m ms)
  then have "List.find (\<lambda>n. nd_ID n = mb_NodeID m) (db_nodes d) \<noteq> None" by (auto simp: find_None_iff)
  then obtain v where "view_of d m = Some v" by (auto simp: view_of_def)
  then show ?case using Cons view_of_mv by (simp add: List.map_filter_simps)
qed (simp add: List.map_filter_simps)

lemma mset_queryMembers:
  assumes "schema_ok d"
  shows "image_mset mv (mset (queryMembers p d)) = mset (filter p (db_members d))"
proof -
  have "\<forall>m \<in> set (filter p (db_members d)). mb_NodeID m \<in> nd_ID ` set (db_nodes d)"
    using assms by (auto simp: schema_ok_def)
  from map_filter_views [OF this] show ?thesis by (simp add: queryMembers_def flip: mset_map mset_filter)
qed

lemma set_queryMembers: "schema_ok d \<Longrightarrow> mv ` set (queryMembers p d) = {m \<in> set (db_members d). p m}"
  using arg_cong [OF mset_queryMembers, of d set_mset p] by simp

lemma ex_queryMembers:
  assumes "schema_ok d"
  shows "(\<exists>v \<in> set (queryMembers p d). P (mv v)) \<longleftrightarrow> (\<exists>m \<in> set (db_members d). p m \<and> P m)"
proof -
  have "(\<exists>v \<in> set (queryMembers p d). P (mv v)) \<longleftrightarrow> (\<exists>m \<in> mv ` set (queryMembers p d). P m)" by blast
  then show ?thesis unfolding set_queryMembers [OF assms] by blast
qed

lemma distinct_queryMembers:
  assumes "schema_ok d" "distinct (map f (filter p (db_members d)))"
  shows "distinct (map (\<lambda>v. f (mv v)) (queryMembers p d))"
proof -
  have "mset (map f (map mv (queryMembers p d))) = mset (map f (filter p (db_members d)))"
    using mset_queryMembers [OF assms(1), of p] by (simp only: mset_map)
  then have "distinct (map f (map mv (queryMembers p d)))" using assms(2) mset_eq_imp_distinct_iff by blast
  then show ?thesis by (simp add: o_def)
qed

lemma members_distinct:
  assumes "schema_ok d"
  shows "distinct (map mb_IP (filter (\<lambda>m. mb_RoomID m = i) (db_members d)))"
    "distinct (map mb_NodeID (filter (\<lambda>m. mb_RoomID m = i) (db_members d)))"
  using assms by (auto simp: schema_ok_def members_ok_def distinct_map inj_on_def)

lemma status_iff:
  assumes "schema_ok d"
  shows "abs_members d (i, n) = Some st \<longleftrightarrow> (\<exists>m \<in> set (db_members d). mb_RoomID m = i \<and> mb_NodeID m = n \<and> mb_Status m = st)"
proof
  assume "abs_members d (i, n) = Some st"
  then show "\<exists>m \<in> set (db_members d). mb_RoomID m = i \<and> mb_NodeID m = n \<and> mb_Status m = st"
    unfolding abs_members_def by (auto dest!: map_of_SomeD)
qed (use abs_members_in [OF assms] in blast)

section \<open>Configurations\<close>

lemma RoomByID_room_ok:
  assumes "db_inv E d" "RoomByID (env_kek E) i d = Inr r"
  shows "rm_ID r = i" "v4_net (rm_Subnet r)" "length (rm_Secret r) = 32"
    "RoomID (sg_hkdf (env_signer E)) (rm_Secret r) = i" "length (rm_DNS r) \<le> MaxDNS" "\<forall>a \<in> set (rm_DNS r). ValidDNS a"
proof -
  obtain r0 s k where r0: "r0 \<in> set (db_rooms d)" "rm_ID r0 = i" "tx_open (env_kek E) (rm_Secret r0) = Inr s"
    and r: "r = r0\<lparr>rm_Secret := s, rm_SignKey := k\<rparr>"
    using assms(2) by (rule RoomByID_Inr)
  have "room_ok E r0" using assms(1) r0(1) by (simp add: db_inv_def)
  then show "rm_ID r = i" "v4_net (rm_Subnet r)" "length (rm_Secret r) = 32"
    "RoomID (sg_hkdf (env_signer E)) (rm_Secret r) = i" "length (rm_DNS r) \<le> MaxDNS" "\<forall>a \<in> set (rm_DNS r). ValidDNS a"
    using r0 by (auto simp: room_ok_def r)
qed

lemma room_config_ok:
  assumes inv: "db_inv E d" and r: "RoomByID (env_kek E) i d = Inr r"
  shows "config_ok (env_signer E) (room_config_of now r rules (ListMembers i d))"
proof -
  note room = RoomByID_room_ok [OF inv r]
  have ok: "schema_ok d" using inv by (rule db_inv_schema)
  have mem: "contains (rm_Subnet r) (mb_IP (mv v)) \<and> (\<forall>q \<in> set (mb_Routes (mv v)). ValidRoute q \<and> \<not> overlaps q (rm_Subnet r))" if "v \<in> set (ListMembers i d)" for v
  proof -
    have m: "mv v \<in> set (db_members d)" "mb_RoomID (mv v) = i"
      using that set_queryMembers [OF ok, of "\<lambda>m. mb_RoomID m = i"] by (auto simp: ListMembers_def)
    then obtain x where x: "x \<in> set (db_rooms d)" "rm_ID x = i" using ok by (auto simp: schema_ok_def)
    then have "member_ok (rm_Subnet x) (mv v)" using inv m by (simp add: db_inv_def)
    then show ?thesis using RoomByID_subnet(3) [OF inv r x] by (auto simp: member_ok_def usableHost_def split: if_splits)
  qed
  have "distinct (map (\<lambda>v. mb_IP (mv v)) (ListMembers i d))"
    unfolding ListMembers_def by (rule distinct_queryMembers [OF ok members_distinct(1) [OF ok]])
  then have "distinct (map rmem_IP (map config_member (filter active (ListMembers i d))))"
    by (simp add: o_def config_member_def Let_def distinct_map_filter')
  moreover have "copy_key (rm_Secret r) = rm_Secret r" using room(3) by (simp add: copy_key_def)
  ultimately show ?thesis
    using room mem
    by (auto simp: config_ok_def room_config_of_def config_member_def Let_def v4_net_def)
qed

lemma config_lists_active:
  assumes "schema_ok d"
  shows "rmem_NodeID ` set (cfg_Members (room_config_of now r rules (ListMembers i d))) = {n. abs_members d (i, n) = Some StatusActive}"
proof -
  have "n \<in> rmem_NodeID ` set (cfg_Members (room_config_of now r rules (ListMembers i d))) \<longleftrightarrow>
      abs_members d (i, n) = Some StatusActive" for n
  proof -
    have "n \<in> rmem_NodeID ` set (cfg_Members (room_config_of now r rules (ListMembers i d))) \<longleftrightarrow>
        (\<exists>v \<in> set (queryMembers (\<lambda>m. mb_RoomID m = i) d). mb_NodeID (mv v) = n \<and> mb_Status (mv v) = StatusActive)"
      by (auto simp: room_config_of_def config_member_def Let_def active_def ListMembers_def image_image)
    also have "\<dots> \<longleftrightarrow> abs_members d (i, n) = Some StatusActive"
      unfolding status_iff [OF assms] by (rule ex_queryMembers [OF assms])
    finally show ?thesis .
  qed
  then show ?thesis by blast
qed

section \<open>Peers\<close>

lemma add_peers_keys:
  "add_peers now n d vs peers = Inr peers' \<Longrightarrow>
   fst ` set peers' = fst ` set peers \<union> {m. m \<noteq> n \<and> (\<exists>v \<in> set vs. active v \<and> mb_NodeID (mv v) = m)}"
proof (induction vs arbitrary: peers)
  case (Cons v vs)
  let ?i = "mb_NodeID (mv v)"
  show ?case
  proof (cases "\<not> active v \<or> ?i = n \<or> ?i \<in> fst ` set peers")
    case True
    then have "add_peers now n d vs peers = Inr peers'" using Cons.prems by simp
    then show ?thesis using Cons.IH True by auto
  next
    case False
    then obtain x where "add_peers now n d vs (peers @ [(?i, x)]) = Inr peers'" using Cons.prems by (auto simp: Let_def)
    from Cons.IH [OF this] show ?thesis using False by auto
  qed
qed simp

lemma map_rooms_exact:
  "map_rooms E now n d vs (rooms, peers) = Inr (rooms', peers') \<Longrightarrow>
   map (\<lambda>st. (rs_RoomID st, rs_Status st)) rooms' = map (\<lambda>st. (rs_RoomID st, rs_Status st)) rooms @ map (\<lambda>v. (mb_RoomID (mv v), mb_Status (mv v))) vs \<and>
   fst ` set peers' = fst ` set peers \<union> {m. m \<noteq> n \<and> (\<exists>v \<in> set vs. active v \<and>
     (\<exists>w \<in> set (ListMembers (mb_RoomID (mv v)) d). active w \<and> mb_NodeID (mv w) = m))}"
proof (induction vs arbitrary: rooms peers)
  case (Cons v vs)
  show ?case
  proof (cases "active v")
    case False
    then have "map_rooms E now n d vs (rooms @ [\<lparr>rs_RoomID = mb_RoomID (mv v), rs_Status = mb_Status (mv v), rs_Config = None,
        rs_UseExit = []\<rparr>], peers) = Inr (rooms', peers')"
      using Cons.prems by (simp add: Let_def)
    from Cons.IH [OF this] False show ?thesis by simp
  next
    case True
    show ?thesis
      using Cons.prems True
    proof (rule map_rooms_active)
      fix r rules peers1
      assume "add_peers now n d (ListMembers (mb_RoomID (mv v)) d) peers = Inr peers1"
        and m: "map_rooms E now n d vs (rooms @ [\<lparr>rs_RoomID = mb_RoomID (mv v),
          rs_Status = mb_Status (mv v), rs_Config = Some (SignRoomConfig (env_signer E) (rm_SignKey r)
            (room_config_of now r rules (ListMembers (mb_RoomID (mv v)) d))), rs_UseExit = mb_UseExit (mv v)\<rparr>], peers1) = Inr (rooms', peers')"
      then show ?thesis using Cons.IH [OF m] add_peers_keys [of now n d _ peers peers1] True by auto
    qed
  qed
qed simp

text \<open>The rooms of a map and its peers, through the abstraction.\<close>

lemma netMap_rooms:
  assumes "schema_ok d" "netMap E now n d = Inr nm"
  shows "(\<lambda>st. (rs_RoomID st, rs_Status st)) ` set (nm_Rooms nm) = {(i, st). abs_members d (i, n) = Some st}"
proof -
  obtain rooms peers where m: "map_rooms E now n d (Memberships n d) ([], []) = Inr (rooms, peers)" and nm: "nm_Rooms nm = rooms"
    using assms(2) by (auto simp: netMap_def)
  have "(\<lambda>st. (rs_RoomID st, rs_Status st)) ` set rooms = (\<lambda>v. (mb_RoomID (mv v), mb_Status (mv v))) ` set (Memberships n d)"
    using arg_cong [OF conjunct1 [OF map_rooms_exact [OF m]], of set] by simp
  also have "\<dots> = (\<lambda>m. (mb_RoomID m, mb_Status m)) ` (mv ` set (Memberships n d))" by (simp add: image_image)
  finally show ?thesis
    using set_queryMembers [OF assms(1), of "\<lambda>m. mb_NodeID m = n"] by (auto simp: nm Memberships_def status_iff [OF assms(1)])
qed

lemma ShareActiveRoom_iff:
  assumes "schema_ok d"
  shows "ShareActiveRoom a b d \<longleftrightarrow> (\<exists>i. abs_members d (i, a) = Some StatusActive \<and> abs_members d (i, b) = Some StatusActive)"
  unfolding ShareActiveRoom_def status_iff [OF assms] by metis

lemma netMap_peers:
  assumes "schema_ok d" "netMap E now n d = Inr nm"
  shows "fst ` set (nm_Peers nm) = {m. m \<noteq> n \<and> ShareActiveRoom n m d}"
proof -
  obtain rooms peers where m: "map_rooms E now n d (Memberships n d) ([], []) = Inr (rooms, peers)" and nm: "nm_Peers nm = peers"
    using assms(2) by (auto simp: netMap_def)
  have "fst ` set peers = {m. m \<noteq> n \<and> (\<exists>v \<in> set (Memberships n d). active v \<and>
     (\<exists>w \<in> set (ListMembers (mb_RoomID (mv v)) d). active w \<and> mb_NodeID (mv w) = m))}"
    using map_rooms_exact [OF m] by simp
  also have "\<dots> = {m. m \<noteq> n \<and> (\<exists>x \<in> set (db_members d). mb_NodeID x = n \<and> mb_Status x = StatusActive \<and>
     (\<exists>y \<in> set (db_members d). mb_RoomID y = mb_RoomID x \<and> mb_Status y = StatusActive \<and> mb_NodeID y = m))}"
    unfolding Memberships_def ListMembers_def active_def
      ex_queryMembers [OF assms(1), of "\<lambda>x. mb_RoomID x = i" "\<lambda>y. mb_Status y = StatusActive \<and> mb_NodeID y = m" for i m]
      ex_queryMembers [OF assms(1), of "\<lambda>m. mb_NodeID m = n" "\<lambda>x. mb_Status x = StatusActive \<and>
        (\<exists>y \<in> set (db_members d). mb_RoomID y = mb_RoomID x \<and> mb_Status y = StatusActive \<and> mb_NodeID y = m)" for m] ..
  finally have "fst ` set peers = \<dots>" .
  moreover have "ShareActiveRoom n m d \<longleftrightarrow> (\<exists>x \<in> set (db_members d). mb_NodeID x = n \<and> mb_Status x = StatusActive \<and>
     (\<exists>y \<in> set (db_members d). mb_RoomID y = mb_RoomID x \<and> mb_Status y = StatusActive \<and> mb_NodeID y = m))" for m
    unfolding ShareActiveRoom_def by metis
  ultimately show ?thesis unfolding nm by simp
qed

section \<open>Properties\<close>

text \<open>The configuration of an active room in a map: signed with the key of the room, and one a node accepts.\<close>

lemma netMap_config:
  assumes inv: "db_inv E d" and S: "signer_ok (env_signer E)" and nm: "netMap E now n d = Inr nm"
    and st: "st \<in> set (nm_Rooms nm)" "rs_Status st = StatusActive"
  shows "\<exists>r rules sg. RoomByID (env_kek E) (rs_RoomID st) d = Inr r \<and> acl_Parse (env_unicode E) (rm_ACL r) = Inr rules \<and> rs_Config st = Some sg \<and>
    cfg_RoomID (room_config_of now r rules (ListMembers (rs_RoomID st) d)) = rs_RoomID st \<and>
    config_ok (env_signer E) (room_config_of now r rules (ListMembers (rs_RoomID st) d)) \<and>
    (json_ok (env_signer E) (room_config_of now r rules (ListMembers (rs_RoomID st) d)) \<longrightarrow>
       VerifyRoomConfig (env_signer E) (ed_pub (env_signer E) (rm_SignKey r)) sg = Inr (room_config_of now r rules (ListMembers (rs_RoomID st) d)))"
proof -
  from netMap_entries [OF nm st(1)] obtain v where v: "map_entry E now d v st" by blast
  then have "active v" using st(2) by (simp add: map_entry_def active_def)
  then obtain r rules where r: "RoomByID (env_kek E) (rs_RoomID st) d = Inr r"
    and acl: "acl_Parse (env_unicode E) (rm_ACL r) = Inr rules"
    and cfg: "rs_Config st = Some (SignRoomConfig (env_signer E) (rm_SignKey r) (room_config_of now r rules (ListMembers (rs_RoomID st) d)))"
    using v by (auto simp: map_entry_def)
  let ?c = "room_config_of now r rules (ListMembers (rs_RoomID st) d)"
  have ok: "config_ok (env_signer E) ?c" by (rule room_config_ok [OF inv r])
  then have "json_ok (env_signer E) ?c \<longrightarrow>
      VerifyRoomConfig (env_signer E) (ed_pub (env_signer E) (rm_SignKey r)) (SignRoomConfig (env_signer E) (rm_SignKey r) ?c) = Inr ?c"
    using S by (auto simp: VerifyRoomConfig_def SignRoomConfig_def signer_ok_def json_ok_def Let_def check_config_None [symmetric])
  moreover have "cfg_RoomID ?c = rs_RoomID st" using RoomByID_room_ok(1) [OF inv r] by (simp add: room_config_of_def)
  ultimately show ?thesis using r acl cfg ok by blast
qed

text \<open>C3: A node gets exactly what its memberships entitle it to. The rooms of its network map are the
  rooms it is a member of, with its status; a room comes with a configuration just if the member is
  active in it; and that configuration passes the check of every node that pinned the
  room's key, belongs to that room and lists the active members of the room, no more and no less.\<close>

theorem netMap_delivers:
  assumes inv: "db_inv E d" and S: "signer_ok (env_signer E)" and nm: "netMap E now n d = Inr nm"
  shows "(\<lambda>st. (rs_RoomID st, rs_Status st)) ` set (nm_Rooms nm) = {(i, st). abs_members d (i, n) = Some st} \<and>
    (\<forall>st \<in> set (nm_Rooms nm). case rs_Config st of
       None \<Rightarrow> rs_Status st \<noteq> StatusActive
     | Some sg \<Rightarrow> rs_Status st = StatusActive \<and> (\<exists>r c. RoomByID (env_kek E) (rs_RoomID st) d = Inr r \<and> cfg_RoomID c = rs_RoomID st \<and>
         rmem_NodeID ` set (cfg_Members c) = {m. abs_members d (rs_RoomID st, m) = Some StatusActive} \<and>
         (json_ok (env_signer E) c \<longrightarrow> VerifyRoomConfig (env_signer E) (ed_pub (env_signer E) (rm_SignKey r)) sg = Inr c)))"
proof (intro conjI ballI)
  have ok: "schema_ok d" using inv by (rule db_inv_schema)
  show "(\<lambda>st. (rs_RoomID st, rs_Status st)) ` set (nm_Rooms nm) = {(i, st). abs_members d (i, n) = Some st}"
    by (rule netMap_rooms [OF ok nm])
  fix st assume st: "st \<in> set (nm_Rooms nm)"
  show "case rs_Config st of
       None \<Rightarrow> rs_Status st \<noteq> StatusActive
     | Some sg \<Rightarrow> rs_Status st = StatusActive \<and> (\<exists>r c. RoomByID (env_kek E) (rs_RoomID st) d = Inr r \<and> cfg_RoomID c = rs_RoomID st \<and>
         rmem_NodeID ` set (cfg_Members c) = {m. abs_members d (rs_RoomID st, m) = Some StatusActive} \<and>
         (json_ok (env_signer E) c \<longrightarrow> VerifyRoomConfig (env_signer E) (ed_pub (env_signer E) (rm_SignKey r)) sg = Inr c))"
  proof (cases "rs_Status st = StatusActive")
    case False
    then have "rs_Config st = None" using netMap_entries [OF nm st] by (auto simp: map_entry_def active_def)
    then show ?thesis using False by simp
  next
    case True
    obtain r rules sg where "RoomByID (env_kek E) (rs_RoomID st) d = Inr r" and sg: "rs_Config st = Some sg"
      and "cfg_RoomID (room_config_of now r rules (ListMembers (rs_RoomID st) d)) = rs_RoomID st"
        "json_ok (env_signer E) (room_config_of now r rules (ListMembers (rs_RoomID st) d)) \<longrightarrow>
         VerifyRoomConfig (env_signer E) (ed_pub (env_signer E) (rm_SignKey r)) sg = Inr (room_config_of now r rules (ListMembers (rs_RoomID st) d))"
      using netMap_config [OF inv S nm st True] by blast
    with True config_lists_active [OF ok, of now r rules "rs_RoomID st"] show ?thesis
      unfolding sg option.case by blast
  qed
qed

text \<open>The network map and the relay agree on who may talk to whom: the peers whose addresses a node gets
  are exactly the other nodes it shares a room with in which both are active, and these are the nodes
  the relay lets it send to.\<close>

theorem peers_match_relay:
  assumes "db_inv E d" "netMap E now n d = Inr nm"
  shows "fst ` set (nm_Peers nm) = {m. m \<noteq> n \<and> auth_CanSend (relayAuth d) n m} \<and>
    (\<forall>a b. auth_CanSend (relayAuth d) a b \<longleftrightarrow>
       (\<exists>i. abs_members d (i, a) = Some StatusActive \<and> abs_members d (i, b) = Some StatusActive))"
  using netMap_peers [OF db_inv_schema [OF assms(1)] assms(2)] ShareActiveRoom_iff [OF db_inv_schema [OF assms(1)]]
  by (simp add: relayAuth_def)

section \<open>The relay in front of the controller\<close>

lemma NodeByDiscoKey_active:
  assumes "schema_ok d" "NodeByDiscoKey key d = Inr n"
  shows "\<exists>i. abs_members d (i, n) = Some StatusActive"
  using assms(2) by (auto simp: NodeByDiscoKey_def status_iff [OF assms(1)] dest!: find_row_Inr split: sum.splits)


section \<open>Witnesses\<close>

lemma sample_status [simp]: "abs_members (sample_db st) (i, n) = (if i = ''0102'' \<and> n = ''aq'' then Some st else None)"
  by (simp add: abs_members_def sample_db_def sample_member_def)

lemma sample_RoomByID: "RoomByID (env_kek sample_env) ''0102'' (sample_db st) = Inr home_room"
proof -
  have "isSealed (replicate 32 7) = False" by code_simp
  then show ?thesis
    by (simp add: RoomByID_def find_row_def sample_db_def openRoom_def tx_open_def sample_env_def) (simp add: home_room_def, code_simp)
qed

lemma sample_netMap: "\<exists>nm. netMap sample_env 0 ''aq'' (sample_db StatusActive) = Inr nm"
proof -
  let ?d = "sample_db StatusActive" and ?v = "\<lparr>mv = sample_member StatusActive, mv_LastSeen = 0, mv_reach = empty_reach\<rparr>"
  have q: "Memberships ''aq'' ?d = [?v]" "ListMembers ''0102'' ?d = [?v]"
    by (simp_all add: Memberships_def ListMembers_def queryMembers_def sample_db_def sample_member_def sample_node_def
        List.map_filter_simps view_of_def)
  have "acl_Parse (env_unicode sample_env) [] = Inr []" by code_simp
  then show ?thesis
    using sample_RoomByID [of StatusActive]
    by (simp add: netMap_def q sample_member_def active_def Let_def bindE_def db_err_def) (simp add: q home_room_def sample_member_def active_def bindE_def)
qed

theorem netMap_delivers_witness:
  "\<exists>nm. netMap sample_env 0 ''aq'' (sample_db StatusActive) = Inr nm \<and>
     (\<lambda>st. (rs_RoomID st, rs_Status st)) ` set (nm_Rooms nm) = {(''0102'', StatusActive)}"
proof -
  obtain nm where nm: "netMap sample_env 0 ''aq'' (sample_db StatusActive) = Inr nm" using sample_netMap by blast
  have "signer_ok (env_signer sample_env)" using sample_signer_ok by (simp add: sample_env_def)
  from conjunct1 [OF netMap_delivers [OF sample_db_inv this nm]] nm show ?thesis by (auto split: if_splits)
qed

theorem peers_match_relay_witness:
  "\<exists>nm. netMap sample_env 0 ''aq'' (sample_db StatusActive) = Inr nm \<and> nm_Peers nm = []"
proof -
  obtain nm where nm: "netMap sample_env 0 ''aq'' (sample_db StatusActive) = Inr nm" using sample_netMap by blast
  have "fst ` set (nm_Peers nm) = {}"
    using peers_match_relay [OF sample_db_inv nm] by auto
  then show ?thesis using nm by simp
qed


end
