(* ===== verification/Node_Delivery.thy ===== *)
theory Node_Delivery
  imports Node_Guarantees Config_Delivery
begin

text \<open>
  Controller and node together: what the controller's database says of a membership is what the node does after
  it has applied the map the controller gives it. The peers of the room's tunnel are the other active
  members, and a member that was banned or has left stops running the room.
\<close>

lemma netMap_distinct_rooms:
  assumes "schema_ok d" "netMap E now n d = Inr nm"
  shows "distinct (map rs_RoomID (nm_Rooms nm))"
proof -
  obtain rooms peers where m: "map_rooms E now n d (Memberships n d) ([], []) = Inr (rooms, peers)" and nm: "nm_Rooms nm = rooms"
    using assms(2) by (auto simp: netMap_def)
  have "map rs_RoomID rooms = map (\<lambda>v. mb_RoomID (mv v)) (Memberships n d)"
    using arg_cong [OF conjunct1 [OF map_rooms_exact [OF m]], of "map fst"] by (simp add: comp_def)
  moreover have "distinct (map mb_RoomID (filter (\<lambda>m. mb_NodeID m = n) (db_members d)))"
    using assms(1) by (auto simp: schema_ok_def members_ok_def distinct_map inj_on_def)
  from distinct_queryMembers [OF assms(1) this] have "distinct (map (\<lambda>v. mb_RoomID (mv v)) (Memberships n d))"
    by (simp add: Memberships_def)
  ultimately show ?thesis by (simp add: nm)
qed

text \<open>The keys of the other active members of a room, as the controller stores them.\<close>

definition member_keys :: "db \<Rightarrow> string \<Rightarrow> string \<Rightarrow> bytes set" where
  "member_keys d i me = {copy_key (mb_WGKey m) | m. m \<in> set (db_members d) \<and> mb_RoomID m = i \<and> mb_Status m = StatusActive \<and> mb_NodeID m \<noteq> me}"

lemma config_keys:
  assumes "schema_ok d" "from_config me (room_config_of now r rules (ListMembers i d)) rc"
  shows "set (map pc_PublicKey (rc_Peers rc)) = member_keys d i me"
proof -
  let ?cfg = "room_config_of now r rules (ListMembers i d)"
  have "list_all2 (peer_of ?cfg) ms ps \<Longrightarrow> map pc_PublicKey ps = map rmem_WGKey ms" for ms ps
    by (induction rule: list_all2_induct) (simp_all add: peer_of_def)
  then have "map pc_PublicKey (rc_Peers rc) = map rmem_WGKey (filter (\<lambda>m. rmem_NodeID m \<noteq> me) (cfg_Members ?cfg))"
    using assms(2) by (simp add: from_config_def)
  also have "\<dots> = map (\<lambda>v. copy_key (mb_WGKey (mv v))) (filter (\<lambda>v. mb_Status (mv v) = StatusActive \<and> mb_NodeID (mv v) \<noteq> me) (ListMembers i d))"
    by (simp add: room_config_of_def config_member_def Let_def active_def filter_map comp_def conj_commute)
  finally have "set (map pc_PublicKey (rc_Peers rc)) =
      (\<lambda>m. copy_key (mb_WGKey m)) ` {m \<in> mv ` set (ListMembers i d). mb_Status m = StatusActive \<and> mb_NodeID m \<noteq> me}"
    by (simp add: set_filter) blast
  then show ?thesis
    unfolding ListMembers_def set_queryMembers [OF assms(1)] member_keys_def by blast
qed


text \<open>C12: A ban or a kick reaches the tunnel: when the controller's database does not have a node as an active member of a room
  (any more), then after the node applies the controller's map that room does not run under this
  controller, whatever other rooms it is in and whatever ran before.\<close>

theorem revoked_room_stops:
  assumes "db_inv CE d" "netMap CE now me d = Inr nm" "abs_members d (i, me) \<noteq> Some StatusActive"
    and "map_of (dn_rooms (apply_netmap E st url nm n)) i = Some r"
  shows "rn_controller r \<noteq> url"
proof -
  have ok: "schema_ok d" using assms(1) by (rule db_inv_schema)
  have "rs_Status rs \<noteq> StatusActive" if "rs \<in> set (nm_Rooms nm)" "rs_RoomID rs = i" for rs
  proof -
    have "(i, rs_Status rs) \<in> (\<lambda>st. (rs_RoomID st, rs_Status st)) ` set (nm_Rooms nm)" using that by force
    then show ?thesis using netMap_rooms [OF ok assms(2)] assms(3) by auto
  qed
  then have "\<forall>rs \<in> set (nm_Rooms nm). rs_RoomID rs = i \<longrightarrow> not_ours E st url n rs" by (simp add: not_ours_def Let_def)
  from unwanted_room_stops [OF netMap_distinct_rooms [OF ok assms(2)] this assms(4)] show ?thesis by blast
qed

section \<open>Witnesses\<close>

text \<open>Room \<open>home\<close> of the samples, with a second active member \<open>bq\<close>.\<close>

definition pair_node :: node where
  "pair_node = sample_node\<lparr>nd_ID := ''bq'', nd_EdKey := [6], nd_BoxKey := [3]\<rparr>"

definition pair_member :: member where
  "pair_member = (sample_member StatusActive)\<lparr>mb_NodeID := ''bq'', mb_WGKey := [2], mb_IP := V4 0x0A640102\<rparr>"

definition pair_db :: db where
  "pair_db = (sample_db StatusActive)\<lparr>db_nodes := [sample_node, pair_node], db_members := [sample_member StatusActive, pair_member]\<rparr>"

definition pair_views :: "member_view list" where
  "pair_views = [\<lparr>mv = sample_member StatusActive, mv_LastSeen = 0, mv_reach = empty_reach\<rparr>,
     \<lparr>mv = pair_member, mv_LastSeen = 0, mv_reach = empty_reach\<rparr>]"

definition pair_config :: room_config where
  "pair_config = room_config_of 0 home_room [] pair_views"

definition pair_env :: env where
  "pair_env = sample_env\<lparr>env_signer := sample_signer\<lparr>cfg_unmarshal := (\<lambda>b. if b = [1] then Some pair_config else None)\<rparr>\<rparr>"

definition pair_node_env :: node_env where
  "pair_node_env = demo_env\<lparr>ne_me := ''aq'', ne_signer := env_signer pair_env\<rparr>"

definition pair_state :: state where
  "pair_state = Pin ''https://c'' ''0102'' (RoomKeyString (ed_pub sample_signer [5])) empty_state"

lemma pair_queries: "ListMembers ''0102'' pair_db = pair_views" "Memberships ''aq'' pair_db = [hd pair_views]"
proof -
  have "text_key (addr_text (V4 174326017)) \<le> text_key (addr_text (V4 174326018))" by code_simp
  then show "ListMembers ''0102'' pair_db = pair_views" "Memberships ''aq'' pair_db = [hd pair_views]"
  by (simp_all add: Memberships_def ListMembers_def queryMembers_def pair_db_def sample_db_def sample_member_def pair_member_def
      sample_node_def pair_node_def pair_views_def List.map_filter_simps view_of_def)
qed

lemma pair_db_inv: "db_inv pair_env pair_db"
proof -
  have "usableHost (rm_Subnet home_room) (V4 0x0A640102)" by code_simp
  then have "member_ok (rm_Subnet home_room) pair_member" by (simp add: member_ok_def pair_member_def sample_member_def)
  moreover have "room_ok pair_env home_room" using home_room_ok by (simp add: room_ok_def pair_env_def sample_env_def)
  ultimately show ?thesis
    using sample_member_ok [of StatusActive]
    by (simp add: db_inv_def pair_db_def sample_db_def schema_ok_def members_ok_def empty_db_def)
      (simp add: sample_user_def home_room_def sample_node_def sample_member_def sample_invite_def empty_reach_def pair_node_def pair_member_def)
qed

lemma pair_RoomByID: "RoomByID (env_kek pair_env) ''0102'' pair_db = Inr home_room"
proof -
  have "db_rooms pair_db = db_rooms (sample_db StatusActive)" "env_kek pair_env = env_kek sample_env"
    by (simp_all add: pair_db_def pair_env_def)
  then show ?thesis using sample_RoomByID [of StatusActive] by (simp add: RoomByID_def)
qed

lemma pair_netMap: "\<exists>nm. netMap pair_env 0 ''aq'' pair_db = Inr nm"
proof -
  have a: "acl_Parse (env_unicode pair_env) [] = Inr []" by code_simp
  have n: "NodeByID ''bq'' pair_db = Inr pair_node"
    by (simp add: NodeByID_def find_row_def pair_db_def sample_node_def pair_node_def)
  show ?thesis
    using pair_RoomByID a n
    by (simp add: netMap_def pair_queries pair_views_def sample_member_def active_def Let_def bindE_def db_err_def)
      (simp add: pair_queries pair_views_def home_room_def sample_member_def pair_member_def active_def bindE_def db_err_def Let_def)
qed


theorem revoked_room_stops_witness:
  "\<exists>nm. netMap sample_env 0 ''aq'' (sample_db StatusBanned) = Inr nm \<and>
     (\<forall>r. map_of (dn_rooms (apply_netmap pair_node_env pair_state ''https://c'' nm (new_daemon 7 None))) ''0102'' = Some r \<longrightarrow>
        rn_controller r \<noteq> ''https://c'')"
proof -
  have q: "Memberships ''aq'' (sample_db StatusBanned) = [\<lparr>mv = sample_member StatusBanned, mv_LastSeen = 0, mv_reach = empty_reach\<rparr>]"
    by (simp add: Memberships_def queryMembers_def sample_db_def sample_member_def sample_node_def List.map_filter_simps view_of_def)
  obtain nm where "netMap sample_env 0 ''aq'' (sample_db StatusBanned) = Inr nm"
    by (simp add: netMap_def q sample_member_def active_def Let_def bindE_def)
  then show ?thesis using revoked_room_stops [OF sample_db_inv, of 0 "''aq''" StatusBanned nm "''0102''"] by auto
qed

end
