(* ===== verification/Local_Rooms.thy ===== *)
theory Local_Rooms
  imports Node_Daemon Subnets Machines
begin

text \<open>
  Rooms without a controller (\<^verbatim>\<open>internal/node/local.go\<close>, \<^verbatim>\<open>localsync.go\<close>, \<^verbatim>\<open>admins.go\<close> and the commands of
  \<^verbatim>\<open>cmd/zpt/local.go\<close>): an admin's node keeps the signing key of the room in its state file, accepts members that
  come with an invite and signs the room's configuration itself. Everything here changes the state file; each
  operation reads it, changes one room and writes it back. \<open>Panics\<close> is a run-time panic: the process
  ends, so nothing is written and nothing is sent. Texts of errors and logs are not modelled; JSON is a parameter.
\<close>

section \<open>Data\<close>

datatype local_error = NotAdmin | NoConfig | ConfigErr pki_error | NoFreeAddress | BadSubnet | BadInvite | UnexpectedReply
  | BadReplyAddress | NotNewer | NothingNew | NoSuchRoom | SaveFailed | AlreadyAdmin | NoMember | KickSelf | AlreadyIn | Panics

record local_request =
  jq_RoomID :: string
  jq_Token :: string
  jq_Name :: string
  jq_EdKey :: string
  jq_WGKey :: bytes
  jq_Endpoints :: "addrport list"
  jq_Sig :: string

record local_reply =
  rp_RoomID :: string
  rp_OK :: bool
  rp_IP :: addr
  rp_Error :: "local_error option"

record join_limiter =
  jl_at :: time
  jl_cnt :: int

text \<open>The parameters: signatures, hashes, Unicode tables, the box of disco packets, the JSON forms of requests and replies
  (what \<^verbatim>\<open>Unmarshal\<close> refuses is \<open>None\<close>), and the public half of a Curve25519 key.\<close>

record local_env =
  le_signer :: signer
  le_unicode :: unicode
  le_blake2s :: "bytes \<Rightarrow> bytes"
  le_disco :: disco_env
  le_request_in :: "bytes \<Rightarrow> local_request option"
  le_request_out :: "local_request \<Rightarrow> bytes"
  le_reply_in :: "bytes \<Rightarrow> local_reply option"
  le_reply_out :: "local_reply \<Rightarrow> bytes"
  le_curve_pub :: "bytes \<Rightarrow> bytes"

definition signedPart :: "local_request \<Rightarrow> string" where
  "signedPart r = ''zpt-join-v1|'' @ jq_RoomID r @ ''|'' @ jq_Token r @ ''|'' @ jq_Name r @ ''|'' @ Key_String (jq_WGKey r)"

section \<open>Addresses of a room\<close>

definition hostAddr :: "prefix \<Rightarrow> u32 \<Rightarrow> addr option" where
  "hostAddr p n = map_option (\<lambda>b. V4 (b + n)) (as4 (pfx_addr (masked p)))"

text \<open>The loop over the host numbers. Each turn but the last passes an address in use, so one turn more than there
  are members is enough.\<close>

fun free_addr :: "nat \<Rightarrow> prefix \<Rightarrow> addr list \<Rightarrow> u32 \<Rightarrow> u32 \<Rightarrow> local_error + addr" where
  "free_addr 0 p used top_n n = Inl NoFreeAddress"
| "free_addr (Suc k) p used top_n n =
     (if top_n < n then Inl NoFreeAddress
      else case hostAddr p n of
        None \<Rightarrow> Inl Panics
      | Some a \<Rightarrow> if a \<in> set used then free_addr k p used top_n (n + 1) else Inr a)"

definition room_size :: "prefix \<Rightarrow> u32" where
  "room_size p = push_bit (nat (32 - pfx_bits p)) 1 - 2"

definition addMember :: "room_member \<Rightarrow> room_config \<Rightarrow> local_error + addr \<times> room_config" where
  "addMember m cfg =
     (case List.find (\<lambda>x. rmem_NodeID x = rmem_NodeID m) (cfg_Members cfg) of
        Some x \<Rightarrow> Inr (rmem_IP x, cfg)
      | None \<Rightarrow>
          if 32 < pfx_bits (cfg_Subnet cfg) then Inl Panics
          else case free_addr (Suc (length (cfg_Members cfg))) (cfg_Subnet cfg) (map rmem_IP (cfg_Members cfg))
                 (room_size (cfg_Subnet cfg)) 1 of
            Inl e \<Rightarrow> Inl e
          | Inr a \<Rightarrow> Inr (a, cfg\<lparr>cfg_Members := cfg_Members cfg @ [m\<lparr>rmem_IP := a\<rparr>]\<rparr>))"

section \<open>One local room\<close>

definition lr_config :: "signer \<Rightarrow> local_room \<Rightarrow> local_error + room_config" where
  "lr_config S lr = (case lr_Config lr of
     None \<Rightarrow> Inl NoConfig
   | Some s \<Rightarrow> (case ParseRoomKey (lr_RoomKey lr) of
       Inl e \<Rightarrow> Inl (ConfigErr e)
     | Inr pub \<Rightarrow> (case VerifyRoomConfig S pub s of Inl e \<Rightarrow> Inl (ConfigErr e) | Inr c \<Rightarrow> Inr c)))"

definition lr_sign :: "signer \<Rightarrow> time \<Rightarrow> room_config \<Rightarrow> local_room \<Rightarrow> local_error + local_room" where
  "lr_sign S now cfg lr =
     (if length (lr_SignKey lr) \<noteq> 32 then Inl NotAdmin
      else Inr (lr\<lparr>lr_Config := Some (SignRoomConfig S (lr_SignKey lr) (cfg\<lparr>cfg_IssuedAt := now\<rparr>))\<rparr>))"

text \<open>A change may also hand something out to its caller, as the closures of the code do.\<close>

definition lr_Update :: "signer \<Rightarrow> time \<Rightarrow> (room_config \<Rightarrow> 'r \<times> (local_error + room_config)) \<Rightarrow> 'r \<Rightarrow> local_room \<Rightarrow>
    'r \<times> (local_error + local_room)" where
  "lr_Update S now f r0 lr = (case lr_config S lr of
     Inl e \<Rightarrow> (r0, Inl e)
   | Inr cfg \<Rightarrow> (case f cfg of
       (r, Inl e) \<Rightarrow> (r, Inl e)
     | (r, Inr cfg') \<Rightarrow> (r, lr_sign S now (cfg'\<lparr>cfg_Version := cfg_Version cfg' + 1\<rparr>) lr)))"

definition token_hash :: "signer \<Rightarrow> string \<Rightarrow> bytes" where
  "token_hash S tok = sg_sha256 S (bytes_of tok)"

definition lr_NewInvite :: "signer \<Rightarrow> time \<Rightarrow> bytes \<Rightarrow> int \<Rightarrow> duration \<Rightarrow> local_room \<Rightarrow> local_error + string \<times> local_room" where
  "lr_NewInvite S now rnd uses ttl lr =
     (if lr_SignKey lr = [] then Inl NotAdmin
      else let tok = b64url_encode rnd in
        Inr (tok, lr\<lparr>lr_Invites := lr_Invites lr @
          [\<lparr>li_TokenHash = token_hash S tok, li_UsesLeft = (if uses \<le> 0 then -1 else uses), li_Expires = now + ttl\<rparr>]\<rparr>))"

fun use_in :: "time \<Rightarrow> bytes \<Rightarrow> local_invite list \<Rightarrow> local_invite list option" where
  "use_in now h [] = None"
| "use_in now h (v # vs) =
     (if li_TokenHash v = h \<and> now < li_Expires v \<and> li_UsesLeft v \<noteq> 0
      then Some ((if 0 < li_UsesLeft v then v\<lparr>li_UsesLeft := li_UsesLeft v - 1\<rparr> else v) # vs)
      else map_option ((#) v) (use_in now h vs))"

definition lr_useInvite :: "signer \<Rightarrow> time \<Rightarrow> string \<Rightarrow> local_room \<Rightarrow> local_room option" where
  "lr_useInvite S now tok lr = map_option (\<lambda>vs. lr\<lparr>lr_Invites := vs\<rparr>) (use_in now (token_hash S tok) (lr_Invites lr))"

section \<open>The state file\<close>

text \<open>\<^verbatim>\<open>modifyLocal\<close>: what the change hands out, its error, and the file afterwards; \<open>save\<close> is whether it can be written.\<close>

fun modify_in :: "string \<Rightarrow> (local_room \<Rightarrow> 'r \<times> (local_error + local_room)) \<Rightarrow> local_room list \<Rightarrow>
    ('r \<times> (local_error + local_room list)) option" where
  "modify_in i f [] = None"
| "modify_in i f (lr # lrs) =
     (if lr_RoomID lr = i then (case f lr of (r, Inl e) \<Rightarrow> Some (r, Inl e) | (r, Inr lr') \<Rightarrow> Some (r, Inr (lr' # lrs)))
      else (case modify_in i f lrs of
          None \<Rightarrow> None | Some (r, Inl e) \<Rightarrow> Some (r, Inl e) | Some (r, Inr lrs') \<Rightarrow> Some (r, Inr (lr # lrs'))))"

definition modifyLocal :: "bool \<Rightarrow> string \<Rightarrow> (local_room \<Rightarrow> 'r \<times> (local_error + local_room)) \<Rightarrow> 'r \<Rightarrow> state \<Rightarrow>
    'r \<times> local_error option \<times> state" where
  "modifyLocal save i f r0 st = (case modify_in i f (st_Local st) of
     None \<Rightarrow> (r0, Some NoSuchRoom, st)
   | Some (r, Inl e) \<Rightarrow> (r, Some e, st)
   | Some (r, Inr lrs) \<Rightarrow> if save then (r, None, st\<lparr>st_Local := lrs\<rparr>) else (r, Some SaveFailed, st))"

section \<open>Accepting members\<close>

definition join_limit :: "time \<Rightarrow> join_limiter \<Rightarrow> bool \<times> join_limiter" where
  "join_limit now l =
     (let l1 = (if second < time_sub now (jl_at l) then \<lparr>jl_at = now, jl_cnt = 0\<rparr> else l);
          l2 = l1\<lparr>jl_cnt := jl_cnt l1 + 1\<rparr>
      in (20 < jl_cnt l2, l2))"

definition request_node :: "local_env \<Rightarrow> local_request \<Rightarrow> string option" where
  "request_node E r = (case (b64_decode (jq_EdKey r), b64_decode (jq_Sig r)) of
     (Some ed, Some sig) \<Rightarrow>
       if length ed = 32 \<and> ed_verify (le_signer E) ed (bytes_of (signedPart r)) sig
       then Some (NodeIDFromPublic (le_unicode E) (le_blake2s E) ed) else None
   | _ \<Rightarrow> None)"

definition new_member :: "string \<Rightarrow> string \<Rightarrow> bytes \<Rightarrow> room_member" where
  "new_member nodeID name key = \<lparr>rmem_NodeID = nodeID, rmem_Name = name, rmem_WGKey = key, rmem_IP = NoAddr, rmem_Tags = [],
     rmem_Routes = [], rmem_Exit = False, rmem_ExitDNS = False, rmem_Admin = False\<rparr>"

definition add_to_config :: "room_member \<Rightarrow> room_config \<Rightarrow> addr \<times> (local_error + room_config)" where
  "add_to_config m cfg = (case addMember m cfg of Inl e \<Rightarrow> (NoAddr, Inl e) | Inr (a, cfg') \<Rightarrow> (a, Inr cfg'))"

definition joiner_name :: "string \<Rightarrow> local_request \<Rightarrow> string" where
  "joiner_name nodeID req = (if jq_Name req = [] \<or> 40 < length (jq_Name req) then take 8 nodeID else jq_Name req)"

definition joiner_peer :: "bytes \<Rightarrow> addrport \<Rightarrow> local_request \<Rightarrow> api_peer" where
  "joiner_peer sender from' req = zero_peer\<lparr>pe_DiscoKey := sender, pe_Reflexive := [from'], pe_Locals := take 8 (jq_Endpoints req)\<rparr>"

definition blank_reply :: "string \<Rightarrow> local_reply" where
  "blank_reply i = \<lparr>rp_RoomID = i, rp_OK = False, rp_IP = NoAddr, rp_Error = None\<rparr>"

definition accept_member :: "local_env \<Rightarrow> time \<Rightarrow> bytes \<Rightarrow> addrport \<Rightarrow> local_request \<Rightarrow> string \<Rightarrow> local_room \<Rightarrow>
    local_reply \<times> (local_error + local_room)" where
  "accept_member E now sender from' req nodeID lr = (let S = le_signer E; rep = blank_reply (jq_RoomID req) in
     if lr_SignKey lr = [] then (rep, Inl NotAdmin)
     else case lr_config S lr of
       Inl e \<Rightarrow> (rep, Inl e)
     | Inr cfg \<Rightarrow> (case List.find (\<lambda>m. rmem_NodeID m = nodeID) (cfg_Members cfg) of
         Some m \<Rightarrow> (rep\<lparr>rp_OK := True, rp_IP := rmem_IP m\<rparr>, Inr lr)
       | None \<Rightarrow> (case lr_useInvite S now (jq_Token req) lr of
           None \<Rightarrow> (rep\<lparr>rp_Error := Some BadInvite\<rparr>, Inr lr)
         | Some lr1 \<Rightarrow> (case lr_Update S now (add_to_config (new_member nodeID (joiner_name nodeID req) (jq_WGKey req))) NoAddr lr1 of
             (ip, Inl Panics) \<Rightarrow> (rep, Inl Panics)
           | (ip, Inl e) \<Rightarrow> (rep\<lparr>rp_IP := ip, rp_Error := Some e\<rparr>, Inr lr1)
           | (ip, Inr lr2) \<Rightarrow> (rep\<lparr>rp_IP := ip, rp_OK := True\<rparr>,
               Inr (lr2\<lparr>lr_Peers := AList.update nodeID (joiner_peer sender from' req) (lr_Peers lr2)\<rparr>))))))"

definition handleJoin :: "local_env \<Rightarrow> seal_draw \<Rightarrow> bool \<Rightarrow> time \<Rightarrow> bytes \<Rightarrow> bytes \<Rightarrow> addrport \<Rightarrow> join_limiter \<Rightarrow> state \<Rightarrow>
    outgoing option \<times> join_limiter \<times> state" where
  "handleJoin E w save now sender data from' l st = (case join_limit now l of (over, l') \<Rightarrow>
     if over then (None, l', st)
     else case le_request_in E data of
       None \<Rightarrow> (None, l', st)
     | Some req \<Rightarrow> (case request_node E req of
         None \<Rightarrow> (None, l', st)
       | Some nodeID \<Rightarrow>
           (case modifyLocal save (jq_RoomID req) (accept_member E now sender from' req nodeID) (blank_reply (jq_RoomID req)) st of
              (rep, err, st') \<Rightarrow>
                if err \<noteq> None \<and> rp_Error rep = None \<and> \<not> rp_OK rep then (None, l', st')
                else (Some (mgr_seal (le_disco E) w \<lparr>msg_Type = TypeJoinReply, msg_Tx = sd_tx w, msg_Src = None,
                        msg_Data = le_reply_out E rep\<rparr> sender, from'), l', st'))))"

section \<open>Joining\<close>

text \<open>The request a node sends to the addresses of the invite, signed with its identity key; \<open>eps\<close> are its own addresses.\<close>

definition own_request :: "local_env \<Rightarrow> bytes \<Rightarrow> local_link \<Rightarrow> string \<Rightarrow> addrport list \<Rightarrow> local_request" where
  "own_request E seed link name eps = (let S = le_signer E;
     r = \<lparr>jq_RoomID = ll_RoomID link, jq_Token = ll_Token link, jq_Name = name, jq_EdKey = b64_encode (ed_pub S seed),
       jq_WGKey = le_curve_pub E (RoomKey (sg_hkdf S) seed (ll_RoomID link)), jq_Endpoints = eps, jq_Sig = []\<rparr>
     in r\<lparr>jq_Sig := b64_encode (ed_sign S seed (bytes_of (signedPart r)))\<rparr>)"

definition sendJoin :: "local_env \<Rightarrow> seal_draw \<Rightarrow> bytes \<Rightarrow> local_link \<Rightarrow> string \<Rightarrow> addrport list \<Rightarrow> outgoing list" where
  "sendJoin E w seed link name eps = (let data = le_request_out E (own_request E seed link name eps) in
     if MaxData < length data then []
     else map (\<lambda>e. (mgr_seal (le_disco E) w \<lparr>msg_Type = TypeJoin, msg_Tx = sd_tx w, msg_Src = None, msg_Data = data\<rparr>
         (ll_OwnerDisco link), e)) (ll_Endpoints link))"

text \<open>Whether a room still asks: \<^verbatim>\<open>ensureJoining\<close> looks at the file before every request.\<close>

definition still_asks :: "unicode \<Rightarrow> string \<Rightarrow> state \<Rightarrow> bool" where
  "still_asks u i st = (case LocalRoomByRef u i st of
     Inl _ \<Rightarrow> False
   | Inr lr \<Rightarrow> (case lr_Join lr of None \<Rightarrow> False | Some j \<Rightarrow> lj_IP j = NoAddr \<and> lr_Config lr = None))"

definition take_reply :: "bytes \<Rightarrow> local_reply \<Rightarrow> local_room \<Rightarrow> local_error + local_room" where
  "take_reply sender rep lr = (case lr_Join lr of
     None \<Rightarrow> Inl UnexpectedReply
   | Some j \<Rightarrow>
       if ll_OwnerDisco (lj_Invite j) \<noteq> sender \<or> lj_IP j \<noteq> NoAddr then Inl UnexpectedReply
       else if \<not> rp_OK rep then Inr (lr\<lparr>lr_Join := None\<rparr>)
       else if \<not> contains (ll_Subnet (lj_Invite j)) (rp_IP rep) then Inl BadReplyAddress
       else Inr (lr\<lparr>lr_Join := Some (j\<lparr>lj_IP := rp_IP rep\<rparr>)\<rparr>))"

definition handleJoinReply :: "local_env \<Rightarrow> bool \<Rightarrow> bytes \<Rightarrow> bytes \<Rightarrow> state \<Rightarrow> state" where
  "handleJoinReply E save sender data st = (case le_reply_in E data of
     None \<Rightarrow> st
   | Some rep \<Rightarrow> snd (snd (modifyLocal save (rp_RoomID rep) (\<lambda>lr. ((), take_reply sender rep lr)) () st)))"

text \<open>A configuration that came through the room: kept if it is newer than the one there is; it completes a join.\<close>

definition keep_config :: "signer \<Rightarrow> signed \<Rightarrow> local_room \<Rightarrow> local_error + local_room" where
  "keep_config S s lr = (case ParseRoomKey (lr_RoomKey lr) of
     Inl e \<Rightarrow> Inl (ConfigErr e)
   | Inr pub \<Rightarrow> (case VerifyRoomConfig S pub s of
       Inl e \<Rightarrow> Inl (ConfigErr e)
     | Inr cfg \<Rightarrow>
         if (case lr_Config lr of
               None \<Rightarrow> False
             | Some s0 \<Rightarrow> (case VerifyRoomConfig S pub s0 of Inl _ \<Rightarrow> False | Inr old \<Rightarrow> cfg_Version cfg \<le> cfg_Version old))
         then Inl NotNewer
         else (case lr_Join lr of
             None \<Rightarrow> Inr (lr\<lparr>lr_Config := Some s\<rparr>)
           | Some j \<Rightarrow> Inr (lr\<lparr>lr_Config := Some s, lr_Join := None,
               lr_Peers := AList.update (ll_Owner (lj_Invite j))
                 (zero_peer\<lparr>pe_DiscoKey := ll_OwnerDisco (lj_Invite j), pe_Locals := ll_Endpoints (lj_Invite j)\<rparr>) (lr_Peers lr)\<rparr>))))"

definition persistLocal :: "signer \<Rightarrow> bool \<Rightarrow> string \<Rightarrow> signed \<Rightarrow> state \<Rightarrow> state" where
  "persistLocal S save i s st = snd (snd (modifyLocal save i (\<lambda>lr. ((), keep_config S s lr)) () st))"

section \<open>Co-admins\<close>

text \<open>The line an admin's node answers with, and what is accepted of it.\<close>

definition key_answer :: "bytes \<Rightarrow> string" where
  "key_answer seed = b64_encode seed @ [CHR 0x0A]"

definition fetchSignKey :: "signer \<Rightarrow> string \<Rightarrow> string \<Rightarrow> bytes option" where
  "fetchSignKey S pinned answer = (case cut (CHR 0x0A) (take 256 answer) of
     (line, _, found) \<Rightarrow> if \<not> found then None
       else (case b64_decode (trim_space line) of
         None \<Rightarrow> None
       | Some seed \<Rightarrow> if length seed = 32 \<and> RoomKeyString (ed_pub S seed) = pinned then Some seed else None))"

definition keepSignKey :: "bool \<Rightarrow> string \<Rightarrow> bytes \<Rightarrow> state \<Rightarrow> state" where
  "keepSignKey save i seed st = snd (snd (modifyLocal save i (\<lambda>lr. ((), Inr (lr\<lparr>lr_SignKey := seed\<rparr>))) () st))"

text \<open>The addresses a member without the key asks for it: those of the other admins, if it is an admin itself.\<close>

definition key_sources :: "string \<Rightarrow> room_config \<Rightarrow> local_room \<Rightarrow> addr list" where
  "key_sources me cfg lr =
     (if lr_SignKey lr \<noteq> [] then []
      else case find_last (\<lambda>m. rmem_NodeID m = me) (cfg_Members cfg) of
        None \<Rightarrow> []
      | Some m \<Rightarrow> if rmem_Admin m
          then map rmem_IP (filter (\<lambda>x. rmem_NodeID x \<noteq> me \<and> rmem_Admin x) (cfg_Members cfg)) else [])"

definition serveSignKey :: "unicode \<Rightarrow> string \<Rightarrow> addr \<Rightarrow> daemon \<Rightarrow> state \<Rightarrow> string option" where
  "serveSignKey u i from' n st =
     (if unmap from' \<notin> set (case map_of (dn_admins n) i of None \<Rightarrow> [] | Some as \<Rightarrow> as) then None
      else case LocalRoomByRef u i st of
        Inl _ \<Rightarrow> None
      | Inr lr \<Rightarrow> if length (lr_SignKey lr) \<noteq> 32 then None else Some (key_answer (lr_SignKey lr)))"

section \<open>Ways to members\<close>

text \<open>\<^verbatim>\<open>learnLocalPeers\<close>: node, disco key and addresses of each new card.\<close>

definition learn_peer :: "string \<times> bytes \<times> addrport list \<Rightarrow> (string \<times> api_peer) list \<times> bool \<Rightarrow> (string \<times> api_peer) list \<times> bool" where
  "learn_peer c x = (case (c, x) of ((i, key, eps), (peers, changed)) \<Rightarrow>
     (case map_of peers i of
        Some old \<Rightarrow> if pe_DiscoKey old = key \<and> pe_Locals old = eps then (peers, changed)
          else (AList.update i (zero_peer\<lparr>pe_DiscoKey := key, pe_Locals := eps\<rparr>) peers, True)
      | None \<Rightarrow> (AList.update i (zero_peer\<lparr>pe_DiscoKey := key, pe_Locals := eps\<rparr>) peers, True)))"

definition learn_peers :: "(string \<times> bytes \<times> addrport list) list \<Rightarrow> local_room \<Rightarrow> local_error + local_room" where
  "learn_peers cards lr = (case fold learn_peer cards (lr_Peers lr, False) of
     (peers, changed) \<Rightarrow> if changed then Inr (lr\<lparr>lr_Peers := peers\<rparr>) else Inl NothingNew)"

definition learnLocalPeers :: "bool \<Rightarrow> string \<Rightarrow> (string \<times> bytes \<times> addrport list) list \<Rightarrow> state \<Rightarrow> state" where
  "learnLocalPeers save i cards st = snd (snd (modifyLocal save i (\<lambda>lr. ((), learn_peers cards lr)) () st))"

section \<open>Commands\<close>

text \<open>\<^verbatim>\<open>CreateLocalRoom\<close>: the secret, the seed of the signing key and the two bytes of a subnet are drawn.\<close>

definition drawn_subnet :: "byte \<Rightarrow> byte \<Rightarrow> prefix" where
  "drawn_subnet b0 b1 = prefix_from (V4 (be32 10 (100 + b0 mod 100) b1 0)) 24"

definition CreateLocalRoom :: "local_env \<Rightarrow> bytes \<Rightarrow> string \<Rightarrow> time \<Rightarrow> bytes \<Rightarrow> bytes \<Rightarrow> byte \<Rightarrow> byte \<Rightarrow> string \<Rightarrow> string \<Rightarrow> prefix \<Rightarrow> state \<Rightarrow>
    local_error + local_room \<times> state" where
  "CreateLocalRoom E seed me now secret sign b0 b1 name memberName subnet0 st =
     (let S = le_signer E; subnet = (if pfx_valid subnet0 then subnet0 else drawn_subnet b0 b1) in
      if \<not> is4 (pfx_addr subnet) \<or> 29 < pfx_bits subnet \<or> pfx_bits subnet < 16 \<or> subnet \<noteq> masked subnet then Inl BadSubnet
      else let i = RoomID (sg_hkdf S) secret; wg = RoomKey (sg_hkdf S) seed i in
        (case hostAddr subnet 1 of
           None \<Rightarrow> Inl Panics
         | Some ip \<Rightarrow>
             (case lr_sign S now \<lparr>cfg_RoomID = i, cfg_Name = name, cfg_Subnet = subnet, cfg_Secret = secret, cfg_Version = 1, cfg_IssuedAt = 0,
                 cfg_Members = [(new_member me memberName (le_curve_pub E wg))\<lparr>rmem_IP := ip, rmem_Admin := True\<rparr>],
                 cfg_Broadcast = [], cfg_DNS = [], cfg_ACL = [], cfg_DHT = False\<rparr>
                 \<lparr>lr_RoomID = i, lr_Name = name, lr_RoomKey = RoomKeyString (ed_pub S sign), lr_SignKey = sign, lr_Config = None,
                  lr_Invites = [], lr_Join = None, lr_Peers = []\<rparr> of
                Inl e \<Rightarrow> Inl e
              | Inr lr \<Rightarrow> Inr (lr, st\<lparr>st_Local := st_Local st @ [lr]\<rparr>))))"

text \<open>The change of \<^verbatim>\<open>zpt room admin\<close>: this node first, then the first member of that name or identifier.\<close>

fun make_admin :: "string \<Rightarrow> room_member list \<Rightarrow> local_error + room_member list" where
  "make_admin who [] = Inl NoMember"
| "make_admin who (m # ms) =
     (if rmem_Name m = who \<or> rmem_NodeID m = who
      then if rmem_Admin m then Inl AlreadyAdmin else Inr (m\<lparr>rmem_Admin := True\<rparr> # ms)
      else case make_admin who ms of Inl e \<Rightarrow> Inl e | Inr ms' \<Rightarrow> Inr (m # ms'))"

definition admin_change :: "string \<Rightarrow> string \<Rightarrow> room_config \<Rightarrow> unit \<times> (local_error + room_config)" where
  "admin_change me who cfg =
     (case make_admin who (map (\<lambda>m. if rmem_NodeID m = me then m\<lparr>rmem_Admin := True\<rparr> else m) (cfg_Members cfg)) of
        Inl e \<Rightarrow> ((), Inl e) | Inr ms \<Rightarrow> ((), Inr (cfg\<lparr>cfg_Members := ms\<rparr>)))"

text \<open>The change of \<^verbatim>\<open>zpt room kick\<close> hands out the member whose addresses are forgotten.\<close>

fun drop_member :: "string \<Rightarrow> string \<Rightarrow> room_member list \<Rightarrow> local_error + room_member \<times> room_member list" where
  "drop_member me who [] = Inl NoMember"
| "drop_member me who (m # ms) =
     (if rmem_Name m = who \<or> rmem_NodeID m = who
      then if rmem_NodeID m = me then Inl KickSelf else Inr (m, ms)
      else case drop_member me who ms of Inl e \<Rightarrow> Inl e | Inr (x, ms') \<Rightarrow> Inr (x, m # ms'))"

definition kick_change :: "string \<Rightarrow> string \<Rightarrow> room_config \<Rightarrow> string option \<times> (local_error + room_config)" where
  "kick_change me who cfg = (case drop_member me who (cfg_Members cfg) of
     Inl e \<Rightarrow> (None, Inl e) | Inr (x, ms) \<Rightarrow> (Some (rmem_NodeID x), Inr (cfg\<lparr>cfg_Members := ms\<rparr>)))"

definition room_admin :: "signer \<Rightarrow> string \<Rightarrow> time \<Rightarrow> string \<Rightarrow> local_room \<Rightarrow> local_error + local_room" where
  "room_admin S me now who lr = snd (lr_Update S now (admin_change me who) () lr)"

definition room_kick :: "signer \<Rightarrow> string \<Rightarrow> time \<Rightarrow> string \<Rightarrow> local_room \<Rightarrow> local_error + local_room" where
  "room_kick S me now who lr = (case lr_Update S now (kick_change me who) None lr of
     (_, Inl e) \<Rightarrow> Inl e
   | (None, Inr lr') \<Rightarrow> Inr lr'
   | (Some x, Inr lr') \<Rightarrow> Inr (lr'\<lparr>lr_Peers := AList.delete x (lr_Peers lr')\<rparr>))"

definition room_invite :: "signer \<Rightarrow> time \<Rightarrow> bytes \<Rightarrow> int \<Rightarrow> duration \<Rightarrow> local_room \<Rightarrow> local_error + local_room" where
  "room_invite S now rnd uses ttl lr = (case lr_config S lr of
     Inl e \<Rightarrow> Inl e
   | Inr _ \<Rightarrow> (case lr_NewInvite S now rnd uses ttl lr of Inl e \<Rightarrow> Inl e | Inr (_, lr') \<Rightarrow> Inr lr'))"

text \<open>A command looks the room up, changes it and writes the file; an error leaves the file as it was.\<close>

definition room_command :: "unicode \<Rightarrow> string \<Rightarrow> (local_room \<Rightarrow> local_error + local_room) \<Rightarrow> state \<Rightarrow> local_error option \<times> state" where
  "room_command u ref f st = (case LocalRoomByRef u ref st of
     Inl _ \<Rightarrow> (Some NoSuchRoom, st)
   | Inr lr \<Rightarrow> (case modify_in (lr_RoomID lr) (\<lambda>lr. ((), f lr)) (st_Local st) of
       None \<Rightarrow> (Some NoSuchRoom, st)
     | Some (_, Inl e) \<Rightarrow> (Some e, st)
     | Some (_, Inr lrs) \<Rightarrow> (None, st\<lparr>st_Local := lrs\<rparr>)))"

definition joinLocal :: "local_link \<Rightarrow> string \<Rightarrow> state \<Rightarrow> local_error option \<times> state" where
  "joinLocal link name st =
     (if list_ex (\<lambda>lr. lr_RoomID lr = ll_RoomID link) (st_Local st) then (Some AlreadyIn, st)
      else (None, st\<lparr>st_Local := st_Local st @ [\<lparr>lr_RoomID = ll_RoomID link, lr_Name = ''room-'' @ take 6 (ll_RoomID link),
        lr_RoomKey = ll_RoomKey link, lr_SignKey = [], lr_Config = None, lr_Invites = [],
        lr_Join = Some \<lparr>lj_Invite = link, lj_Name = name, lj_IP = NoAddr\<rparr>, lr_Peers = []\<rparr>]\<rparr>))"

end
