(* ===== verification/Local_Guarantees.thy ===== *)
theory Local_Guarantees
  imports Local_Rooms
begin

text \<open>
  What rooms without a controller guarantee: a new member gets a free host address, the state file of a node never holds a
  configuration or a signing key that the pinned key does not vouch for, an invite admits no more nodes
  than it was made for, and a node that asks with a good invite ends up as a member.
\<close>

section \<open>Host addresses\<close>

text \<open>The host numbers of a room, one to \<open>2 ^ k - 2\<close>, are its usable addresses.\<close>

lemma room_size_unat:
  assumes "v4_net p" "pfx_bits p \<le> 31"
  shows "unat (room_size p) = 2 ^ v4_host_bits p - 2" "1 \<le> v4_host_bits p" "v4_host_bits p \<le> 32"
proof -
  have b: "0 \<le> pfx_bits p" "nat (32 - pfx_bits p) = v4_host_bits p"
    using assms by (simp_all add: v4_net_def pfx_valid_def v4_host_bits_def nat_diff_distrib)
  show k: "1 \<le> v4_host_bits p" "v4_host_bits p \<le> 32" using assms b(1) by (auto simp: v4_host_bits_def)
  have "room_size p = push_bit (v4_host_bits p) 1 - 2" using b by (simp add: room_size_def)
  also have "\<dots> = of_nat (2 ^ v4_host_bits p - 2)"
    using k(1) power_increasing [of 1 "v4_host_bits p" "2 :: nat"] by (simp add: push_bit_eq_mult of_nat_diff)
  finally show "unat (room_size p) = 2 ^ v4_host_bits p - 2"
    using k power_increasing [of "v4_host_bits p" 32 "2 :: nat"] by (simp add: unsigned_of_nat take_bit_nat_eq_self)
qed

lemma v4_host_net:
  assumes "v4_net p"
  obtains base where "\<And>n. hostAddr p n = Some (V4 (base + n))" "unat base + 2 ^ v4_host_bits p \<le> 2 ^ 32"
    "\<And>w. usableHost p (V4 w) \<longleftrightarrow> unat base < unat w \<and> unat w + 1 < unat base + 2 ^ v4_host_bits p"
    "\<And>a. usableHost p a \<Longrightarrow> \<exists>w. a = V4 w"
proof -
  let ?k = "v4_host_bits p"
  obtain v where v: "pfx_addr p = V4 v" using assms by (auto simp: v4_net_def is4_def split: addr.splits)
  have p: "pfx_valid p" "pfx_bits p \<le> 32" "?k \<le> 32" using assms by (simp_all add: v4_net_def v4_host_bits_def)
  define base where "base = v AND NOT (mask ?k)"
  have b: "unat base = unat v div 2 ^ ?k * 2 ^ ?k" by (simp add: base_def unat_net_base)
  have l: "unat (base OR mask ?k) = unat base + (2 ^ ?k - 1)"
    unfolding base_def using unat_net_last [OF p(3), of v] by (simp add: unat_net_base)
  have u: "usableHost p (V4 w) \<longleftrightarrow> unat base < unat w \<and> unat w + 1 < unat base + 2 ^ ?k" for w
  proof -
    have "contains p (V4 w) \<longleftrightarrow> base \<le> w \<and> w \<le> base OR mask ?k"
      using contains_v4_range [OF v p(1,2)] by (simp add: masked_v4 [OF v p(1)] last_addr_v4 [OF v p(1,2)] base_def)
    then have "usableHost p (V4 w) \<longleftrightarrow> base \<le> w \<and> w \<le> base OR mask ?k \<and> w \<noteq> base \<and> w \<noteq> base OR mask ?k"
      by (auto simp: usableHost_def masked_v4 [OF v p(1)] last_addr_v4 [OF v p(1,2)] base_def)
    then show ?thesis by (auto simp: word_le_nat_alt word_unat_eq_iff l)
  qed
  have h: "hostAddr p n = Some (V4 (base + n))" for n
    by (simp add: hostAddr_def masked_v4 [OF v p(1)] as4_def base_def)
  have "unat (base OR mask ?k) < 2 ^ 32" using unat_u32_less [of "base OR mask ?k"] by simp
  then have "unat base + 2 ^ ?k \<le> 2 ^ 32" using l by simp
  moreover have "\<exists>w. a = V4 w" if "usableHost p a" for a
    using that v by (cases a) (auto simp: usableHost_def contains_def split: if_splits)
  ultimately show ?thesis using that h u by blast
qed

lemma free_addr_spec:
  assumes host: "\<And>n. hostAddr p n = Some (V4 (base + n))" and room: "unat base + unat top_n < 2 ^ 32 - 1"
    and passed: "\<And>y. 1 \<le> unat y \<Longrightarrow> unat y < unat n \<Longrightarrow> V4 (base + y) \<in> set used" and n: "1 \<le> unat n" "unat n \<le> unat top_n + 1"
    and fuel: "length used < k + (unat n - 1)"
  shows "case free_addr k p used top_n n of
      Inr a \<Rightarrow> \<exists>x. 1 \<le> unat x \<and> unat x \<le> unat top_n \<and> a = V4 (base + x) \<and> a \<notin> set used \<and>
        (\<forall>y. 1 \<le> unat y \<and> unat y < unat x \<longrightarrow> V4 (base + y) \<in> set used)
    | Inl e \<Rightarrow> e = NoFreeAddress \<and> (\<forall>y. 1 \<le> unat y \<and> unat y \<le> unat top_n \<longrightarrow> V4 (base + y) \<in> set used)"
  using passed n fuel
proof (induction k arbitrary: n)
  case 0
  let ?Y = "{y :: u32. 1 \<le> unat y \<and> unat y < unat n}"
  have "inj_on (\<lambda>y. V4 (base + y)) ?Y" by (rule inj_onI) simp
  then have "card ?Y = card ((\<lambda>y. V4 (base + y)) ` ?Y)" by (simp add: card_image)
  also have "\<dots> \<le> card (set used)" using 0(1) by (intro card_mono) auto
  also have "\<dots> \<le> length used" by (rule card_length)
  finally have "card ?Y \<le> length used" .
  moreover have "unat ` ?Y = {1..<unat n}"
  proof -
    have "y \<in> unat ` ?Y" if y: "1 \<le> y" "y < unat n" for y
    proof -
      have "y < 2 ^ 32" by (rule less_trans [OF y(2)]) (use unat_u32_less [of n] in simp)
      then have "take_bit 32 y = y" by (rule take_bit_nat_eq_self)
      then show ?thesis using y by (intro image_eqI [of _ _ "of_nat y"]) (simp_all add: unsigned_of_nat)
    qed
    then show ?thesis by auto
  qed
  then have "unat n - 1 \<le> card ?Y" using card_image_le [of ?Y unat] by simp
  ultimately show ?case using 0(4) by simp
next
  case (Suc k)
  show ?case
  proof (cases "top_n < n")
    case True
    then have "V4 (base + y) \<in> set used" if "1 \<le> unat y" "unat y \<le> unat top_n" for y
      using that Suc.prems(1) [of y] by (simp add: word_less_nat_alt)
    then show ?thesis using True by simp
  next
    case False
    then have le: "unat n \<le> unat top_n" by (simp add: word_le_nat_alt not_less)
    then have "unat n + 1 < 2 ^ 32" using room by linarith
    then have n1: "unat (n + 1) = unat n + 1" by (subst unat_add_lem [THEN iffD1]) simp_all
    show ?thesis
    proof (cases "V4 (base + n) \<in> set used")
      case True
      have "V4 (base + y) \<in> set used" if "1 \<le> unat y" "unat y < unat (n + 1)" for y
      proof (cases "unat y = unat n")
        case True
        then have "y = n" by (simp only: word_unat_eq_iff)
        then show ?thesis using \<open>V4 (base + n) \<in> set used\<close> by simp
      next
        case False
        then show ?thesis using that Suc.prems(1) [of y] n1 by simp
      qed
      then show ?thesis using Suc.IH [of "n + 1"] Suc.prems le n1 False True by (simp add: host)
    next
      case False
      then show ?thesis using Suc.prems le \<open>\<not> top_n < n\<close> by (auto simp: host)
    qed
  qed
qed

lemma addMember_spec:
  assumes "v4_net (cfg_Subnet cfg)" "pfx_bits (cfg_Subnet cfg) \<le> 31"
  shows "case List.find (\<lambda>x. rmem_NodeID x = rmem_NodeID m) (cfg_Members cfg) of
      Some x \<Rightarrow> addMember m cfg = Inr (rmem_IP x, cfg)
    | None \<Rightarrow> (case addMember m cfg of
        Inr (a, cfg') \<Rightarrow> usableHost (cfg_Subnet cfg) a \<and> a \<notin> rmem_IP ` set (cfg_Members cfg) \<and>
          cfg' = cfg\<lparr>cfg_Members := cfg_Members cfg @ [m\<lparr>rmem_IP := a\<rparr>]\<rparr> \<and>
          (\<forall>v w. a = V4 v \<and> w < v \<and> usableHost (cfg_Subnet cfg) (V4 w) \<longrightarrow> V4 w \<in> rmem_IP ` set (cfg_Members cfg))
      | Inl e \<Rightarrow> e = NoFreeAddress \<and> (\<forall>a. usableHost (cfg_Subnet cfg) a \<longrightarrow> a \<in> rmem_IP ` set (cfg_Members cfg)))"
proof (cases "List.find (\<lambda>x. rmem_NodeID x = rmem_NodeID m) (cfg_Members cfg)")
  case None
  let ?p = "cfg_Subnet cfg" and ?used = "map rmem_IP (cfg_Members cfg)"
  obtain base where host: "\<And>n. hostAddr ?p n = Some (V4 (base + n))" and top: "unat base + 2 ^ v4_host_bits ?p \<le> 2 ^ 32"
    and usable: "\<And>w. usableHost ?p (V4 w) \<longleftrightarrow> unat base < unat w \<and> unat w + 1 < unat base + 2 ^ v4_host_bits ?p"
    and v4: "\<And>a. usableHost ?p a \<Longrightarrow> \<exists>w. a = V4 w"
    using v4_host_net [OF assms(1)] by metis
  have sz: "unat (room_size ?p) = 2 ^ v4_host_bits ?p - 2" "2 \<le> (2::nat) ^ v4_host_bits ?p"
    using room_size_unat [OF assms] power_increasing [of 1 "v4_host_bits ?p" "2 :: nat"] by simp_all
  have add: "unat (base + y) = unat base + unat y" if "unat y \<le> 2 ^ v4_host_bits ?p - 2" for y
    using that top sz(2) by (subst unat_add_lem [THEN iffD1]) simp_all
  have num: "\<exists>y. w = base + y \<and> 1 \<le> unat y \<and> unat y \<le> unat (room_size ?p)" if "usableHost ?p (V4 w)" for w
  proof (intro exI [of _ "w - base"] conjI)
    have "unat (w - base) = unat w - unat base" using that usable [of w] by (simp add: unat_sub word_le_nat_alt)
    moreover have "unat base < unat w" "unat w + 1 < unat base + 2 ^ v4_host_bits ?p" using that usable [of w] by blast+
    ultimately show "1 \<le> unat (w - base)" "unat (w - base) \<le> unat (room_size ?p)" unfolding sz by linarith+
  qed simp
  have spec: "case free_addr (Suc (length (cfg_Members cfg))) ?p ?used (room_size ?p) 1 of
      Inr a \<Rightarrow> \<exists>x. 1 \<le> unat x \<and> unat x \<le> unat (room_size ?p) \<and> a = V4 (base + x) \<and> a \<notin> set ?used \<and>
        (\<forall>y. 1 \<le> unat y \<and> unat y < unat x \<longrightarrow> V4 (base + y) \<in> set ?used)
    | Inl e \<Rightarrow> e = NoFreeAddress \<and> (\<forall>y. 1 \<le> unat y \<and> unat y \<le> unat (room_size ?p) \<longrightarrow> V4 (base + y) \<in> set ?used)"
    using top sz by (intro free_addr_spec host) simp_all
  have add_eq: "addMember m cfg = (case free_addr (Suc (length (cfg_Members cfg))) ?p ?used (room_size ?p) 1 of
      Inl e \<Rightarrow> Inl e | Inr a \<Rightarrow> Inr (a, cfg\<lparr>cfg_Members := cfg_Members cfg @ [m\<lparr>rmem_IP := a\<rparr>]\<rparr>))"
    using None assms(2) by (simp add: addMember_def)
  show ?thesis
  proof (cases "free_addr (Suc (length (cfg_Members cfg))) ?p ?used (room_size ?p) 1")
    case (Inl e)
    with spec have "e = NoFreeAddress" "\<And>y. 1 \<le> unat y \<and> unat y \<le> unat (room_size ?p) \<Longrightarrow> V4 (base + y) \<in> set ?used" by auto
    moreover have "a \<in> set ?used" if "usableHost ?p a" for a using v4 [OF that] num that calculation(2) by blast
    ultimately show ?thesis using None Inl add_eq by simp
  next
    case (Inr a)
    with spec obtain x where x: "1 \<le> unat x" "unat x \<le> unat (room_size ?p)" "a = V4 (base + x)" "a \<notin> set ?used"
      "\<And>y. 1 \<le> unat y \<Longrightarrow> unat y < unat x \<Longrightarrow> V4 (base + y) \<in> set ?used" by auto
    have "usableHost ?p a" using x(1-3) sz add [of x] by (simp add: usable)
    moreover have "V4 w \<in> set ?used" if w: "w < base + x" "usableHost ?p (V4 w)" for w
    proof -
      obtain y where y: "w = base + y" "1 \<le> unat y" "unat y \<le> unat (room_size ?p)" using num [OF w(2)] by blast
      have "unat y < unat x" using w(1) y x(2) sz add [of x] add [of y] by (simp add: word_less_nat_alt)
      then show ?thesis using x(5) y by blast
    qed
    ultimately show ?thesis using None Inr add_eq x(3,4) by simp
  qed
qed (simp add: addMember_def)

text \<open>A new member of a room gets its first free host address: one that is usable, that no member has and below
  which all are taken; the configuration gains exactly this member. A member that asks again gets the address it has. That there
  is no free address is reported only if every usable one is taken.\<close>

theorem addMember_exact:
  assumes "v4_net (cfg_Subnet cfg)" "pfx_bits (cfg_Subnet cfg) \<le> 31"
  shows "case List.find (\<lambda>x. rmem_NodeID x = rmem_NodeID m) (cfg_Members cfg) of
      Some x \<Rightarrow> addMember m cfg = Inr (rmem_IP x, cfg)
    | None \<Rightarrow> (case addMember m cfg of
        Inr (a, cfg') \<Rightarrow> usableHost (cfg_Subnet cfg) a \<and> a \<notin> rmem_IP ` set (cfg_Members cfg) \<and>
          cfg' = cfg\<lparr>cfg_Members := cfg_Members cfg @ [m\<lparr>rmem_IP := a\<rparr>]\<rparr> \<and>
          (\<forall>v w. a = V4 v \<and> w < v \<and> usableHost (cfg_Subnet cfg) (V4 w) \<longrightarrow> V4 w \<in> rmem_IP ` set (cfg_Members cfg))
      | Inl e \<Rightarrow> e = NoFreeAddress \<and> (\<forall>a. usableHost (cfg_Subnet cfg) a \<longrightarrow> a \<in> rmem_IP ` set (cfg_Members cfg)))"
  using assms by (rule addMember_spec)

theorem addMember_exact_witness:
  "addMember (new_member ''b'' ''b'' [2]) sample_config =
     Inr (V4 0x0A640102, sample_config\<lparr>cfg_Members := cfg_Members sample_config @ [(new_member ''b'' ''b'' [2])\<lparr>rmem_IP := V4 0x0A640102\<rparr>]\<rparr>) \<and>
   usableHost (cfg_Subnet sample_config) (V4 0x0A640102)"
proof -
  have "v4_net (cfg_Subnet sample_config)" "pfx_bits (cfg_Subnet sample_config) \<le> 31"
    "List.find (\<lambda>x. rmem_NodeID x = rmem_NodeID (new_member ''b'' ''b'' [2])) (cfg_Members sample_config) = None" by code_simp+
  moreover have "addMember (new_member ''b'' ''b'' [2]) sample_config =
     Inr (V4 0x0A640102, sample_config\<lparr>cfg_Members := cfg_Members sample_config @ [(new_member ''b'' ''b'' [2])\<lparr>rmem_IP := V4 0x0A640102\<rparr>]\<rparr>)"
    by code_simp
  ultimately show ?thesis using addMember_exact [of sample_config "new_member ''b'' ''b'' [2]"] by simp
qed

section \<open>The state file in every run\<close>

text \<open>What a node's file goes through: requests, replies, configurations, signing keys and cards that arrive, and the commands of its user.
  An event carries what the clock, random draws and the success of writing the file contribute.\<close>

record local_node =
  ln_limiter :: join_limiter
  ln_file :: state

datatype local_event =
    JoinEv seal_draw bool time bytes bytes addrport
  | ReplyEv bool bytes bytes
  | ConfigEv bool string signed
  | KeyEv bool string string
  | CardsEv bool string "(string \<times> bytes \<times> addrport list) list"
  | CreateEv bytes string time bytes bytes byte byte string string prefix
  | AdminEv string time string string
  | KickEv string time string string
  | InviteEv time bytes int duration string
  | LinkEv local_link string

definition on_file :: "(state \<Rightarrow> state) \<Rightarrow> local_node \<Rightarrow> local_node" where
  "on_file f s = s\<lparr>ln_file := f (ln_file s)\<rparr>"

definition find_room :: "string \<Rightarrow> state \<Rightarrow> local_room option" where
  "find_room i st = List.find (\<lambda>lr. lr_RoomID lr = i) (st_Local st)"

fun local_step :: "local_env \<Rightarrow> local_event \<Rightarrow> local_node \<Rightarrow> local_node" where
  "local_step E (JoinEv w save now sender data from') s =
     (case handleJoin E w save now sender data from' (ln_limiter s) (ln_file s) of (_, l, st) \<Rightarrow> \<lparr>ln_limiter = l, ln_file = st\<rparr>)"
| "local_step E (ReplyEv save sender data) s = on_file (handleJoinReply E save sender data) s"
| "local_step E (ConfigEv save i sg) s = on_file (persistLocal (le_signer E) save i sg) s"
| "local_step E (KeyEv save i answer) s = on_file (\<lambda>st. case find_room i st of
     None \<Rightarrow> st
   | Some lr \<Rightarrow> (case fetchSignKey (le_signer E) (lr_RoomKey lr) answer of None \<Rightarrow> st | Some seed \<Rightarrow> keepSignKey save i seed st)) s"
| "local_step E (CardsEv save i cards) s = on_file (learnLocalPeers save i cards) s"
| "local_step E (CreateEv seed me now secret sign b0 b1 name memberName subnet) s = on_file (\<lambda>st.
     case CreateLocalRoom E seed me now secret sign b0 b1 name memberName subnet st of Inl _ \<Rightarrow> st | Inr (_, st') \<Rightarrow> st') s"
| "local_step E (AdminEv me now ref who) s = on_file (\<lambda>st. snd (room_command (le_unicode E) ref (room_admin (le_signer E) me now who) st)) s"
| "local_step E (KickEv me now ref who) s = on_file (\<lambda>st. snd (room_command (le_unicode E) ref (room_kick (le_signer E) me now who) st)) s"
| "local_step E (InviteEv now rnd uses ttl ref) s =
     on_file (\<lambda>st. snd (room_command (le_unicode E) ref (room_invite (le_signer E) now rnd uses ttl) st)) s"
| "local_step E (LinkEv link name) s = on_file (\<lambda>st. snd (joinLocal link name st)) s"

text \<open>What holds of each room: its signing key is the one whose public half is pinned, and its configuration bears a signature of
  the pinned key.\<close>

definition key_fits :: "signer \<Rightarrow> local_room \<Rightarrow> bool" where
  "key_fits S lr \<longleftrightarrow> lr_SignKey lr = [] \<or> length (lr_SignKey lr) = 32 \<and> RoomKeyString (ed_pub S (lr_SignKey lr)) = lr_RoomKey lr"

definition config_signed :: "signer \<Rightarrow> local_room \<Rightarrow> bool" where
  "config_signed S lr \<longleftrightarrow> (\<forall>s. lr_Config lr = Some s \<longrightarrow> (\<exists>pub. ParseRoomKey (lr_RoomKey lr) = Inr pub \<and>
     ed_verify S pub (bytes_of roomConfigDomain @ sg_Payload s) (sg_Sig s)))"

definition room_sound :: "signer \<Rightarrow> local_room \<Rightarrow> bool" where
  "room_sound S lr \<longleftrightarrow> key_fits S lr \<and> config_signed S lr"

text \<open>What a change of a room keeps.\<close>

definition keeps :: "signer \<Rightarrow> local_room \<Rightarrow> local_room \<Rightarrow> bool" where
  "keeps S lr lr' \<longleftrightarrow> lr_RoomID lr' = lr_RoomID lr \<and> lr_RoomKey lr' = lr_RoomKey lr \<and> (room_sound S lr \<longrightarrow> room_sound S lr')"

lemma keeps_refl [simp]: "keeps S lr lr"
  by (simp add: keeps_def)

lemma keeps_trans: "keeps S a b \<Longrightarrow> keeps S b c \<Longrightarrow> keeps S a c"
  by (simp add: keeps_def)

lemma room_sound_peers [simp]: "room_sound S (lr\<lparr>lr_Peers := ps\<rparr>) = room_sound S lr"
  by (simp add: room_sound_def key_fits_def config_signed_def)

lemma keeps_peers: "keeps S lr lr' \<Longrightarrow> keeps S lr (lr'\<lparr>lr_Peers := ps\<rparr>)"
  by (simp add: keeps_def)

lemma keeps_other: "lr_RoomID lr' = lr_RoomID lr \<Longrightarrow> lr_RoomKey lr' = lr_RoomKey lr \<Longrightarrow> lr_SignKey lr' = lr_SignKey lr \<Longrightarrow>
    lr_Config lr' = lr_Config lr \<Longrightarrow> keeps S lr lr'"
  by (simp add: keeps_def room_sound_def key_fits_def config_signed_def)

lemma signed_ok: "signer_ok S \<Longrightarrow> length k = 32 \<Longrightarrow> RoomKeyString (ed_pub S k) = key \<Longrightarrow>
    ParseRoomKey key = Inr (ed_pub S k) \<and>
    ed_verify S (ed_pub S k) (bytes_of roomConfigDomain @ sg_Payload (SignRoomConfig S k c)) (sg_Sig (SignRoomConfig S k c))"
  by (auto simp: signer_ok_def SignRoomConfig_def Let_def ParseRoomKey_String)

lemma keeps_sign: "signer_ok S \<Longrightarrow> lr_sign S now cfg lr = Inr lr' \<Longrightarrow> keeps S lr lr'"
  using signed_ok [of S "lr_SignKey lr" "lr_RoomKey lr" "cfg\<lparr>cfg_IssuedAt := now\<rparr>"]
  by (auto simp: lr_sign_def keeps_def room_sound_def key_fits_def config_signed_def split: if_splits)

lemma keeps_Update: "signer_ok S \<Longrightarrow> lr_Update S now f r0 lr = (r, Inr lr') \<Longrightarrow> keeps S lr lr'"
  by (auto simp: lr_Update_def dest: keeps_sign split: sum.splits prod.splits)

lemma keeps_useInvite: "lr_useInvite S now tok lr = Some lr' \<Longrightarrow> keeps S lr lr'"
  by (auto simp: lr_useInvite_def intro: keeps_other)

lemma keeps_accept:
  assumes "signer_ok (le_signer E)" "accept_member E now sender from' req nodeID lr = (rep, Inr lr')"
  shows "keeps (le_signer E) lr lr'"
  using assms(2)
  by (auto simp: accept_member_def Let_def split: if_splits sum.splits option.splits prod.splits local_error.splits
      dest!: keeps_useInvite keeps_Update [OF assms(1)] intro: keeps_trans keeps_peers)

lemma keeps_take_reply: "take_reply sender rep lr = Inr lr' \<Longrightarrow> keeps S lr lr'"
  by (auto simp: take_reply_def split: option.splits if_splits intro: keeps_other)

lemma VerifyRoomConfig_signed: "VerifyRoomConfig S pub s = Inr c \<Longrightarrow> ed_verify S pub (bytes_of roomConfigDomain @ sg_Payload s) (sg_Sig s)"
  by (auto simp: VerifyRoomConfig_def split: if_splits)

lemma keeps_keep_config: "keep_config S s lr = Inr lr' \<Longrightarrow> keeps S lr lr'"
  by (auto simp: keep_config_def keeps_def room_sound_def key_fits_def config_signed_def
      dest: VerifyRoomConfig_signed split: sum.splits option.splits if_splits)

lemma keeps_learn: "learn_peers cards lr = Inr lr' \<Longrightarrow> keeps S lr lr'"
  by (auto simp: learn_peers_def split: prod.splits if_splits intro: keeps_other)

lemma keeps_admin: "signer_ok S \<Longrightarrow> room_admin S me now who lr = Inr lr' \<Longrightarrow> keeps S lr lr'"
  unfolding room_admin_def by (rule keeps_Update [of S now _ "()" lr "()"]) (auto simp: prod_eq_iff)

lemma keeps_kick: "signer_ok S \<Longrightarrow> room_kick S me now who lr = Inr lr' \<Longrightarrow> keeps S lr lr'"
  by (auto simp: room_kick_def split: prod.splits sum.splits option.splits dest!: keeps_Update intro: keeps_peers)

lemma keeps_invite: "room_invite S now rnd uses ttl lr = Inr lr' \<Longrightarrow> keeps S lr lr'"
  by (auto simp: room_invite_def lr_NewInvite_def Let_def split: sum.splits prod.splits if_splits intro: keeps_other)

lemma fetchSignKey_fits: "fetchSignKey S pinned answer = Some seed \<Longrightarrow> length seed = 32 \<and> RoomKeyString (ed_pub S seed) = pinned"
  by (auto simp: fetchSignKey_def split: prod.splits if_splits option.splits)

text \<open>A change of one room in the file.\<close>

lemma modify_in_Some: "modify_in i f lrs = Some (r, Inr lrs') \<Longrightarrow>
    \<exists>pre lr lr' post. lrs = pre @ lr # post \<and> (\<forall>y \<in> set pre. lr_RoomID y \<noteq> i) \<and> lr_RoomID lr = i \<and> f lr = (r, Inr lr') \<and>
      lrs' = pre @ lr' # post"
proof (induction lrs arbitrary: lrs')
  case (Cons lr lrs)
  show ?case
  proof (cases "lr_RoomID lr = i")
    case True
    then obtain lr' where "f lr = (r, Inr lr')" "lrs' = lr' # lrs" using Cons.prems by (auto split: prod.splits sum.splits)
    then show ?thesis using True by (intro exI [of _ "[]"]) auto
  next
    case False
    then obtain xs where xs: "modify_in i f lrs = Some (r, Inr xs)" "lrs' = lr # xs"
      using Cons.prems by (auto split: prod.splits sum.splits option.splits)
    from Cons.IH [OF xs(1)] obtain pre l l' post where
      "lrs = pre @ l # post \<and> (\<forall>y \<in> set pre. lr_RoomID y \<noteq> i) \<and> lr_RoomID l = i \<and> f l = (r, Inr l') \<and> xs = pre @ l' # post" by blast
    then show ?thesis using False xs(2) by (intro exI [of _ "lr # pre"] exI [of _ l] exI [of _ l'] exI [of _ post]) simp
  qed
qed simp

lemma modify_in_hit: "\<forall>y \<in> set pre. lr_RoomID y \<noteq> i \<Longrightarrow> lr_RoomID lr = i \<Longrightarrow>
    modify_in i f (pre @ lr # post) = Some (fst (f lr), case snd (f lr) of Inl e \<Rightarrow> Inl e | Inr lr' \<Rightarrow> Inr (pre @ lr' # post))"
  by (induction pre) (auto split: prod.splits sum.splits)

text \<open>All rooms stay where they are, with the changes that are allowed.\<close>

definition file_keeps :: "signer \<Rightarrow> state \<Rightarrow> state \<Rightarrow> bool" where
  "file_keeps S st st' \<longleftrightarrow> (\<exists>new. list_all2 (keeps S) (st_Local st @ new) (st_Local st') \<and> (\<forall>lr \<in> set new. room_sound S lr))"

lemma list_all2_keeps_refl: "list_all2 (keeps S) xs xs"
  by (simp add: list_all2_refl)

lemma file_keeps_refl [simp]: "file_keeps S st st"
  unfolding file_keeps_def by (intro exI [of _ "[]"]) (simp add: list_all2_keeps_refl)

lemma file_keeps_change: "keeps S lr lr' \<Longrightarrow> st_Local st = pre @ lr # post \<Longrightarrow> file_keeps S st (st\<lparr>st_Local := pre @ lr' # post\<rparr>)"
  unfolding file_keeps_def by (intro exI [of _ "[]"]) (simp add: list_all2_appendI list_all2_keeps_refl)

lemma file_keeps_new: "room_sound S lr \<Longrightarrow> file_keeps S st (st\<lparr>st_Local := st_Local st @ [lr]\<rparr>)"
  unfolding file_keeps_def by (intro exI [of _ "[lr]"]) (simp add: list_all2_keeps_refl)

lemma modifyLocal_keeps:
  assumes "\<And>lr r lr'. f lr = (r, Inr lr') \<Longrightarrow> keeps S lr lr'"
  shows "file_keeps S st (snd (snd (modifyLocal save i f r0 st)))"
  using assms unfolding modifyLocal_def
  by (auto split: option.splits prod.splits sum.splits dest!: modify_in_Some intro: file_keeps_change)

lemma room_command_keeps:
  assumes "\<And>lr lr'. f lr = Inr lr' \<Longrightarrow> keeps S lr lr'"
  shows "file_keeps S st (snd (room_command u ref f st))"
  using assms unfolding room_command_def
  by (auto split: option.splits prod.splits sum.splits dest!: modify_in_Some intro: file_keeps_change)

lemma handleJoin_file:
  "handleJoin E w save now sender data from' l st = (out, l', st') \<Longrightarrow> st' = st \<or> (\<exists>req nodeID. le_request_in E data = Some req \<and>
     request_node E req = Some nodeID \<and>
     st' = snd (snd (modifyLocal save (jq_RoomID req) (accept_member E now sender from' req nodeID) (blank_reply (jq_RoomID req)) st)))"
  by (auto simp: handleJoin_def split: prod.splits if_splits option.splits)

lemma find_split: "List.find P xs = Some x \<Longrightarrow> \<exists>pre post. xs = pre @ x # post \<and> (\<forall>y \<in> set pre. \<not> P y) \<and> P x"
proof (induction xs)
  case (Cons a xs)
  then show ?case
  proof (cases "P a")
    case True
    then show ?thesis using Cons.prems by (intro exI [of _ "[]"] exI [of _ xs]) simp
  next
    case False
    with Cons obtain pre post where "xs = pre @ x # post \<and> (\<forall>y \<in> set pre. \<not> P y) \<and> P x" by auto
    then show ?thesis using False by (intro exI [of _ "a # pre"] exI [of _ post]) simp
  qed
qed simp

lemma keySign_keeps:
  assumes "find_room i st = Some lr" "fetchSignKey S (lr_RoomKey lr) answer = Some seed"
  shows "file_keeps S st (keepSignKey save i seed st)"
proof -
  have "\<exists>pre post. st_Local st = pre @ lr # post \<and> (\<forall>y \<in> set pre. lr_RoomID y \<noteq> i) \<and> lr_RoomID lr = i"
    using find_split [OF assms(1) [unfolded find_room_def]] by simp
  then obtain pre post where st: "st_Local st = pre @ lr # post" "\<forall>y \<in> set pre. lr_RoomID y \<noteq> i" "lr_RoomID lr = i" by blast
  have "keeps S lr (lr\<lparr>lr_SignKey := seed\<rparr>)"
    using fetchSignKey_fits [OF assms(2)] by (auto simp: keeps_def room_sound_def key_fits_def config_signed_def)
  then show ?thesis
    using st(1) by (simp add: keepSignKey_def modifyLocal_def st modify_in_hit file_keeps_change [OF _ st(1)])
qed

lemma Create_keeps:
  assumes "signer_ok (le_signer E)" "CreateLocalRoom E seed me now secret sign b0 b1 name memberName subnet st = Inr (lr, st')"
  shows "file_keeps (le_signer E) st st'"
proof -
  from assms(2) obtain cfg lr0 where sign: "lr_sign (le_signer E) now cfg lr0 = Inr lr" and lr0: "lr_SignKey lr0 = sign"
      "lr_RoomKey lr0 = RoomKeyString (ed_pub (le_signer E) sign)" "lr_Config lr0 = None" and st': "st' = st\<lparr>st_Local := st_Local st @ [lr]\<rparr>"
    by (auto simp: CreateLocalRoom_def Let_def split: if_splits option.splits sum.splits)
  have "length sign = 32" using sign lr0 by (auto simp: lr_sign_def split: if_splits)
  then have "room_sound (le_signer E) lr0" using lr0 by (simp add: room_sound_def key_fits_def config_signed_def)
  then have "room_sound (le_signer E) lr" using keeps_sign [OF assms(1) sign] by (simp add: keeps_def)
  then show ?thesis unfolding st' by (rule file_keeps_new)
qed

lemma joinLocal_keeps: "file_keeps S st (snd (joinLocal link name st))"
  by (auto simp: joinLocal_def room_sound_def key_fits_def config_signed_def intro: file_keeps_new)

lemma handleJoin_keeps:
  assumes "signer_ok (le_signer E)" "handleJoin E w save now sender data from' l st = (out, l', st')"
  shows "file_keeps (le_signer E) st st'"
  using handleJoin_file [OF assms(2)] modifyLocal_keeps [OF keeps_accept [OF assms(1)]] by fastforce

lemma local_step_keeps:
  assumes "signer_ok (le_signer E)"
  shows "file_keeps (le_signer E) (ln_file s) (ln_file (local_step E e s))"
proof (cases e)
  case (JoinEv w save now sender data from')
  then show ?thesis by (auto split: prod.split intro: handleJoin_keeps [OF assms])
next
  case (ReplyEv save sender data)
  then show ?thesis
    by (auto simp: on_file_def handleJoinReply_def split: option.split intro!: modifyLocal_keeps dest!: keeps_take_reply)
next
  case (ConfigEv save i sg)
  then show ?thesis by (auto simp: on_file_def persistLocal_def intro!: modifyLocal_keeps dest!: keeps_keep_config)
next
  case (KeyEv save i answer)
  then show ?thesis by (auto simp: on_file_def split: option.split intro: keySign_keeps)
next
  case (CardsEv save i cards)
  then show ?thesis by (auto simp: on_file_def learnLocalPeers_def intro!: modifyLocal_keeps dest!: keeps_learn)
next
  case (CreateEv seed me now secret sign b0 b1 name memberName subnet)
  then show ?thesis by (auto simp: on_file_def split: sum.split intro: Create_keeps [OF assms])
next
  case (AdminEv me now ref who)
  then show ?thesis by (auto simp: on_file_def intro!: room_command_keeps keeps_admin [OF assms])
next
  case (KickEv me now ref who)
  then show ?thesis by (auto simp: on_file_def intro!: room_command_keeps keeps_kick [OF assms])
next
  case (InviteEv now rnd uses ttl ref)
  then show ?thesis by (auto simp: on_file_def intro!: room_command_keeps keeps_invite)
next
  case (LinkEv link name)
  then show ?thesis by (simp add: on_file_def joinLocal_keeps)
qed

lemma file_keeps_trans:
  assumes "file_keeps S a b" "file_keeps S b c"
  shows "file_keeps S a c"
proof -
  obtain n1 where 1: "list_all2 (keeps S) (st_Local a @ n1) (st_Local b)" "\<forall>lr \<in> set n1. room_sound S lr"
    using assms(1) by (auto simp: file_keeps_def)
  obtain n2 where 2: "list_all2 (keeps S) (st_Local b @ n2) (st_Local c)" "\<forall>lr \<in> set n2. room_sound S lr"
    using assms(2) by (auto simp: file_keeps_def)
  have "list_all2 (keeps S) ((st_Local a @ n1) @ n2) (st_Local b @ n2)"
    using 1(1) by (rule list_all2_appendI) (rule list_all2_keeps_refl)
  then have "list_all2 (keeps S) ((st_Local a @ n1) @ n2) (st_Local c)"
    using 2(1)
    by - (rule list_all2_trans [of "keeps S" "keeps S" "keeps S" _ "st_Local b @ n2"], (assumption | erule (1) keeps_trans)+)
  then show ?thesis unfolding file_keeps_def using 1(2) 2(2) by (intro exI [of _ "n1 @ n2"]) auto
qed

interpretation local_files: machine "local_step E" "\<lambda>_. signer_ok (le_signer E)" "\<lambda>s. file_keeps (le_signer E) st (ln_file s)" for E st
  by unfold_locales (blast intro: file_keeps_trans local_step_keeps)

lemma file_keeps_rooms:
  assumes "file_keeps S st st'" "\<forall>lr \<in> set (st_Local st). room_sound S lr"
  shows "(\<forall>lr \<in> set (st_Local st'). room_sound S lr) \<and> (\<forall>i < length (st_Local st). i < length (st_Local st') \<and>
     lr_RoomID (st_Local st' ! i) = lr_RoomID (st_Local st ! i) \<and> lr_RoomKey (st_Local st' ! i) = lr_RoomKey (st_Local st ! i))"
proof -
  obtain new where new: "list_all2 (keeps S) (st_Local st @ new) (st_Local st')" "\<forall>lr \<in> set new. room_sound S lr"
    using assms(1) by (auto simp: file_keeps_def)
  have len: "length (st_Local st @ new) = length (st_Local st')" using new(1) by (rule list_all2_lengthD)
  have k: "keeps S ((st_Local st @ new) ! i) (st_Local st' ! i)" if "i < length (st_Local st')" for i
    using list_all2_nthD [OF new(1)] that len by simp
  have "room_sound S (st_Local st' ! i)" if i: "i < length (st_Local st')" for i
  proof -
    have "(st_Local st @ new) ! i \<in> set (st_Local st @ new)" using i len by (intro nth_mem) simp
    then show ?thesis using k [OF i] assms(2) new(2) by (auto simp: keeps_def)
  qed
  moreover have "lr_RoomID (st_Local st' ! i) = lr_RoomID (st_Local st ! i) \<and> lr_RoomKey (st_Local st' ! i) = lr_RoomKey (st_Local st ! i)"
    "i < length (st_Local st')" if i: "i < length (st_Local st)" for i
    using k [of i] i len by (simp_all add: keeps_def nth_append)
  ultimately show ?thesis by (auto simp: in_set_conv_nth)
qed

text \<open>C18: Whatever reaches a node and whatever its user does, the rooms in its state file stay authentic: the pinned key of a room
  never changes, every configuration in the file bears a signature made with the pinned key, and a signing key in the file is the
  private half of the pinned key.\<close>

theorem local_rooms_authentic:
  fixes E es s
  defines "s' \<equiv> run (local_step E) es s"
  assumes "signer_ok (le_signer E)" "\<forall>lr \<in> set (st_Local (ln_file s)). room_sound (le_signer E) lr"
  shows "(\<forall>lr \<in> set (st_Local (ln_file s')).
      (lr_SignKey lr \<noteq> [] \<longrightarrow> length (lr_SignKey lr) = 32 \<and> RoomKeyString (ed_pub (le_signer E) (lr_SignKey lr)) = lr_RoomKey lr) \<and>
      (\<forall>sg. lr_Config lr = Some sg \<longrightarrow> (\<exists>pub. ParseRoomKey (lr_RoomKey lr) = Inr pub \<and>
         ed_verify (le_signer E) pub (bytes_of roomConfigDomain @ sg_Payload sg) (sg_Sig sg)))) \<and>
    (\<forall>i < length (st_Local (ln_file s)). i < length (st_Local (ln_file s')) \<and>
       lr_RoomID (st_Local (ln_file s') ! i) = lr_RoomID (st_Local (ln_file s) ! i) \<and>
       lr_RoomKey (st_Local (ln_file s') ! i) = lr_RoomKey (st_Local (ln_file s) ! i))"
proof -
  have "file_keeps (le_signer E) (ln_file s) (ln_file s')"
    unfolding s'_def using assms(2) by (intro local_files.run_inv) simp_all
  from file_keeps_rooms [OF this assms(3)] show ?thesis unfolding room_sound_def key_fits_def config_signed_def by blast
qed

section \<open>From the invite to the membership\<close>

lemma usable_contains: "usableHost p a \<Longrightarrow> contains p a"
  by (simp add: usableHost_def split: if_splits)

lemma lr_config_ok:
  assumes "lr_config S lr = Inr cfg"
  shows "config_ok S cfg"
  using assms check_config_None [of S cfg] by (auto simp: lr_config_def VerifyRoomConfig_def split: option.splits sum.splits if_splits)

lemma lr_config_cong: "lr_Config lr' = lr_Config lr \<Longrightarrow> lr_RoomKey lr' = lr_RoomKey lr \<Longrightarrow> lr_config S lr' = lr_config S lr"
  by (auto simp: lr_config_def split: option.split)

lemma useInvite_keeps: "lr_useInvite S now tok lr = Some lr1 \<Longrightarrow> lr_Config lr1 = lr_Config lr \<and> lr_RoomKey lr1 = lr_RoomKey lr \<and>
    lr_SignKey lr1 = lr_SignKey lr \<and> lr_RoomID lr1 = lr_RoomID lr \<and> lr_Join lr1 = lr_Join lr \<and> lr_Peers lr1 = lr_Peers lr"
  by (auto simp: lr_useInvite_def)

text \<open>The configuration after an admission.\<close>

definition admitted :: "time \<Rightarrow> room_config \<Rightarrow> room_config" where
  "admitted now cfg = cfg\<lparr>cfg_Version := cfg_Version cfg + 1, cfg_IssuedAt := now\<rparr>"

lemma config_ok_added:
  assumes "config_ok S cfg" "usableHost (cfg_Subnet cfg) a" "a \<notin> rmem_IP ` set (cfg_Members cfg)" "rmem_Routes m = []" "rmem_IP m = a"
  shows "config_ok S (admitted now (cfg\<lparr>cfg_Members := cfg_Members cfg @ [m]\<rparr>))"
  using assms usable_contains [OF assms(2)] by (auto simp: config_ok_def admitted_def)

lemma signed_config:
  assumes "signer_ok S" "json_ok S c" "config_ok S c" "key_fits S lr" "lr_SignKey lr \<noteq> []"
  shows "lr_config S (lr\<lparr>lr_Config := Some (SignRoomConfig S (lr_SignKey lr) c)\<rparr>) = Inr c"
    "\<exists>pub. ParseRoomKey (lr_RoomKey lr) = Inr pub \<and> VerifyRoomConfig S pub (SignRoomConfig S (lr_SignKey lr) c) = Inr c"
proof -
  have k: "length (lr_SignKey lr) = 32" "RoomKeyString (ed_pub S (lr_SignKey lr)) = lr_RoomKey lr"
    using assms(4,5) by (simp_all add: key_fits_def)
  have p: "ParseRoomKey (lr_RoomKey lr) = Inr (ed_pub S (lr_SignKey lr))" using signed_ok [OF assms(1) k] by simp
  have v: "VerifyRoomConfig S (ed_pub S (lr_SignKey lr)) (SignRoomConfig S (lr_SignKey lr) c) = Inr c"
    using assms(1-3) check_config_None [of S c]
    by (simp add: VerifyRoomConfig_def SignRoomConfig_def Let_def signer_ok_def json_ok_def)
  show "lr_config S (lr\<lparr>lr_Config := Some (SignRoomConfig S (lr_SignKey lr) c)\<rparr>) = Inr c" using p v by (simp add: lr_config_def)
  show "\<exists>pub. ParseRoomKey (lr_RoomKey lr) = Inr pub \<and> VerifyRoomConfig S pub (SignRoomConfig S (lr_SignKey lr) c) = Inr c"
    using p v by blast
qed

text \<open>An admin's node and a node that is not a member yet and has a good invite.\<close>

lemma accept_new_member:
  fixes E now req nodeID lr a m sender from'
  defines "S \<equiv> le_signer E"
  assumes "lr_config S lr = Inr cfg" "length (lr_SignKey lr) = 32"
    and "List.find (\<lambda>m. rmem_NodeID m = nodeID) (cfg_Members cfg) = None" "lr_useInvite S now (jq_Token req) lr = Some lr1"
    and m: "addMember (new_member nodeID (joiner_name nodeID req) (jq_WGKey req)) cfg = Inr (a, cfg')"
  shows "accept_member E now sender from' req nodeID lr =
    ((blank_reply (jq_RoomID req))\<lparr>rp_IP := a, rp_OK := True\<rparr>,
     Inr (lr1\<lparr>lr_Config := Some (SignRoomConfig S (lr_SignKey lr) (admitted now cfg')),
        lr_Peers := AList.update nodeID (joiner_peer sender from' req) (lr_Peers lr)\<rparr>))"
proof -
  have "lr_config S lr1 = Inr cfg" using useInvite_keeps [OF assms(5)] lr_config_cong [of lr1 lr S] assms(2) by simp
  then have "lr_Update S now (add_to_config (new_member nodeID (joiner_name nodeID req) (jq_WGKey req))) NoAddr lr1 =
      (a, Inr (lr1\<lparr>lr_Config := Some (SignRoomConfig S (lr_SignKey lr) (admitted now cfg'))\<rparr>))"
    using useInvite_keeps [OF assms(5)] assms(3)
    by (simp add: lr_Update_def add_to_config_def m lr_sign_def admitted_def)
  then show ?thesis
    using assms(2-5) useInvite_keeps [OF assms(5)] by (auto simp: accept_member_def Let_def S_def)
qed

lemma use_in_live:
  assumes "\<exists>v \<in> set vs. li_TokenHash v = h \<and> now < li_Expires v \<and> li_UsesLeft v \<noteq> 0"
  shows "\<exists>vs'. use_in now h vs = Some vs'"
  using assms by (induction vs) auto

lemma request_node_own:
  assumes "signer_ok (le_signer E)"
  shows "request_node E (own_request E seed link name eps) = Some (NodeIDFromPublic (le_unicode E) (le_blake2s E) (ed_pub (le_signer E) seed))"
  using assms by (simp add: request_node_def own_request_def Let_def b64_decode_encode signer_ok_def signedPart_def)

lemma find_room_split: "find_room i st = Some lr \<longleftrightarrow>
    (\<exists>pre post. st_Local st = pre @ lr # post \<and> (\<forall>y \<in> set pre. lr_RoomID y \<noteq> i) \<and> lr_RoomID lr = i)"
proof
  assume "find_room i st = Some lr"
  from find_split [OF this [unfolded find_room_def]] show "\<exists>pre post. st_Local st = pre @ lr # post \<and> (\<forall>y \<in> set pre. lr_RoomID y \<noteq> i) \<and> lr_RoomID lr = i"
    by simp
next
  have "List.find (\<lambda>lr. lr_RoomID lr = i) (pre @ lr # post) = Some lr" if "\<forall>y \<in> set pre. lr_RoomID y \<noteq> i" "lr_RoomID lr = i" for pre post
    using that by (induction pre) auto
  moreover assume "\<exists>pre post. st_Local st = pre @ lr # post \<and> (\<forall>y \<in> set pre. lr_RoomID y \<noteq> i) \<and> lr_RoomID lr = i"
  ultimately show "find_room i st = Some lr" unfolding find_room_def by auto
qed

lemma modifyLocal_hit:
  assumes "find_room i st = Some lr" "f lr = (r, Inr lr')" "lr_RoomID lr' = i"
  shows "\<exists>st'. modifyLocal True i f r0 st = (r, None, st') \<and> find_room i st' = Some lr'"
proof -
  obtain pre post where p: "st_Local st = pre @ lr # post" "\<forall>y \<in> set pre. lr_RoomID y \<noteq> i" "lr_RoomID lr = i"
    using assms(1) by (auto simp: find_room_split)
  then have "modifyLocal True i f r0 st = (r, None, st\<lparr>st_Local := pre @ lr' # post\<rparr>)"
    using assms(2) by (simp add: modifyLocal_def modify_in_hit)
  moreover have "find_room i (st\<lparr>st_Local := pre @ lr' # post\<rparr>) = Some lr'" using p(2) assms(3) by (auto simp: find_room_split)
  ultimately show ?thesis by blast
qed

definition welcome_reply :: "string \<Rightarrow> addr \<Rightarrow> local_reply" where
  "welcome_reply i a = (blank_reply i)\<lparr>rp_IP := a, rp_OK := True\<rparr>"

lemma owner_admits:
  fixes E seed link name eps
  defines "S \<equiv> le_signer E" and "i \<equiv> ll_RoomID link" and "req \<equiv> own_request E seed link name eps"
  defines "me \<equiv> NodeIDFromPublic (le_unicode E) (le_blake2s E) (ed_pub S seed)"
  assumes "signer_ok S" "le_request_in E (le_request_out E req) = Some req" "\<not> fst (join_limit now l)"
    and lr: "find_room i st = Some lr" "room_sound S lr" "lr_SignKey lr \<noteq> []" "lr_config S lr = Inr cfg"
    and new: "List.find (\<lambda>m. rmem_NodeID m = me) (cfg_Members cfg) = None"
    and live: "\<exists>v \<in> set (lr_Invites lr). li_TokenHash v = token_hash S (ll_Token link) \<and> now < li_Expires v \<and> li_UsesLeft v \<noteq> 0"
    and add: "addMember (new_member me (joiner_name me req) (jq_WGKey req)) cfg = Inr (a, cfg')"
    and ok: "json_ok S (admitted now cfg')" "config_ok S (admitted now cfg')"
  shows "\<exists>st' lr'. handleJoin E w True now key (le_request_out E req) from' l st =
      (Some (mgr_seal (le_disco E) w \<lparr>msg_Type = TypeJoinReply, msg_Tx = sd_tx w, msg_Src = None,
         msg_Data = le_reply_out E (welcome_reply i a)\<rparr> key, from'), snd (join_limit now l), st') \<and>
      find_room i st' = Some lr' \<and> lr_Config lr' = Some (SignRoomConfig S (lr_SignKey lr) (admitted now cfg')) \<and>
      lr_config S lr' = Inr (admitted now cfg')"
proof -
  have rq: "jq_RoomID req = i" "jq_Token req = ll_Token link" by (simp_all add: req_def own_request_def Let_def i_def)
  have k: "key_fits S lr" using lr(2) by (simp add: room_sound_def)
  obtain lr1 where u: "lr_useInvite S now (jq_Token req) lr = Some lr1"
    using use_in_live [OF live] unfolding rq lr_useInvite_def by auto
  let ?lr = "lr1\<lparr>lr_Config := Some (SignRoomConfig S (lr_SignKey lr) (admitted now cfg')),
      lr_Peers := AList.update me (joiner_peer key from' req) (lr_Peers lr)\<rparr>"
  have "accept_member E now key from' req me lr = (welcome_reply i a, Inr ?lr)"
    using accept_new_member [of E lr cfg me now req lr1 a cfg' key from'] lr(3,4) k new u add
    by (simp add: S_def rq welcome_reply_def key_fits_def)
  moreover have keep: "lr_RoomID ?lr = i" "lr_RoomKey ?lr = lr_RoomKey lr"
    using useInvite_keeps [OF u] lr(1) by (auto simp: find_room_split)
  ultimately obtain st' where st': "modifyLocal True i (accept_member E now key from' req me) (blank_reply i) st = (welcome_reply i a, None, st')"
      "find_room i st' = Some ?lr"
    using modifyLocal_hit [OF lr(1) _ keep(1), of "accept_member E now key from' req me" "welcome_reply i a" "blank_reply i"] by auto
  have "lr_config S ?lr = lr_config S (lr\<lparr>lr_Config := Some (SignRoomConfig S (lr_SignKey lr) (admitted now cfg'))\<rparr>)"
    using keep(2) by (simp add: lr_config_def)
  then have "lr_config S ?lr = Inr (admitted now cfg')" using signed_config(1) [OF assms(5) ok k lr(3)] by simp
  moreover have w: "rp_OK (welcome_reply i a)" by (simp add: welcome_reply_def)
  obtain l' where jl: "join_limit now l = (False, l')" using assms(7) by (cases "join_limit now l") simp
  have "request_node E req = Some me" using request_node_own [of E] assms(5) by (simp add: req_def me_def S_def)
  then have "handleJoin E w True now key (le_request_out E req) from' l st =
      (Some (mgr_seal (le_disco E) w \<lparr>msg_Type = TypeJoinReply, msg_Tx = sd_tx w, msg_Src = None,
         msg_Data = le_reply_out E (welcome_reply i a)\<rparr> key, from'), snd (join_limit now l), st')"
    by (simp add: handleJoin_def jl assms(6) rq st'(1) w)
  ultimately show ?thesis using st'(2) by auto
qed

text \<open>The other side: the reply gives the address, and the configuration that follows completes the membership.\<close>

lemma joiner_completes:
  fixes E link jt jr
  defines "S \<equiv> le_signer E" and "i \<equiv> ll_RoomID link"
  assumes "find_room i jt = Some jr" "lr_Config jr = None" "lr_Join jr = Some \<lparr>lj_Invite = link, lj_Name = name, lj_IP = NoAddr\<rparr>"
    and "contains (ll_Subnet link) a" "le_reply_in E (le_reply_out E (welcome_reply i a)) = Some (welcome_reply i a)"
    and key: "ParseRoomKey (lr_RoomKey jr) = Inr pub" "VerifyRoomConfig S pub sg = Inr c"
  shows "\<exists>jr'. find_room i (persistLocal S True i sg (handleJoinReply E True (ll_OwnerDisco link) (le_reply_out E (welcome_reply i a)) jt)) = Some jr' \<and>
      lr_config S jr' = Inr c \<and> lr_Join jr' = None \<and> lr_RoomKey jr' = lr_RoomKey jr"
proof -
  let ?jr1 = "jr\<lparr>lr_Join := Some \<lparr>lj_Invite = link, lj_Name = name, lj_IP = a\<rparr>\<rparr>"
  have i: "lr_RoomID jr = i" using assms(3) by (auto simp: find_room_split)
  have "take_reply (ll_OwnerDisco link) (welcome_reply i a) jr = Inr ?jr1"
    using assms(5,6) by (simp add: take_reply_def welcome_reply_def)
  then obtain jt1 where jt1: "handleJoinReply E True (ll_OwnerDisco link) (le_reply_out E (welcome_reply i a)) jt = jt1"
      "find_room i jt1 = Some ?jr1"
    using modifyLocal_hit [OF assms(3), of "\<lambda>lr. ((), take_reply (ll_OwnerDisco link) (welcome_reply i a) lr)" "()" ?jr1 "()"] assms(7) i
    by (auto simp: handleJoinReply_def welcome_reply_def blank_reply_def)
  obtain jr' where jr': "keep_config S sg ?jr1 = Inr jr'" "lr_Config jr' = Some sg" "lr_Join jr' = None" "lr_RoomKey jr' = lr_RoomKey jr"
      "lr_RoomID jr' = i"
    using key assms(4) i by (simp add: keep_config_def)
  then have "find_room i (persistLocal S True i sg jt1) = Some jr'"
    using modifyLocal_hit [OF jt1(2), of "\<lambda>lr. ((), keep_config S sg lr)" "()" jr' "()"] by (auto simp: persistLocal_def)
  moreover have "lr_config S jr' = Inr c" using jr' key by (simp add: lr_config_def)
  ultimately show ?thesis using jt1(1) jr'(3,4) by auto
qed


definition sample_seed :: bytes where "sample_seed = replicate 32 8"
definition sample_room_key :: bytes where "sample_room_key = replicate 32 5"

definition sample_link :: local_link where
  "sample_link = \<lparr>ll_RoomID = ''0102'', ll_RoomKey = RoomKeyString sample_room_key, ll_Secret = [7], ll_Subnet = cfg_Subnet sample_config,
     ll_Token = ''tok'', ll_Owner = ''a'', ll_OwnerDisco = replicate 32 6, ll_OwnerWG = [], ll_OwnerIP = V4 0x0A640101,
     ll_Endpoints = [sample_from]\<rparr>"

definition sample_joiner :: room_member where
  "sample_joiner = new_member ''baeaqcaibaeaqcai'' ''laptop'' [4]"

definition sample_config2 :: room_config where
  "sample_config2 = admitted 50 (sample_config\<lparr>cfg_Members := cfg_Members sample_config @ [sample_joiner\<lparr>rmem_IP := V4 0x0A640102\<rparr>]\<rparr>)"

definition sample_local_env :: local_env where
  "sample_local_env = \<lparr>le_signer = sample_signer\<lparr>cfg_marshal := (\<lambda>c. if cfg_Version c = 1 then [1] else [2]),
       cfg_unmarshal := (\<lambda>b. if b = [1] then Some sample_config else Some sample_config2)\<rparr>,
     le_unicode = plain_tables, le_blake2s = (\<lambda>b. b), le_disco = sample_disco 6, le_request_in = (\<lambda>b. None), le_request_out = (\<lambda>r. [3]),
     le_reply_in = (\<lambda>b. Some (welcome_reply ''0102'' (V4 0x0A640102))), le_reply_out = (\<lambda>r. [4]), le_curve_pub = (\<lambda>b. [4])\<rparr>"

definition sample_join_env :: local_env where
  "sample_join_env = sample_local_env\<lparr>le_request_in := (\<lambda>b. Some (own_request sample_local_env sample_seed sample_link ''laptop'' []))\<rparr>"

definition sample_owner_room :: local_room where
  "sample_owner_room = \<lparr>lr_RoomID = ''0102'', lr_Name = ''home'', lr_RoomKey = RoomKeyString sample_room_key, lr_SignKey = sample_room_key,
     lr_Config = Some (SignRoomConfig (le_signer sample_local_env) sample_room_key sample_config),
     lr_Invites = [\<lparr>li_TokenHash = bytes_of ''tok'', li_UsesLeft = 1, li_Expires = 100\<rparr>], lr_Join = None, lr_Peers = []\<rparr>"

definition sample_joiner_room :: local_room where
  "sample_joiner_room = \<lparr>lr_RoomID = ''0102'', lr_Name = ''room-0102'', lr_RoomKey = RoomKeyString sample_room_key, lr_SignKey = [],
     lr_Config = None, lr_Invites = [], lr_Join = Some \<lparr>lj_Invite = sample_link, lj_Name = ''laptop'', lj_IP = NoAddr\<rparr>, lr_Peers = []\<rparr>"

lemma sample_own_request: "own_request sample_join_env = own_request sample_local_env"
  by (intro ext) (simp add: own_request_def sample_join_env_def)

lemma sample_join_signer: "le_signer sample_join_env = le_signer sample_local_env" "le_unicode sample_join_env = plain_tables"
  "le_blake2s sample_join_env = (\<lambda>b. b)"
  by (simp_all add: sample_join_env_def) (simp_all add: sample_local_env_def)

lemma sample_local_signer_ok: "signer_ok (le_signer sample_local_env)"
  using sample_signer_ok(1) by (simp add: signer_ok_def sample_local_env_def)

lemma sample_room_sound: "room_sound (le_signer sample_local_env) sample_owner_room"
  "lr_config (le_signer sample_local_env) sample_owner_room = Inr sample_config"
proof -
  show "lr_config (le_signer sample_local_env) sample_owner_room = Inr sample_config" by code_simp
  have "RoomKeyString (ed_pub (le_signer sample_local_env) sample_room_key) = RoomKeyString sample_room_key"
    "ParseRoomKey (RoomKeyString sample_room_key) = Inr sample_room_key" "length sample_room_key = 32"
    "ed_pub (le_signer sample_local_env) sample_room_key = sample_room_key" by code_simp+
  then show "room_sound (le_signer sample_local_env) sample_owner_room"
    using sample_local_signer_ok signed_ok [OF sample_local_signer_ok, of sample_room_key "RoomKeyString sample_room_key" sample_config]
    by (auto simp: room_sound_def key_fits_def config_signed_def sample_owner_room_def)
qed

lemma sample_new_member:
  "new_member (NodeIDFromPublic plain_tables (\<lambda>b. b) (ed_pub (le_signer sample_local_env) sample_seed))
     (joiner_name (NodeIDFromPublic plain_tables (\<lambda>b. b) (ed_pub (le_signer sample_local_env) sample_seed))
       (own_request sample_local_env sample_seed sample_link ''laptop'' []))
     (jq_WGKey (own_request sample_local_env sample_seed sample_link ''laptop'' [])) = sample_joiner"
  by code_simp


theorem local_rooms_authentic_witness:
  "\<exists>lr sg pub. lr \<in> set (st_Local (ln_file (run (local_step sample_join_env) [JoinEv (sample_draw 0) True 50 (replicate 32 9) [3] sample_from]
      \<lparr>ln_limiter = \<lparr>jl_at = 0, jl_cnt = 0\<rparr>, ln_file = empty_state\<lparr>st_Local := [sample_owner_room]\<rparr>\<rparr>))) \<and>
    lr_Config lr = Some sg \<and> sg_Payload sg = [2] \<and> ParseRoomKey (lr_RoomKey lr) = Inr pub \<and>
    ed_verify (le_signer sample_local_env) pub (bytes_of roomConfigDomain @ sg_Payload sg) (sg_Sig sg)"
proof -
  let ?s = "\<lparr>ln_limiter = \<lparr>jl_at = 0, jl_cnt = 0\<rparr>, ln_file = empty_state\<lparr>st_Local := [sample_owner_room]\<rparr>\<rparr>"
  let ?es = "[JoinEv (sample_draw 0) True 50 (replicate 32 9) [3] sample_from]"
  have "list_ex (\<lambda>lr. case lr_Config lr of None \<Rightarrow> False | Some sg \<Rightarrow> sg_Payload sg = [2]) (st_Local (ln_file (run (local_step sample_join_env) ?es ?s)))"
    by code_simp
  then obtain lr sg where lr: "lr \<in> set (st_Local (ln_file (run (local_step sample_join_env) ?es ?s)))" "lr_Config lr = Some sg" "sg_Payload sg = [2]"
    by (auto simp: list_ex_iff split: option.splits)
  have "signer_ok (le_signer sample_join_env)" unfolding sample_join_signer by (rule sample_local_signer_ok)
  moreover have "\<forall>lr \<in> set (st_Local (ln_file ?s)). room_sound (le_signer sample_join_env) lr"
    using sample_room_sound(1) by (simp add: sample_join_signer)
  ultimately show ?thesis
    using local_rooms_authentic [of sample_join_env ?s ?es] lr unfolding sample_join_signer by blast
qed

section \<open>Invites\<close>

text \<open>The uses left of the invites with a token's digest, and that none of them is unlimited.\<close>

definition room_uses :: "bytes \<Rightarrow> local_room \<Rightarrow> nat" where
  "room_uses h lr = sum_list (map (\<lambda>v. if li_TokenHash v = h then nat (li_UsesLeft v) else 0) (lr_Invites lr))"

definition room_limited :: "bytes \<Rightarrow> local_room \<Rightarrow> bool" where
  "room_limited h lr \<longleftrightarrow> (\<forall>v \<in> set (lr_Invites lr). li_TokenHash v = h \<longrightarrow> 0 \<le> li_UsesLeft v)"

definition file_uses :: "bytes \<Rightarrow> state \<Rightarrow> nat" where
  "file_uses h st = sum_list (map (room_uses h) (st_Local st))"

definition file_limited :: "bytes \<Rightarrow> state \<Rightarrow> bool" where
  "file_limited h st \<longleftrightarrow> (\<forall>lr \<in> set (st_Local st). room_limited h lr)"

text \<open>What a change of a room, and of the file, costs at least, and that it does not make an invite unlimited.\<close>

definition room_spends :: "bytes \<Rightarrow> nat \<Rightarrow> local_room \<Rightarrow> local_room \<Rightarrow> bool" where
  "room_spends h c lr lr' \<longleftrightarrow> (room_limited h lr \<longrightarrow> c + room_uses h lr' \<le> room_uses h lr \<and> room_limited h lr')"

definition file_spends :: "bytes \<Rightarrow> nat \<Rightarrow> state \<Rightarrow> state \<Rightarrow> bool" where
  "file_spends h c st st' \<longleftrightarrow> (file_limited h st \<longrightarrow> c + file_uses h st' \<le> file_uses h st \<and> file_limited h st')"

lemma spends_refl [simp]: "room_spends h 0 lr lr" "file_spends h 0 st st"
  by (simp_all add: room_spends_def file_spends_def)

lemma spends_same: "lr_Invites lr' = lr_Invites lr \<Longrightarrow> room_spends h 0 lr lr'"
  by (simp add: room_spends_def room_uses_def room_limited_def)

lemma file_spends_change: "room_spends h c lr lr' \<Longrightarrow> st_Local st = pre @ lr # post \<Longrightarrow> file_spends h c st (st\<lparr>st_Local := pre @ lr' # post\<rparr>)"
  by (auto simp: room_spends_def file_spends_def file_uses_def file_limited_def)

lemma modifyLocal_spends:
  assumes "\<And>lr r lr'. f lr = (r, Inr lr') \<Longrightarrow> room_spends h 0 lr lr'"
  shows "file_spends h 0 st (snd (snd (modifyLocal save i f r0 st)))"
  using assms unfolding modifyLocal_def
  by (auto split: option.splits prod.splits sum.splits dest!: modify_in_Some intro: file_spends_change)

lemma room_command_spends:
  assumes "\<And>lr lr'. f lr = Inr lr' \<Longrightarrow> room_spends h 0 lr lr'"
  shows "file_spends h 0 st (snd (room_command u ref f st))"
  using assms unfolding room_command_def
  by (auto split: option.splits prod.splits sum.splits dest!: modify_in_Some intro: file_spends_change)

lemma use_in_spends:
  fixes h vs
  defines "left_h \<equiv> \<lambda>vs. sum_list (map (\<lambda>v. if li_TokenHash v = h then nat (li_UsesLeft v) else 0) vs)"
    and "bounded_by_h \<equiv> \<lambda>vs. \<forall>v \<in> set vs. li_TokenHash v = h \<longrightarrow> 0 \<le> li_UsesLeft v"
  assumes "use_in now h0 vs = Some vs'" "bounded_by_h vs"
  shows "(if h0 = h then 1 else 0) + left_h vs' \<le> left_h vs \<and> bounded_by_h vs'"
  using assms(3,4)
proof (induction vs arbitrary: vs')
  case (Cons v vs)
  show ?case
  proof (cases "li_TokenHash v = h0 \<and> now < li_Expires v \<and> li_UsesLeft v \<noteq> 0")
    case True
    then show ?thesis using Cons.prems by (auto simp: left_h_def bounded_by_h_def split: if_splits)
  next
    case False
    then obtain ws where "use_in now h0 vs = Some ws" "vs' = v # ws" using Cons.prems by auto
    then show ?thesis using Cons.IH [of ws] Cons.prems(2) by (auto simp: left_h_def bounded_by_h_def)
  qed
qed simp

lemma Update_invites: "lr_Update S now f r0 lr = (r, Inr lr') \<Longrightarrow> lr_Invites lr' = lr_Invites lr"
  by (auto simp: lr_Update_def lr_sign_def split: sum.splits prod.splits if_splits)

lemma accept_spends:
  assumes "accept_member E now sender from' req nodeID lr = (rep, Inr lr')"
  shows "lr' = lr \<or> room_spends h (if token_hash (le_signer E) (jq_Token req) = h then 1 else 0) lr lr'"
proof -
  have "lr' = lr \<or> (\<exists>vs. use_in now (token_hash (le_signer E) (jq_Token req)) (lr_Invites lr) = Some vs \<and> lr_Invites lr' = vs)"
    using assms
    by (auto simp: accept_member_def Let_def lr_useInvite_def split: if_splits sum.splits option.splits prod.splits local_error.splits
        dest!: Update_invites)
  then show ?thesis
    using use_in_spends [of now "token_hash (le_signer E) (jq_Token req)" "lr_Invites lr" _ h]
    by (auto simp: room_spends_def room_uses_def room_limited_def)
qed

text \<open>A request with the token's digest that changes the file; every admission is one.\<close>

fun admission :: "local_env \<Rightarrow> bytes \<Rightarrow> local_event \<Rightarrow> local_node \<Rightarrow> nat" where
  "admission E h (JoinEv w save now sender data from') s = (case le_request_in E data of
     None \<Rightarrow> 0
   | Some req \<Rightarrow> if token_hash (le_signer E) (jq_Token req) = h \<and> ln_file (local_step E (JoinEv w save now sender data from') s) \<noteq> ln_file s
       then 1 else 0)"
| "admission E h _ s = 0"

text \<open>A new invite with the digest.\<close>

fun reissues :: "local_env \<Rightarrow> bytes \<Rightarrow> local_event \<Rightarrow> bool" where
  "reissues E h (InviteEv now rnd uses ttl ref) \<longleftrightarrow> token_hash (le_signer E) (b64url_encode rnd) = h"
| "reissues E h _ \<longleftrightarrow> False"

lemma modifyLocal_changed:
  assumes "st' = snd (snd (modifyLocal save i f r0 st))" "st' \<noteq> st"
  shows "\<exists>pre lr r lr' post. st_Local st = pre @ lr # post \<and> lr_RoomID lr = i \<and> f lr = (r, Inr lr') \<and> st' = st\<lparr>st_Local := pre @ lr' # post\<rparr>"
proof -
  obtain r lrs where "modify_in i f (st_Local st) = Some (r, Inr lrs)" "st' = st\<lparr>st_Local := lrs\<rparr>"
    using assms by (auto simp: modifyLocal_def split: option.splits prod.splits sum.splits if_splits)
  with modify_in_Some [of i f "st_Local st" r lrs] show ?thesis by blast
qed

lemma join_spends: "file_spends h (admission E h (JoinEv w save now sender data from') s) (ln_file s)
    (ln_file (local_step E (JoinEv w save now sender data from') s))"
proof -
  obtain out l' st' where j: "handleJoin E w save now sender data from' (ln_limiter s) (ln_file s) = (out, l', st')"
    by (cases "handleJoin E w save now sender data from' (ln_limiter s) (ln_file s)") auto
  show ?thesis
  proof (cases "st' = ln_file s")
    case True
    then show ?thesis using j by (simp split: option.split)
  next
    case False
    from handleJoin_file [OF j] False obtain req nodeID where req: "le_request_in E data = Some req"
      and st': "st' = snd (snd (modifyLocal save (jq_RoomID req) (accept_member E now sender from' req nodeID) (blank_reply (jq_RoomID req)) (ln_file s)))"
      by auto
    obtain pre lr lr' post rep where m: "st_Local (ln_file s) = pre @ lr # post" "accept_member E now sender from' req nodeID lr = (rep, Inr lr')"
        "st' = (ln_file s)\<lparr>st_Local := pre @ lr' # post\<rparr>"
      using modifyLocal_changed [OF st' False] by metis
    have "lr' \<noteq> lr" using False m(1,3) by auto
    then have "room_spends h (if token_hash (le_signer E) (jq_Token req) = h then 1 else 0) lr lr'" using accept_spends [OF m(2)] by blast
    then show ?thesis using file_spends_change [OF _ m(1)] j m(3) req False by simp
  qed
qed

lemma invite_spends:
  "room_invite S now rnd uses ttl lr = Inr lr' \<Longrightarrow> token_hash S (b64url_encode rnd) \<noteq> h \<Longrightarrow> room_spends h 0 lr lr'"
  by (auto simp: room_invite_def lr_NewInvite_def Let_def room_spends_def room_uses_def room_limited_def split: sum.splits prod.splits if_splits)

lemma file_spends_new: "lr_Invites lr = [] \<Longrightarrow> file_spends h 0 st (st\<lparr>st_Local := st_Local st @ [lr]\<rparr>)"
  by (simp add: file_spends_def file_uses_def file_limited_def room_uses_def room_limited_def)

lemma local_step_spends:
  assumes "\<not> reissues E h e"
  shows "file_spends h (admission E h e s) (ln_file s) (ln_file (local_step E e s))"
proof (cases e)
  case (JoinEv w save now sender data from')
  then show ?thesis using join_spends by simp
next
  case (ReplyEv save sender data)
  then show ?thesis
    by (auto simp: on_file_def handleJoinReply_def take_reply_def split: option.split option.splits if_splits
        intro!: modifyLocal_spends spends_same)
next
  case (ConfigEv save i sg)
  then show ?thesis
    by (auto simp: on_file_def persistLocal_def keep_config_def split: sum.splits option.splits if_splits
        intro!: modifyLocal_spends spends_same)
next
  case (KeyEv save i answer)
  then show ?thesis
    by (auto simp: on_file_def keepSignKey_def split: option.split intro!: modifyLocal_spends spends_same)
next
  case (CardsEv save i cards)
  then show ?thesis
    by (auto simp: on_file_def learnLocalPeers_def learn_peers_def split: prod.splits if_splits intro!: modifyLocal_spends spends_same)
next
  case (CreateEv seed me now secret sign b0 b1 name memberName subnet)
  then show ?thesis
    by (auto simp: on_file_def CreateLocalRoom_def Let_def lr_sign_def split: sum.split option.split if_splits intro!: file_spends_new)
next
  case (AdminEv me now ref who)
  have "room_admin S me now who lr = Inr lr' \<Longrightarrow> lr_Invites lr' = lr_Invites lr" for S lr lr'
    unfolding room_admin_def by (rule Update_invites [of S now _ "()" lr "()"]) (auto simp: prod_eq_iff)
  then show ?thesis using AdminEv by (auto simp: on_file_def intro!: room_command_spends spends_same)
next
  case (KickEv me now ref who)
  have "room_kick S me now who lr = Inr lr' \<Longrightarrow> lr_Invites lr' = lr_Invites lr" for S lr lr'
    by (auto simp: room_kick_def split: prod.splits sum.splits option.splits dest!: Update_invites)
  then show ?thesis using KickEv by (auto simp: on_file_def intro!: room_command_spends spends_same)
next
  case (InviteEv now rnd uses ttl ref)
  then show ?thesis using assms by (auto simp: on_file_def intro!: room_command_spends invite_spends)
next
  case (LinkEv link name)
  then show ?thesis by (auto simp: on_file_def joinLocal_def intro!: file_spends_new)
qed

interpretation local_invites: budget_machine "local_step E" "\<lambda>e. \<not> reissues E h e" "\<lambda>s. file_limited h (ln_file s)"
  "admission E h" "\<lambda>s. file_uses h (ln_file s)" for E h
proof
  show "file_limited h (ln_file (local_step E e s))" if "file_limited h (ln_file s)" "\<not> reissues E h e" for s e
    using local_step_spends [OF that(2), of s] that(1) by (simp add: file_spends_def)
  show "admission E h e s + file_uses h (ln_file (local_step E e s)) \<le> file_uses h (ln_file s)"
    if "file_limited h (ln_file s)" "\<not> reissues E h e" for s e
    using local_step_spends [OF that(2), of s] that(1) by (simp add: file_spends_def)
qed


lemma sample_admission:
  "admission sample_join_env (bytes_of ''tok'') (JoinEv (sample_draw 0) True 50 (replicate 32 9) [3] sample_from)
     \<lparr>ln_limiter = \<lparr>jl_at = 0, jl_cnt = 0\<rparr>, ln_file = empty_state\<lparr>st_Local := [sample_owner_room]\<rparr>\<rparr> = 1"
  by code_simp


section \<open>Handing over the signing key\<close>

lemma length_b64_encode: "length (b64_encode bs) \<le> 4 * ((length bs + 2) div 3)"
proof (induction bs rule: b64_encode.induct)
  case (4 a b c r)
  have "(5 + length r) div 3 = Suc ((length r + 2) div 3)" by simp
  then show ?case using 4 by (simp add: length_b64_group)
qed (simp_all add: length_b64_group)

lemma fetch_key_answer:
  assumes "length seed = 32"
  shows "fetchSignKey S pinned (key_answer seed) = (if RoomKeyString (ed_pub S seed) = pinned then Some seed else None)"
proof -
  have n: "CHR 0x0A \<notin> set (b64_encode seed)" using b64_encode_set [of seed] newline_notin_alphabets by auto
  have "length (key_answer seed) \<le> 256" using length_b64_encode [of seed] assms by (simp add: key_answer_def)
  then have "take 256 (key_answer seed) = b64_encode seed @ CHR 0x0A # []" by (simp add: key_answer_def)
  then show ?thesis
    using assms by (simp add: fetchSignKey_def cut_append [OF n] trim_space_no_space [OF b64_no_space] b64_decode_encode)
qed

text \<open>A node hands out a room's signing key only to an address that the daemon has recorded as one of an admin
  (\<open>accept_config\<close> records those of the configuration it accepts), and what it sends is the key: the node that asked takes it exactly if it is the private half of the key it has
  pinned for the room.\<close>

theorem sign_key_handover:
  assumes "serveSignKey u i from' n st = Some answer"
  shows "\<exists>as lr. map_of (dn_admins n) i = Some as \<and> unmap from' \<in> set as \<and> lr \<in> set (st_Local st) \<and>
    (\<forall>S pinned. fetchSignKey S pinned answer = (if RoomKeyString (ed_pub S (lr_SignKey lr)) = pinned then Some (lr_SignKey lr) else None))"
proof -
  obtain as where as: "map_of (dn_admins n) i = Some as" "unmap from' \<in> set as"
    using assms by (cases "map_of (dn_admins n) i") (simp_all add: serveSignKey_def split: if_splits)
  obtain lr where lr: "LocalRoomByRef u i st = Inr lr" "length (lr_SignKey lr) = 32" "answer = key_answer (lr_SignKey lr)"
    using assms by (auto simp: serveSignKey_def split: if_splits sum.splits)
  have "filter (\<lambda>lr. lr_RoomID lr = i \<or> equal_fold u (lr_Name lr) i) (st_Local st) = [lr]"
    using lr(1) unfolding LocalRoomByRef_def by (simp split: list.splits)
  then have "lr \<in> set (filter (\<lambda>lr. lr_RoomID lr = i \<or> equal_fold u (lr_Name lr) i) (st_Local st))" by (simp only: list.set_intros)
  then have "lr \<in> set (st_Local st)" by simp
  with as lr(2,3) fetch_key_answer show ?thesis by blast
qed

theorem sign_key_handover_witness:
  "\<exists>answer. serveSignKey plain_tables ''0102'' (V4 0x0A640101) ((new_daemon 1 None)\<lparr>dn_admins := [(''0102'', [V4 0x0A640101])]\<rparr>)
      (empty_state\<lparr>st_Local := [sample_owner_room]\<rparr>) = Some answer \<and>
    fetchSignKey sample_signer (RoomKeyString sample_room_key) answer = Some sample_room_key"
proof -
  have h: "serveSignKey plain_tables ''0102'' (V4 0x0A640101) ((new_daemon 1 None)\<lparr>dn_admins := [(''0102'', [V4 0x0A640101])]\<rparr>)
      (empty_state\<lparr>st_Local := [sample_owner_room]\<rparr>) = Some (key_answer sample_room_key)" by code_simp
  from sign_key_handover [OF h] have "fetchSignKey sample_signer (RoomKeyString sample_room_key) (key_answer sample_room_key) =
      (if RoomKeyString (ed_pub sample_signer (lr_SignKey sample_owner_room)) = RoomKeyString sample_room_key
       then Some (lr_SignKey sample_owner_room) else None)" by auto
  moreover have "RoomKeyString (ed_pub sample_signer (lr_SignKey sample_owner_room)) = RoomKeyString sample_room_key"
    "lr_SignKey sample_owner_room = sample_room_key" by code_simp+
  ultimately show ?thesis using h by simp
qed

section \<open>What can go wrong\<close>

text \<open>Two admins' nodes that accept different members before they have exchanged configurations sign two configurations of the same
  version. Neither takes the other's, so each member that was told it is accepted is missing in one of them.\<close>

lemma addMember_version: "addMember m cfg = Inr (a, cfg') \<Longrightarrow> cfg_Version cfg' = cfg_Version cfg"
  by (auto simp: addMember_def split: option.splits sum.splits if_splits)

lemma two_admins_conflict:
  fixes E
  defines "S \<equiv> le_signer E"
  assumes "signer_ok S" "lr_config S a = Inr cfg" "lr_config S b = Inr cfg" "lr_RoomKey a = lr_RoomKey b"
    and "key_fits S a" "lr_SignKey a \<noteq> []" "key_fits S b" "lr_SignKey b \<noteq> []"
    and x: "addMember mx cfg = Inr (ax, ca)" "json_ok S (admitted now ca)" "config_ok S (admitted now ca)"
    and y: "addMember my cfg = Inr (ay, cb)" "json_ok S (admitted now cb)" "config_ok S (admitted now cb)"
    and "\<forall>m \<in> set (cfg_Members cfg). rmem_NodeID m \<noteq> rmem_NodeID mx \<and> rmem_NodeID m \<noteq> rmem_NodeID my"
    and "lr_Update S now (add_to_config mx) NoAddr a = (ax, Inr a')" "lr_Update S now (add_to_config my) NoAddr b = (ay, Inr b')"
  shows "\<exists>sa sb. lr_Config a' = Some sa \<and> lr_Config b' = Some sb \<and> keep_config S sb a' = Inl NotNewer \<and> keep_config S sa b' = Inl NotNewer"
proof -
  have a': "a' = a\<lparr>lr_Config := Some (SignRoomConfig S (lr_SignKey a) (admitted now ca))\<rparr>"
    and b': "b' = b\<lparr>lr_Config := Some (SignRoomConfig S (lr_SignKey b) (admitted now cb))\<rparr>"
    using assms(3-9,17,18) x(1) y(1)
    by (auto simp: lr_Update_def add_to_config_def lr_sign_def admitted_def split: if_splits)
  have v: "cfg_Version (admitted now ca) = cfg_Version (admitted now cb)"
    using addMember_version [OF x(1)] addMember_version [OF y(1)] by (simp add: admitted_def)
  from signed_config(2) [OF assms(2) x(2,3) assms(6,7)] obtain pub where
    pa: "ParseRoomKey (lr_RoomKey a) = Inr pub" "VerifyRoomConfig S pub (SignRoomConfig S (lr_SignKey a) (admitted now ca)) = Inr (admitted now ca)" by blast
  from signed_config(2) [OF assms(2) y(2,3) assms(8,9)] pa(1) assms(5) have
    pb: "VerifyRoomConfig S pub (SignRoomConfig S (lr_SignKey b) (admitted now cb)) = Inr (admitted now cb)" by auto
  show ?thesis unfolding a' b' using pa pb assms(5) v by (simp add: keep_config_def)
qed

text \<open>A joiner chooses its name, which may be another member's name or identifier. The first match becomes an admin.\<close>

lemma name_takes_admin:
  assumes "\<forall>m \<in> set pre. rmem_Name m \<noteq> rmem_NodeID v \<and> rmem_NodeID m \<noteq> rmem_NodeID v" "rmem_Name x = rmem_NodeID v" "\<not> rmem_Admin x"
  shows "make_admin (rmem_NodeID v) (pre @ x # mid @ v # post) = Inr (pre @ x\<lparr>rmem_Admin := True\<rparr> # mid @ v # post)"
  using assms by (induction pre) auto

text \<open>A node is told that it is a member although the file could not be written.\<close>

lemma unsaved_welcome:
  assumes "join_limit now l = (False, l')" "le_request_in E data = Some req" "request_node E req = Some nodeID"
    and "find_room (jq_RoomID req) st = Some lr" "accept_member E now sender from' req nodeID lr = (rep, Inr lr')" "rp_OK rep"
  shows "handleJoin E w False now sender data from' l st =
    (Some (mgr_seal (le_disco E) w \<lparr>msg_Type = TypeJoinReply, msg_Tx = sd_tx w, msg_Src = None, msg_Data = le_reply_out E rep\<rparr> sender, from'),
     l', st)"
proof -
  obtain pre post where "st_Local st = pre @ lr # post" "\<forall>y \<in> set pre. lr_RoomID y \<noteq> jq_RoomID req" "lr_RoomID lr = jq_RoomID req"
    using assms(4) by (auto simp: find_room_split)
  then have "modifyLocal False (jq_RoomID req) (accept_member E now sender from' req nodeID) (blank_reply (jq_RoomID req)) st = (rep, Some SaveFailed, st)"
    using assms(5) by (simp add: modifyLocal_def modify_in_hit)
  then show ?thesis using assms by (simp add: handleJoin_def)
qed

text \<open>The commands read the file, change it and write it back without the daemon's lock. A member that the daemon accepts in between
  is lost, and the use of its invite comes back: what the command writes depends on what it read alone.\<close>

lemma command_forgets:
  "st_Local (snd (room_command u ref f old)) = st_Local old \<or>
   (\<exists>pre lr lr' post. st_Local old = pre @ lr # post \<and> st_Local (snd (room_command u ref f old)) = pre @ lr' # post \<and> f lr = Inr lr')"
  by (auto simp: room_command_def split: sum.splits option.splits prod.splits dest!: modify_in_Some)

end
