(* ===== verification/Cards.thy ===== *)
theory Cards
  imports Local_Guarantees
begin

text \<open>
  Peer cards (\<^verbatim>\<open>internal/node/cards.go\<close>): members of a room tell each other through the room how to reach them. A card is
  signed by the node it is about; the disco manager takes its addresses as hints, and in a room without a controller they go to
  the state file. JSON is a parameter, the addresses of the machine's interfaces are an argument; a pointer that may be nil is an option.
\<close>

section \<open>Addresses as text\<close>

text \<open>\<^verbatim>\<open>AddrPort.String\<close>: an IPv6 address has its longest run of two or more zero groups left out.\<close>

definition v6_groups :: "128 word \<Rightarrow> int list" where
  "v6_groups w = map (\<lambda>i. uint w div 2 ^ (112 - 16 * i) mod 65536) [0..<8]"

definition hex_text :: "int \<Rightarrow> string" where
  "hex_text n = (case dropWhile (\<lambda>d. d = 0) [n div 4096, n div 256 mod 16, n div 16 mod 16, n mod 16] of
     [] \<Rightarrow> ''0'' | ds \<Rightarrow> map (hex_digit \<circ> nat) ds)"

definition zero_run :: "int list \<Rightarrow> (nat \<times> nat) option" where
  "zero_run gs = fold (\<lambda>i r. let l = length (takeWhile (\<lambda>g. g = 0) (drop i gs)) in
     if 2 \<le> l \<and> (case r of None \<Rightarrow> True | Some (s, e) \<Rightarrow> e - s < l) then Some (i, i + l) else r) [0..<8] None"

definition v6_text :: "128 word \<Rightarrow> string" where
  "v6_text w = (let gs = v6_groups w; colons = (\<lambda>xs. join '':'' (map hex_text xs)) in
     case zero_run gs of None \<Rightarrow> colons gs | Some (s, e) \<Rightarrow> colons (take s gs) @ ''::'' @ colons (drop e gs))"

definition addr_text :: "addr \<Rightarrow> string" where
  "addr_text a = (case a of
     NoAddr \<Rightarrow> ''invalid IP''
   | V4 w \<Rightarrow> v4_string w
   | V6 w z \<Rightarrow> (if is4in6 a then ''::ffff:'' @ v4_string (ucast w) else v6_text w) @ (if z = [] then [] else CHR ''%'' # z))"

definition ap_text :: "addrport \<Rightarrow> string" where
  "ap_text e = (case ap_addr e of
     NoAddr \<Rightarrow> ''invalid AddrPort''
   | V4 w \<Rightarrow> v4_string w @ '':'' @ dec_int (uint (ap_port e))
   | V6 w z \<Rightarrow> ''['' @ addr_text (V6 w z) @ '']:'' @ dec_int (uint (ap_port e)))"

lemma v6_text_samples:
  "v6_text 0x20010db8000000000000000000000001 = ''2001:db8::1''" "v6_text 0 = ''::''"
  "v6_text 0x00010000000200030000000000000004 = ''1:0:2:3::4''"
  by (simp_all add: v6_text_def Let_def v6_groups_def upt_rec) code_simp+

section \<open>Cards\<close>

definition cardTTL :: duration where "cardTTL = 2 * 60 * minute"
definition maxCardAddrs :: nat where "maxCardAddrs = 12"
definition maxCards :: nat where "maxCards = 256"

record peer_card =
  pk_RoomID :: string
  pk_NodeID :: string
  pk_EdKey :: string
  pk_Disco :: bytes
  pk_Endpoints :: "addrport list"
  pk_Issued :: int
  pk_Sig :: string

datatype card_error = CardOtherRoom | CardKeyMismatch | CardBadSignature | CardTooOld | CardNoAddresses

definition card_part :: "peer_card \<Rightarrow> string" where
  "card_part c = (let nl = [CHR 0x0A] in ''zpt-card-v1'' @ nl @ pk_RoomID c @ nl @ pk_NodeID c @ nl @ Key_String (pk_Disco c) @ nl @
     join '','' (map ap_text (pk_Endpoints c)) @ nl @ dec_int (pk_Issued c))"

definition card_verify :: "local_env \<Rightarrow> string \<Rightarrow> time \<Rightarrow> peer_card \<Rightarrow> card_error option" where
  "card_verify E roomID now c =
     (if pk_RoomID c \<noteq> roomID then Some CardOtherRoom
      else case b64_decode (pk_EdKey c) of
        None \<Rightarrow> Some CardKeyMismatch
      | Some pub \<Rightarrow>
          if length pub \<noteq> 32 \<or> NodeIDFromPublic (le_unicode E) (le_blake2s E) pub \<noteq> pk_NodeID c then Some CardKeyMismatch
          else case b64_decode (pk_Sig c) of
            None \<Rightarrow> Some CardBadSignature
          | Some sig \<Rightarrow>
              if \<not> ed_verify (le_signer E) pub (bytes_of (card_part c)) sig then Some CardBadSignature
              else let t = from_unix (pk_Issued c) in
                if now + 5 * minute < t \<or> cardTTL < time_sub now t then Some CardTooOld
                else if zero_key (pk_Disco c) \<or> pk_Endpoints c = [] \<or> maxCardAddrs < length (pk_Endpoints c) then Some CardNoAddresses
                else None)"

text \<open>The addresses of this node: the forwarded port, what STUN servers saw (controllers in the order of their
  addresses), the local ones; at most twelve, none twice.\<close>

definition ownAddrs :: "addrport option \<Rightarrow> (string \<times> addrport list) list \<Rightarrow> addrport list \<Rightarrow> addrport list" where
  "ownAddrs portMap reports locals =
     fold (\<lambda>a uniq. if ap_addr a \<noteq> NoAddr \<and> ap_port a \<noteq> 0 \<and> a \<notin> set uniq \<and> length uniq < maxCardAddrs then uniq @ [a] else uniq)
       ((case portMap of None \<Rightarrow> [] | Some a \<Rightarrow> [a]) @ concat (map snd (sort_key (\<lambda>(u, m). text_key u) reports)) @ locals) []"

definition myCard :: "local_env \<Rightarrow> bytes \<Rightarrow> time \<Rightarrow> addrport list \<Rightarrow> string \<Rightarrow> peer_card option" where
  "myCard E seed now eps roomID =
     (if eps = [] then None
      else let S = le_signer E; c = \<lparr>pk_RoomID = roomID, pk_NodeID = NodeIDFromPublic (le_unicode E) (le_blake2s E) (ed_pub S seed),
             pk_EdKey = b64_encode (ed_pub S seed), pk_Disco = de_pub (le_disco E), pk_Endpoints = eps, pk_Issued = unix now, pk_Sig = []\<rparr>
        in Some (c\<lparr>pk_Sig := b64_encode (ed_sign S seed (bytes_of (card_part c)))\<rparr>))"

type_synonym card_table = "(string \<times> peer_card) list"

definition cardsFor :: "time \<Rightarrow> peer_card option \<Rightarrow> string list \<Rightarrow> card_table \<Rightarrow> peer_card list" where
  "cardsFor now mine members cards = (case mine of None \<Rightarrow> [] | Some c \<Rightarrow> [c]) @
     map snd (filter (\<lambda>(_, c). time_sub now (from_unix (pk_Issued c)) < cardTTL \<and> pk_NodeID c \<in> set members) cards)"

text \<open>One card of those that came, and what is fresh so far.\<close>

definition merge_card :: "local_env \<Rightarrow> string \<Rightarrow> string \<Rightarrow> string list \<Rightarrow> time \<Rightarrow> peer_card option \<Rightarrow> card_table \<times> peer_card list \<Rightarrow>
    card_table \<times> peer_card list" where
  "merge_card E me roomID members now x acc = (case (x, acc) of
     (None, _) \<Rightarrow> acc
   | (Some c, (cards, fresh)) \<Rightarrow>
       if pk_NodeID c = me \<or> pk_NodeID c \<notin> set members \<or> card_verify E roomID now c \<noteq> None then acc
       else if (case map_of cards (pk_NodeID c) of None \<Rightarrow> False | Some old \<Rightarrow> pk_Issued c \<le> pk_Issued old) then acc
       else if maxCards \<le> length cards then acc
       else (AList.update (pk_NodeID c) c cards, fresh @ [c]))"

definition merge_cards :: "local_env \<Rightarrow> string \<Rightarrow> string \<Rightarrow> string list \<Rightarrow> time \<Rightarrow> peer_card option list \<Rightarrow> card_table \<Rightarrow> card_table \<times> peer_card list" where
  "merge_cards E me roomID members now got cards = fold (merge_card E me roomID members now) got (cards, [])"

text \<open>All that \<^verbatim>\<open>mergeCards\<close> changes: the cards of the room, the disco manager and, in a room without a controller, the state file.\<close>

record card_node =
  cn_cards :: "(string \<times> card_table) list"
  cn_disco :: "disco_mgr option"
  cn_file :: state

definition room_cards :: "string \<Rightarrow> card_node \<Rightarrow> card_table" where
  "room_cards i s = (case map_of (cn_cards s) i of None \<Rightarrow> [] | Some cs \<Rightarrow> cs)"

definition mergeCards :: "local_env \<Rightarrow> bool \<Rightarrow> string \<Rightarrow> time \<Rightarrow> daemon \<Rightarrow> string \<Rightarrow> peer_card option list \<Rightarrow> card_node \<Rightarrow> card_node" where
  "mergeCards E save me now n i got s =
     (let members = (case map_of (dn_members n) i of None \<Rightarrow> [] | Some ms \<Rightarrow> ms);
          url = (case map_of (dn_rooms n) i of None \<Rightarrow> [] | Some r \<Rightarrow> rn_controller r)
      in case merge_cards E me i members now got (room_cards i s) of (cards, fresh) \<Rightarrow>
        let s1 = s\<lparr>cn_cards := AList.update i cards (cn_cards s)\<rparr> in
        if fresh = [] then s1
        else let s2 = s1\<lparr>cn_disco := map_option (fold (\<lambda>c. addGossipHints (pk_NodeID c) (pk_Endpoints c)) fresh) (cn_disco s1)\<rparr>
          in if has_prefix url localPrefix
             then s2\<lparr>cn_file := learnLocalPeers save i (map (\<lambda>c. (pk_NodeID c, pk_Disco c, pk_Endpoints c)) fresh) (cn_file s2)\<rparr>
             else s2)"

text \<open>A swap: the one that asks sends its cards, the other answers with the ones it had before it takes them.\<close>

definition serveCards :: "local_env \<Rightarrow> bool \<Rightarrow> string \<Rightarrow> time \<Rightarrow> daemon \<Rightarrow> peer_card option \<Rightarrow> string \<Rightarrow> peer_card option list \<Rightarrow> card_node \<Rightarrow>
    peer_card list \<times> card_node" where
  "serveCards E save me now n mine i got s =
     (cardsFor now mine (case map_of (dn_members n) i of None \<Rightarrow> [] | Some ms \<Rightarrow> ms) (room_cards i s), mergeCards E save me now n i got s)"

section \<open>Authenticity\<close>

lemma card_verify_None:
  "card_verify E i now c = None \<longleftrightarrow> pk_RoomID c = i \<and> (\<exists>pub sig. b64_decode (pk_EdKey c) = Some pub \<and> length pub = 32 \<and>
     NodeIDFromPublic (le_unicode E) (le_blake2s E) pub = pk_NodeID c \<and> b64_decode (pk_Sig c) = Some sig \<and>
     ed_verify (le_signer E) pub (bytes_of (card_part c)) sig) \<and>
   from_unix (pk_Issued c) \<le> now + 5 * minute \<and> time_sub now (from_unix (pk_Issued c)) \<le> cardTTL \<and>
   \<not> zero_key (pk_Disco c) \<and> pk_Endpoints c \<noteq> [] \<and> length (pk_Endpoints c) \<le> maxCardAddrs"
  by (auto simp: card_verify_def Let_def not_less split: option.split)

definition table_ok :: "local_env \<Rightarrow> string \<Rightarrow> string \<Rightarrow> card_table \<Rightarrow> bool" where
  "table_ok E me i cards \<longleftrightarrow> length cards \<le> maxCards \<and>
     (\<forall>(k, c) \<in> set cards. pk_NodeID c = k \<and> k \<noteq> me \<and> (\<exists>t. card_verify E i t c = None))"

lemma merge_card_ok:
  assumes "table_ok E me i cards" "merge_card E me i members now x (cards, fresh) = (cards', fresh')"
  shows "table_ok E me i cards'"
proof (cases "cards' = cards")
  case False
  then obtain c where c: "x = Some c" "pk_NodeID c \<noteq> me" "card_verify E i now c = None" "length cards < maxCards"
      "cards' = AList.update (pk_NodeID c) c cards"
    using assms(2) by (auto simp: merge_card_def not_le split: option.splits if_splits)
  have "set cards' \<subseteq> insert (pk_NodeID c, c) (set cards)"
    unfolding c(5) by (induction cards) auto
  then have "\<forall>(k, c) \<in> set cards'. pk_NodeID c = k \<and> k \<noteq> me \<and> (\<exists>t. card_verify E i t c = None)"
    using assms(1) c(2,3) unfolding table_ok_def by blast
  moreover have "length cards' \<le> maxCards" using length_AList_update_le [of "pk_NodeID c" c cards] c(4,5) by simp
  ultimately show ?thesis by (simp add: table_ok_def)
qed (use assms(1) in simp)

lemma fold_merge_ok: "table_ok E me i (fst acc) \<Longrightarrow> table_ok E me i (fst (fold (merge_card E me i members now) got acc))"
proof (induction got arbitrary: acc)
  case (Cons x got)
  then show ?case
    using merge_card_ok [of E me i "fst acc" members now x "snd acc"] by (cases "merge_card E me i members now x acc") simp
qed simp

definition cards_inv :: "local_env \<Rightarrow> string \<Rightarrow> card_node \<Rightarrow> bool" where
  "cards_inv E me s \<longleftrightarrow> (\<forall>(i, cards) \<in> set (cn_cards s). table_ok E me i cards)"

lemma room_cards_ok: "cards_inv E me s \<Longrightarrow> table_ok E me i (room_cards i s)"
  by (auto simp: cards_inv_def room_cards_def table_ok_def split: option.split dest!: map_of_SomeD)

lemma mergeCards_cards: "cn_cards (mergeCards E save me now n i got s) =
    AList.update i (fst (merge_cards E me i (case map_of (dn_members n) i of None \<Rightarrow> [] | Some ms \<Rightarrow> ms) now got (room_cards i s))) (cn_cards s)"
  by (simp add: mergeCards_def Let_def split: prod.split)

lemma AList_update_set: "set (AList.update k v xs) \<subseteq> insert (k, v) (set xs)"
  by (induction xs) auto

fun card_step :: "local_env \<Rightarrow> string \<Rightarrow> bool \<times> time \<times> daemon \<times> string \<times> peer_card option list \<Rightarrow> card_node \<Rightarrow> card_node" where
  "card_step E me (save, now, n, i, got) s = mergeCards E save me now n i got s"

interpretation card_tables: machine "card_step E me" "\<lambda>_. True" "cards_inv E me" for E me
proof
  fix s :: card_node and e :: "bool \<times> time \<times> daemon \<times> string \<times> peer_card option list"
  assume inv: "cards_inv E me s"
  obtain save now n i got where e: "e = (save, now, n, i, got)" by (cases e) auto
  let ?ms = "case map_of (dn_members n) i of None \<Rightarrow> [] | Some ms \<Rightarrow> ms"
  have "table_ok E me i (fst (merge_cards E me i ?ms now got (room_cards i s)))"
    unfolding merge_cards_def by (rule fold_merge_ok) (simp add: room_cards_ok [OF inv])
  then show "cards_inv E me (card_step E me e s)"
    using inv AList_update_set [of i _ "cn_cards s"] unfolding cards_inv_def e card_step.simps mergeCards_cards by blast
qed

text \<open>C22: Whatever cards peers send, for whatever rooms and whatever the members are at the time, a node keeps at most 256 cards of a
  room, and every card it keeps is about another node, names that room, is signed by the identity key the node's identifier is
  made from, and has one to twelve addresses.\<close>

theorem cards_authentic:
  assumes "(i, cards) \<in> set (cn_cards (run (card_step E me) es \<lparr>cn_cards = [], cn_disco = d, cn_file = st\<rparr>))"
  shows "length cards \<le> 256 \<and> (\<forall>(k, c) \<in> set cards. pk_RoomID c = i \<and> pk_NodeID c = k \<and> k \<noteq> me \<and>
     1 \<le> length (pk_Endpoints c) \<and> length (pk_Endpoints c) \<le> 12 \<and>
     (\<exists>pub sig. b64_decode (pk_EdKey c) = Some pub \<and> NodeIDFromPublic (le_unicode E) (le_blake2s E) pub = k \<and>
        b64_decode (pk_Sig c) = Some sig \<and> ed_verify (le_signer E) pub (bytes_of (card_part c)) sig))"
proof -
  have "cards_inv E me (run (card_step E me) es \<lparr>cn_cards = [], cn_disco = d, cn_file = st\<rparr>)"
    by (rule card_tables.run_inv) (simp_all add: cards_inv_def)
  then have "table_ok E me i cards" using assms by (auto simp: cards_inv_def)
  then show ?thesis
    by (fastforce simp: table_ok_def card_verify_None maxCards_def maxCardAddrs_def Suc_le_eq)
qed

section \<open>A card on its way\<close>

text \<open>A node's own card passes the check of everyone who gets it in time.\<close>

lemma own_card_verifies:
  assumes "signer_ok (le_signer E)" "myCard E seed now eps i = Some c" "length eps \<le> maxCardAddrs" "\<not> zero_key (de_pub (le_disco E))"
    and "from_unix (unix now) \<le> now' + 5 * minute" "time_sub now' (from_unix (unix now)) \<le> cardTTL"
  shows "card_verify (E\<lparr>le_disco := D\<rparr>) i now' c = None"
proof -
  let ?S = "le_signer E"
  have "card_part (c\<lparr>pk_Sig := x\<rparr>) = card_part c" for c x by (simp add: card_part_def)
  then show ?thesis
    using assms unfolding card_verify_None
    by (auto simp: myCard_def Let_def signer_ok_def b64_decode_encode card_part_def split: if_splits)
qed

lemma cards_full_stuck: "maxCards \<le> length cards \<Longrightarrow> merge_cards E me i members now got cards = (cards, [])"
proof -
  assume full: "maxCards \<le> length cards"
  have "fold (merge_card E me i members now) got (cards, fresh) = (cards, fresh)" for fresh
  proof (induction got)
    case (Cons x got)
    have "merge_card E me i members now x (cards, fresh) = (cards, fresh)" using full by (auto simp: merge_card_def split: option.split)
    then show ?case using Cons by simp
  qed simp
  then show ?thesis by (simp add: merge_cards_def)
qed

lemma learn_one:
  assumes "find_room i st = Some lr"
  shows "\<exists>lr' p. find_room i (learnLocalPeers True i [(k, key, eps)] st) = Some lr' \<and> map_of (lr_Peers lr') k = Some p \<and>
    pe_DiscoKey p = key \<and> pe_Locals p = eps"
proof (cases "\<exists>old. map_of (lr_Peers lr) k = Some old \<and> pe_DiscoKey old = key \<and> pe_Locals old = eps")
  case True
  obtain pre post where st: "st_Local st = pre @ lr # post" "\<forall>y \<in> set pre. lr_RoomID y \<noteq> i" "lr_RoomID lr = i"
    using assms by (auto simp: find_room_split)
  have "learn_peers [(k, key, eps)] lr = Inl NothingNew" using True by (auto simp: learn_peers_def learn_peer_def)
  then have "learnLocalPeers True i [(k, key, eps)] st = st" using st by (simp add: learnLocalPeers_def modifyLocal_def modify_in_hit)
  then show ?thesis using True assms by auto
next
  case False
  let ?p = "zero_peer\<lparr>pe_DiscoKey := key, pe_Locals := eps\<rparr>"
  let ?lr = "lr\<lparr>lr_Peers := AList.update k ?p (lr_Peers lr)\<rparr>"
  have l: "learn_peers [(k, key, eps)] lr = Inr ?lr" using False by (auto simp: learn_peers_def learn_peer_def split: option.split)
  have "lr_RoomID ?lr = i" using assms by (auto simp: find_room_split)
  with l modifyLocal_hit [OF assms, of "\<lambda>lr. ((), learn_peers [(k, key, eps)] lr)" "()" ?lr "()"]
  have "find_room i (learnLocalPeers True i [(k, key, eps)] st) = Some ?lr" by (auto simp: learnLocalPeers_def)
  then show ?thesis by (intro exI [of _ ?lr] exI [of _ ?p]) (simp add: update_conv')
qed


definition sample_card :: peer_card where
  "sample_card = the (myCard sample_local_env sample_seed (from_unix 1000) [sample_from] ''0102'')"


text \<open>The other authenticity statement at work.\<close>

theorem cards_authentic_witness:
  "\<exists>cards. (''0102'', cards) \<in> set (cn_cards (run (card_step sample_local_env ''a'')
      [(True, from_unix 1060, (new_daemon 1 None)\<lparr>dn_members := [(''0102'', [pk_NodeID sample_card])]\<rparr>, ''0102'', [None, Some sample_card])]
      \<lparr>cn_cards = [], cn_disco = None, cn_file = empty_state\<rparr>)) \<and> length cards \<le> 256"
proof -
  have "\<exists>cards. (''0102'', cards) \<in> set (cn_cards (run (card_step sample_local_env ''a'')
      [(True, from_unix 1060, (new_daemon 1 None)\<lparr>dn_members := [(''0102'', [pk_NodeID sample_card])]\<rparr>, ''0102'', [None, Some sample_card])]
      \<lparr>cn_cards = [], cn_disco = None, cn_file = empty_state\<rparr>))" by (simp add: mergeCards_cards)
  then show ?thesis using cards_authentic [of "''0102''"] by blast
qed

end
