(* ===== verification/Local_Sync.thy ===== *)
theory Local_Sync
  imports Cards Node_Guarantees
begin

text \<open>
  How the daemon follows the local rooms of the state file (\<^verbatim>\<open>syncLocal\<close>, \<^verbatim>\<open>localNetmap\<close> and \<^verbatim>\<open>startProvisional\<close> of
  \<^verbatim>\<open>internal/node/localsync.go\<close>): a room with a configuration is applied like one of a controller, under the address
  \<^verbatim>\<open>local:\<close> and its identifier; a room that was accepted and waits for its configuration comes up with the owner as its only peer.
  What was applied last is remembered per room as signature, peers and whether it is off (the code joins them to a text). The goroutines that ask to
  be accepted, fetch the first configuration and ask public STUN servers are not modelled.
\<close>

section \<open>Definitions\<close>

record sync_node =
  sy_daemon :: daemon
  sy_applied :: "(string \<times> (bytes \<times> (string \<times> api_peer) list \<times> bool)) list"

definition localNetmap :: "local_room \<Rightarrow> netmap" where
  "localNetmap lr = \<lparr>nm_Version = 0, nm_ObservedIP = NoAddr,
     nm_Rooms = [\<lparr>rs_RoomID = lr_RoomID lr, rs_Status = StatusActive, rs_Config = lr_Config lr, rs_UseExit = []\<rparr>],
     nm_Peers = map (\<lambda>(i, p). (i, p\<lparr>pe_Online := True\<rparr>)) (lr_Peers lr)\<rparr>"

definition no_netmap :: netmap where
  "no_netmap = \<lparr>nm_Version = 0, nm_ObservedIP = NoAddr, nm_Rooms = [], nm_Peers = []\<rparr>"

definition provisional_room :: "node_env \<Rightarrow> local_room \<Rightarrow> local_join \<Rightarrow> daemon \<Rightarrow> rcfg" where
  "provisional_room E lr j n = (let link = lj_Invite j in
     \<lparr>rc_Name = ifname (ne_unicode E) (map (\<lambda>(_, r). rc_Name (rn_cfg r)) (dn_rooms n)) (lr_RoomID lr) (lr_Name lr),
      rc_Secret = ll_Secret link, rc_Address = prefix_from (lj_IP j) (pfx_bits (ll_Subnet link)), rc_MTU = DefaultMTU,
      rc_Broadcast = [], rc_Obfuscation = None,
      rc_Peers = [\<lparr>pc_Name = ''owner'', pc_PublicKey = ll_OwnerWG link, pc_Endpoint = ap_text (hd (ll_Endpoints link)),
        pc_AllowedIPs = [prefix_from (ll_OwnerIP link) 32], pc_Keepalive = PeerKeepalive\<rparr>],
      rc_Routes = [], rc_Routing = [], rc_Exit = False, rc_ExitNode = False, rc_ExitDNS = NoAddr, rc_RoomDNS = [], rc_ZoneName = [],
      rc_ZoneRecords = [], rc_DHT = False, rc_Policy = None, rc_PeerNodes = [], rc_ExitPeer = [], rc_ExitPeers = []\<rparr>)"

text \<open>An invite that was parsed has an address.\<close>

definition startProvisional :: "node_env \<Rightarrow> local_room \<Rightarrow> local_join \<Rightarrow> daemon \<Rightarrow> daemon" where
  "startProvisional E lr j n =
     (let i = lr_RoomID lr; url = localPrefix @ i; link = lj_Invite j in
      if map_of (dn_rooms n) i \<noteq> None then n
      else let owner = zero_peer\<lparr>pe_DiscoKey := ll_OwnerDisco link, pe_Locals := ll_Endpoints link, pe_Online := True\<rparr>;
               nm = \<lparr>nm_Version = 0, nm_ObservedIP = NoAddr,
                 nm_Rooms = [\<lparr>rs_RoomID = i, rs_Status = StatusActive, rs_Config = None, rs_UseExit = []\<rparr>],
                 nm_Peers = [(ll_Owner link, owner)]\<rparr>;
               n1 = n\<lparr>dn_last := AList.update url nm (dn_last n)\<rparr>
        in case startLocked E i url (provisional_room E lr j n1) n1 of
             (Some _, n2) \<Rightarrow> n2
           | (None, n2) \<Rightarrow> tell_disco E url nm [ll_Owner link] n2)"

definition sync_room :: "node_env \<Rightarrow> state \<Rightarrow> local_room \<Rightarrow> sync_node \<Rightarrow> sync_node" where
  "sync_room E st lr s = (let url = localPrefix @ lr_RoomID lr in case lr_Config lr of
     Some sg \<Rightarrow>
       let nm = localNetmap lr; key = (sg_Sig sg, nm_Peers nm, IsOff (lr_RoomID lr) st);
           s1 = s\<lparr>sy_applied := AList.update url key (sy_applied s)\<rparr>
       in if map_of (sy_applied s) url = Some key then s1 else s1\<lparr>sy_daemon := apply_netmap E st url nm (sy_daemon s1)\<rparr>
   | None \<Rightarrow> (case lr_Join lr of
       None \<Rightarrow> s
     | Some j \<Rightarrow> if lj_IP j \<noteq> NoAddr then s\<lparr>sy_daemon := startProvisional E lr j (sy_daemon s)\<rparr> else s))"

definition syncLocal :: "node_env \<Rightarrow> state \<Rightarrow> sync_node \<Rightarrow> sync_node" where
  "syncLocal E st s0 =
     (let s = fold (sync_room E st) (st_Local st) s0;
          want = map (\<lambda>lr. localPrefix @ lr_RoomID lr) (st_Local st);
          gone = filter (\<lambda>u. u \<notin> set want) (map fst (sy_applied s))
      in s\<lparr>sy_applied := filter (\<lambda>(u, _). u \<in> set want) (sy_applied s),
           sy_daemon := fold (\<lambda>u. apply_netmap E st u no_netmap) gone (sy_daemon s)\<rparr>)"

section \<open>From the file to the tunnel\<close>

lemma localNetmap_rooms: "nm_Rooms (localNetmap lr) = [\<lparr>rs_RoomID = lr_RoomID lr, rs_Status = StatusActive, rs_Config = lr_Config lr, rs_UseExit = []\<rparr>]"
  by (simp add: localNetmap_def)

lemma local_pin: "st_Local st = [lr] \<Longrightarrow> state_RoomKey (localPrefix @ lr_RoomID lr) (lr_RoomID lr) st = Some (lr_RoomKey lr)"
  by (simp add: state_RoomKey_def localRoomKey_def has_prefix_def)


definition sample_synced_room :: local_room where
  "sample_synced_room = sample_owner_room\<lparr>lr_Config := Some (SignRoomConfig (le_signer sample_local_env) sample_room_key sample_config2)\<rparr>"


end
