(* ===== verification/Bencode.thy ===== *)
theory Bencode
  imports Store Pki "HOL-Library.AList"
begin

text \<open>
  \<^verbatim>\<open>internal/dht/bencode.go\<close>: the coding of messages of the BitTorrent DHT. A value is a byte string, an integer, a list
  or a dictionary; a Go map is an association list without duplicate keys. Lengths are computed in 64-bit integers as in the code, so
  the bound check of a string can overflow; \<open>Panics\<close> is the run-time panic of a slice whose
  end is before its start. The loops over the items of lists and dictionaries have the number of bytes left as fuel.
\<close>

section \<open>Values and their coding\<close>

datatype bval = BStr string | BInt int | BList "bval list" | BDict "(string \<times> bval) list"

datatype ben_error = BadBencode | OutOfFuel | Panics

definition ben_string :: "string \<Rightarrow> string" where
  "ben_string s = dec (length s) @ '':'' @ s"

fun Encode :: "bval \<Rightarrow> string" where
  "Encode (BStr s) = ben_string s"
| "Encode (BInt n) = ''i'' @ dec_int n @ ''e''"
| "Encode (BList vs) = ''l'' @ concat (map Encode vs) @ ''e''"
| "Encode (BDict kvs) = ''d'' @ concat (map (\<lambda>(k, c). ben_string k @ c)
     (sort_key (\<lambda>(k, c). text_key k) (map (\<lambda>(k, v). (k, Encode v)) kvs))) @ ''e''"

definition wrap64 :: "int \<Rightarrow> int" where
  "wrap64 n = (n + 2 ^ 63) mod 2 ^ 64 - 2 ^ 63"

definition decode_string :: "string \<Rightarrow> ben_error + bval \<times> string" where
  "decode_string b = (case cut (CHR '':'') b of (w, rest, found) \<Rightarrow>
     if \<not> found \<or> length w < 1 then Inl BadBencode
     else (case atoi w of
       None \<Rightarrow> Inl BadBencode
     | Some n \<Rightarrow>
         let start = int (length w) + 1; stop = wrap64 (start + n) in
         if n < 0 \<or> int (length b) < stop then Inl BadBencode
         else if stop < start then Inl Panics
         else Inr (BStr (take (nat n) rest), drop (nat n) rest)))"

definition decode_int :: "string \<Rightarrow> ben_error + bval \<times> string" where
  "decode_int b = (case cut (CHR ''e'') b of (w, rest, found) \<Rightarrow>
     if \<not> found \<or> length w < 2 then Inl BadBencode
     else (case atoi (drop 1 w) of None \<Rightarrow> Inl BadBencode | Some n \<Rightarrow> Inr (BInt n, rest)))"

text \<open>The loop over items up to the closing \<open>e\<close>, for the items that \<open>f\<close> decodes.\<close>

fun decode_items :: "(string \<Rightarrow> ben_error + 'a \<times> string) \<Rightarrow> nat \<Rightarrow> string \<Rightarrow> ben_error + 'a list \<times> string" where
  "decode_items f n [] = Inl BadBencode"
| "decode_items f n (c # r) =
     (if c = CHR ''e'' then Inr ([], r)
      else case n of
        0 \<Rightarrow> Inl OutOfFuel
      | Suc m \<Rightarrow> (case f (c # r) of
          Inl e \<Rightarrow> Inl e
        | Inr (v, rest) \<Rightarrow> (case decode_items f m rest of
            Inl e \<Rightarrow> Inl e
          | Inr (vs, rest') \<Rightarrow> Inr (v # vs, rest'))))"

definition decode_entry :: "(string \<Rightarrow> ben_error + bval \<times> string) \<Rightarrow> string \<Rightarrow> ben_error + (string \<times> bval) \<times> string" where
  "decode_entry f b = (case f b of
     Inl e \<Rightarrow> Inl e
   | Inr (BStr k, rest) \<Rightarrow> (case f rest of Inl e \<Rightarrow> Inl e | Inr (v, rest') \<Rightarrow> Inr ((k, v), rest'))
   | Inr _ \<Rightarrow> Inl BadBencode)"

text \<open>One value; the first argument is how many levels are left.\<close>

fun ben_decode :: "nat \<Rightarrow> string \<Rightarrow> ben_error + bval \<times> string" where
  "ben_decode 0 b = Inl BadBencode"
| "ben_decode (Suc k) [] = Inl BadBencode"
| "ben_decode (Suc k) (c # r) =
     (if c = CHR ''i'' then decode_int (c # r)
      else if c = CHR ''l'' then
        (case decode_items (ben_decode k) (length r) r of Inl e \<Rightarrow> Inl e | Inr (vs, rest) \<Rightarrow> Inr (BList vs, rest))
      else if c = CHR ''d'' then
        (case decode_items (decode_entry (ben_decode k)) (length r) r of
           Inl e \<Rightarrow> Inl e
         | Inr (kvs, rest) \<Rightarrow> Inr (BDict (fold (\<lambda>(k, v). AList.update k v) kvs []), rest))
      else if is_digit c then decode_string (c # r)
      else Inl BadBencode)"

definition Decode :: "string \<Rightarrow> ben_error + bval" where
  "Decode b = (case ben_decode 33 b of
     Inl e \<Rightarrow> Inl e
   | Inr (v, rest) \<Rightarrow> if rest \<noteq> [] then Inl BadBencode else Inr v)"

section \<open>Decoding comes to an end\<close>

text \<open>Every item takes at least one byte, so the fuel of the loops is never used up.\<close>

definition consumes :: "(string \<Rightarrow> ben_error + 'a \<times> string) \<Rightarrow> bool" where
  "consumes f \<longleftrightarrow> (\<forall>b v rest. f b = Inr (v, rest) \<longrightarrow> length rest < length b) \<and> (\<forall>b. f b \<noteq> Inl OutOfFuel)"

lemma consumesI: "(\<And>b v rest. f b = Inr (v, rest) \<Longrightarrow> length rest < length b) \<Longrightarrow> (\<And>b. f b \<noteq> Inl OutOfFuel) \<Longrightarrow> consumes f"
  unfolding consumes_def by blast

lemma consumes_rest: "consumes f \<Longrightarrow> f b = Inr (v, rest) \<Longrightarrow> length rest < length b"
  unfolding consumes_def by blast

lemma consumes_fuel: "consumes f \<Longrightarrow> f b \<noteq> Inl OutOfFuel"
  unfolding consumes_def by blast

lemma cut_length: "cut c xs = (a, b, True) \<Longrightarrow> length xs = Suc (length a + length b)"
  by (drule cut_found) simp

lemma consumes_string: "consumes decode_string"
  by (rule consumesI) (auto simp: decode_string_def Let_def dest!: cut_length split: prod.splits if_splits option.splits)

lemma consumes_int: "consumes decode_int"
  by (rule consumesI) (auto simp: decode_int_def dest!: cut_length split: prod.splits if_splits option.splits)

lemma consumes_items:
  assumes f: "consumes f"
  shows "length b \<le> n \<Longrightarrow> (decode_items f n b = Inr (vs, rest) \<longrightarrow> length rest < length b) \<and> decode_items f n b \<noteq> Inl OutOfFuel"
proof (induction n arbitrary: b vs rest)
  case 0
  then show ?case by simp
next
  case (Suc m)
  show ?case
  proof (cases b)
    case (Cons c r)
    show ?thesis
    proof (cases "f b")
      case (Inl e)
      then show ?thesis using consumes_fuel [OF f, of b] by (auto simp: Cons)
    next
      case (Inr x)
      then obtain v rest1 where x: "f b = Inr (v, rest1)" by (cases x) auto
      from consumes_rest [OF f x] have l: "length rest1 < length b" .
      then have IH: "(decode_items f m rest1 = Inr (ws, rs) \<longrightarrow> length rs < length rest1) \<and> decode_items f m rest1 \<noteq> Inl OutOfFuel" for ws rs
        using Suc by simp
      show ?thesis
      proof (cases "decode_items f m rest1")
        case (Inl e)
        then show ?thesis using IH x by (auto simp: Cons)
      next
        case (Inr y)
        then obtain ws rs where "decode_items f m rest1 = Inr (ws, rs)" by (cases y) auto
        then show ?thesis using IH [of ws rs] x l by (auto simp: Cons)
      qed
    qed
  qed simp
qed

lemma decode_entry_Inr:
  "decode_entry f b = Inr ((k, v), rest) \<longleftrightarrow> (\<exists>r. f b = Inr (BStr k, r) \<and> f r = Inr (v, rest))"
  by (auto simp: decode_entry_def split: sum.splits prod.splits bval.splits)

lemma consumes_entry:
  assumes f: "consumes f"
  shows "consumes (decode_entry f)"
proof (rule consumesI)
  fix b x rest assume "decode_entry f b = Inr (x, rest)"
  then obtain k v r where "f b = Inr (BStr k, r)" "f r = Inr (v, rest)" by (cases x) (auto simp: decode_entry_Inr)
  then show "length rest < length b" using consumes_rest [OF f] by (meson less_trans)
next
  fix b show "decode_entry f b \<noteq> Inl OutOfFuel"
    using consumes_fuel [OF f] by (auto simp: decode_entry_def split: sum.splits prod.splits bval.splits)
qed

lemma ben_decode_list: "ben_decode (Suc k) (CHR ''l'' # r) = (case decode_items (ben_decode k) (length r) r of
    Inl e \<Rightarrow> Inl e | Inr (vs, rest) \<Rightarrow> Inr (BList vs, rest))"
  and ben_decode_dict: "ben_decode (Suc k) (CHR ''d'' # r) = (case decode_items (decode_entry (ben_decode k)) (length r) r of
    Inl e \<Rightarrow> Inl e | Inr (kvs, rest) \<Rightarrow> Inr (BDict (fold (\<lambda>(k, v). AList.update k v) kvs []), rest))"
  and ben_decode_int: "ben_decode (Suc k) (CHR ''i'' # r) = decode_int (CHR ''i'' # r)"
  by simp_all

lemma ben_decode_other: "c \<noteq> CHR ''l'' \<Longrightarrow> c \<noteq> CHR ''d'' \<Longrightarrow> c \<noteq> CHR ''i'' \<Longrightarrow>
    ben_decode (Suc k) (c # r) = (if is_digit c then decode_string (c # r) else Inl BadBencode)"
  by simp

lemma consumes_decode: "consumes (ben_decode k)"
proof (induction k)
  case (Suc k)
  have P: "(ben_decode (Suc k) b = Inr (v, rest) \<longrightarrow> length rest < length b) \<and> ben_decode (Suc k) b \<noteq> Inl OutOfFuel" for b v rest
  proof (cases b)
    case (Cons c r)
    consider "c = CHR ''l''" | "c = CHR ''d''" | "c = CHR ''i''" | "c \<noteq> CHR ''l''" "c \<noteq> CHR ''d''" "c \<noteq> CHR ''i''" by blast
    then show ?thesis
    proof cases
      case 1
      show ?thesis using consumes_items [OF Suc.IH order_refl, of r]
        unfolding Cons 1 ben_decode_list by (fastforce split: sum.splits intro: less_SucI)
    next
      case 2
      show ?thesis using consumes_items [OF consumes_entry [OF Suc.IH] order_refl, of r]
        unfolding Cons 2 ben_decode_dict by (fastforce split: sum.splits intro: less_SucI)
    next
      case 3
      show ?thesis using consumes_rest [OF consumes_int] consumes_fuel [OF consumes_int] unfolding Cons 3 ben_decode_int by blast
    next
      case 4
      show ?thesis using consumes_rest [OF consumes_string, of "c # r"] consumes_fuel [OF consumes_string, of "c # r"]
        unfolding Cons ben_decode_other [OF 4] by simp
    qed
  qed simp
  show ?case by (rule consumesI) (use P in blast)+
qed (simp add: consumes_def)

section \<open>Round trip\<close>

text \<open>The values that the decoder can give back: nesting within its limit, 64-bit integers, strings that fit in memory, and
  dictionaries in the order of their keys.\<close>

fun ben_ok :: "nat \<Rightarrow> bval \<Rightarrow> bool" where
  "ben_ok 0 v = False"
| "ben_ok (Suc k) (BStr s) = (length s < 2 ^ 62)"
| "ben_ok (Suc k) (BInt n) = (- (2 ^ 63) \<le> n \<and> n < 2 ^ 63)"
| "ben_ok (Suc k) (BList vs) = list_all (ben_ok k) vs"
| "ben_ok (Suc k) (BDict kvs) = (0 < k \<and> list_all (\<lambda>(i, v). length i < 2 ^ 62 \<and> ben_ok k v) kvs \<and>
     sorted (map (\<lambda>(i, v). text_key i) kvs) \<and> distinct (map fst kvs))"

lemma atoi_dec: "n < 2 ^ 63 \<Longrightarrow> atoi (dec n) = Some (int n)"
  using dec_int_parse [of "int n"] by (simp add: dec_int_def)

lemma length_dec: "0 < n \<Longrightarrow> length (dec n) \<le> n"
proof (induction n rule: dec.induct)
  case (1 n)
  show ?case
  proof (cases "n < 10")
    case True
    then show ?thesis using "1.prems" by (simp add: dec.simps [of n])
  next
    case False
    then have "0 < n div 10" "Suc (n div 10) \<le> n" by auto
    then show ?thesis using "1.IH" False by (auto simp: dec.simps [of n])
  qed
qed

lemma length_dec_0: "length (dec 0) = 1"
  by (simp add: dec.simps [of 0])

lemma decode_ben_string:
  assumes "length s < 2 ^ 62"
  shows "decode_string (ben_string s @ rest) = Inr (BStr s, rest)"
proof -
  let ?w = "dec (length s)"
  have c: "cut (CHR '':'') (ben_string s @ rest) = (?w, s @ rest, True)"
    by (simp add: ben_string_def cut_append dec_no_char)
  have l: "length ?w \<le> max 1 (length s)"
    using length_dec [of "length s"] by (cases "length s = 0") (auto simp: length_dec_0)
  have w: "wrap64 (int (length ?w) + 1 + int (length s)) = int (length ?w) + 1 + int (length s)"
    using l assms by (simp add: wrap64_def)
  have a: "atoi ?w = Some (int (length s))" by (rule atoi_dec) (use assms in simp)
  have n: "length ?w \<ge> 1" using dec_ne [of "length s"] by (cases ?w) auto
  show ?thesis
    using n by (simp add: decode_string_def c a w Let_def) (simp add: ben_string_def)
qed

lemma decode_dec_int:
  assumes "- (2 ^ 63) \<le> n" "n < 2 ^ 63"
  shows "decode_int (''i'' @ dec_int n @ ''e'' @ rest) = Inr (BInt n, rest)"
proof -
  have "CHR ''e'' \<notin> set (dec_int n)" by (simp add: dec_int_def dec_no_char)
  then have c: "cut (CHR ''e'') (''i'' @ dec_int n @ ''e'' @ rest) = (CHR ''i'' # dec_int n, rest, True)"
    using cut_append [of "CHR ''e''" "CHR ''i'' # dec_int n" rest] by simp
  have ne: "dec_int n \<noteq> []" by (simp add: dec_int_def)
  then have "2 \<le> length (CHR ''i'' # dec_int n)" by (cases "dec_int n") auto
  then show ?thesis using dec_int_parse [OF assms] ne unfolding decode_int_def c by simp
qed

lemma dec_head: "\<exists>c r. dec n = c # r \<and> is_digit c"
  using dec_digits [of n] dec_ne [of n] by (cases "dec n") auto

lemma is_digit_not: "is_digit c \<Longrightarrow> c \<noteq> CHR ''i'' \<and> c \<noteq> CHR ''l'' \<and> c \<noteq> CHR ''d'' \<and> c \<noteq> CHR ''e''"
  by (auto simp: is_digit_def)

lemma ben_string_head: "\<exists>c r. ben_string s = c # r \<and> is_digit c"
  using dec_head [of "length s"] by (auto simp: ben_string_def)

lemma Encode_head: "\<exists>c r. Encode v = c # r \<and> c \<noteq> CHR ''e''"
  using ben_string_head is_digit_not by (cases v) fastforce+

lemma decode_items_all:
  assumes "\<And>v rest. v \<in> set vs \<Longrightarrow> f (g v @ rest) = Inr (v, rest)" "\<And>v. \<exists>c r. g v = c # r \<and> c \<noteq> CHR ''e''"
  shows "length vs \<le> n \<Longrightarrow> decode_items f n (concat (map g vs) @ ''e'' @ rest) = Inr (vs, rest)"
  using assms(1)
proof (induction vs arbitrary: n)
  case (Cons v vs)
  obtain m where m: "n = Suc m" using Cons.prems(1) by (cases n) auto
  obtain c r where g: "g v = c # r" "c \<noteq> CHR ''e''" using assms(2) by blast
  have "f (g v @ concat (map g vs) @ ''e'' @ rest) = Inr (v, concat (map g vs) @ ''e'' @ rest)" using Cons.prems(2) by simp
  then show ?case using Cons.IH [of m] Cons.prems g m by simp
qed simp

lemma length_concat_ge: "(\<And>v. \<exists>c r. g v = c # r \<and> c \<noteq> CHR ''e'') \<Longrightarrow> length vs \<le> length (concat (map g vs))"
proof (induction vs)
  case (Cons v vs)
  obtain c r where "g v = c # r" using Cons.prems by blast
  moreover have "length vs \<le> length (concat (map g vs))" using Cons by blast
  ultimately show ?case by simp
qed simp

lemma fresh_update: "k \<notin> fst ` set xs \<Longrightarrow> AList.update k v xs = xs @ [(k, v)]"
  by (induction xs) auto

lemma fold_update_distinct:
  "distinct (map fst (xs @ kvs)) \<Longrightarrow> fold (\<lambda>(k, v). AList.update k v) kvs xs = xs @ kvs"
proof (induction kvs arbitrary: xs)
  case (Cons kv kvs)
  then show ?case using Cons.IH [of "xs @ [kv]"] by (cases kv) (auto simp: fresh_update)
qed simp

definition ben_entry :: "string \<times> bval \<Rightarrow> string" where
  "ben_entry kv = ben_string (fst kv) @ Encode (snd kv)"

lemma Encode_dict_sorted:
  assumes "sorted (map (\<lambda>(i, v). text_key i) kvs)"
  shows "Encode (BDict kvs) = ''d'' @ concat (map ben_entry kvs) @ ''e''"
proof -
  have "map (\<lambda>(k, c). text_key k) (map (\<lambda>(k, v). (k, Encode v)) kvs) = map (\<lambda>(i, v). text_key i) kvs" by (induction kvs) auto
  then have "sorted (map (\<lambda>(k, c). text_key k) (map (\<lambda>(k, v). (k, Encode v)) kvs))" using assms by (simp only:)
  then have "sort_key (\<lambda>(k, c). text_key k) (map (\<lambda>(k, v). (k, Encode v)) kvs) = map (\<lambda>(k, v). (k, Encode v)) kvs"
    by (rule sort_key_id_if_sorted)
  then show ?thesis by (simp add: comp_def case_prod_unfold ben_entry_def [abs_def])
qed

lemma decode_Encode: "ben_ok k v \<Longrightarrow> ben_decode k (Encode v @ rest) = Inr (v, rest)"
proof (induction k arbitrary: v rest)
  case (Suc k)
  show ?case
  proof (cases v)
    case (BStr s)
    obtain c r where c: "ben_string s = c # r" "is_digit c" using ben_string_head by blast
    have "ben_decode (Suc k) (Encode v @ rest) = decode_string (ben_string s @ rest)"
      using is_digit_not [OF c(2)] c by (simp add: BStr)
    then show ?thesis using decode_ben_string Suc.prems by (simp add: BStr)
  next
    case (BInt n)
    have "ben_decode (Suc k) (Encode v @ rest) = decode_int (''i'' @ dec_int n @ ''e'' @ rest)" by (simp add: BInt)
    then show ?thesis using decode_dec_int Suc.prems by (simp add: BInt)
  next
    case (BList vs)
    have "ben_decode k (Encode w @ rs) = Inr (w, rs)" if "w \<in> set vs" for w rs
      using Suc.IH Suc.prems that by (simp add: BList list_all_iff)
    then have "decode_items (ben_decode k) n (concat (map Encode vs) @ ''e'' @ rest) = Inr (vs, rest)" if "length vs \<le> n" for n
      using that Encode_head by (intro decode_items_all) auto
    then show ?thesis using length_concat_ge [of Encode vs, OF Encode_head] by (simp add: BList)
  next
    case (BDict kvs)
    have head: "\<exists>c r. ben_entry kv = c # r \<and> c \<noteq> CHR ''e''" for kv
      using ben_string_head [of "fst kv"] is_digit_not by (auto simp: ben_entry_def)
    obtain j where j: "k = Suc j" using Suc.prems by (cases k) (auto simp: BDict)
    have "decode_entry (ben_decode k) (ben_entry kv @ rs) = Inr (kv, rs)" if "kv \<in> set kvs" for kv rs
    proof -
      have ok: "length (fst kv) < 2 ^ 62" "ben_ok k (snd kv)" using Suc.prems that by (auto simp: BDict list_all_iff)
      have "ben_decode k (ben_string (fst kv) @ Encode (snd kv) @ rs) = Inr (BStr (fst kv), Encode (snd kv) @ rs)"
        using Suc.IH [of "BStr (fst kv)"] ok(1) by (simp add: j)
      then show ?thesis using Suc.IH [OF ok(2)] decode_entry_Inr [of _ _ "fst kv" "snd kv"] by (simp add: ben_entry_def)
    qed
    then have items: "decode_items (decode_entry (ben_decode k)) n (concat (map ben_entry kvs) @ ''e'' @ rest) = Inr (kvs, rest)" if "length kvs \<le> n" for n
      using that head by (intro decode_items_all) auto
    have "fold (\<lambda>(k, v). AList.update k v) kvs [] = kvs" using fold_update_distinct [of "[]" kvs] Suc.prems by (simp add: BDict)
    moreover have "Encode v = ''d'' @ concat (map ben_entry kvs) @ ''e''"
      unfolding BDict by (rule Encode_dict_sorted) (use Suc.prems in \<open>simp add: BDict\<close>)
    ultimately show ?thesis using items length_concat_ge [of ben_entry kvs, OF head] by (simp add: BDict)
  qed
qed simp

text \<open>C38: What one node of the DHT encodes the other decodes: every value that nests at most as deep as the decoder
  reads, with 64-bit integers and strings that fit in memory, comes back from its coding; and decoding
  comes to an end on every input, in the fuel of its loops.\<close>

theorem bencode_roundtrip:
  assumes "ben_ok 33 v"
  shows "Decode (Encode v) = Inr v \<and> (\<forall>b. Decode b \<noteq> Inl OutOfFuel)"
proof -
  have "Decode (Encode v) = Inr v" using decode_Encode [OF assms, of "[]"] by (simp add: Decode_def)
  moreover have "Decode b \<noteq> Inl OutOfFuel" for b
    using consumes_fuel [OF consumes_decode, of 33 b] by (auto simp: Decode_def split: sum.splits prod.splits if_splits)
  ultimately show ?thesis by blast
qed

definition sample_query :: bval where
  "sample_query = BDict [(''a'', BDict [(''id'', BStr (replicate 20 (CHR ''x''))), (''port'', BInt 4790)]), (''q'', BStr ''announce_peer''),
     (''t'', BStr [CHR 0x00, CHR 0x01]), (''v'', BList [BInt (-1), BStr []])]"

theorem bencode_roundtrip_witness: "Decode (Encode sample_query) = Inr sample_query"
proof -
  have "ben_ok (Suc (Suc (Suc k))) sample_query" for k by (simp add: sample_query_def text_key_def)
  from this [of 30] have "ben_ok 33 sample_query" by simp
  then show ?thesis using bencode_roundtrip by blast
qed


end
