(* ===== verification/Dht.thy ===== *)
theory Dht
  imports Bencode Node_Daemon
begin

text \<open>
  \<^verbatim>\<open>internal/dht/dht.go\<close> and \<^verbatim>\<open>internal/node/dht.go\<close>: finding the members of a room in the public BitTorrent DHT. \<open>get_peers\<close> is the
  iterative lookup; what the network answers to a query is a function, asked for each
  contact of a round in turn. Sorting by distance may order ties in any way, which is an argument. Names of
  entry points are resolved by the system and not modelled.
\<close>

section \<open>The client\<close>

definition dht_alpha :: nat where "dht_alpha = 3"
definition dht_k :: nat where "dht_k = 8"
definition maxRounds :: nat where "maxRounds = 12"

type_synonym dict = "(string \<times> bval) list"

definition str_of :: "bval option \<Rightarrow> string option" where
  "str_of v = (case v of Some (BStr s) \<Rightarrow> Some s | _ \<Rightarrow> None)"

definition str_or_empty :: "bval option \<Rightarrow> string" where
  "str_or_empty v = (case str_of v of Some s \<Rightarrow> s | None \<Rightarrow> [])"

record dht_client =
  dc_self :: bytes
  dc_pending :: "(string \<times> nat) list"
  dc_seq :: u16
  dc_closed :: bool

text \<open>A datagram: the query that gets the answer (if any) and the client afterwards. A query waits under its transaction.\<close>

definition dht_read :: "string \<Rightarrow> dht_client \<Rightarrow> ben_error + (nat \<times> dict) option \<times> dht_client" where
  "dht_read pkt c = (case Decode pkt of
     Inl Panics \<Rightarrow> Inl Panics
   | Inr (BDict m) \<Rightarrow>
       let t = str_or_empty (map_of m ''t''); y = str_or_empty (map_of m ''y'') in
       if y \<noteq> ''r'' \<and> y \<noteq> ''e'' then Inr (None, c)
       else Inr (map_option (\<lambda>q. (q, m)) (map_of (dc_pending c) t), c\<lparr>dc_pending := AList.delete t (dc_pending c)\<rparr>)
   | _ \<Rightarrow> Inr (None, c))"

definition txn :: "u16 \<Rightarrow> string" where
  "txn s = string_of [hi8 s, lo8 s]"

definition query_begin :: "nat \<Rightarrow> string \<Rightarrow> dict \<Rightarrow> dht_client \<Rightarrow> (string \<times> string \<times> dht_client) option" where
  "query_begin q name args c =
     (if dc_closed c then None
      else let s = dc_seq c + 1; t = txn s; a = AList.update ''id'' (BStr (string_of (dc_self c))) args;
               m = [(''t'', BStr t), (''y'', BStr ''q''), (''q'', BStr name), (''a'', BDict a)] @
                 (if name \<noteq> ''announce_peer'' then [(''ro'', BInt 1)] else [])
           in Some (t, Encode (BDict m), c\<lparr>dc_seq := s, dc_pending := AList.update t q (dc_pending c)\<rparr>))"

definition query_end :: "string \<Rightarrow> dht_client \<Rightarrow> dht_client" where
  "query_end t c = c\<lparr>dc_pending := AList.delete t (dc_pending c)\<rparr>"

definition query_result :: "dict \<Rightarrow> dict option" where
  "query_result m = (case map_of m ''r'' of Some (BDict r) \<Rightarrow> Some r | _ \<Rightarrow> None)"

section \<open>Contacts\<close>

record contact =
  ct_id :: bytes
  ct_addr :: addrport
  ct_token :: string
  ct_asked :: bool

definition distance :: "bytes \<Rightarrow> bytes \<Rightarrow> bytes" where
  "distance a b = map2 (\<lambda>x y. x XOR y) a b"

definition distance_key :: "bytes \<Rightarrow> contact \<Rightarrow> nat list" where
  "distance_key ih ct = map unat (distance (ct_id ct) ih)"

text \<open>Six bytes: an IPv4 address and a port.\<close>

definition compact_addr :: "bytes \<Rightarrow> addrport" where
  "compact_addr b = \<lparr>ap_addr = addr_from4 (take 4 b), ap_port = be16 (b ! 4) (b ! 5)\<rparr>"

function dht_nodes :: "bytes \<Rightarrow> contact list" where
  "dht_nodes s =
     (if length s < 26 then []
      else let ap = compact_addr (bslice 20 26 s); rest = dht_nodes (drop 26 s) in
        if ap_port ap \<noteq> 0 \<and> \<not> is_unspecified (ap_addr ap)
        then \<lparr>ct_id = take 20 s, ct_addr = ap, ct_token = [], ct_asked = False\<rparr> # rest else rest)"
  by pat_completeness auto
termination by (relation "measure length") auto

declare dht_nodes.simps [simp del]

section \<open>The lookup\<close>

record lookup =
  lk_peers :: "addrport list"
  lk_closer :: "contact list"
  lk_sent :: "addrport list"

text \<open>\<^verbatim>\<open>seen\<close> holds the addresses of \<^verbatim>\<open>closer\<close>.\<close>

definition add_contact :: "contact \<Rightarrow> contact list \<Rightarrow> contact list" where
  "add_contact ct cs = (if ct_addr ct \<in> ct_addr ` set cs then cs else cs @ [ct])"

definition upd_contact :: "addrport \<Rightarrow> (contact \<Rightarrow> contact) \<Rightarrow> contact list \<Rightarrow> contact list" where
  "upd_contact a f cs = map (\<lambda>ct. if ct_addr ct = a then f ct else ct) cs"

text \<open>Any order in which the distances do not decrease.\<close>

definition by_distance :: "(contact list \<Rightarrow> contact list) \<Rightarrow> bytes \<Rightarrow> contact list \<Rightarrow> contact list" where
  "by_distance ord ih cs = (if mset (ord cs) = mset cs \<and> sorted (map (distance_key ih) (ord cs)) then ord cs
     else sort_key (distance_key ih) cs)"

definition add_value :: "bval \<Rightarrow> addrport list \<Rightarrow> addrport list" where
  "add_value v ps = (case v of
     BStr s \<Rightarrow> if length s = 6 then let ap = compact_addr (bytes_of s) in if ap \<in> set ps then ps else ps @ [ap] else ps
   | _ \<Rightarrow> ps)"

definition absorb :: "addrport \<Rightarrow> dict \<Rightarrow> lookup \<Rightarrow> lookup" where
  "absorb a r l =
     (let l1 = l\<lparr>lk_closer := upd_contact a (\<lambda>ct.
            (case str_of (map_of r ''id'') of Some i \<Rightarrow> if length i = 20 then ct\<lparr>ct_id := bytes_of i\<rparr> else ct | None \<Rightarrow> ct)
              \<lparr>ct_token := str_or_empty (map_of r ''token'')\<rparr>) (lk_closer l)\<rparr>;
          l2 = (case map_of r ''values'' of Some (BList vs) \<Rightarrow> l1\<lparr>lk_peers := fold add_value vs (lk_peers l1)\<rparr> | _ \<Rightarrow> l1)
      in case str_of (map_of r ''nodes'') of
           Some ns \<Rightarrow> l2\<lparr>lk_closer := fold add_contact (dht_nodes (bytes_of ns)) (lk_closer l2)\<rparr>
         | None \<Rightarrow> l2)"

definition dht_batch :: "contact list \<Rightarrow> contact list" where
  "dht_batch cs = take dht_alpha (filter (\<lambda>ct. \<not> ct_asked ct) (take dht_k cs))"

definition mark_asked :: "contact list \<Rightarrow> contact list \<Rightarrow> contact list" where
  "mark_asked batch cs = map (\<lambda>ct. if ct_addr ct \<in> ct_addr ` set batch then ct\<lparr>ct_asked := True\<rparr> else ct) cs"

definition ask_one :: "(addrport \<Rightarrow> dict option) \<Rightarrow> contact \<Rightarrow> lookup \<Rightarrow> lookup" where
  "ask_one answer ct l = (let l1 = l\<lparr>lk_sent := lk_sent l @ [ct_addr ct]\<rparr> in
     case answer (ct_addr ct) of None \<Rightarrow> l1 | Some r \<Rightarrow> absorb (ct_addr ct) r l1)"

fun lookup_rounds :: "nat \<Rightarrow> (contact list \<Rightarrow> contact list) \<Rightarrow> (nat \<Rightarrow> addrport \<Rightarrow> dict option) \<Rightarrow> bytes \<Rightarrow> lookup \<Rightarrow> lookup" where
  "lookup_rounds 0 ord answer ih l = l"
| "lookup_rounds (Suc n) ord answer ih l =
     (let cs = by_distance ord ih (lk_closer l); batch = dht_batch cs in
      if batch = [] then l\<lparr>lk_closer := cs\<rparr>
      else lookup_rounds n ord answer ih (fold (ask_one (answer n)) batch (l\<lparr>lk_closer := mark_asked batch cs\<rparr>)))"

definition first_contacts :: "bytes \<Rightarrow> addrport list \<Rightarrow> contact list" where
  "first_contacts ih boot = fold (\<lambda>a. add_contact \<lparr>ct_id = ih, ct_addr = a, ct_token = [], ct_asked = False\<rparr>) boot []"

definition run_lookup :: "(contact list \<Rightarrow> contact list) \<Rightarrow> (nat \<Rightarrow> addrport \<Rightarrow> dict option) \<Rightarrow> addrport list \<Rightarrow> bytes \<Rightarrow> lookup" where
  "run_lookup ord answer boot ih =
     lookup_rounds maxRounds ord answer ih \<lparr>lk_peers = [], lk_closer = first_contacts ih boot, lk_sent = []\<rparr>"

definition best_contacts :: "(contact list \<Rightarrow> contact list) \<Rightarrow> bytes \<Rightarrow> lookup \<Rightarrow> contact list" where
  "best_contacts ord ih l = take dht_k (filter (\<lambda>ct. ct_token ct \<noteq> []) (by_distance ord ih (lk_closer l)))"

definition GetPeers :: "(contact list \<Rightarrow> contact list) \<Rightarrow> (nat \<Rightarrow> addrport \<Rightarrow> dict option) \<Rightarrow> addrport list \<Rightarrow> bytes \<Rightarrow> addrport list \<times> contact list" where
  "GetPeers ord answer boot ih = (let l = run_lookup ord answer boot ih in (lk_peers l, best_contacts ord ih l))"

text \<open>The queries \<^verbatim>\<open>Announce\<close> sends to the closest contacts, with the token each gave.\<close>

definition announce_args :: "bytes \<Rightarrow> u16 \<Rightarrow> contact \<Rightarrow> dict" where
  "announce_args ih port ct = [(''info_hash'', BStr (string_of ih)), (''port'', BInt (uint port)), (''token'', BStr (ct_token ct)),
     (''implied_port'', BInt 0)]"

definition Announce :: "(contact list \<Rightarrow> contact list) \<Rightarrow> (nat \<Rightarrow> addrport \<Rightarrow> dict option) \<Rightarrow> addrport list \<Rightarrow> bytes \<Rightarrow> u16 \<Rightarrow>
    (addrport \<times> dict) list \<times> addrport list" where
  "Announce ord answer boot ih port = (case GetPeers ord answer boot ih of (peers, closest) \<Rightarrow>
     (map (\<lambda>ct. (ct_addr ct, announce_args ih port ct)) closest, peers))"

section \<open>Rooms in the DHT\<close>

definition put64 :: "int \<Rightarrow> bytes" where
  "put64 n = be_digits 8 (n mod 2 ^ 64)"

definition dhtKey :: "(bytes \<Rightarrow> bytes) \<Rightarrow> bytes \<Rightarrow> int \<Rightarrow> bytes" where
  "dhtKey sha1 secret day = sha1 (bytes_of ''zeropentime-dht-v1'' @ secret @ put64 day)"

definition dhtRooms :: "daemon \<Rightarrow> (string \<times> bytes \<times> string list) list" where
  "dhtRooms n = map (\<lambda>(k, r). (k, rc_Secret (rn_cfg r), map snd (rc_PeerNodes (rn_cfg r))))
     (filter (\<lambda>(k, r). rc_DHT (rn_cfg r) \<and> rn_controller r \<noteq> []) (dn_rooms n))"

text \<open>The addresses found under the keys of two days, and what the disco manager gets of them.\<close>

definition merge_found :: "addrport list \<Rightarrow> addrport list \<Rightarrow> addrport list" where
  "merge_found ps found = fold (\<lambda>p f. if p \<in> set f then f else f @ [p]) ps found"

definition dht_turn :: "(bytes \<Rightarrow> addrport list) \<Rightarrow> (bytes \<Rightarrow> bytes) \<Rightarrow> int \<Rightarrow> daemon \<Rightarrow> disco_mgr \<Rightarrow> disco_mgr" where
  "dht_turn search sha1 day n d = fold (\<lambda>(k, secret, ids) d.
     let found = merge_found (search (dhtKey sha1 secret (day - 1))) (merge_found (search (dhtKey sha1 secret day)) [])
     in if found = [] then d else addHints ids found d) (dhtRooms n) d"

section \<open>What a lookup costs and finds\<close>

definition lookup_inv :: "lookup \<Rightarrow> bool" where
  "lookup_inv l \<longleftrightarrow> distinct (map ct_addr (lk_closer l)) \<and> distinct (lk_peers l) \<and> distinct (lk_sent l) \<and>
     set (lk_sent l) = ct_addr ` {ct \<in> set (lk_closer l). ct_asked ct}"

lemma add_contact_addrs: "ct_addr ` set (add_contact ct cs) = insert (ct_addr ct) (ct_addr ` set cs)"
  by (auto simp: add_contact_def)

lemma fold_add_contact:
  "distinct (map ct_addr cs) \<Longrightarrow> distinct (map ct_addr (fold add_contact xs cs))"
  by (induction xs arbitrary: cs) (simp_all add: add_contact_def)

lemma fold_add_contact_asked:
  "\<forall>x \<in> set xs. \<not> ct_asked x \<Longrightarrow> {ct \<in> set (fold add_contact xs cs). ct_asked ct} = {ct \<in> set cs. ct_asked ct}"
proof (induction xs arbitrary: cs)
  case (Cons x xs)
  have "{ct \<in> set (add_contact x cs). ct_asked ct} = {ct \<in> set cs. ct_asked ct}" using Cons.prems by (auto simp: add_contact_def)
  then show ?case using Cons by simp
qed simp

lemma dht_nodes_new: "ct \<in> set (dht_nodes s) \<Longrightarrow> \<not> ct_asked ct"
proof (induction s rule: dht_nodes.induct)
  case (1 s)
  then show ?case
    by (subst (asm) (2) dht_nodes.simps) (auto simp: Let_def split: if_splits)
qed

lemma fold_add_value: "distinct ps \<Longrightarrow> distinct (fold add_value vs ps)"
  by (induction vs arbitrary: ps) (auto simp: add_value_def Let_def split: bval.splits)

lemma upd_contact_addrs:
  assumes "\<And>ct. ct_addr (f ct) = ct_addr ct"
  shows "map ct_addr (upd_contact a f cs) = map ct_addr cs"
  unfolding upd_contact_def map_map by (rule map_cong) (use assms in auto)

lemma image_filter_map:
  assumes "\<And>x. h (g x) = h x" "\<And>x. P (g x) = P x"
  shows "h ` {y \<in> set (map g cs). P y} = h ` {x \<in> set cs. P x}"
proof -
  have "{y \<in> set (map g cs). P y} = g ` {x \<in> set cs. P x}" using assms(2) by auto
  then show ?thesis by (simp add: image_image assms(1))
qed

lemma upd_contact_asked:
  assumes "\<And>ct. ct_addr (f ct) = ct_addr ct" "\<And>ct. ct_asked (f ct) = ct_asked ct"
  shows "ct_addr ` {ct \<in> set (upd_contact a f cs). ct_asked ct} = ct_addr ` {ct \<in> set cs. ct_asked ct}"
proof -
  have "ct_addr (if ct_addr ct = a then f ct else ct) = ct_addr ct \<and> ct_asked (if ct_addr ct = a then f ct else ct) = ct_asked ct" for ct
    using assms by simp
  then show ?thesis unfolding upd_contact_def by (intro image_filter_map) auto
qed

lemma absorb_parts:
  assumes "distinct (map ct_addr (lk_closer l))" "distinct (lk_peers l)"
  shows "distinct (map ct_addr (lk_closer (absorb a r l))) \<and> distinct (lk_peers (absorb a r l)) \<and> lk_sent (absorb a r l) = lk_sent l \<and>
    ct_addr ` {ct \<in> set (lk_closer (absorb a r l)). ct_asked ct} = ct_addr ` {ct \<in> set (lk_closer l). ct_asked ct}"
proof -
  define f where "f ct = (case str_of (map_of r ''id'') of Some i \<Rightarrow> if length i = 20 then ct\<lparr>ct_id := bytes_of i\<rparr> else ct | None \<Rightarrow> ct)
      \<lparr>ct_token := str_or_empty (map_of r ''token'')\<rparr>" for ct :: contact
  have f: "ct_addr (f ct) = ct_addr ct" "ct_asked (f ct) = ct_asked ct" for ct by (auto simp: f_def split: option.split)
  let ?cs = "upd_contact a f (lk_closer l)"
  have d: "distinct (map ct_addr ?cs)" using assms(1) upd_contact_addrs [of f, OF f(1)] by simp
  have s: "ct_addr ` {ct \<in> set ?cs. ct_asked ct} = ct_addr ` {ct \<in> set (lk_closer l). ct_asked ct}" by (rule upd_contact_asked [OF f])
  have n: "distinct (map ct_addr (fold add_contact (dht_nodes b) ?cs))"
    "ct_addr ` {ct \<in> set (fold add_contact (dht_nodes b) ?cs). ct_asked ct} = ct_addr ` {ct \<in> set (lk_closer l). ct_asked ct}" for b
    using fold_add_contact [OF d] fold_add_contact_asked [of "dht_nodes b" ?cs] dht_nodes_new s by auto
  show ?thesis
    using d s n assms(2) fold_add_value [OF assms(2)] unfolding absorb_def Let_def f_def [symmetric]
    by (auto split: option.split bval.split)
qed

lemma ask_one_parts:
  assumes "distinct (map ct_addr (lk_closer l))" "distinct (lk_peers l)"
  shows "distinct (map ct_addr (lk_closer (ask_one answer ct l))) \<and> distinct (lk_peers (ask_one answer ct l)) \<and>
    lk_sent (ask_one answer ct l) = lk_sent l @ [ct_addr ct] \<and>
    ct_addr ` {c \<in> set (lk_closer (ask_one answer ct l)). ct_asked c} = ct_addr ` {ct \<in> set (lk_closer l). ct_asked ct}"
  using absorb_parts [of "l\<lparr>lk_sent := lk_sent l @ [ct_addr ct]\<rparr>"] assms
  by (auto simp: ask_one_def Let_def split: option.split)

lemma ask_batch_parts:
  assumes "distinct (map ct_addr (lk_closer l))" "distinct (lk_peers l)"
  shows "distinct (map ct_addr (lk_closer (fold (ask_one answer) batch l))) \<and> distinct (lk_peers (fold (ask_one answer) batch l)) \<and>
    lk_sent (fold (ask_one answer) batch l) = lk_sent l @ map ct_addr batch \<and>
    ct_addr ` {ct \<in> set (lk_closer (fold (ask_one answer) batch l)). ct_asked ct} = ct_addr ` {ct \<in> set (lk_closer l). ct_asked ct}"
  using assms
proof (induction batch arbitrary: l)
  case (Cons ct batch)
  note one = ask_one_parts [OF Cons.prems, of answer ct]
  have d: "distinct (map ct_addr (lk_closer (ask_one answer ct l)))" "distinct (lk_peers (ask_one answer ct l))" using one by blast+
  have "lk_sent (ask_one answer ct l) @ map ct_addr batch = lk_sent l @ map ct_addr (ct # batch)" using one by simp
  then show ?case using Cons.IH [OF d] one unfolding fold_Cons comp_apply by metis
qed simp

lemma by_distance_mset: "mset (by_distance ord ih cs) = mset cs"
  by (simp add: by_distance_def)

lemma by_distance_sorted: "sorted (map (distance_key ih) (by_distance ord ih cs))"
  by (simp add: by_distance_def)

lemma by_distance_set [simp]: "set (by_distance ord ih cs) = set cs"
  using by_distance_mset by (metis set_mset_mset)

lemma by_distance_distinct: "distinct (map ct_addr (by_distance ord ih cs)) \<longleftrightarrow> distinct (map ct_addr cs)"
  by (metis by_distance_mset mset_eq_imp_distinct_iff mset_map)

lemma dht_batch_sub: "set (dht_batch cs) \<subseteq> {ct \<in> set cs. \<not> ct_asked ct}"
  by (auto simp: dht_batch_def dest!: in_set_takeD)

lemma lookup_round_inv:
  assumes inv: "lookup_inv l" and cs: "cs = by_distance ord ih (lk_closer l)" and b: "batch = dht_batch cs"
  shows "lookup_inv (fold (ask_one answer) batch (l\<lparr>lk_closer := mark_asked batch cs\<rparr>)) \<and>
    lk_sent (fold (ask_one answer) batch (l\<lparr>lk_closer := mark_asked batch cs\<rparr>)) = lk_sent l @ map ct_addr batch"
proof -
  have d: "distinct (map ct_addr cs)" using inv by (simp add: cs by_distance_distinct lookup_inv_def)
  let ?l = "l\<lparr>lk_closer := mark_asked batch cs\<rparr>"
  have addrs: "map ct_addr (mark_asked batch cs) = map ct_addr cs" by (simp add: mark_asked_def)
  note parts = ask_batch_parts [of ?l answer batch]
  have "distinct (map ct_addr batch)"
  proof -
    have "distinct (map ct_addr (filter (\<lambda>ct. \<not> ct_asked ct) (take dht_k cs)))"
      using d by (metis distinct_map_filter distinct_take take_map)
    then show ?thesis by (simp add: b dht_batch_def take_map [symmetric])
  qed
  moreover have sub: "set batch \<subseteq> {ct \<in> set cs. \<not> ct_asked ct}" unfolding b by (rule dht_batch_sub)
  have inj: "ct_addr x = ct_addr y \<Longrightarrow> x \<in> set cs \<Longrightarrow> y \<in> set cs \<Longrightarrow> x = y" for x y using d by (auto simp: distinct_map dest: inj_onD)
  have "set (lk_sent l) \<inter> ct_addr ` set batch = {}" using sub inj inv by (auto simp: lookup_inv_def cs)
  moreover have "ct_addr ` {ct \<in> set (mark_asked batch cs). ct_asked ct} = set (lk_sent l) \<union> ct_addr ` set batch"
  proof -
    have "ct_addr ` {ct \<in> set (mark_asked batch cs). ct_asked ct} = ct_addr ` {ct \<in> set cs. ct_asked ct \<or> ct_addr ct \<in> ct_addr ` set batch}"
    proof -
      define g where "g ct = (if ct_addr ct \<in> ct_addr ` set batch then ct\<lparr>ct_asked := True\<rparr> else ct)" for ct :: contact
      have "mark_asked batch cs = map g cs" by (simp add: mark_asked_def g_def)
      moreover have "{c \<in> set (map g cs). ct_asked c} = g ` {c \<in> set cs. ct_asked (g c)}" by auto
      moreover have "ct_addr (g c) = ct_addr c" "ct_asked (g c) \<longleftrightarrow> ct_asked c \<or> ct_addr c \<in> ct_addr ` set batch" for c by (auto simp: g_def)
      ultimately show ?thesis by (simp add: image_image)
    qed
    also have "\<dots> = ct_addr ` {ct \<in> set cs. ct_asked ct} \<union> ct_addr ` set batch" using sub by blast
    also have "ct_addr ` {ct \<in> set cs. ct_asked ct} = set (lk_sent l)" using inv by (simp add: cs lookup_inv_def)
    finally show ?thesis .
  qed
  ultimately show ?thesis using parts addrs d inv by (simp add: lookup_inv_def)
qed

lemma lookup_rounds_inv:
  "lookup_inv l \<Longrightarrow> lookup_inv (lookup_rounds n ord answer ih l) \<and>
     length (lk_sent (lookup_rounds n ord answer ih l)) \<le> length (lk_sent l) + n * dht_alpha"
proof (induction n arbitrary: l)
  case (Suc n)
  let ?cs = "by_distance ord ih (lk_closer l)" let ?b = "dht_batch ?cs"
  show ?case
  proof (cases "?b = []")
    case True
    then show ?thesis using Suc.prems by (simp add: Let_def lookup_inv_def by_distance_distinct)
  next
    case False
    note r = lookup_round_inv [OF Suc.prems refl refl, of "answer n" ord ih]
    have "length ?b \<le> dht_alpha" by (simp add: dht_batch_def)
    then show ?thesis using Suc.IH [OF conjunct1 [OF r]] r False by (simp add: Let_def)
  qed
qed simp

text \<open>C36: A lookup in the DHT is bounded whatever the network answers: it sends at most thirty-six queries and none twice to the
  same address, an address it reports is reported once, and the contacts to announce to are at
  most eight, the closest first, each one that was asked or named and that gave a token.\<close>

theorem lookup_bounded:
  shows "length (lk_sent (run_lookup ord answer boot ih)) \<le> 36 \<and> distinct (lk_sent (run_lookup ord answer boot ih)) \<and>
    (case GetPeers ord answer boot ih of (peers, best) \<Rightarrow>
       distinct peers \<and> length best \<le> 8 \<and> sorted (map (distance_key ih) best) \<and> distinct (map ct_addr best) \<and>
       list_all (\<lambda>ct. ct_token ct \<noteq> [] \<and> ct \<in> set (lk_closer (run_lookup ord answer boot ih))) best)"
proof -
  let ?l = "run_lookup ord answer boot ih"
  have "lookup_inv \<lparr>lk_peers = [], lk_closer = first_contacts ih boot, lk_sent = []\<rparr>"
  proof -
    have "distinct (map ct_addr (fold add_contact (map (\<lambda>a. \<lparr>ct_id = ih, ct_addr = a, ct_token = [], ct_asked = False\<rparr>) boot) []))"
      "{ct \<in> set (fold add_contact (map (\<lambda>a. \<lparr>ct_id = ih, ct_addr = a, ct_token = [], ct_asked = False\<rparr>) boot) []). ct_asked ct} = {}"
      by (simp add: fold_add_contact, subst fold_add_contact_asked) auto
    then show ?thesis by (simp add: lookup_inv_def first_contacts_def fold_map comp_def)
  qed
  from lookup_rounds_inv [OF this, of maxRounds ord answer] have inv: "lookup_inv ?l" "length (lk_sent ?l) \<le> 36"
    by (simp_all add: run_lookup_def maxRounds_def dht_alpha_def)
  let ?s = "filter (\<lambda>ct. ct_token ct \<noteq> []) (by_distance ord ih (lk_closer ?l))"
  have "sorted (map (distance_key ih) ?s)" by (rule sorted_filter [OF by_distance_sorted])
  then have "sorted (map (distance_key ih) (take dht_k ?s))" by (simp only: take_map [symmetric] sorted_wrt_take)
  moreover have "distinct (map ct_addr (take dht_k ?s))"
  proof -
    have "distinct (map ct_addr ?s)" using inv(1) by (simp add: distinct_map_filter by_distance_distinct lookup_inv_def)
    then show ?thesis by (simp only: take_map [symmetric] distinct_take)
  qed
  moreover have "list_all (\<lambda>ct. ct_token ct \<noteq> [] \<and> ct \<in> set (lk_closer ?l)) (take dht_k ?s)"
    by (auto simp: list_all_iff dest: in_set_takeD)
  ultimately show ?thesis using inv by (simp add: GetPeers_def Let_def best_contacts_def lookup_inv_def) (simp add: dht_k_def)
qed

end
