(* ===== verification/Updates.thy ===== *)
theory Updates
  imports Store Pki "HOL-Library.AList" "HOL-Library.Product_Lexorder"
begin

text \<open>
  \<^verbatim>\<open>internal/update/update.go\<close>. The update check: versions and their order, the signed manifest of a release, the
  choice of a release of a channel and the check of a downloaded file. HTTP is a function from addresses to
  contents, JSON and Ed25519 are parameters.
\<close>

section \<open>Versions\<close>

record version =
  ver_n :: "int \<times> int \<times> int"
  ver_pre :: string

definition ver_int :: "string \<Rightarrow> int option" where
  "ver_int p = (case atoi p of None \<Rightarrow> None | Some n \<Rightarrow> if n < 0 then None else Some n)"

definition trim_v :: "string \<Rightarrow> string" where
  "trim_v s = (if has_prefix s ''v'' then drop 1 s else s)"

definition parseVersion :: "string \<Rightarrow> version option" where
  "parseVersion s = (case cut (CHR ''-'') (trim_v s) of (num, pre, _) \<Rightarrow>
     (case split_on (CHR ''.'') num of
        [a, b, c] \<Rightarrow> (case (ver_int a, ver_int b, ver_int c) of
            (Some x, Some y, Some z) \<Rightarrow> Some \<lparr>ver_n = (x, y, z), ver_pre = pre\<rparr>
          | _ \<Rightarrow> None)
      | _ \<Rightarrow> None))"

definition Newer :: "string \<Rightarrow> string \<Rightarrow> bool" where
  "Newer a b = (case parseVersion a of
     None \<Rightarrow> False
   | Some va \<Rightarrow> (case parseVersion b of
       None \<Rightarrow> True
     | Some vb \<Rightarrow>
         if ver_n va \<noteq> ver_n vb then ver_n vb < ver_n va
         else if ver_pre va = ver_pre vb then False
         else if ver_pre va = [] then True
         else if ver_pre vb = [] then False
         else text_key (ver_pre vb) < text_key (ver_pre va)))"

section \<open>Releases\<close>

record manifest =
  mf_Version :: string
  mf_Prerelease :: bool
  mf_Assets :: "(string \<times> string) list"

record gh_release =
  gh_Tag :: string
  gh_Draft :: bool
  gh_Prerelease :: bool
  gh_Assets :: "(string \<times> string) list"

record release =
  rel_Version :: string
  rel_Manifest :: manifest
  rel_urls :: "(string \<times> string) list"

record update_env =
  ue_verify :: "bytes \<Rightarrow> bytes \<Rightarrow> bytes \<Rightarrow> bool"
  ue_manifest :: "bytes \<Rightarrow> manifest option"
  ue_get :: "string \<Rightarrow> bytes option"
  ue_sha256 :: "bytes \<Rightarrow> bytes"
  ue_unicode :: unicode

datatype update_error = BadBuiltInKey | BadReleaseSig | BadManifest | FetchFailed | OtherVersion | NoSuchFile | TooBig | HashMismatch

definition PublicKey :: string where "PublicKey = ''RV5enp93MHfpzewxhebFOxWh8Zi/oYICtjRG5MYbuYk=''"
definition ManifestName :: string where "ManifestName = ''release.json''"
definition SigName :: string where "SigName = ''release.json.sig''"
definition sigDomain :: string where "sigDomain = ''zeropentime-release-v1'' @ [CHR 0x0A]"
definition maxManifest :: nat where "maxManifest = 1048576"
definition maxAsset :: nat where "maxAsset = 536870912"

definition update_Verify :: "update_env \<Rightarrow> bytes \<Rightarrow> string \<Rightarrow> update_error + manifest" where
  "update_Verify E payload sig = (case b64_decode PublicKey of
     None \<Rightarrow> Inl BadBuiltInKey
   | Some pub \<Rightarrow>
       if length pub \<noteq> 32 then Inl BadBuiltInKey
       else (case b64_decode (trim_space sig) of
         None \<Rightarrow> Inl BadReleaseSig
       | Some s \<Rightarrow>
           if \<not> ue_verify E pub (bytes_of sigDomain @ payload) s then Inl BadReleaseSig
           else (case ue_manifest E payload of
             None \<Rightarrow> Inl BadManifest
           | Some m \<Rightarrow> if parseVersion (mf_Version m) = None \<or> mf_Assets m = [] then Inl BadManifest else Inr m)))"

text \<open>\<^verbatim>\<open>get\<close>: an answer over the limit is an error.\<close>

definition http_get :: "update_env \<Rightarrow> string \<Rightarrow> nat \<Rightarrow> update_error + bytes" where
  "http_get E url limit = (case ue_get E url of None \<Rightarrow> Inl FetchFailed | Some b \<Rightarrow> if limit < length b then Inl TooBig else Inr b)"

text \<open>The map of the files of a release: the last address of a name, the empty one if there is none.\<close>

definition assetURLs :: "gh_release \<Rightarrow> (string \<times> string) list" where
  "assetURLs r = fold (\<lambda>(n, u). AList.update n u) (gh_Assets r) []"

definition url_of :: "(string \<times> string) list \<Rightarrow> string \<Rightarrow> string" where
  "url_of urls n = (case map_of urls n of None \<Rightarrow> [] | Some u \<Rightarrow> u)"

definition eligible :: "string \<Rightarrow> string \<Rightarrow> gh_release \<Rightarrow> bool" where
  "eligible current channel r = (\<not> (gh_Draft r \<or> gh_Prerelease r \<and> channel \<noteq> ''beta'') \<and> Newer (gh_Tag r) current \<and>
     url_of (assetURLs r) ManifestName \<noteq> [] \<and> url_of (assetURLs r) SigName \<noteq> [])"

definition pick_release :: "string \<Rightarrow> string \<Rightarrow> gh_release \<Rightarrow> gh_release option \<Rightarrow> gh_release option" where
  "pick_release current channel r best =
     (if eligible current channel r \<and> (case best of None \<Rightarrow> True | Some b \<Rightarrow> Newer (gh_Tag r) (gh_Tag b)) then Some r else best)"

definition update_Check :: "update_env \<Rightarrow> gh_release list \<Rightarrow> string \<Rightarrow> string \<Rightarrow> update_error + release option" where
  "update_Check E list current channel = (case fold (pick_release current channel) list None of
     None \<Rightarrow> Inr None
   | Some best \<Rightarrow> let urls = assetURLs best in
       (case http_get E (url_of urls ManifestName) maxManifest of
          Inl e \<Rightarrow> Inl e
        | Inr payload \<Rightarrow> (case http_get E (url_of urls SigName) 1024 of
            Inl e \<Rightarrow> Inl e
          | Inr sig \<Rightarrow> (case update_Verify E payload (string_of sig) of
              Inl e \<Rightarrow> Inl e
            | Inr m \<Rightarrow>
                if mf_Version m \<noteq> trim_v (gh_Tag best) then Inl OtherVersion
                else if \<not> Newer (mf_Version m) current then Inr None
                else Inr (Some \<lparr>rel_Version = mf_Version m, rel_Manifest = m, rel_urls = urls\<rparr>)))))"

text \<open>The contents of a downloaded file, if they are what the manifest says.\<close>

definition update_Download :: "update_env \<Rightarrow> release \<Rightarrow> string \<Rightarrow> update_error + bytes" where
  "update_Download E r name = (case map_of (mf_Assets (rel_Manifest r)) name of
     None \<Rightarrow> Inl NoSuchFile
   | Some want \<Rightarrow>
       if url_of (rel_urls r) name = [] then Inl NoSuchFile
       else (case ue_get E (url_of (rel_urls r) name) of
         None \<Rightarrow> Inl FetchFailed
       | Some b \<Rightarrow>
           if maxAsset < length b then Inl TooBig
           else if hex_string (ue_sha256 E b) \<noteq> to_lower (ue_unicode E) want then Inl HashMismatch
           else Inr b))"

section \<open>The order of versions\<close>

definition ver_key :: "version \<Rightarrow> (int \<times> int \<times> int) \<times> bool \<times> nat list" where
  "ver_key v = (ver_n v, ver_pre v = [], text_key (ver_pre v))"

lemma text_key_inj: "text_key s = text_key t \<longleftrightarrow> s = t"
proof
  assume "text_key s = text_key t"
  then have "map (of_char :: char \<Rightarrow> nat) s = map of_char t" by (simp add: text_key_def)
  moreover have "inj (of_char :: char \<Rightarrow> nat)" by (simp add: inj_def)
  ultimately show "s = t" by (simp add: inj_map_eq_map)
qed simp

lemma Newer_key: "Newer a b \<longleftrightarrow>
    (case parseVersion a of None \<Rightarrow> False | Some va \<Rightarrow>
      (case parseVersion b of None \<Rightarrow> True | Some vb \<Rightarrow> ver_key vb < ver_key va))"
  by (auto simp: Newer_def ver_key_def less_prod_def' text_key_inj split: option.split)

lemma Newer_irrefl: "\<not> Newer a a"
  by (simp add: Newer_key split: option.split)

lemma Newer_trans: "Newer a b \<Longrightarrow> Newer b c \<Longrightarrow> Newer a c"
  by (auto simp: Newer_key split: option.splits)

lemma ver_key_inj: "ver_key v = ver_key w \<longleftrightarrow> v = w"
  by (cases v; cases w) (auto simp: ver_key_def text_key_inj)

text \<open>The order of versions is one: no version is newer than itself, newer is transitive, two versions that parse are the same
  or one is newer than the other, a release is newer than its own pre-releases, and what does not parse is never
  newer than anything and older than everything that does.\<close>

theorem version_order:
  shows "\<not> Newer a a \<and> (Newer a b \<longrightarrow> \<not> Newer b a) \<and> (Newer a b \<and> Newer b c \<longrightarrow> Newer a c) \<and>
    (parseVersion a = Some va \<and> parseVersion b = Some vb \<longrightarrow> va = vb \<or> Newer a b \<or> Newer b a) \<and>
    (parseVersion a = Some (vb\<lparr>ver_pre := []\<rparr>) \<and> parseVersion b = Some vb \<and> ver_pre vb \<noteq> [] \<longrightarrow> Newer a b) \<and>
    (parseVersion a = None \<longrightarrow> \<not> Newer a b) \<and> (parseVersion a = Some va \<and> parseVersion b = None \<longrightarrow> Newer a b)"
proof (intro conjI impI)
  assume "parseVersion a = Some va \<and> parseVersion b = Some vb"
  then show "va = vb \<or> Newer a b \<or> Newer b a"
    using linorder_less_linear [of "ver_key va" "ver_key vb"] by (auto simp: Newer_key ver_key_inj)
next
  assume "Newer a b \<and> Newer b c" then show "Newer a c" using Newer_trans by blast
next
  assume "Newer a b" then show "\<not> Newer b a" using Newer_trans Newer_irrefl by blast
qed (auto simp: Newer_irrefl Newer_def)

theorem version_order_witness:
  "Newer ''0.6.2'' ''0.6.2-rc.1'' \<and> \<not> Newer ''0.6.2-rc.1'' ''0.6.2'' \<and> Newer ''v1.0.0'' ''dev''"
proof -
  have p: "parseVersion ''0.6.2'' = Some \<lparr>ver_n = (0, 6, 2), ver_pre = []\<rparr>" "parseVersion ''0.6.2-rc.1'' = Some \<lparr>ver_n = (0, 6, 2), ver_pre = ''rc.1''\<rparr>"
    "parseVersion ''v1.0.0'' = Some \<lparr>ver_n = (1, 0, 0), ver_pre = []\<rparr>" "parseVersion ''dev'' = None" by code_simp+
  have "Newer ''0.6.2'' ''0.6.2-rc.1''"
    using version_order [of "''0.6.2''" "''0.6.2-rc.1''" _ _ "\<lparr>ver_n = (0, 6, 2), ver_pre = ''rc.1''\<rparr>"] p by simp
  moreover have "Newer ''v1.0.0'' ''dev''" using version_order [of "''v1.0.0''" "''dev''"] p by simp
  ultimately show ?thesis using version_order by blast
qed

text \<open>Numbers inside a pre-release are compared as text, so the tenth candidate is older than the ninth.\<close>

lemma tenth_candidate: "\<not> Newer ''1.0.0-rc.10'' ''1.0.0-rc.9''" "Newer ''1.0.0-rc.9'' ''1.0.0-rc.10''"
  by code_simp+

section \<open>The choice of a release\<close>

definition tag_key :: "gh_release \<Rightarrow> (int \<times> int \<times> int) \<times> bool \<times> nat list" where
  "tag_key r = ver_key (the (parseVersion (gh_Tag r)))"

lemma Newer_tags: "eligible c ch a \<Longrightarrow> eligible c ch b \<Longrightarrow> Newer (gh_Tag a) (gh_Tag b) \<longleftrightarrow> tag_key b < tag_key a"
  by (auto simp: eligible_def Newer_key tag_key_def split: option.splits)

lemma pick_release_None: "pick_release c ch r None = (if eligible c ch r then Some r else None)"
  and pick_release_Some: "eligible c ch b \<Longrightarrow>
    pick_release c ch r (Some b) = (if eligible c ch r \<and> tag_key b < tag_key r then Some r else Some b)"
  by (auto simp: pick_release_def Newer_tags)

lemma pick_fold_Some:
  "eligible c ch b \<Longrightarrow> \<exists>x. fold (pick_release c ch) rs (Some b) = Some x \<and> eligible c ch x \<and> x \<in> insert b (set rs) \<and>
     tag_key b \<le> tag_key x \<and> (\<forall>r \<in> set rs. eligible c ch r \<longrightarrow> tag_key r \<le> tag_key x)"
proof (induction rs arbitrary: b)
  case (Cons r rs)
  show ?case
  proof (cases "eligible c ch r \<and> tag_key b < tag_key r")
    case True
    then obtain x where "fold (pick_release c ch) rs (Some r) = Some x" "eligible c ch x" "x \<in> insert r (set rs)" "tag_key r \<le> tag_key x"
      "\<forall>r \<in> set rs. eligible c ch r \<longrightarrow> tag_key r \<le> tag_key x" using Cons.IH [of r] by blast
    then show ?thesis using True pick_release_Some [OF Cons.prems, of r] by auto
  next
    case False
    obtain x where "fold (pick_release c ch) rs (Some b) = Some x" "eligible c ch x" "x \<in> insert b (set rs)" "tag_key b \<le> tag_key x"
      "\<forall>r \<in> set rs. eligible c ch r \<longrightarrow> tag_key r \<le> tag_key x" using Cons.IH [OF Cons.prems] by blast
    then show ?thesis using False pick_release_Some [OF Cons.prems, of r] by auto
  qed
qed simp

lemma pick_fold:
  "fold (pick_release c ch) rs None = Some x \<Longrightarrow>
   eligible c ch x \<and> x \<in> set rs \<and> (\<forall>r \<in> set rs. eligible c ch r \<longrightarrow> \<not> Newer (gh_Tag r) (gh_Tag x))"
proof (induction rs)
  case (Cons r rs)
  show ?case
  proof (cases "eligible c ch r")
    case True
    then obtain y where "fold (pick_release c ch) rs (Some r) = Some y" "eligible c ch y" "y \<in> insert r (set rs)" "tag_key r \<le> tag_key y"
      "\<forall>r \<in> set rs. eligible c ch r \<longrightarrow> tag_key r \<le> tag_key y" using pick_fold_Some by blast
    then show ?thesis using Cons.prems True by (auto simp: pick_release_None Newer_tags not_less)
  next
    case False
    then show ?thesis using Cons by (auto simp: pick_release_None)
  qed
qed simp


definition sample_manifest :: manifest where
  "sample_manifest = \<lparr>mf_Version = ''0.6.3'', mf_Prerelease = False, mf_Assets = [(''a.bin'', ''01'')]\<rparr>"

definition sample_update :: update_env where
  "sample_update = \<lparr>ue_verify = (\<lambda>p m s. s = [7]), ue_manifest = (\<lambda>b. if b = [1] then Some sample_manifest else None),
     ue_get = (\<lambda>u. if u = ''m'' then Some [1] else if u = ''s'' then Some (bytes_of (b64_encode [7])) else Some [1]),
     ue_sha256 = (\<lambda>b. b), ue_unicode = plain_tables\<rparr>"

definition sample_release :: "string \<Rightarrow> bool \<Rightarrow> gh_release" where
  "sample_release tag pre = \<lparr>gh_Tag = tag, gh_Draft = False, gh_Prerelease = pre,
     gh_Assets = [(''release.json'', ''m''), (''release.json.sig'', ''s''), (''a.bin'', ''f'')]\<rparr>"


end
