(* ===== verification/Netcheck.thy ===== *)
theory Netcheck
  imports Netip "HOL-Library.Multiset" "HOL-Library.List_Lexorder" "HOL-Library.Product_Lexorder"
begin

text \<open>
  \<^verbatim>\<open>internal/netcheck/netcheck.go\<close>: the external addresses STUN servers saw and the kind of NAT they tell of. The
  answers come in the order the servers answered; each is the server asked and the address it saw.
\<close>

datatype nat_kind = NATNone | NATCone | NATSymmetric | NATBlocked | NATUnknown

record nat_report =
  nr_NAT :: nat_kind
  nr_Mapped :: "addrport list"

text \<open>\<^verbatim>\<open>AddrPort.Compare\<close>: length of the address, its value, its zone, the port.\<close>

definition ap_key :: "addrport \<Rightarrow> (nat \<times> nat \<times> nat list) \<times> nat" where
  "ap_key e = ((case ap_addr e of
     NoAddr \<Rightarrow> (0, 0, []) | V4 w \<Rightarrow> (32, unat w, []) | V6 w z \<Rightarrow> (128, unat w, map of_char z)), unat (ap_port e))"

definition nat_Check :: "addrport list \<Rightarrow> u16 \<Rightarrow> addr list \<Rightarrow> (addrport \<times> addrport) list \<Rightarrow> nat_report" where
  "nat_Check servers localPort localAddrs answers =
     (if servers = [] then \<lparr>nr_NAT = NATUnknown, nr_Mapped = []\<rparr>
      else case answers of
        [] \<Rightarrow> \<lparr>nr_NAT = NATBlocked, nr_Mapped = []\<rparr>
      | first # _ \<Rightarrow> let mapped = sort_key ap_key (remdups (map snd answers)) in
          \<lparr>nr_NAT = (if ap_port (snd first) = localPort \<and> ap_addr (snd first) \<in> set localAddrs then NATNone
             else if 1 < length mapped then NATSymmetric
             else if 1 < card (set (map fst answers)) then NATCone else NATUnknown),
           nr_Mapped = mapped\<rparr>)"

lemma ap_key_inj: "inj ap_key"
proof (rule injI)
  fix x y :: addrport
  assume k: "ap_key x = ap_key y"
  have z: "map of_char a = (map of_char b :: nat list) \<longleftrightarrow> a = b" for a b :: string
    by (rule inj_map_eq_map) (simp add: inj_def)
  from k show "x = y"
    by (cases x; cases y) (auto simp: ap_key_def z split: addr.splits simp flip: word_unat_eq_iff)
qed

lemma short_list: "length xs \<le> Suc 0 \<longleftrightarrow> (\<forall>x \<in> set xs. \<forall>y \<in> set xs. x = y)" if "distinct xs"
proof (cases xs)
  case (Cons x ys)
  then show ?thesis using that by (cases ys) auto
qed simp

lemma nat_report_order:
  assumes "mset answers = mset answers'"
  shows "nr_Mapped (nat_Check servers p l answers) = nr_Mapped (nat_Check servers p l answers')"
proof (cases "answers = []")
  case True
  then have "answers' = []" using assms by (metis mset_zero_iff)
  then show ?thesis using True by simp
next
  case False
  then have ne: "answers' \<noteq> []" using assms by auto
  have d: "distinct (remdups (map snd answers))" "distinct (remdups (map snd answers'))" by simp_all
  have "set answers = set answers'" using assms by (metis set_mset_mset)
  then have "set (remdups (map snd answers)) = set (remdups (map snd answers'))" by simp
  then have "mset (remdups (map snd answers)) = mset (remdups (map snd answers'))"
    using d by (metis mset_set_set)
  then have "sort_key ap_key (remdups (map snd answers)) = sort_key ap_key (remdups (map snd answers'))"
    by (rule sort_key_eq_sort_key) (rule inj_on_subset [OF ap_key_inj subset_UNIV])
  then show ?thesis using False ne by (cases answers; cases answers') (auto simp: nat_Check_def Let_def)
qed

text \<open>The reported kind of NAT says what the answers show. A node is called unhindered only if its own address and
  port came back; symmetric only if two servers saw different addresses; cone only if at least two servers were asked
  and all saw the same address; blocked only if nobody answered. The reported addresses are the ones seen, each
  once.\<close>

theorem nat_exact:
  fixes servers localPort localAddrs answers defines "r \<equiv> nat_Check servers localPort localAddrs answers"
  shows "(nr_NAT r = NATNone \<longrightarrow> (\<exists>(s, m) \<in> set answers. ap_port m = localPort \<and> ap_addr m \<in> set localAddrs)) \<and>
    (nr_NAT r = NATSymmetric \<longrightarrow> (\<exists>(s, m) \<in> set answers. \<exists>(s', m') \<in> set answers. m \<noteq> m')) \<and>
    (nr_NAT r = NATCone \<longrightarrow> (\<exists>(s, m) \<in> set answers. \<exists>(s', m') \<in> set answers. s \<noteq> s') \<and>
       (\<forall>(s, m) \<in> set answers. \<forall>(s', m') \<in> set answers. m = m')) \<and>
    (nr_NAT r = NATBlocked \<longrightarrow> answers = []) \<and>
    (servers \<noteq> [] \<longrightarrow> set (nr_Mapped r) = snd ` set answers \<and> distinct (nr_Mapped r))"
proof (cases "servers = [] \<or> answers = []")
  case True
  then show ?thesis by (auto simp: r_def nat_Check_def split: list.split)
next
  case False
  then obtain first rest where a: "answers = first # rest" "servers \<noteq> []" by (cases answers) auto
  define m where "m = sort_key ap_key (remdups (map snd answers))"
  have r: "r = \<lparr>nr_NAT = (if ap_port (snd first) = localPort \<and> ap_addr (snd first) \<in> set localAddrs then NATNone
     else if 1 < length m then NATSymmetric else if 1 < card (set (map fst answers)) then NATCone else NATUnknown), nr_Mapped = m\<rparr>"
    using a by (simp add: r_def nat_Check_def Let_def m_def)
  have m: "set m = snd ` set answers" "distinct m" by (simp_all add: m_def)
  have one: "length m \<le> Suc 0 \<longleftrightarrow> (\<forall>x \<in> set answers. \<forall>y \<in> set answers. snd x = snd y)"
    using short_list [OF m(2)] unfolding m(1) by auto
  have f: "first \<in> set answers" using a by simp
  have two: "\<exists>x \<in> set answers. \<exists>y \<in> set answers. fst x \<noteq> fst y" if "1 < card (set (map fst answers))"
  proof (rule ccontr)
    assume "\<not> ?thesis"
    then have "fst x = fst first" if "x \<in> set answers" for x using f that by blast
    then have "set (map fst answers) \<subseteq> {fst first}" by auto
    then show False using card_mono [of "{fst first}" "set (map fst answers)"] that by simp
  qed
  have 1: "nr_NAT r = NATNone \<Longrightarrow> ap_port (snd first) = localPort \<and> ap_addr (snd first) \<in> set localAddrs"
    "nr_NAT r = NATSymmetric \<Longrightarrow> \<not> length m \<le> Suc 0"
    "nr_NAT r = NATCone \<Longrightarrow> length m \<le> Suc 0 \<and> 1 < card (set (map fst answers))"
    "nr_NAT r \<noteq> NATBlocked" "nr_Mapped r = m"
    unfolding r by (simp_all split: if_splits)
  have "nr_NAT r = NATNone \<longrightarrow> (\<exists>(s, m) \<in> set answers. ap_port m = localPort \<and> ap_addr m \<in> set localAddrs)"
    using 1(1) f by (auto simp: case_prod_unfold)
  moreover have "nr_NAT r = NATSymmetric \<longrightarrow> (\<exists>(s, m) \<in> set answers. \<exists>(s', m') \<in> set answers. m \<noteq> m')"
    using 1(2) unfolding one by (fastforce simp: case_prod_unfold)
  moreover have "nr_NAT r = NATCone \<longrightarrow> (\<exists>(s, m) \<in> set answers. \<exists>(s', m') \<in> set answers. s \<noteq> s') \<and>
       (\<forall>(s, m) \<in> set answers. \<forall>(s', m') \<in> set answers. m = m')"
    (is "_ \<longrightarrow> ?servers \<and> ?same")
  proof
    assume c: "nr_NAT r = NATCone"
    have "\<forall>x \<in> set answers. \<forall>y \<in> set answers. snd x = snd y" using 1(3) [OF c] one by blast
    then have ?same by (simp only: case_prod_unfold)
    moreover from two 1(3) [OF c] have ?servers by (simp only: case_prod_unfold)
    ultimately show "?servers \<and> ?same" by blast
  qed
  moreover have "set (nr_Mapped r) = snd ` set answers \<and> distinct (nr_Mapped r)" unfolding 1(5) using m by simp
  ultimately show ?thesis using 1(4) by blast
qed

end
