(* ===== verification/Spec2Isabelle.thy ===== *)
theory Spec2Isabelle
  imports Acl_Filter Tunwrap Stun Relay_Client Invite_Budget Room_Isolation Node_Delivery Local_Sync Dht Updates Netcheck
begin

text \<open>
  A verification library for zeropentime, a mesh of encrypted tunnels. Machines run a node daemon that keeps
  one tunnel per room; a controller keeps rooms, members and invites in a database, signs each room's
  configuration and answers the long polls of the nodes; a relay forwards datagrams between members that have no direct
  path. Rooms also work without a controller, signed by the node of an admin.

  \<^bold>\<open>How the parts fit together.\<close> A node polls the controller and gets a network map: for each of its rooms a signed
  configuration, and how to reach the peers. The daemon checks every configuration with the key it has pinned, starts, changes and
  stops tunnels accordingly, and tells the disco manager which peers it wants. All tunnels and the disco protocol share one
  UDP socket (the magic socket); a tag at the front of every datagram says which room it belongs to. The disco manager pings
  candidate addresses and picks a path per peer; without one, datagrams travel through the relay, which asks the controller whether
  two nodes share a room. Inside a tunnel packets pass the room's access rules. Members gossip newer
  configurations among each other, and a room may use the BitTorrent DHT to find members.

  \<^bold>\<open>Theories and sources\<close> (paths below \<^verbatim>\<open>src/internal\<close>; a definition bears the name of the function, type or method it models,
  with a prefix where the name is taken):

  \<^item> \<open>Prelude\<close>, \<open>Machines\<close>, \<open>Rate_Window\<close>: bytes, Go's clock, runs of events; the locales \<open>machine\<close> (an invariant of all runs),
    \<open>budget_machine\<close> (a resource that runs use up), \<open>simulation\<close> (a refinement of an abstract machine) and \<open>rate_window\<close>.
  \<^item> \<open>Go_Strings\<close>, \<open>Go_Runes\<close>, \<open>Encodings\<close>, \<open>Netip\<close>: what the code uses of Go's \<^verbatim>\<open>strings\<close>, \<^verbatim>\<open>strconv\<close>, \<^verbatim>\<open>utf8\<close>, \<^verbatim>\<open>base32\<close>,
    \<^verbatim>\<open>base64\<close>, \<^verbatim>\<open>netip\<close>.
  \<^item> \<open>Acl\<close>, \<open>Acl_Filter\<close>: \<^verbatim>\<open>acl/acl.go\<close>, \<^verbatim>\<open>acl/filter.go\<close>. The rule language, its printer, first-match evaluation; the packet filter with
    its table of flows.
  \<^item> \<open>Tunwrap\<close>: \<^verbatim>\<open>tunwrap/broadcast.go\<close>, \<^verbatim>\<open>divert.go\<close>. Broadcasts carried to every member, with a rate limit, and diverted packets.
  \<^item> \<open>Stun\<close>, \<open>Netcheck\<close>: \<^verbatim>\<open>stun/\<close>, \<^verbatim>\<open>netcheck/netcheck.go\<close>. STUN messages; what the answers say of the NAT.
  \<^item> \<open>Identity\<close>, \<open>Obfs\<close>, \<open>Disco\<close>, \<open>Pki\<close>: \<^verbatim>\<open>identity/identity.go\<close>, \<^verbatim>\<open>obfs/obfs.go\<close>, \<^verbatim>\<open>disco/disco.go\<close>, \<^verbatim>\<open>pki/pki.go\<close>. Keys, the
    obfuscation profile of a room, sealed disco messages, signed configurations and requests.
  \<^item> \<open>Relay_Proto\<close>, \<open>Relay_Server\<close>, \<open>Relay_Client\<close>: \<^verbatim>\<open>relay/\<close>. Frames and handshake; the server's sessions in a heap that its two
    maps refer to; the client.
  \<^item> \<open>Store\<close>, \<open>Subnets\<close>, \<open>Controller\<close>, \<open>Accounts\<close>: \<^verbatim>\<open>store/store.go\<close>, \<^verbatim>\<open>kek.go\<close>, \<^verbatim>\<open>controller/service.go\<close>, \<^verbatim>\<open>hub.go\<close>,
    \<^verbatim>\<open>auth.go\<close>, \<^verbatim>\<open>totp.go\<close>. Tables are lists of rows with the constraints of the schema; a handler is a function on the service that
    fails and leaves it as it was or succeeds.
  \<^item> \<open>Controller_Inv\<close>, \<open>Controller_Run\<close>, \<open>Membership\<close>, \<open>Invite_Budget\<close>, \<open>Room_Isolation\<close>, \<open>Config_Delivery\<close>: what the controller
    guarantees in every run: its data stay consistent, it implements an abstract machine of memberships, invites admit
    no more nodes than they were made for, no wake-up of a long poll is lost, rooms do not affect each other, nodes get configurations they can check.
  \<^item> \<open>Node_Config\<close>, \<open>Node_Names\<close>, \<open>Node_State\<close>: \<^verbatim>\<open>config/config.go\<close>, the names of \<^verbatim>\<open>dnsfwd/zone.go\<close> and \<^verbatim>\<open>node/node.go\<close>,
    \<^verbatim>\<open>node/state.go\<close>.
  \<^item> \<open>Node_Daemon\<close>, \<open>Node_Safety\<close>, \<open>Node_Guarantees\<close>, \<open>Node_Delivery\<close>: \<^verbatim>\<open>node/node.go\<close>, \<^verbatim>\<open>node/gossip.go\<close>. The daemon: its rooms, how a
    network map is applied, gossip. The locale \<open>daemon_law\<close> says what a property must survive to hold after every network map; what
    follows: only authentic rooms run, none is rolled back, running rooms never overlap, and together with the controller: a member's
    room runs with exactly the other active members as peers, and stops when the membership ends.
  \<^item> \<open>Disco_Mgr\<close>, \<open>Magicsock\<close>: \<^verbatim>\<open>node/disco.go\<close>, \<^verbatim>\<open>magicsock/magicsock.go\<close>. Paths to peers; the shared socket.
  \<^item> \<open>Bencode\<close>, \<open>Dht\<close>: \<^verbatim>\<open>dht/\<close>, \<^verbatim>\<open>node/dht.go\<close>. The coding of messages, the lookup and what it costs.
  \<^item> \<open>Local_Rooms\<close>, \<open>Local_Guarantees\<close>, \<open>Cards\<close>, \<open>Local_Sync\<close>: \<^verbatim>\<open>node/local.go\<close>, \<^verbatim>\<open>node/localsync.go\<close>, \<^verbatim>\<open>node/admins.go\<close>,
    \<^verbatim>\<open>node/cards.go\<close>, \<^verbatim>\<open>cmd/zpt/local.go\<close>. Rooms without a controller: the state file of a node and every operation that changes it, the signed
    cards by which members tell each other their addresses, and how the daemon follows the file. In every run the rooms of a file stay authentic
    and invites admit no more nodes than they were made for; joining works from the request to the running tunnel.
  \<^item> \<open>Updates\<close>: \<^verbatim>\<open>update/update.go\<close>. The order of versions; only a signed release of the version its tag names is installed.

  \<^bold>\<open>Conventions.\<close> Machine integers are words where their width matters; Go's \<^verbatim>\<open>int\<close> is a HOL integer where it cannot overflow, and
  wrapped where it can (\<open>Bencode.wrap64\<close>). A Go map is an association list or a map; where the code ranges over a map in an order that matters, the
  order is an argument. Objects shared through pointers stand in a heap (relay sessions, disco peers). Errors and early
  returns are values, a panic is one of them where the code can reach it. Handlers are atomic, as the code's mutexes make them; what goroutines and timers do is a list of
  events in any order. Clocks, random draws, cryptography, Unicode tables, JSON, HTTP and what the operating
  system answers are parameters; what a theorem needs of them (a signature made with a key is accepted under its
  public half, opening undoes sealing) is a hypothesis, and a witness instantiates it with concrete functions.

  \<^bold>\<open>Fuel.\<close> \<open>Bencode.decode_items\<close> has the bytes left as fuel: every item takes at least one (\<open>consumes_decode\<close>), so it is never used
  up. \<open>Local_Rooms.free_addr\<close> has one turn more than there are members: each turn but the last passes an address in use.
  \<open>Dht.lookup_rounds\<close> counts the twelve rounds of the code itself. All other loops are structural or carry a termination proof.

  \<^bold>\<open>Not modelled.\<close> The HTTP handlers, templates and OpenID login of the controller's panel, the adapter to the gVisor network stack
  (\<^verbatim>\<open>netstack\<close>), tunnels driven through their text interface (\<^verbatim>\<open>room\<close>), the Windows firewall, routing tables, services and
  installers, the TLS transport (\<^verbatim>\<open>vless\<close>), port mapping, the DNS forwarder's packets, and the output of the command line tools: they drive libraries and the
  operating system, and have little state of their own. SQL migrations and backups, the goroutines that poll, and file
  access are outside of the model of their components.
\<close>

end
